(* ===== verification/Pincher_Prelude.thy ===== *)
theory Pincher_Prelude
  imports Main "HOL-Library.Char_ord" "HOL-Library.List_Lexorder" "HOL-Library.AList"
begin

text \<open>
  Shared vocabulary of the development.

  Go strings are byte sequences and are modelled as \<open>string\<close> (lists of 8-bit characters).
  The functions of Go's \<open>strings\<close> and \<open>strconv\<close> packages that the modelled code calls are
  defined here on bytes. Case mapping and space trimming treat the ASCII range only; Go's
  behaviour on multi-byte code points is not modelled.

  A fallible Go function \<open>(T, error)\<close> returns \<open>'e + 't\<close>: \<open>Inl\<close> is the error return, \<open>Inr\<close> the value.
  \<open>bind_res\<close> is the ubiquitous ``if err != nil return''.
\<close>

named_theorems len_simps \<open>length facts of scanners and parsers, for termination proofs\<close>
named_theorems defs \<open>definitions unfolded by the component proofs\<close>

section \<open>Errors as values\<close>

fun bind_res :: "'e + 'a \<Rightarrow> ('a \<Rightarrow> 'e + 'b) \<Rightarrow> 'e + 'b" where
  "bind_res (Inl e) f = Inl e"
| "bind_res (Inr x) f = f x"

lemma bind_res_cong [fundef_cong]:
  "m = m' \<Longrightarrow> (\<And>x. m' = Inr x \<Longrightarrow> f x = f' x) \<Longrightarrow> bind_res m f = bind_res m' f'"
  by (cases m') auto

lemma bind_res_Inr_iff [simp]:
  "bind_res m f = Inr y \<longleftrightarrow> (\<exists>x. m = Inr x \<and> f x = Inr y)"
  by (cases m) auto

lemma bind_res_Inl_iff:
  "bind_res m f = Inl e \<longleftrightarrow> m = Inl e \<or> (\<exists>x. m = Inr x \<and> f x = Inl e)"
  by (cases m) auto

section \<open>Byte strings\<close>

abbreviation bsl :: char where "bsl \<equiv> CHR 0x5C"
abbreviation dq :: char where "dq \<equiv> CHR 0x22"
abbreviation sq :: char where "sq \<equiv> CHR 0x27"
abbreviation nl :: char where "nl \<equiv> CHR 0x0A"
abbreviation tab :: char where "tab \<equiv> CHR 0x09"
abbreviation cr :: char where "cr \<equiv> CHR 0x0D"
abbreviation sp :: char where "sp \<equiv> CHR 0x20"

definition code_of :: "char \<Rightarrow> nat" where
  "code_of c = of_char c"

definition is_digit_char :: "char \<Rightarrow> bool" where
  "is_digit_char c \<longleftrightarrow> 48 \<le> code_of c \<and> code_of c \<le> 57"

definition is_lower_char :: "char \<Rightarrow> bool" where
  "is_lower_char c \<longleftrightarrow> 97 \<le> code_of c \<and> code_of c \<le> 122"

definition is_upper_char :: "char \<Rightarrow> bool" where
  "is_upper_char c \<longleftrightarrow> 65 \<le> code_of c \<and> code_of c \<le> 90"

text \<open>\<open>strings.ToUpper\<close> and \<open>strings.ToLower\<close> on the ASCII range.\<close>

definition upper_char :: "char \<Rightarrow> char" where
  "upper_char c = (if is_lower_char c then char_of (code_of c - 32) else c)"

definition lower_char :: "char \<Rightarrow> char" where
  "lower_char c = (if is_upper_char c then char_of (code_of c + 32) else c)"

definition to_upper :: "string \<Rightarrow> string" where
  "to_upper s = map upper_char s"

definition to_lower :: "string \<Rightarrow> string" where
  "to_lower s = map lower_char s"

lemma code_of_upper_char:
  "code_of (upper_char c) = (if is_lower_char c then code_of c - 32 else code_of c)"
  by (auto simp: upper_char_def code_of_def is_lower_char_def)

lemma upper_char_idem [simp]: "upper_char (upper_char c) = upper_char c"
proof (cases "is_lower_char c")
  case True
  then have "\<not> is_lower_char (upper_char c)"
    using code_of_upper_char [of c] by (auto simp: is_lower_char_def)
  then show ?thesis by (simp add: upper_char_def)
next
  case False
  then show ?thesis by (simp add: upper_char_def)
qed

lemma to_upper_idem [simp]: "to_upper (to_upper s) = to_upper s"
  by (simp add: to_upper_def)

lemma to_upper_length [simp]: "length (to_upper s) = length s"
  by (simp add: to_upper_def)

text \<open>\<open>strings.HasPrefix\<close>, \<open>HasSuffix\<close>, \<open>Contains\<close>, \<open>Index\<close>, \<open>TrimPrefix\<close>, \<open>TrimSuffix\<close>.\<close>

fun has_prefix :: "'a list \<Rightarrow> 'a list \<Rightarrow> bool" where
  "has_prefix s [] = True"
| "has_prefix [] (p # ps) = False"
| "has_prefix (c # cs) (p # ps) = (c = p \<and> has_prefix cs ps)"

definition has_suffix :: "'a list \<Rightarrow> 'a list \<Rightarrow> bool" where
  "has_suffix s p = has_prefix (rev s) (rev p)"

fun str_contains :: "'a list \<Rightarrow> 'a list \<Rightarrow> bool" where
  "str_contains [] p = (p = [])"
| "str_contains (c # cs) p = (has_prefix (c # cs) p \<or> str_contains cs p)"

fun str_index :: "'a list \<Rightarrow> 'a list \<Rightarrow> nat option" where
  "str_index [] p = (if p = [] then Some 0 else None)"
| "str_index (c # cs) p =
     (if has_prefix (c # cs) p then Some 0 else map_option Suc (str_index cs p))"

definition trim_prefix :: "'a list \<Rightarrow> 'a list \<Rightarrow> 'a list" where
  "trim_prefix s p = (if has_prefix s p then drop (length p) s else s)"

definition trim_suffix :: "'a list \<Rightarrow> 'a list \<Rightarrow> 'a list" where
  "trim_suffix s p = (if has_suffix s p then take (length s - length p) s else s)"

lemma has_prefix_iff: "has_prefix s p \<longleftrightarrow> (\<exists>r. s = p @ r)"
  by (induction s p rule: has_prefix.induct) auto

lemma has_prefix_append [simp]: "has_prefix (p @ r) p"
  by (auto simp: has_prefix_iff)

lemma has_suffix_iff: "has_suffix s p \<longleftrightarrow> (\<exists>r. s = r @ p)"
proof
  assume "has_suffix s p"
  then obtain r where "rev s = rev p @ r" by (auto simp: has_suffix_def has_prefix_iff)
  then have "s = rev r @ p" by (metis rev_append rev_rev_ident)
  then show "\<exists>r. s = r @ p" by blast
next
  assume "\<exists>r. s = r @ p"
  then show "has_suffix s p" by (auto simp: has_suffix_def has_prefix_iff)
qed

lemma str_contains_iff: "str_contains s p \<longleftrightarrow> (\<exists>l r. s = l @ p @ r)"
proof (induction s p rule: str_contains.induct)
  case (1 p)
  then show ?case by auto
next
  case (2 c cs p)
  show ?case
  proof
    assume "str_contains (c # cs) p"
    then consider "has_prefix (c # cs) p" | "str_contains cs p" by auto
    then show "\<exists>l r. c # cs = l @ p @ r"
    proof cases
      case 1
      then obtain r where "c # cs = [] @ p @ r" by (auto simp: has_prefix_iff)
      then show ?thesis by blast
    next
      case 2
      then obtain l r where "cs = l @ p @ r" using "2.IH" by auto
      then have "c # cs = (c # l) @ p @ r" by simp
      then show ?thesis by blast
    qed
  next
    assume "\<exists>l r. c # cs = l @ p @ r"
    then obtain l r where e: "c # cs = l @ p @ r" by blast
    show "str_contains (c # cs) p"
    proof (cases l)
      case Nil
      then have "has_prefix (c # cs) p" using e by (simp only: has_prefix_iff) auto
      then show ?thesis by simp
    next
      case (Cons a l')
      then have "cs = l' @ p @ r" using e by simp
      then show ?thesis using "2.IH" by auto
    qed
  qed
qed

lemma trim_prefix_append [simp]: "trim_prefix (p @ s) p = s"
  by (simp add: trim_prefix_def)

lemma trim_suffix_append [simp]: "trim_suffix (s @ p) p = s"
  by (auto simp: trim_suffix_def has_suffix_iff)

lemma str_contains_singleton [simp]: "str_contains s [c] \<longleftrightarrow> c \<in> set s"
  by (induction s) auto

text \<open>\<open>strings.ReplaceAll\<close> with a one-byte pattern, \<open>strings.Join\<close>, \<open>strings.TrimSpace\<close>.\<close>

definition replace_byte :: "char \<Rightarrow> string \<Rightarrow> string \<Rightarrow> string" where
  "replace_byte c r s = concat (map (\<lambda>x. if x = c then r else [x]) s)"

fun str_join :: "string \<Rightarrow> string list \<Rightarrow> string" where
  "str_join sep [] = []"
| "str_join sep [x] = x"
| "str_join sep (x # y # ys) = x @ sep @ str_join sep (y # ys)"

definition is_space_char :: "char \<Rightarrow> bool" where
  "is_space_char c \<longleftrightarrow> c = sp \<or> (9 \<le> code_of c \<and> code_of c \<le> 13)"

definition trim_space :: "string \<Rightarrow> string" where
  "trim_space s = rev (dropWhile is_space_char (rev (dropWhile is_space_char s)))"

text \<open>\<open>strings.Split\<close> on a two-byte separator.\<close>

fun split2 :: "char \<Rightarrow> char \<Rightarrow> string \<Rightarrow> string \<Rightarrow> string list" where
  "split2 a b acc [] = [rev acc]"
| "split2 a b acc [c] = [rev (c # acc)]"
| "split2 a b acc (c # d # cs) =
     (if c = a \<and> d = b then rev acc # split2 a b [] cs else split2 a b (c # acc) (d # cs))"

text \<open>\<open>strings.Split\<close> on one byte, and \<open>strings.LastIndex\<close> of one byte.\<close>

fun split_on :: "char \<Rightarrow> string \<Rightarrow> string \<Rightarrow> string list" where
  "split_on d acc [] = [rev acc]"
| "split_on d acc (c # cs) = (if c = d then rev acc # split_on d [] cs else split_on d (c # acc) cs)"

definition last_index :: "char \<Rightarrow> string \<Rightarrow> nat option" where
  "last_index c s =
     (case dropWhile (\<lambda>x. x \<noteq> c) (rev s) of [] \<Rightarrow> None | _ # before \<Rightarrow> Some (length before))"

lemma split_on_word: "d \<notin> set a \<Longrightarrow> split_on d acc (a @ r) = split_on d (rev a @ acc) r"
  by (induction a arbitrary: acc) auto

lemma split_on_no_sep: "c \<in> set (split_on d acc s) \<Longrightarrow> d \<notin> set acc \<Longrightarrow> d \<notin> set c"
  by (induction d acc s rule: split_on.induct) (auto split: if_splits)

lemma split_on_join: "cs \<noteq> [] \<Longrightarrow> \<forall>c \<in> set cs. d \<notin> set c \<Longrightarrow> split_on d [] (str_join [d] cs) = cs"
proof (induction "[d]" cs rule: str_join.induct)
  case (2 x)
  then show ?case using split_on_word [of d x "[]" "[]"] by simp
next
  case (3 x y ys)
  then show ?case using split_on_word [of d x "[]"] by simp
qed simp

section \<open>Decimal numbers\<close>

definition digit_val :: "char \<Rightarrow> nat" where
  "digit_val c = code_of c - 48"

definition digits_val :: "string \<Rightarrow> nat" where
  "digits_val s = foldl (\<lambda>n c. 10 * n + digit_val c) 0 s"

definition int_max :: int where "int_max = 2 ^ 63 - 1"

text \<open>
  \<open>strconv.Atoi\<close> on a token without sign: the value and whether the error is nil. A syntax error
  gives 0, an out-of-range value the largest 64-bit integer, both with an error.
\<close>

definition atoi :: "string \<Rightarrow> int \<times> bool" where
  "atoi s =
     (if s = [] \<or> \<not> list_all is_digit_char s then (0, False)
      else if int (digits_val s) \<le> int_max then (int (digits_val s), True)
      else (int_max, False))"

lemma atoi_bounds: "0 \<le> fst (atoi s) \<and> fst (atoi s) \<le> int_max"
  by (simp add: atoi_def int_max_def)

fun show_nat_acc :: "nat \<Rightarrow> string \<Rightarrow> string" where
  "show_nat_acc n acc =
     (let acc' = char_of (48 + n mod 10) # acc
      in if n < 10 then acc' else show_nat_acc (n div 10) acc')"

declare show_nat_acc.simps [simp del]

definition show_nat :: "nat \<Rightarrow> string" where
  "show_nat n = show_nat_acc n []"

definition show_int :: "int \<Rightarrow> string" where
  "show_int i = (if i < 0 then CHR ''-'' # show_nat (nat (- i)) else show_nat (nat i))"

lemma show_nat_acc_append: "show_nat_acc n acc = show_nat_acc n [] @ acc"
proof (induction n arbitrary: acc rule: less_induct)
  case (less n)
  show ?case
  proof (cases "n < 10")
    case False
    let ?d = "char_of (48 + n mod 10) :: char"
    have s: "n div 10 < n" using False by simp
    show ?thesis
      using less.IH [OF s, of "?d # acc"] less.IH [OF s, of "[?d]"] False
      by (simp add: show_nat_acc.simps [of n] Let_def)
  qed (simp add: show_nat_acc.simps [of n])
qed

lemma show_nat_small: "n < 10 \<Longrightarrow> show_nat n = [char_of (48 + n)]"
  by (simp add: show_nat_def show_nat_acc.simps [of n])

lemma show_nat_step: "\<not> n < 10 \<Longrightarrow> show_nat n = show_nat (n div 10) @ [char_of (48 + n mod 10)]"
  using show_nat_acc_append [of "n div 10" "[char_of (48 + n mod 10)]"]
  by (simp add: show_nat_def show_nat_acc.simps [of n] Let_def)

lemma digits_val_snoc: "digits_val (s @ [c]) = 10 * digits_val s + digit_val c"
  by (simp add: digits_val_def)

lemma digit_char_of: "k < 10 \<Longrightarrow> digit_val (char_of (48 + k)) = k \<and> is_digit_char (char_of (48 + k))"
  by (simp add: digit_val_def code_of_def is_digit_char_def)

lemma show_nat_digits: "list_all is_digit_char (show_nat n) \<and> show_nat n \<noteq> [] \<and> digits_val (show_nat n) = n"
proof (induction n rule: less_induct)
  case (less n)
  show ?case
  proof (cases "n < 10")
    case True
    then show ?thesis using digit_char_of [of n] by (simp add: show_nat_small digits_val_def)
  next
    case False
    then have "n div 10 < n" by simp
    then show ?thesis using less.IH [of "n div 10"] False digit_char_of [of "n mod 10"]
      by (simp add: show_nat_step [OF False] digits_val_snoc)
  qed
qed

lemma atoi_show_nat: "int n \<le> int_max \<Longrightarrow> atoi (show_nat n) = (int n, True)"
  using show_nat_digits [of n] by (simp add: atoi_def)

text \<open>
  \<open>strconv.Atoi\<close> with an optional sign: None is an error (syntax, or out of the range of 64 bits).
\<close>

definition go_atoi :: "string \<Rightarrow> int option" where
  "go_atoi s =
     (let neg = (s \<noteq> [] \<and> hd s = CHR ''-'');
          ds = (if s \<noteq> [] \<and> (hd s = CHR ''-'' \<or> hd s = CHR ''+'') then tl s else s);
          n = (if neg then - int (digits_val ds) else int (digits_val ds))
      in if ds = [] \<or> \<not> list_all is_digit_char ds \<or> n > int_max \<or> n < - int_max - 1 then None else Some n)"

section \<open>Lists\<close>

text \<open>Collecting the keys of a Go map and sorting them: sorted, without duplicates.\<close>

definition sorted_keys :: "'a::linorder list \<Rightarrow> 'a list" where
  "sorted_keys xs = sort (remdups xs)"

lemma sorted_keys_set [simp]: "set (sorted_keys xs) = set xs"
  by (simp add: sorted_keys_def)

lemma sorted_keys_sorted [simp]: "sorted (sorted_keys xs)"
  by (simp add: sorted_keys_def)

lemma sorted_keys_distinct [simp]: "distinct (sorted_keys xs)"
  by (simp add: sorted_keys_def)

lemma sorted_keys_Nil_iff [simp]: "sorted_keys xs = [] \<longleftrightarrow> xs = []"
  using sorted_keys_set [of xs] by (metis set_empty)

lemma sorted_keys_empty [simp]: "sorted_keys [] = []"
  by (simp add: sorted_keys_def)

lemma sorted_keys_cong: "set xs = set ys \<Longrightarrow> sorted_keys xs = sorted_keys ys"
  by (rule sorted_distinct_set_unique) simp_all

text \<open>\<open>sort.SliceStable\<close> with a comparison: a stable insertion sort.\<close>

fun insert_by :: "('a \<Rightarrow> 'a \<Rightarrow> bool) \<Rightarrow> 'a \<Rightarrow> 'a list \<Rightarrow> 'a list" where
  "insert_by lt x [] = [x]"
| "insert_by lt x (y # ys) = (if lt y x then y # insert_by lt x ys else x # y # ys)"

definition sort_stable :: "('a \<Rightarrow> 'a \<Rightarrow> bool) \<Rightarrow> 'a list \<Rightarrow> 'a list" where
  "sort_stable lt xs = foldr (insert_by lt) xs []"

lemma insert_by_length [simp]: "length (insert_by lt x ys) = Suc (length ys)"
  by (induction ys) auto

lemma sort_stable_length [simp]: "length (sort_stable lt xs) = length xs"
  by (induction xs) (auto simp: sort_stable_def)

lemma insert_by_set [simp]: "set (insert_by lt x ys) = insert x (set ys)"
  by (induction ys) auto

lemma sort_stable_set [simp]: "set (sort_stable lt xs) = set xs"
  by (induction xs) (auto simp: sort_stable_def)

lemma take_drop_While_len [len_simps]: "length (dropWhile P xs) \<le> length xs"
  by (rule length_dropWhile_le)

end
