(* ===== verification/PinchQL_Lexer.thy ===== *)
theory PinchQL_Lexer
  imports Pincher_Prelude
begin

text \<open>
  The pinchQL tokenizer, \<open>internal/cypher/engine.go\<close>: \<open>token\<close>, \<open>unescapeString\<close>, \<open>tokenize\<close>.
  The byte index \<open>i\<close> of the Go loops is represented by the suffix \<open>s[i:]\<close>.
\<close>

section \<open>Tokens\<close>

datatype tkind = KEYWORD | IDENT | NUMBER | STRING | PUNCT | HOPS | EOF

record token =
  tkind :: tkind
  tvalue :: string

abbreviation Tok :: "tkind \<Rightarrow> string \<Rightarrow> token" where
  "Tok k v \<equiv> \<lparr>tkind = k, tvalue = v\<rparr>"

section \<open>Escapes\<close>

fun unescape_bytes :: "string \<Rightarrow> string" where
  "unescape_bytes [] = []"
| "unescape_bytes [c] = [c]"
| "unescape_bytes (c # d # cs) =
     (if c = bsl then
        (if d = bsl \<or> d = dq \<or> d = sq then d # unescape_bytes cs
         else if d = CHR ''n'' then nl # unescape_bytes cs
         else if d = CHR ''t'' then tab # unescape_bytes cs
         else if d = CHR ''r'' then cr # unescape_bytes cs
         else c # unescape_bytes (d # cs))
      else c # unescape_bytes (d # cs))"

definition unescapeString :: "string \<Rightarrow> string" where
  "unescapeString s = (if \<not> str_contains s [bsl] then s else unescape_bytes s)"

lemma unescape_bytes_id: "bsl \<notin> set s \<Longrightarrow> unescape_bytes s = s"
  by (induction s rule: unescape_bytes.induct) auto

lemma unescapeString_eq: "unescapeString s = unescape_bytes s"
  by (simp add: unescapeString_def unescape_bytes_id)

section \<open>Scanners\<close>

text \<open>
  The string-literal scan \<open>for j < len(s) && s[j] != c\<close>. The result is the literal's raw bytes and
  the suffix after the closing quote. A backslash as the very last byte moves \<open>j\<close> to
  \<open>len(s)+1\<close>, and the slice \<open>s[i+1:j]\<close> panics: \<open>None\<close>.
\<close>

fun scan_string :: "char \<Rightarrow> string \<Rightarrow> (string \<times> string) option" where
  "scan_string q [] = Some ([], [])"
| "scan_string q [c] =
     (if c = q then Some ([], []) else if c = bsl then None else Some ([c], []))"
| "scan_string q (c # d # cs) =
     (if c = q then Some ([], d # cs)
      else if c = bsl then map_option (\<lambda>(l, r). (c # d # l, r)) (scan_string q cs)
      else map_option (\<lambda>(l, r). (c # l, r)) (scan_string q (d # cs)))"

definition is_ws :: "char \<Rightarrow> bool" where
  "is_ws c \<longleftrightarrow> c = sp \<or> c = tab \<or> c = nl \<or> c = cr"

definition punct_chars :: string where
  "punct_chars = ''()[]{}:,.*+-><=!~|''"

definition is_hop_char :: "char \<Rightarrow> bool" where
  "is_hop_char c \<longleftrightarrow> is_digit_char c \<or> c = CHR ''.''"

definition is_ident_start :: "char \<Rightarrow> bool" where
  "is_ident_start c \<longleftrightarrow> is_lower_char c \<or> is_upper_char c \<or> c = CHR ''_''"

definition is_ident_char :: "char \<Rightarrow> bool" where
  "is_ident_char c \<longleftrightarrow> is_lower_char c \<or> is_upper_char c \<or> is_digit_char c \<or> c = CHR ''_''"

definition pq_keywords :: "string list" where
  "pq_keywords =
     [''MATCH'', ''WHERE'', ''RETURN'', ''ORDER'', ''BY'', ''LIMIT'', ''DISTINCT'',
      ''AND'', ''OR'', ''NOT'', ''CONTAINS'', ''STARTS'', ''ENDS'', ''WITH'', ''ASC'', ''DESC'',
      ''COUNT'', ''IN'', ''IS'', ''NULL'', ''TRUE'', ''FALSE'']"

definition word_token :: "string \<Rightarrow> token" where
  "word_token w = (if to_upper w \<in> set pq_keywords then Tok KEYWORD (to_upper w) else Tok IDENT w)"

text \<open>An integer, or a decimal when a digit follows a single point (\<open>1..3\<close> stays apart).\<close>

definition scan_number :: "string \<Rightarrow> string \<times> string" where
  "scan_number s =
     (let ds = takeWhile is_digit_char s; r = dropWhile is_digit_char s in
      case r of
        p # d # r' \<Rightarrow>
          if p = CHR ''.'' \<and> is_digit_char d
          then (ds @ p # takeWhile is_digit_char (d # r'), dropWhile is_digit_char (d # r'))
          else (ds, r)
      | _ \<Rightarrow> (ds, r))"

definition is_pair_op :: "char \<Rightarrow> string \<Rightarrow> bool" where
  "is_pair_op c cs \<longleftrightarrow>
     (c = CHR ''<'' \<and> has_prefix cs ''>'') \<or> (c = CHR ''>'' \<and> has_prefix cs ''='')
   \<or> (c = CHR ''<'' \<and> has_prefix cs ''='') \<or> (c = CHR ''='' \<and> has_prefix cs ''~'')"

abbreviation prepend :: "'a \<Rightarrow> 'a list option \<Rightarrow> 'a list option" where
  "prepend t r \<equiv> map_option (Cons t) r"

lemma scan_string_len [len_simps]: "scan_string q cs = Some (l, r) \<Longrightarrow> length r \<le> length cs"
  by (induction q cs arbitrary: l r rule: scan_string.induct)
    (force split: if_splits simp: le_Suc_eq)+

lemma scan_number_rest: "length (snd (scan_number s)) \<le> length (dropWhile is_digit_char s)"
  unfolding scan_number_def Let_def
  by (auto split: list.split intro: le_SucI [OF le_SucI [OF length_dropWhile_le]]
      le_SucI [OF length_dropWhile_le])

lemma scan_number_len [len_simps]:
  "is_digit_char c \<Longrightarrow> length (snd (scan_number (c # cs))) \<le> length cs"
  using scan_number_rest [of "c # cs"] length_dropWhile_le [of is_digit_char cs] by simp

text \<open>
  The main loop. The result \<open>None\<close> is the runtime panic of the string-literal slice; every
  other byte sequence is tokenized, unknown bytes being skipped.
\<close>

function tokenize :: "string \<Rightarrow> token list option" where
  "tokenize [] = Some []"
| "tokenize (c # cs) =
     (if is_ws c then tokenize cs
      else if c = sq \<or> c = dq then
        (case scan_string c cs of
           None \<Rightarrow> None
         | Some (l, r) \<Rightarrow> prepend (Tok STRING (unescapeString l)) (tokenize r))
      else if c \<in> set punct_chars then
        (if c = CHR ''-'' \<and> has_prefix cs ''>'' then prepend (Tok PUNCT ''->'') (tokenize (tl cs))
         else if is_pair_op c cs then prepend (Tok PUNCT [c, hd cs]) (tokenize (tl cs))
         else if c = CHR ''*'' then
           prepend (Tok HOPS (takeWhile is_hop_char cs)) (tokenize (dropWhile is_hop_char cs))
         else prepend (Tok PUNCT [c]) (tokenize cs))
      else if is_digit_char c then
        prepend (Tok NUMBER (fst (scan_number (c # cs)))) (tokenize (snd (scan_number (c # cs))))
      else if is_ident_start c then
        prepend (word_token (c # takeWhile is_ident_char cs)) (tokenize (dropWhile is_ident_char cs))
      else tokenize cs)"
  by pat_completeness auto
termination
  by (relation "measure length")
    (auto simp: less_Suc_eq_le scan_number_len dest: scan_string_len intro: length_dropWhile_le)

declare tokenize.simps(2) [simp del]


section \<open>Character classes\<close>

lemma punct_class:
  "c \<in> set punct_chars \<Longrightarrow>
     \<not> is_ident_start c \<and> \<not> is_digit_char c \<and> \<not> is_ws c \<and> c \<noteq> sq \<and> c \<noteq> dq"
  by (auto simp: punct_chars_def is_ident_start_def is_lower_char_def is_upper_char_def
      is_digit_char_def is_ws_def code_of_def)

lemma ws_class: "is_ws c \<Longrightarrow> \<not> is_ident_char c \<and> \<not> is_digit_char c \<and> \<not> is_hop_char c"
  by (auto simp: is_ws_def is_ident_char_def is_lower_char_def is_upper_char_def
      is_digit_char_def is_hop_char_def code_of_def)

lemma quote_class:
  "c = sq \<or> c = dq \<Longrightarrow> \<not> is_ws c \<and> c \<notin> set punct_chars \<and> \<not> is_digit_char c \<and> \<not> is_ident_start c"
  by (auto simp: is_ws_def punct_chars_def is_ident_start_def is_lower_char_def is_upper_char_def
      is_digit_char_def code_of_def)

lemma digit_not_ident_start: "is_digit_char c \<Longrightarrow> \<not> is_ident_start c"
  by (auto simp: is_digit_char_def is_ident_start_def is_lower_char_def is_upper_char_def code_of_def)

lemma digit_class:
  "is_digit_char c \<Longrightarrow> \<not> is_ws c \<and> c \<noteq> sq \<and> c \<noteq> dq \<and> c \<notin> set punct_chars \<and> \<not> is_ident_start c"
  using punct_class ws_class quote_class digit_not_ident_start by blast

lemma ident_start_class:
  "is_ident_start c \<Longrightarrow> \<not> is_ws c \<and> c \<noteq> sq \<and> c \<noteq> dq \<and> c \<notin> set punct_chars \<and> \<not> is_digit_char c
     \<and> is_ident_char c"
proof -
  assume i: "is_ident_start c"
  then have "is_ident_char c" by (auto simp: is_ident_start_def is_ident_char_def)
  with i show ?thesis using punct_class ws_class quote_class digit_not_ident_start by blast
qed

lemma sp_class [simp]: "is_ws sp" "\<not> is_ident_char sp" "\<not> is_hop_char sp" "\<not> is_digit_char sp"
  "sp \<noteq> CHR ''.''"
  by (auto simp: is_ws_def is_ident_char_def is_lower_char_def is_upper_char_def
      is_digit_char_def is_hop_char_def code_of_def)

lemma takeWhile_stop:
  "list_all P v \<Longrightarrow> \<not> P x \<Longrightarrow> takeWhile P (v @ x # s) = v \<and> dropWhile P (v @ x # s) = x # s"
  by (induction v) auto

section \<open>One step of the loop\<close>

lemma tokenize_ws [simp]: "is_ws c \<Longrightarrow> tokenize (c # cs) = tokenize cs"
  by (simp add: tokenize.simps(2))

lemma tokenize_quote:
  "q = sq \<or> q = dq \<Longrightarrow> scan_string q cs = Some (l, r) \<Longrightarrow>
     tokenize (q # cs) = prepend (Tok STRING (unescape_bytes l)) (tokenize r)"
  using quote_class [of q] by (simp add: tokenize.simps(2) unescapeString_eq)

lemma tokenize_ident:
  assumes "is_ident_start c" "list_all is_ident_char v"
  shows "tokenize (c # v @ sp # s) = prepend (word_token (c # v)) (tokenize s)"
  using ident_start_class [OF assms(1)] takeWhile_stop [OF assms(2), of sp s] assms(1)
  by (simp add: tokenize.simps(2))

lemma scan_number_digits:
  "list_all is_digit_char v \<Longrightarrow> scan_number (v @ sp # s) = (v, sp # s)"
  using takeWhile_stop [of is_digit_char v sp s]
  by (auto simp: scan_number_def Let_def split: list.split)

lemma scan_number_decimal:
  assumes "list_all is_digit_char v" "list_all is_digit_char w" "w \<noteq> []"
  shows "scan_number (v @ CHR ''.'' # w @ sp # s) = (v @ CHR ''.'' # w, sp # s)"
proof -
  obtain d w' where w: "w = d # w'" using assms(3) by (cases w) auto
  have "\<not> is_digit_char (CHR ''.'')" by (simp add: is_digit_char_def code_of_def)
  from takeWhile_stop [OF assms(1) this, of "w @ sp # s"] takeWhile_stop [OF assms(2), of sp s]
  show ?thesis using assms(2) w by (simp add: scan_number_def Let_def)
qed

lemma tokenize_number:
  assumes "is_digit_char c" "scan_number (c # cs) = (v, sp # s)"
  shows "tokenize (c # cs) = prepend (Tok NUMBER v) (tokenize s)"
  using digit_class [OF assms(1)] assms by (simp add: tokenize.simps(2))

lemma tokenize_hops:
  assumes "list_all is_hop_char v"
  shows "tokenize (CHR ''*'' # v @ sp # s) = prepend (Tok HOPS v) (tokenize s)"
  using takeWhile_stop [OF assms, of sp s]
  by (simp add: tokenize.simps(2) punct_chars_def is_ws_def is_pair_op_def)

section \<open>Printing tokens back\<close>

text \<open>
  Well-formed tokens, and a printer for them: what \<open>tokenize\<close> can emit, and a spelling of each such
  token. The printer is the specification side of the round trip, it is not in the source.
\<close>

definition punct_tokens :: "string list" where
  "punct_tokens =
     [''('', '')'', ''['', '']'', ''{'', ''}'', '':'', '','', ''.'', ''+'', ''-'', ''>'', ''<'', ''='',
      ''!'', ''~'', ''|'', ''->'', ''<>'', ''>='', ''<='', ''=~'']"

text \<open>The spelling of a number: digits and points, a digit at both ends, and no second point.\<close>

definition wf_number :: "string \<Rightarrow> bool" where
  "wf_number v \<longleftrightarrow> v \<noteq> [] \<and> is_digit_char (hd v) \<and> is_digit_char (last v) \<and>
     list_all (\<lambda>c. is_digit_char c \<or> c = CHR ''.'') v \<and> length (filter (\<lambda>c. c = CHR ''.'') v) \<le> 1"

lemma digits_no_point: "list_all is_digit_char v \<Longrightarrow> filter (\<lambda>c. c = CHR ''.'') v = []"
  by (auto simp: filter_empty_conv list_all_iff is_digit_char_def code_of_def)

lemma no_point_digits:
  "list_all (\<lambda>c. is_digit_char c \<or> c = CHR ''.'') v \<Longrightarrow> filter (\<lambda>c. c = CHR ''.'') v = [] \<Longrightarrow> list_all is_digit_char v"
  by (auto simp: filter_empty_conv list_all_iff)

lemma wf_number_digits: "list_all is_digit_char v \<Longrightarrow> v \<noteq> [] \<Longrightarrow> wf_number v"
  by (auto simp: wf_number_def digits_no_point list_all_iff)

lemma wf_number_decimal:
  assumes "list_all is_digit_char v" "v \<noteq> []" "list_all is_digit_char w" "w \<noteq> []"
  shows "wf_number (v @ CHR ''.'' # w)"
  using assms by (auto simp: wf_number_def digits_no_point list_all_iff)

lemma wf_number_cases:
  assumes "wf_number v"
  obtains (digits) "list_all is_digit_char v" "v \<noteq> []"
    | (decimal) d f where "v = d @ CHR ''.'' # f" "list_all is_digit_char d" "d \<noteq> []" "list_all is_digit_char f" "f \<noteq> []"
proof (cases "CHR ''.'' \<in> set v")
  case False
  then show ?thesis using assms no_point_digits [of v]
    by (intro digits) (auto simp: wf_number_def filter_empty_conv)
next
  case True
  then obtain d f where v: "v = d @ CHR ''.'' # f" by (meson split_list)
  have p: "\<not> is_digit_char (CHR ''.'')" by (simp add: is_digit_char_def code_of_def)
  have "d \<noteq> []" "f \<noteq> []" using assms p by (auto simp: wf_number_def v)
  moreover have "filter (\<lambda>c. c = CHR ''.'') d = []" "filter (\<lambda>c. c = CHR ''.'') f = []"
    using assms by (auto simp: wf_number_def v)
  ultimately show ?thesis using assms no_point_digits [of d] no_point_digits [of f]
    by (intro decimal [OF v]) (auto simp: wf_number_def v)
qed

lemma scan_number_spelling: "wf_number v \<Longrightarrow> scan_number (v @ sp # s) = (v, sp # s)"
  by (erule wf_number_cases) (simp_all add: scan_number_digits scan_number_decimal)

fun wf_tok :: "tkind \<Rightarrow> string \<Rightarrow> bool" where
  "wf_tok KEYWORD v \<longleftrightarrow> v \<in> set pq_keywords"
| "wf_tok IDENT v \<longleftrightarrow> v \<noteq> [] \<and> is_ident_start (hd v) \<and> list_all is_ident_char (tl v)
                     \<and> to_upper v \<notin> set pq_keywords"
| "wf_tok NUMBER v \<longleftrightarrow> wf_number v"
| "wf_tok STRING v \<longleftrightarrow> True"
| "wf_tok PUNCT v \<longleftrightarrow> v \<in> set punct_tokens"
| "wf_tok HOPS v \<longleftrightarrow> list_all is_hop_char v"
| "wf_tok EOF v \<longleftrightarrow> False"

definition wf_token :: "token \<Rightarrow> bool" where
  "wf_token t = wf_tok (tkind t) (tvalue t)"

definition escape_byte :: "char \<Rightarrow> string" where
  "escape_byte c = (if c = bsl \<or> c = dq then [bsl, c] else [c])"

definition escape :: "string \<Rightarrow> string" where
  "escape v = concat (map escape_byte v)"

fun render_tok :: "tkind \<Rightarrow> string \<Rightarrow> string" where
  "render_tok STRING v = dq # escape v @ [dq]"
| "render_tok HOPS v = CHR ''*'' # v"
| "render_tok _ v = v"

fun render :: "token list \<Rightarrow> string" where
  "render [] = []"
| "render (t # ts) = render_tok (tkind t) (tvalue t) @ sp # render ts"

lemma unescape_bytes_cons: "c \<noteq> bsl \<Longrightarrow> unescape_bytes (c # s) = c # unescape_bytes s"
  by (cases s) auto

lemma unescape_escape: "unescape_bytes (escape v) = v"
  by (induction v) (auto simp: escape_def escape_byte_def unescape_bytes_cons)

lemma scan_string_cons:
  "c \<noteq> q \<Longrightarrow> c \<noteq> bsl \<Longrightarrow> cs \<noteq> [] \<Longrightarrow>
     scan_string q (c # cs) = map_option (\<lambda>(l, r). (c # l, r)) (scan_string q cs)"
  by (cases cs) auto

lemma scan_string_escape: "scan_string dq (escape v @ dq # r) = Some (escape v, r)"
proof (induction v)
  case Nil
  then show ?case by (cases r) (auto simp: escape_def)
next
  case (Cons c v)
  have e: "escape (c # v) = escape_byte c @ escape v" by (simp add: escape_def)
  show ?case
    using Cons.IH by (simp add: e escape_byte_def scan_string_cons)
qed

lemma keyword_spelling:
  "v \<in> set pq_keywords \<Longrightarrow>
     v \<noteq> [] \<and> is_ident_start (hd v) \<and> list_all is_ident_char (tl v) \<and> to_upper v = v"
  by (auto simp: pq_keywords_def is_ident_start_def is_ident_char_def is_lower_char_def
      is_upper_char_def is_digit_char_def code_of_def to_upper_def upper_char_def)

lemma tokenize_punct:
  "v \<in> set punct_tokens \<Longrightarrow> tokenize (v @ sp # s) = prepend (Tok PUNCT v) (tokenize s)"
  by (auto simp: punct_tokens_def tokenize.simps(2) punct_chars_def is_ws_def is_pair_op_def)

lemma tokenize_render_token:
  assumes "wf_tok k v"
  shows "tokenize (render_tok k v @ sp # s) = prepend (Tok k v) (tokenize s)"
proof (cases k)
  case KEYWORD
  obtain c w where v: "v = c # w" using assms KEYWORD keyword_spelling by (cases v) auto
  show ?thesis using tokenize_ident [of c w s] keyword_spelling [of v] assms KEYWORD v
    by (simp add: word_token_def)
next
  case IDENT
  obtain c w where v: "v = c # w" using assms IDENT by (cases v) auto
  show ?thesis using tokenize_ident [of c w s] assms IDENT v by (simp add: word_token_def)
next
  case NUMBER
  obtain c w where v: "v = c # w" using assms NUMBER by (cases v) (auto simp: wf_number_def)
  show ?thesis using tokenize_number [of c "w @ sp # s" v s] scan_number_spelling [of v s] assms NUMBER v
    by (simp add: wf_number_def)
next
  case STRING
  show ?thesis
    using tokenize_quote [OF disjI2 [OF refl] scan_string_escape, of v "sp # s"] STRING
    by (simp add: unescape_escape)
next
  case PUNCT
  then show ?thesis using assms tokenize_punct by simp
next
  case HOPS
  then show ?thesis using assms tokenize_hops by simp
next
  case EOF
  then show ?thesis using assms by simp
qed


section \<open>Everything the tokenizer emits is well formed\<close>

lemma scan_number_wf:
  assumes "is_digit_char (hd s)" "s \<noteq> []"
  shows "wf_number (fst (scan_number s))"
proof -
  let ?d = "takeWhile is_digit_char s"
  have d: "list_all is_digit_char ?d" by (auto simp: list_all_iff dest: set_takeWhileD)
  have ne: "?d \<noteq> []" "hd ?d = hd s" using assms by (cases s; simp)+
  show ?thesis
  proof (cases "\<exists>e r. dropWhile is_digit_char s = CHR ''.'' # e # r \<and> is_digit_char e")
    case True
    then obtain e r where r: "dropWhile is_digit_char s = CHR ''.'' # e # r" "is_digit_char e" by blast
    let ?f = "takeWhile is_digit_char (e # r)"
    have f: "list_all is_digit_char ?f" by (auto simp: list_all_iff dest: set_takeWhileD)
    have fne: "?f \<noteq> []" using r(2) by simp
    have v: "fst (scan_number s) = ?d @ CHR ''.'' # ?f" using r by (simp add: scan_number_def)
    show ?thesis unfolding v by (rule wf_number_decimal [OF d ne(1) f fne])
  next
    case False
    then have v: "fst (scan_number s) = ?d"
      by (auto simp: scan_number_def Let_def split: list.split)
    show ?thesis unfolding v by (rule wf_number_digits [OF d ne(1)])
  qed
qed

lemma word_token_wf: "is_ident_start c \<Longrightarrow> list_all is_ident_char v \<Longrightarrow> wf_token (word_token (c # v))"
  by (simp add: word_token_def wf_token_def)

lemma pair_op_wf: "is_pair_op c cs \<Longrightarrow> [c, hd cs] \<in> set punct_tokens"
  by (cases cs) (auto simp: is_pair_op_def punct_tokens_def)

lemma single_punct_wf: "c \<in> set punct_chars \<Longrightarrow> c \<noteq> CHR ''*'' \<Longrightarrow> [c] \<in> set punct_tokens"
  by (auto simp: punct_chars_def punct_tokens_def)

lemma all_takeWhile [simp]: "list_all P (takeWhile P xs)"
  by (auto simp: list_all_iff dest: set_takeWhileD)

lemmas token_wf_simps = wf_token_def word_token_wf [unfolded wf_token_def] scan_number_wf
  pair_op_wf single_punct_wf

lemma tokenize_wf_aux: "tokenize s = Some ts \<Longrightarrow> list_all wf_token ts"
proof (induction s arbitrary: ts rule: tokenize.induct)
  case 1
  then show ?case by simp
next
  case (2 c cs)
  have pl: "''->'' \<in> set punct_tokens" by (simp add: punct_tokens_def)
  consider "is_ws c" | "\<not> is_ws c" "c = sq \<or> c = dq" | "\<not> is_ws c" "\<not> (c = sq \<or> c = dq)" "c \<in> set punct_chars"
    | "\<not> is_ws c" "\<not> (c = sq \<or> c = dq)" "c \<notin> set punct_chars" "is_digit_char c"
    | "\<not> is_ws c" "\<not> (c = sq \<or> c = dq)" "c \<notin> set punct_chars" "\<not> is_digit_char c" by blast
  then show ?case
  proof cases
    case 1
    then show ?thesis using "2.IH"(1) "2.prems" by simp
  next
    case 2
    then show ?thesis using "2.prems" "2.IH"(2)
      by (auto simp: tokenize.simps(2) wf_token_def split: option.splits)
  next
    case 3
    then show ?thesis using "2.prems" "2.IH"(3-6) pl
      by (auto simp: tokenize.simps(2) token_wf_simps split: if_splits)
  next
    case 4
    then show ?thesis using "2.prems" "2.IH"(7)
      by (auto simp: tokenize.simps(2) token_wf_simps)
  next
    case 5
    then show ?thesis using "2.prems" "2.IH"(8,9)
      by (auto simp: tokenize.simps(2) token_wf_simps split: if_splits)
  qed
qed

text \<open>
  C39: Every token the tokenizer emits is well formed: a KEYWORD is one of the 22 upper-cased
  keywords, an IDENT is a letter or underscore followed by letters, digits and underscores and spells no
  keyword in any letter case, a NUMBER holds digits and at most one point, which is neither its first nor its
  last character, a PUNCT is one of the 22 operators and delimiters, a HOPS holds digits and points only.
  Nothing is said of a STRING, whose value can be any text, and no end marker is among the tokens.
\<close>
theorem tokenize_wf: "pred_option (list_all wf_token) (tokenize s)"
  by (cases "tokenize s") (auto dest: tokenize_wf_aux)

lemma tokenize_render_aux: "list_all wf_token ts \<Longrightarrow> tokenize (render ts) = Some ts"
  by (induction ts) (auto simp: wf_token_def tokenize_render_token)

text \<open>
  Printing and tokenizing round-trip: every list of well-formed tokens, string literals with
  arbitrary bytes included, is read back exactly from its printed form.
\<close>
theorem tokenize_render:
  assumes "list_all wf_token ts"
  shows "tokenize (render ts) = Some ts"
  using assms by (rule tokenize_render_aux)

lemma tokenize_render_witness:
  "tokenize (render [Tok KEYWORD ''MATCH'', Tok PUNCT ''('', Tok STRING [dq, bsl, CHR ''x'']]) =
     Some [Tok KEYWORD ''MATCH'', Tok PUNCT ''('', Tok STRING [dq, bsl, CHR ''x'']]"
  by (rule tokenize_render) (simp add: wf_token_def pq_keywords_def punct_tokens_def)

section \<open>The slice panic of an unterminated literal\<close>

lemma scan_string_suffix: "scan_string q cs = Some (l, r) \<Longrightarrow> \<exists>p. cs = p @ r"
  by (induction q cs arbitrary: l r rule: scan_string.induct)
    (force split: if_splits intro: exI [where x = "_ # _"])+

lemma scan_string_None: "scan_string q cs = None \<Longrightarrow> cs \<noteq> [] \<and> last cs = bsl"
  by (induction q cs rule: scan_string.induct) (auto split: if_splits)

lemma last_suffix: "s = p @ r \<Longrightarrow> r \<noteq> [] \<Longrightarrow> last s = last r"
  by simp

lemma dropWhile_suffix: "\<exists>p. s = p @ dropWhile P s"
  by (metis takeWhile_dropWhile_id)


lemma scan_number_suffix: "\<exists>p. s = p @ snd (scan_number s)"
proof -
  have d: "s = takeWhile is_digit_char s @ dropWhile is_digit_char s" by simp
  show ?thesis
  proof (cases "\<exists>e r. dropWhile is_digit_char s = CHR ''.'' # e # r \<and> is_digit_char e")
    case True
    then obtain e r where r: "dropWhile is_digit_char s = CHR ''.'' # e # r" "is_digit_char e" by blast
    obtain p where "e # r = p @ dropWhile is_digit_char (e # r)" using dropWhile_suffix by blast
    then have "s = (takeWhile is_digit_char s @ CHR ''.'' # p) @ dropWhile is_digit_char (e # r)"
      using d r by (metis append.assoc append_Cons)
    moreover have "snd (scan_number s) = dropWhile is_digit_char (e # r)"
      using r by (simp add: scan_number_def)
    ultimately show ?thesis by metis
  next
    case False
    then have "snd (scan_number s) = dropWhile is_digit_char s"
      by (auto simp: scan_number_def Let_def split: list.split)
    then show ?thesis using d by metis
  qed
qed

definition ends_bsl :: "string \<Rightarrow> bool" where
  "ends_bsl s \<longleftrightarrow> s \<noteq> [] \<and> last s = bsl"

lemma ends_bsl_suffix: "ends_bsl r \<Longrightarrow> s = p @ r \<Longrightarrow> ends_bsl s"
  by (simp add: ends_bsl_def)

lemma ends_bsl_cons: "ends_bsl cs \<Longrightarrow> ends_bsl (c # cs)"
  by (simp add: ends_bsl_def)

lemma ends_bsl_tl: "ends_bsl (tl cs) \<Longrightarrow> ends_bsl (c # cs)"
  by (cases cs) (auto simp: ends_bsl_def)

lemma ends_bsl_dropWhile: "ends_bsl (dropWhile P cs) \<Longrightarrow> ends_bsl (c # cs)"
  using dropWhile_suffix [of cs P] ends_bsl_suffix ends_bsl_cons by metis

lemma ends_bsl_number: "ends_bsl (snd (scan_number s)) \<Longrightarrow> ends_bsl s"
  using scan_number_suffix [of s] ends_bsl_suffix by metis

lemma ends_bsl_string: "scan_string q cs = Some (l, r) \<Longrightarrow> ends_bsl r \<Longrightarrow> ends_bsl (c # cs)"
  using scan_string_suffix ends_bsl_suffix ends_bsl_cons by metis

lemmas ends_bsl_intros = ends_bsl_cons ends_bsl_tl ends_bsl_dropWhile ends_bsl_number

lemma tokenize_None_aux: "tokenize s = None \<Longrightarrow> ends_bsl s"
proof (induction s rule: tokenize.induct)
  case 1
  then show ?case by simp
next
  case (2 c cs)
  show ?case
  proof (cases "c = sq \<or> c = dq")
    case True
    then show ?thesis
    proof (cases "scan_string c cs")
      case None
      then show ?thesis using scan_string_None [of c cs] by (simp add: ends_bsl_def)
    next
      case (Some lr)
      obtain l r where lr: "lr = (l, r)" by (cases lr)
      have "tokenize r = None"
        using "2.prems" True Some lr tokenize_quote [of c cs l r] by auto
      then have "ends_bsl r"
        using "2.IH"(2) True quote_class [of c] Some lr by blast
      then show ?thesis using ends_bsl_string Some lr by blast
    qed
  next
    case False
    then show ?thesis using "2.prems" "2.IH"(1,3-9)
      by (auto simp: tokenize.simps(2) split: if_splits intro: ends_bsl_intros)
  qed
qed

text \<open>
  The tokenizer returns (no runtime panic) on every query whose last byte is not a backslash.
\<close>
theorem tokenize_returns:
  assumes "s = [] \<or> last s \<noteq> bsl"
  shows "\<exists>ts. tokenize s = Some ts"
  using assms tokenize_None_aux [of s] by (cases "tokenize s") (auto simp: ends_bsl_def)

lemma tokenize_returns_witness: "\<exists>ts. tokenize ''MATCH (n)'' = Some ts"
  by (rule tokenize_returns) simp

lemma scan_string_dangling: "scan_string dq (escape v @ [bsl]) = None"
proof (induction v)
  case Nil
  then show ?case by (simp add: escape_def)
next
  case (Cons c v)
  have e: "escape (c # v) = escape_byte c @ escape v" by (simp add: escape_def)
  show ?case using Cons.IH by (simp add: e escape_byte_def scan_string_cons)
qed

lemma tokenize_append:
  "list_all wf_token ts \<Longrightarrow> tokenize (render ts @ s) = map_option (\<lambda>us. ts @ us) (tokenize s)"
proof (induction ts)
  case Nil
  then show ?case by (simp add: option.map_id0 [unfolded id_def])
next
  case (Cons t ts)
  then show ?case
    using tokenize_render_token [of "tkind t" "tvalue t" "render ts @ s"]
    by (cases t) (simp add: wf_token_def option.map_comp comp_def)
qed

text \<open>
  The tokenizer panics on every query that ends inside a double-quoted literal with a lone
  backslash as its last byte: the escape skip moves the end index past the slice bound. Whatever
  well-formed tokens come first, no token list is returned.
\<close>
theorem tokenize_panics:
  assumes "list_all wf_token ts"
  shows "tokenize (render ts @ dq # escape v @ [bsl]) = None"
proof -
  have "tokenize (dq # escape v @ [bsl]) = None"
    using quote_class [of dq] scan_string_dangling [of v] by (simp add: tokenize.simps(2))
  then show ?thesis using tokenize_append [OF assms] by simp
qed

lemma tokenize_panics_witness:
  "tokenize (render [Tok KEYWORD ''MATCH''] @ dq # escape ''ab'' @ [bsl]) = None"
  by (rule tokenize_panics) (simp add: wf_token_def pq_keywords_def)

end
