(* ===== verification/PinchQL_Ast.thy ===== *)
theory PinchQL_Ast
  imports PinchQL_Lexer
begin

text \<open>
  The query AST of \<open>internal/cypher/engine.go\<close> (\<open>queryAST\<close>, \<open>whereExpr\<close> and its three shapes,
  \<open>pattern\<close>, \<open>condition\<close>, \<open>returnVar\<close>) and the tree utilities of the WHERE clause
  (\<open>flattenWhere\<close>, \<open>pushdownAllowed\<close>, \<open>andChainFromConds\<close>). The Go strings that range over a closed set
  (operators, connectors, aggregate names) are datatypes; the empty string is \<open>None\<close> or \<open>OpNone\<close>.
\<close>

section \<open>Data\<close>

datatype cmp_op =
  OpNone | OpEq | OpNe | OpGt | OpLt | OpGe | OpLe | OpRe
| OpContains | OpStarts | OpEnds | OpIsNull | OpIsNotNull | OpIn

datatype boolop = And_op | Or_op

datatype aggfn = FnCount | FnAvg | FnMin | FnMax | FnSum

record condition =
  c_variable :: string
  c_property :: string
  c_op :: cmp_op
  c_value :: string
  c_inValues :: "string list"
  c_negated :: bool
  c_connector :: "boolop option"
  c_rhsVariable :: string
  c_rhsProperty :: string
  c_valueKind :: "tkind option"

definition empty_condition :: condition where
  "empty_condition =
     \<lparr>c_variable = '''', c_property = '''', c_op = OpNone, c_value = '''', c_inValues = [],
      c_negated = False, c_connector = None, c_rhsVariable = '''', c_rhsProperty = '''',
      c_valueKind = None\<rparr>"

datatype whereExpr = CondE condition | BinE boolop whereExpr whereExpr | NotE whereExpr

record pattern =
  p_fromVar :: string
  p_fromKind :: string
  p_fromProps :: "(string \<times> string) list"
  p_edgeVar :: string
  p_edgeKinds :: "string list"
  p_minHops :: int
  p_maxHops :: int
  p_invertedHops :: bool
  p_minHopsClamped :: bool
  p_toVar :: string
  p_toKind :: string
  p_toProps :: "(string \<times> string) list"
  p_directed :: bool

record returnVar =
  r_variable :: string
  r_property :: string
  r_alias :: string
  r_fn :: "aggfn option"
  r_distinct :: bool

record queryAST =
  q_patterns :: "pattern list"
  q_conditions :: "condition list"
  q_where :: "whereExpr option"
  q_returnVars :: "returnVar list"
  q_orderBy :: string
  q_orderDir :: string
  q_limit :: int
  q_distinct :: bool

section \<open>Flattening and the pushdown gate\<close>

fun collectFlatLeaves ::
    "whereExpr \<Rightarrow> condition list \<Rightarrow> boolop list \<Rightarrow> (condition list \<times> boolop list) option" where
  "collectFlatLeaves (CondE c) leaves conns = Some (leaves @ [c], conns)"
| "collectFlatLeaves (BinE op l r) leaves conns =
     (case collectFlatLeaves l leaves conns of
        None \<Rightarrow> None
      | Some (leaves', conns') \<Rightarrow>
          (case r of CondE rc \<Rightarrow> Some (leaves' @ [rc], conns' @ [op]) | _ \<Rightarrow> None))"
| "collectFlatLeaves (NotE w) leaves conns = None"

text \<open>\<open>None\<close> is the nil slice, returned when the tree is not a left-leaning chain of leaves.\<close>

definition flattenWhere :: "whereExpr \<Rightarrow> condition list option" where
  "flattenWhere w =
     (case collectFlatLeaves w [] [] of
        None \<Rightarrow> None
      | Some (leaves, conns) \<Rightarrow>
          Some (map2 (\<lambda>l k. l\<lparr>c_connector := k\<rparr>) leaves (None # map Some conns)))"

fun whereIsAndChain :: "whereExpr \<Rightarrow> bool" where
  "whereIsAndChain (CondE c) = True"
| "whereIsAndChain (BinE op l r) =
     (op = And_op \<and> (case r of CondE c \<Rightarrow> whereIsAndChain l | _ \<Rightarrow> False))"
| "whereIsAndChain (NotE w) = False"

definition whereIsAndChainOfLeaves :: "whereExpr option \<Rightarrow> bool" where
  "whereIsAndChainOfLeaves w = (case w of None \<Rightarrow> True | Some e \<Rightarrow> whereIsAndChain e)"

definition pushdownAllowed :: "queryAST \<Rightarrow> bool" where
  "pushdownAllowed q = whereIsAndChainOfLeaves (q_where q)"

definition andChainFromConds :: "condition list \<Rightarrow> whereExpr option" where
  "andChainFromConds conds =
     (case conds of
        [] \<Rightarrow> None
      | c # cs \<Rightarrow> Some (foldl (\<lambda>w d. BinE And_op w (CondE d)) (CondE c) cs))"

text \<open>The recursive \<open>walk\<close> that every warning collector and planner declares: the leaves in source order.\<close>

fun leaves :: "whereExpr \<Rightarrow> condition list" where
  "leaves (CondE c) = [c]"
| "leaves (BinE op l r) = leaves l @ leaves r"
| "leaves (NotE w) = leaves w"

section \<open>Evaluation over a leaf predicate\<close>

text \<open>
  The boolean structure of \<open>condExpr.eval\<close>, \<open>binaryExpr.eval\<close>, \<open>notExpr.eval\<close> and of
  \<open>matchesConditions\<close>, over the meaning \<open>leaf\<close> of an un-negated condition. The code's evaluators, which
  also thread a regular-expression cache, are shown equal to these in \<open>PinchQL_Eval\<close>.
\<close>

definition signed :: "(condition \<Rightarrow> bool) \<Rightarrow> condition \<Rightarrow> bool" where
  "signed leaf c = (if c_negated c then \<not> leaf c else leaf c)"

fun eval_tree :: "(condition \<Rightarrow> bool) \<Rightarrow> whereExpr \<Rightarrow> bool" where
  "eval_tree leaf (CondE c) = signed leaf c"
| "eval_tree leaf (BinE op l r) =
     (case op of Or_op \<Rightarrow> eval_tree leaf l \<or> eval_tree leaf r
               | And_op \<Rightarrow> eval_tree leaf l \<and> eval_tree leaf r)"
| "eval_tree leaf (NotE w) = (\<not> eval_tree leaf w)"

definition eval_opt :: "(condition \<Rightarrow> bool) \<Rightarrow> whereExpr option \<Rightarrow> bool" where
  "eval_opt leaf w = (case w of None \<Rightarrow> True | Some e \<Rightarrow> eval_tree leaf e)"

definition flat_step :: "(condition \<Rightarrow> bool) \<Rightarrow> bool \<Rightarrow> condition \<Rightarrow> bool" where
  "flat_step leaf result c =
     (case c_connector c of Some Or_op \<Rightarrow> result \<or> signed leaf c | _ \<Rightarrow> result \<and> signed leaf c)"

definition eval_flat :: "(condition \<Rightarrow> bool) \<Rightarrow> condition list \<Rightarrow> bool" where
  "eval_flat leaf conds =
     (case conds of [] \<Rightarrow> True | c # cs \<Rightarrow> foldl (flat_step leaf) (signed leaf c) cs)"

section \<open>Structure lemmas\<close>

lemma collectFlatLeaves_length:
  "collectFlatLeaves w [] [] = Some (ls, cs) \<Longrightarrow> length ls = Suc (length cs)"
  by (induction w arbitrary: ls cs) (auto split: option.splits whereExpr.splits)

text \<open>The flat form of a chain, one leaf at a time.\<close>

lemma flattenWhere_leaf [simp]: "flattenWhere (CondE c) = Some [c\<lparr>c_connector := None\<rparr>]"
  by (simp add: flattenWhere_def)

lemma flattenWhere_Not [simp]: "flattenWhere (NotE w) = None"
  by (simp add: flattenWhere_def)

lemma flattenWhere_bin [simp]:
  "flattenWhere (BinE op l (CondE c)) =
     map_option (\<lambda>cs. cs @ [c\<lparr>c_connector := Some op\<rparr>]) (flattenWhere l)"
proof (cases "collectFlatLeaves l [] []")
  case None
  then show ?thesis by (simp add: flattenWhere_def)
next
  case (Some lc)
  obtain ls ks where lc: "lc = (ls, ks)" by (cases lc)
  then have len: "length ls = length (None # map Some ks)"
    using Some collectFlatLeaves_length [of l ls ks] by simp
  have "map2 f (ls @ [c]) ((None # map Some ks) @ [Some op]) = map2 f ls (None # map Some ks) @ [f c (Some op)]"
    for f :: "condition \<Rightarrow> boolop option \<Rightarrow> condition"
    using zip_append [OF len, of "[c]" "[Some op]"] by simp
  then show ?thesis using Some lc by (simp add: flattenWhere_def)
qed

lemma flattenWhere_bin_no_leaf:
  "(\<And>c. r \<noteq> CondE c) \<Longrightarrow> flattenWhere (BinE op l r) = None"
  by (cases r) (auto simp: flattenWhere_def split: option.splits)

lemma flattenWhere_nonempty: "flattenWhere w = Some cs \<Longrightarrow> cs \<noteq> []"
  by (auto simp: flattenWhere_def dest!: collectFlatLeaves_length split: option.splits)

lemma flattenWhere_cases:
  assumes "flattenWhere w = Some cs"
  obtains c where "w = CondE c" "cs = [c\<lparr>c_connector := None\<rparr>]"
  | op l c cs' where "w = BinE op l (CondE c)" "flattenWhere l = Some cs'"
      "cs = cs' @ [c\<lparr>c_connector := Some op\<rparr>]"
proof (cases w)
  case (CondE c)
  then show ?thesis using assms that(1) by simp
next
  case (BinE op l r)
  show ?thesis
  proof (cases r)
    case (CondE c)
    then show ?thesis using assms BinE that(2) by auto
  qed (use assms BinE flattenWhere_bin_no_leaf in auto)
next
  case (NotE w)
  then show ?thesis using assms by simp
qed

lemma andChain_flattens: "whereIsAndChain w \<Longrightarrow> \<exists>cs. flattenWhere w = Some cs"
  by (induction w) (auto split: whereExpr.splits)

section \<open>The leaf contract and what follows from it\<close>

text \<open>
  What the tree utilities need of a leaf evaluator: it looks at neither the connector stamp of a
  condition. Every client that evaluates conditions one at a time relies on this.
\<close>

locale leaf_semantics =
  fixes leaf :: "condition \<Rightarrow> bool"
  assumes leaf_connector: "leaf (c\<lparr>c_connector := k\<rparr>) = leaf c"
begin

lemma signed_connector [simp]: "signed leaf (c\<lparr>c_connector := k\<rparr>) = signed leaf c"
  by (simp add: signed_def leaf_connector)

lemma eval_flat_snoc:
  "cs \<noteq> [] \<Longrightarrow> eval_flat leaf (cs @ [c]) = flat_step leaf (eval_flat leaf cs) c"
  by (cases cs) (auto simp: eval_flat_def)

lemma flatten_sound: "flattenWhere w = Some cs \<Longrightarrow> eval_flat leaf cs = eval_tree leaf w"
proof (induction w arbitrary: cs)
  case (CondE c)
  then show ?case by (auto simp: eval_flat_def)
next
  case (BinE op l r)
  from BinE.prems show ?case
  proof (cases rule: flattenWhere_cases)
    case (2 op' l' c cs')
    then have "eval_flat leaf cs' = eval_tree leaf l" using BinE.IH(1) by simp
    then show ?thesis
      using 2 flattenWhere_nonempty [of l cs']
      by (auto simp: eval_flat_snoc flat_step_def split: boolop.splits)
  qed simp
next
  case (NotE w)
  then show ?case by simp
qed

lemma and_chain_conj:
  "whereIsAndChain w \<Longrightarrow> flattenWhere w = Some cs \<Longrightarrow>
     eval_tree leaf w \<longleftrightarrow> (\<forall>c \<in> set cs. signed leaf c)"
proof (induction w arbitrary: cs)
  case (CondE c)
  then show ?case by auto
next
  case (BinE op l r)
  from BinE.prems(2) show ?case
  proof (cases rule: flattenWhere_cases)
    case (2 op' l' c cs')
    then show ?thesis using BinE.IH(1) [of cs'] BinE.prems(1) by auto
  qed simp
next
  case (NotE w)
  then show ?case by simp
qed

lemma foldl_and_tree:
  "eval_tree leaf (foldl (\<lambda>w d. BinE And_op w (CondE d)) w cs) \<longleftrightarrow>
     eval_tree leaf w \<and> (\<forall>c \<in> set cs. signed leaf c)"
  by (induction cs arbitrary: w) auto

lemma andChain_eval:
  "eval_opt leaf (andChainFromConds cs) \<longleftrightarrow> (\<forall>c \<in> set cs. signed leaf c)"
  by (auto simp: andChainFromConds_def eval_opt_def foldl_and_tree split: list.splits)

text \<open>
  Splitting an AND chain into a part decided elsewhere and the conditions left over: the left-over
  chain and the decided part together are the whole WHERE clause.
\<close>

lemma and_chain_split:
  assumes "whereIsAndChain w" "flattenWhere w = Some cs" "set cs = set pushed \<union> set rest"
  shows "eval_tree leaf w \<longleftrightarrow>
     (\<forall>c \<in> set pushed. signed leaf c) \<and> eval_opt leaf (andChainFromConds rest)"
  using and_chain_conj [OF assms(1,2)] assms(3) by (auto simp: andChain_eval)

end

end
