(* ===== verification/PinchQL_Props.thy ===== *)
theory PinchQL_Props
  imports PinchQL_Ast
begin

text \<open>
  The vocabulary tables and small string helpers of \<open>internal/cypher/engine.go\<close>: property and
  edge-kind whitelists, storage classes, boolean coercions, keyword hints, edit distance,
  LIKE escaping.
\<close>

section \<open>Property whitelist and storage classes\<close>

definition prop_cols :: "(string \<times> string) list" where
  "prop_cols =
     [(''id'', ''id''), (''project_id'', ''project_id''), (''project'', ''project_id''),
      (''name'', ''name''), (''qualified_name'', ''qualified_name''), (''qn'', ''qualified_name''),
      (''kind'', ''kind''), (''label'', ''kind''), (''file_path'', ''file_path''),
      (''language'', ''language''), (''start_line'', ''start_line''), (''end_line'', ''end_line''),
      (''start_byte'', ''start_byte''), (''end_byte'', ''end_byte''), (''complexity'', ''complexity''),
      (''extraction_confidence'', ''extraction_confidence''),
      (''confidence'', ''extraction_confidence''), (''is_exported'', ''is_exported''),
      (''is_entry_point'', ''is_entry_point''), (''is_test'', ''is_test''),
      (''signature'', ''signature''), (''return_type'', ''return_type''), (''docstring'', ''docstring'')]"

definition cypherPropToCol :: "string \<Rightarrow> string" where
  "cypherPropToCol prop = (case map_of prop_cols prop of None \<Rightarrow> '''' | Some c \<Rightarrow> c)"

definition isBoolCol :: "string \<Rightarrow> bool" where
  "isBoolCol col \<longleftrightarrow> col \<in> {''is_exported'', ''is_entry_point'', ''is_test''}"

datatype ptype = PText | PInt | PReal | PBool

definition cypherPropType :: "string \<Rightarrow> ptype option" where
  "cypherPropType prop =
     (let col = cypherPropToCol prop in
      if col = '''' then None
      else if col \<in> {''start_line'', ''end_line'', ''start_byte'', ''end_byte'', ''complexity''} then Some PInt
      else if col = ''extraction_confidence'' then Some PReal
      else if isBoolCol col then Some PBool
      else Some PText)"

fun sampleLiteralFor :: "ptype option \<Rightarrow> string" where
  "sampleLiteralFor (Some PText) = [dq, CHR ''f'', CHR ''o'', CHR ''o'', dq]"
| "sampleLiteralFor (Some PInt) = ''42''"
| "sampleLiteralFor (Some PReal) = ''0.85''"
| "sampleLiteralFor (Some PBool) = ''true''"
| "sampleLiteralFor None = ''''"

definition isKnownEdgeProperty :: "string \<Rightarrow> bool" where
  "isKnownEdgeProperty prop \<longleftrightarrow> prop \<in> {''kind'', ''confidence''}"

definition knownEdgeKinds :: "string list" where
  "knownEdgeKinds =
     [''CALLS'', ''HTTP_CALLS'', ''ASYNC_CALLS'', ''READS'', ''WRITES'', ''IMPORTS'', ''REFERENCES'',
      ''USES_VAR'']"

definition enumValuedProperties :: "string list" where
  "enumValuedProperties = [''kind'', ''label'', ''language'']"

section \<open>Boolean spellings\<close>

definition boolNorm :: "string \<Rightarrow> bool option" where
  "boolNorm s =
     (if s \<in> {''1'', ''true'', ''TRUE''} then Some True
      else if s \<in> {''0'', ''false'', ''FALSE''} then Some False else None)"

definition boolCoerceEqual :: "string \<Rightarrow> string \<Rightarrow> bool" where
  "boolCoerceEqual a b =
     (case (boolNorm a, boolNorm b) of (Some x, Some y) \<Rightarrow> x = y | _ \<Rightarrow> False)"

definition coerceBoolLiteral :: "string \<Rightarrow> string" where
  "coerceBoolLiteral v =
     (if to_lower v = ''true'' then ''1'' else if to_lower v = ''false'' then ''0'' else v)"

definition isZeroValuePredicate :: "string \<Rightarrow> string \<Rightarrow> bool" where
  "isZeroValuePredicate col val \<longleftrightarrow> val = '''' \<or> (isBoolCol col \<and> val = ''0'')"

definition normalizeConditionValue :: "token \<Rightarrow> string" where
  "normalizeConditionValue tok =
     (if tkind tok = KEYWORD then
        (if tvalue tok = ''TRUE'' then ''1''
         else if tvalue tok = ''FALSE'' then ''0''
         else if tvalue tok = ''NULL'' then ''''
         else tvalue tok)
      else tvalue tok)"

section \<open>Aggregate names\<close>

definition agg_of :: "string \<Rightarrow> aggfn option" where
  "agg_of tok =
     (let u = to_upper tok in
      if u = ''COUNT'' then Some FnCount else if u = ''AVG'' then Some FnAvg
      else if u = ''MIN'' then Some FnMin else if u = ''MAX'' then Some FnMax
      else if u = ''SUM'' then Some FnSum else None)"

definition isAggFn :: "string \<Rightarrow> bool" where
  "isAggFn tok \<longleftrightarrow> agg_of tok \<noteq> None"

fun agg_name :: "aggfn \<Rightarrow> string" where
  "agg_name FnCount = ''COUNT''" | "agg_name FnAvg = ''AVG''" | "agg_name FnMin = ''MIN''"
| "agg_name FnMax = ''MAX''" | "agg_name FnSum = ''SUM''"

section \<open>Keyword hints\<close>

definition topLevelClauseKeywords :: "string list" where
  "topLevelClauseKeywords = [''MATCH'', ''WHERE'', ''RETURN'', ''ORDER'', ''LIMIT'', ''WITH'']"

definition isCypherWriteKeyword :: "string \<Rightarrow> bool" where
  "isCypherWriteKeyword tok \<longleftrightarrow>
     to_upper tok \<in> {''CREATE'', ''DELETE'', ''DETACH'', ''SET'', ''REMOVE'', ''MERGE'', ''DROP'', ''FOREACH''}"

text \<open>The equal-length loop: \<open>diff\<close> counts the mismatches, more than one stops it.\<close>

fun subst_loop :: "nat \<Rightarrow> string \<Rightarrow> string \<Rightarrow> bool" where
  "subst_loop diff (x # a) (y # b) =
     (if x \<noteq> y then (if diff + 1 > 1 then False else subst_loop (diff + 1) a b)
      else subst_loop diff a b)"
| "subst_loop diff _ _ = True"

text \<open>The two-pointer loop over the shorter \<open>a\<close> and the longer \<open>b\<close>.\<close>

fun skip_loop :: "string \<Rightarrow> string \<Rightarrow> bool \<Rightarrow> bool" where
  "skip_loop (x # a) (y # b) skipped =
     (if x = y then skip_loop a b skipped else if skipped then False else skip_loop (x # a) b True)"
| "skip_loop _ _ skipped = True"

definition editDistanceAtMost1 :: "string \<Rightarrow> string \<Rightarrow> bool" where
  "editDistanceAtMost1 a b =
     (if length a = length b then subst_loop 0 a b
      else let (s, l) = (if length a > length b then (b, a) else (a, b)) in
        if length l - length s \<noteq> 1 then False else skip_loop s l False)"

definition nearestClauseKeyword :: "string \<Rightarrow> string" where
  "nearestClauseKeyword tok =
     (let up = to_upper tok in
      case List.find (\<lambda>kw. up \<noteq> kw \<and> editDistanceAtMost1 up kw) topLevelClauseKeywords of
        None \<Rightarrow> '''' | Some kw \<Rightarrow> kw)"

text \<open>The hint texts are named by the operator family they teach.\<close>

datatype hint =
  HintLike | HintRegex | HintStartsWith | HintEndsWith | HintMatches | HintArith | HintBetween | HintCall

definition operatorHint :: "string \<Rightarrow> hint option" where
  "operatorHint op =
     (let u = to_upper op in
      if u = ''LIKE'' then Some HintLike
      else if u \<in> {''REGEXP'', ''RLIKE''} then Some HintRegex
      else if u = ''STARTS_WITH'' then Some HintStartsWith
      else if u = ''ENDS_WITH'' then Some HintEndsWith
      else if u = ''MATCHES'' then Some HintMatches
      else if u \<in> {''+'', ''-'', ''*'', ''/''} then Some HintArith
      else if u = ''BETWEEN'' then Some HintBetween
      else if u = ''('' then Some HintCall
      else None)"

section \<open>LIKE escaping\<close>

definition escapeLikePattern :: "string \<Rightarrow> string" where
  "escapeLikePattern s =
     replace_byte (CHR ''_'') [bsl, CHR ''_'']
       (replace_byte (CHR ''%'') [bsl, CHR ''%'']
         (replace_byte bsl [bsl, bsl] s))"

section \<open>Facts about the tables\<close>

lemma cypherPropToCol_whitelist:
  "cypherPropToCol p \<noteq> '''' \<Longrightarrow> cypherPropToCol p \<in> snd ` set prop_cols"
  unfolding cypherPropToCol_def
  by (auto split: option.splits dest!: map_of_SomeD intro: rev_image_eqI)

lemma isBoolCol_empty [simp]: "\<not> isBoolCol ''''"
  by (simp add: isBoolCol_def)

lemma cypherPropType_None [simp]: "cypherPropType p = None \<longleftrightarrow> cypherPropToCol p = ''''"
  by (simp add: cypherPropType_def Let_def)

lemma boolCoerceEqual_refl_iff: "boolCoerceEqual a a \<longleftrightarrow> boolNorm a \<noteq> None"
  by (auto simp: boolCoerceEqual_def split: option.splits)

lemma boolCoerceEqual_sym: "boolCoerceEqual a b = boolCoerceEqual b a"
  by (auto simp: boolCoerceEqual_def split: option.splits)

lemma boolCoerceEqual_trans: "boolCoerceEqual a b \<Longrightarrow> boolCoerceEqual b c \<Longrightarrow> boolCoerceEqual a c"
  by (auto simp: boolCoerceEqual_def split: option.splits)

section \<open>Edit distance\<close>

text \<open>The declarative reading: equal, one byte replaced, or one byte deleted from the longer.\<close>

definition one_subst :: "string \<Rightarrow> string \<Rightarrow> bool" where
  "one_subst a b \<longleftrightarrow> (\<exists>p x y q. a = p @ x # q \<and> b = p @ y # q)"

definition one_deletion :: "string \<Rightarrow> string \<Rightarrow> bool" where
  "one_deletion a b \<longleftrightarrow> (\<exists>p x q. b = p @ x # q \<and> a = p @ q)"

lemma subst_loop_1: "length a = length b \<Longrightarrow> subst_loop (Suc 0) a b \<longleftrightarrow> a = b"
  by (induction a b rule: list_induct2) auto

lemma one_subst_Cons: "one_subst (x # a) (y # b) \<longleftrightarrow> (x = y \<and> one_subst a b) \<or> a = b"
proof
  assume "one_subst (x # a) (y # b)"
  then obtain p u v q where "x # a = p @ u # q" "y # b = p @ v # q" by (auto simp: one_subst_def)
  then show "(x = y \<and> one_subst a b) \<or> a = b"
    by (cases p) (auto simp: one_subst_def)
next
  assume "(x = y \<and> one_subst a b) \<or> a = b"
  then show "one_subst (x # a) (y # b)"
    unfolding one_subst_def by (metis append_Cons append_Nil)
qed

lemma subst_loop_0:
  "length a = length b \<Longrightarrow> subst_loop 0 a b \<longleftrightarrow> a = b \<or> one_subst a b"
proof (induction a b rule: list_induct2)
  case Nil
  then show ?case by simp
next
  case (Cons x xs y ys)
  then show ?case by (auto simp: one_subst_Cons subst_loop_1)
qed

lemma skip_loop_True: "length a = length b \<Longrightarrow> skip_loop a b True \<longleftrightarrow> a = b"
  by (induction a b rule: list_induct2) auto

lemma one_deletion_Cons:
  "one_deletion (x # a) (y # b) \<longleftrightarrow> (x = y \<and> one_deletion a b) \<or> x # a = b"
proof
  assume "one_deletion (x # a) (y # b)"
  then obtain p u q where "y # b = p @ u # q" "x # a = p @ q" by (auto simp: one_deletion_def)
  then show "(x = y \<and> one_deletion a b) \<or> x # a = b"
    by (cases p) (auto simp: one_deletion_def)
next
  assume "(x = y \<and> one_deletion a b) \<or> x # a = b"
  then show "one_deletion (x # a) (y # b)"
    unfolding one_deletion_def by (metis append_Cons append_Nil)
qed

lemma one_deletion_prepend: "x # a = b \<Longrightarrow> b = x # b' \<Longrightarrow> one_deletion a b"
  unfolding one_deletion_def by (metis append_Nil)

lemma skip_loop_False:
  "length b = Suc (length a) \<Longrightarrow> skip_loop a b False \<longleftrightarrow> one_deletion a b"
proof (induction a arbitrary: b)
  case Nil
  then obtain y where "b = [y]" by (cases b) auto
  then show ?case by (auto simp: one_deletion_def intro: exI [where x = "[]"])
next
  case (Cons x a)
  then obtain y b' where b: "b = y # b'" "length b' = Suc (length a)" by (cases b) auto
  have "x = y \<Longrightarrow> x # a = b' \<Longrightarrow> one_deletion a b'"
    by (rule one_deletion_prepend [of x a b' a]) auto
  then show ?case
    using Cons.IH [OF b(2)] skip_loop_True [of "x # a" b'] b by (auto simp: one_deletion_Cons)
qed

text \<open>
  C40: The did-you-mean test is exact: it accepts two strings iff they are equal, differ in one
  replaced byte, or one is the other with one byte deleted.
\<close>
theorem editDistanceAtMost1_correct:
  "editDistanceAtMost1 a b \<longleftrightarrow> a = b \<or> one_subst a b \<or> one_deletion a b \<or> one_deletion b a"
proof -
  have len: "one_subst a b \<Longrightarrow> length a = length b"
    "one_deletion a b \<Longrightarrow> length b = Suc (length a)"
    "one_deletion b a \<Longrightarrow> length a = Suc (length b)"
    by (auto simp: one_subst_def one_deletion_def)
  consider "length a = length b" | "length b = Suc (length a)" | "length a = Suc (length b)"
    | "length a \<noteq> length b" "length b \<noteq> Suc (length a)" "length a \<noteq> Suc (length b)" by blast
  then show ?thesis
  proof cases
    case 1
    then show ?thesis using len subst_loop_0 [of a b] by (auto simp: editDistanceAtMost1_def)
  next
    case 2
    then show ?thesis using len skip_loop_False [of b a] by (auto simp: editDistanceAtMost1_def)
  next
    case 3
    then show ?thesis using len skip_loop_False [of a b] by (auto simp: editDistanceAtMost1_def)
  next
    case 4
    then show ?thesis using len by (auto simp: editDistanceAtMost1_def)
  qed
qed

section \<open>LIKE escaping is literal matching\<close>

text \<open>
  Reference reading of \<open>s LIKE pattern ESCAPE '\'\<close> as SQLite documents it: \<open>%\<close> matches any run,
  \<open>_\<close> any byte, the escape byte makes the next one literal; bytes are compared by \<open>eqc\<close> (SQLite folds
  ASCII case by default).
\<close>

fun like_ref :: "(char \<Rightarrow> char \<Rightarrow> bool) \<Rightarrow> string \<Rightarrow> string \<Rightarrow> bool" where
  "like_ref eqc [] s = (s = [])"
| "like_ref eqc (p # ps) s =
     (if p = CHR ''%'' then list_ex (\<lambda>n. like_ref eqc ps (drop n s)) [0..<Suc (length s)]
      else if p = bsl then
        (case (ps, s) of (e # ps', c # cs) \<Rightarrow> eqc e c \<and> like_ref eqc ps' cs | _ \<Rightarrow> False)
      else if p = CHR ''_'' then (case s of [] \<Rightarrow> False | c # cs \<Rightarrow> like_ref eqc ps cs)
      else (case s of [] \<Rightarrow> False | c # cs \<Rightarrow> eqc p c \<and> like_ref eqc ps cs))"

declare like_ref.simps(2) [simp del]

definition like_esc :: "char \<Rightarrow> string" where
  "like_esc c = (if c = bsl \<or> c = CHR ''%'' \<or> c = CHR ''_'' then [bsl, c] else [c])"

lemma escapeLike_Nil [simp]: "escapeLikePattern [] = []"
  by (simp add: escapeLikePattern_def replace_byte_def)

lemma escapeLike_Cons [simp]: "escapeLikePattern (c # s) = like_esc c @ escapeLikePattern s"
  by (auto simp: escapeLikePattern_def replace_byte_def like_esc_def)

lemma like_esc_step:
  "like_ref eqc (like_esc c @ p) s \<longleftrightarrow> (\<exists>d ds. s = d # ds \<and> eqc c d \<and> like_ref eqc p ds)"
  by (cases s) (auto simp: like_esc_def like_ref.simps(2) split: list.splits)

lemma like_prefix:
  "like_ref eqc (escapeLikePattern v @ p) s \<longleftrightarrow>
     (\<exists>m r. s = m @ r \<and> list_all2 eqc v m \<and> like_ref eqc p r)"
proof (induction v arbitrary: s)
  case Nil
  then show ?case by auto
next
  case (Cons c v)
  then show ?case
    by (auto simp: like_esc_step list_all2_Cons1) (metis append_Cons)+
qed

lemma like_percent: "like_ref eqc (CHR ''%'' # p) s \<longleftrightarrow> (\<exists>l r. s = l @ r \<and> like_ref eqc p r)"
proof
  assume "like_ref eqc (CHR ''%'' # p) s"
  then obtain n where "like_ref eqc p (drop n s)" by (auto simp: like_ref.simps(2) list_ex_iff simp del: upt_Suc)
  then show "\<exists>l r. s = l @ r \<and> like_ref eqc p r" by (metis append_take_drop_id)
next
  assume "\<exists>l r. s = l @ r \<and> like_ref eqc p r"
  then obtain l r where "s = l @ r" "like_ref eqc p r" by blast
  then show "like_ref eqc (CHR ''%'' # p) s"
    by (auto simp: like_ref.simps(2) list_ex_iff simp del: upt_Suc intro!: bexI [where x = "length l"])
qed

text \<open>
  The LIKE pattern built for CONTAINS matches exactly the strings that contain the user's
  literal, byte for byte under SQLite's byte comparison: no byte of the literal acts as a wildcard,
  and with an exact comparison the test is \<open>strings.Contains\<close>.
\<close>
theorem escapeLike_contains:
  "like_ref eqc (CHR ''%'' # escapeLikePattern v @ ''%'') s = (\<exists>l m r. s = l @ m @ r \<and> list_all2 eqc v m) \<and>
   like_ref (=) (CHR ''%'' # escapeLikePattern v @ ''%'') s = str_contains s v"
proof -
  have all: "like_ref eqc ''%'' r" for r and eqc :: "char \<Rightarrow> char \<Rightarrow> bool"
    unfolding like_percent by (rule exI [where x = r]) simp
  have 1: "like_ref eqc (CHR ''%'' # escapeLikePattern v @ ''%'') s \<longleftrightarrow>
     (\<exists>l m r. s = l @ m @ r \<and> list_all2 eqc v m)" for eqc :: "char \<Rightarrow> char \<Rightarrow> bool"
    by (auto simp: like_percent [of _ "escapeLikePattern v @ ''%''"] like_prefix all)
  show ?thesis
    unfolding 1 str_contains_iff by (simp add: list.rel_eq)
qed

end
