(* ===== verification/PinchQL_Parser.thy ===== *)
theory PinchQL_Parser
  imports PinchQL_Props
begin

text \<open>
  The recursive-descent parser of \<open>internal/cypher/engine.go\<close>. The \<open>parser\<close> struct (the token slice and
  \<open>pos\<close>) is the list of tokens from \<open>pos\<close> on; \<open>next\<close> past the end keeps the empty list, whose \<open>peek\<close> is
  the EOF token. Methods returning \<open>(T, error)\<close> return \<open>pq_error + 'a \<times> token list\<close>; each error text of the
  source is a constructor of \<open>pq_error\<close> carrying the values the text names.
  \<open>re\<close> is Go's \<open>regexp.Compile\<close> (with the compiled pattern's \<open>MatchString\<close>), a parameter.
\<close>

type_synonym regex = "string \<Rightarrow> (string \<Rightarrow> bool) option"

datatype pq_error =
  ErrExpected string string
| ErrChainedEdge | ErrInboundArrow
| ErrWhereAfterReturn | ErrMultiOrderBy
| ErrLimitNegative | ErrLimitKind string tkind | ErrLimitFloat string | ErrLimitAtoi string
| ErrWith | ErrWriteKeyword string | ErrCommaPattern | ErrDidYouMean string string | ErrUnexpected string
| ErrNoMatch | ErrNoReturn
| ErrCloseParen string | ErrRegex string
| ErrInParens | ErrInBracket string | ErrInEmpty | ErrInLiteral string tkind | ErrInSep string
| ErrBangEq | ErrUnsupported string | ErrUnsupportedHint string hint | ErrNeedsOperator string string string
| ErrDistinctAgg aggfn | ErrDistinctStar | ErrDistinctVar string | ErrUnknownFunction string | ErrReturnStar

section \<open>Token access\<close>

definition peek :: "token list \<Rightarrow> token" where
  "peek ts = (case ts of [] \<Rightarrow> Tok EOF '''' | t # _ \<Rightarrow> t)"

abbreviation pv :: "token list \<Rightarrow> string" where "pv ts \<equiv> tvalue (peek ts)"
abbreviation pk :: "token list \<Rightarrow> tkind" where "pk ts \<equiv> tkind (peek ts)"

definition skip :: "string \<Rightarrow> token list \<Rightarrow> token list" where
  "skip val ts = (if pv ts = val then tl ts else ts)"

definition expect :: "string \<Rightarrow> token list \<Rightarrow> pq_error + token list" where
  "expect val ts =
     (if pv ts \<noteq> val
      then Inl (ErrExpected val (if pk ts = EOF then ''end of query'' else pv ts))
      else Inr (tl ts))"

lemma peek_simps [simp]: "peek [] = Tok EOF ''''" "peek (t # ts) = t"
  by (simp_all add: peek_def)

lemma skip_len [len_simps]: "length (skip v ts) \<le> length ts"
  by (simp add: skip_def)

lemma expect_len [len_simps]: "expect v ts = Inr ts' \<Longrightarrow> length ts' \<le> length ts"
  by (auto simp: expect_def split: if_splits)

lemma expect_less: "expect v ts = Inr ts' \<Longrightarrow> v \<noteq> '''' \<Longrightarrow> length ts' < length ts"
  by (cases ts) (auto simp: expect_def split: if_splits)

section \<open>Hop ranges\<close>

text \<open>Result: \<open>(min, max, inverted, minClamped)\<close>.\<close>

definition parseHops :: "string \<Rightarrow> int \<times> int \<times> bool \<times> bool" where
  "parseHops s =
     (if s = '''' then (1, 1, False, False)
      else
        let parts = split2 (CHR ''.'') (CHR ''.'') [] s;
            (mn, mx) = (case parts of
                          [a, b] \<Rightarrow> (fst (atoi a), fst (atoi b))
                        | [a] \<Rightarrow> if a \<noteq> '''' then (fst (atoi a), fst (atoi a)) else (1, 1)
                        | _ \<Rightarrow> (1, 1));
            inverted = mx < mn;
            (mn, mx) = (if mx < mn then (mx, mn) else (mn, mx));
            minClamped = mn < 1;
            mn = (if mn < 1 then 1 else mn);
            mx = (if mx < mn then mn else mx)
        in (mn, mx, inverted, minClamped))"

section \<open>Patterns\<close>

function parseProps_loop ::
    "token list \<Rightarrow> (string \<times> string) list \<Rightarrow> (string \<times> string) list \<times> token list" where
  "parseProps_loop ts props =
     (if pv ts \<noteq> ''}'' \<and> pk ts \<noteq> EOF then
        let key = pv ts; ts1 = skip '':'' (tl ts); val = pv ts1
        in parseProps_loop (skip '','' (tl ts1)) (AList.update key val props)
      else (props, ts))"
  by pat_completeness auto
termination
proof (relation "measure (\<lambda>(ts, props). length ts)", goal_cases)
  case 1
  show ?case by simp
next
  case (2 ts props key ts1 val)
  have "length (skip '','' (tl ts1)) \<le> length (tl ts1)" by (rule skip_len)
  moreover have "length ts1 \<le> length (tl ts)" using 2 skip_len [of "'':''" "tl ts"] by simp
  moreover have "ts \<noteq> []" using 2 by auto
  ultimately show ?case by (cases ts) auto
qed

declare parseProps_loop.simps [simp del]

definition parseProps :: "token list \<Rightarrow> pq_error + (string \<times> string) list \<times> token list" where
  "parseProps ts =
     (let (props, ts1) = parseProps_loop (skip ''{'' ts) []
      in bind_res (expect ''}'' ts1) (\<lambda>ts2. Inr (props, ts2)))"

text \<open>\<open>var [: kind] [{props}] )\<close>, the part both ends of a pattern share.\<close>

definition parse_node ::
    "token list \<Rightarrow> pq_error + (string \<times> string \<times> (string \<times> string) list) \<times> token list" where
  "parse_node ts =
     (let var = pv ts; ts1 = tl ts;
          (kind, ts2) = (if pv ts1 = '':'' then (pv (tl ts1), tl (tl ts1)) else ('''', ts1))
      in bind_res (if pv ts2 = ''{'' then parseProps ts2 else Inr ([], ts2)) (\<lambda>(props, ts3).
         bind_res (expect '')'' ts3) (\<lambda>ts4. Inr ((var, kind, props), ts4))))"

function parse_edge_kinds :: "token list \<Rightarrow> string list \<times> token list" where
  "parse_edge_kinds ts =
     (if pk ts = IDENT then
        let k = to_upper (pv ts); ts1 = tl ts in
        if pv ts1 = ''|'' then (let (ks, ts2) = parse_edge_kinds (tl ts1) in (k # ks, ts2))
        else ([k], ts1)
      else ([], ts))"
  by pat_completeness auto
termination
proof (relation "measure length", goal_cases)
  case 1
  show ?case by simp
next
  case (2 ts k ts1)
  have "ts \<noteq> []" using 2 by auto
  then show ?case using 2 by (cases ts) auto
qed

declare parse_edge_kinds.simps [simp del]

text \<open>\<open>[ var? (: kinds)? hops? ]\<close>\<close>

definition parse_edge_bracket ::
    "token list \<Rightarrow> pq_error + (string \<times> string list \<times> (int \<times> int \<times> bool \<times> bool)) \<times> token list" where
  "parse_edge_bracket ts =
     (let (ev, ts1) = (if pk ts = IDENT then (pv ts, tl ts) else ('''', ts));
          (kinds, ts2) = (if pv ts1 = '':'' then parse_edge_kinds (tl ts1) else ([], ts1));
          (hops, ts3) = (if pk ts2 = HOPS then (parseHops (pv ts2), tl ts2)
                         else ((1, 1, False, False), ts2))
      in bind_res (expect '']'' ts3) (\<lambda>ts4. Inr ((ev, kinds, hops), ts4)))"

definition parse_arrow :: "token list \<Rightarrow> pq_error + token list" where
  "parse_arrow ts =
     (if pv ts = ''->'' then Inr (tl ts)
      else if pv ts = ''-'' then
        (if pv (tl ts) = ''>'' then Inr (tl (tl ts)) else Inl ErrInboundArrow)
      else Inr ts)"

definition parsePattern :: "token list \<Rightarrow> pq_error + pattern \<times> token list" where
  "parsePattern ts =
     bind_res (parse_node (skip ''('' ts)) (\<lambda>((fv, fk, fp), ts1).
       if pv ts1 = ''-'' \<or> pv ts1 = ''<'' then
         let ts2 = tl ts1 in
         bind_res (if pv ts2 = ''['' then parse_edge_bracket (tl ts2)
                   else Inr (('''', [], (1, 1, False, False)), ts2))
           (\<lambda>((ev, kinds, mn, mx, inv, clamped), ts3).
         bind_res (parse_arrow ts3) (\<lambda>ts4.
         bind_res (if pv ts4 = ''('' then parse_node (tl ts4) else Inr (('''', '''', []), ts4))
           (\<lambda>((tv, tk, tp), ts5).
         Inr (\<lparr>p_fromVar = fv, p_fromKind = fk, p_fromProps = fp, p_edgeVar = ev, p_edgeKinds = kinds,
               p_minHops = mn, p_maxHops = mx, p_invertedHops = inv, p_minHopsClamped = clamped,
               p_toVar = tv, p_toKind = tk, p_toProps = tp, p_directed = True\<rparr>, ts5))))
       else
         Inr (\<lparr>p_fromVar = fv, p_fromKind = fk, p_fromProps = fp, p_edgeVar = '''', p_edgeKinds = [],
               p_minHops = 1, p_maxHops = 1, p_invertedHops = False, p_minHopsClamped = False,
               p_toVar = '''', p_toKind = '''', p_toProps = [], p_directed = True\<rparr>, ts1))"

section \<open>WHERE\<close>

definition isExpressionBoundary :: "token \<Rightarrow> bool" where
  "isExpressionBoundary tok \<longleftrightarrow>
     tkind tok = EOF \<or> tvalue tok \<in> {'')'', ''AND'', ''OR'', ''RETURN'', ''ORDER'', ''LIMIT''}"

definition comparison_op :: "string \<Rightarrow> cmp_op option" where
  "comparison_op v =
     (if v = ''='' then Some OpEq else if v = ''<>'' then Some OpNe else if v = ''>'' then Some OpGt
      else if v = ''<'' then Some OpLt else if v = ''>='' then Some OpGe else if v = ''<='' then Some OpLe
      else None)"

text \<open>\<open>valTok := p.next()\<close> followed by the assignment of value and kind.\<close>

definition with_value :: "condition \<Rightarrow> cmp_op \<Rightarrow> token \<Rightarrow> condition" where
  "with_value c op tok =
     c\<lparr>c_op := op, c_value := normalizeConditionValue tok, c_valueKind := Some (tkind tok)\<rparr>"

function parse_in_list :: "condition \<Rightarrow> token list \<Rightarrow> pq_error + condition \<times> token list" where
  "parse_in_list c ts =
     (let tok = peek ts; ts1 = tl ts in
      if tkind tok \<notin> {STRING, NUMBER, KEYWORD, IDENT} then Inl (ErrInLiteral (tvalue tok) (tkind tok))
      else
        let c' = c\<lparr>c_inValues := c_inValues c @ [normalizeConditionValue tok],
                   c_valueKind := (case c_valueKind c of None \<Rightarrow> Some (tkind tok) | Some k \<Rightarrow> Some k)\<rparr>
        in if pv ts1 = '','' then parse_in_list c' (tl ts1)
           else if pv ts1 = '']'' then Inr (c', tl ts1)
           else Inl (ErrInSep (pv ts1)))"
  by pat_completeness auto
termination
proof (relation "measure (\<lambda>(c, ts). length ts)", goal_cases)
  case 1
  show ?case by simp
next
  case (2 c ts tok ts1 c')
  have "ts \<noteq> []" using 2 by auto
  then show ?case using 2 by (cases ts) auto
qed

declare parse_in_list.simps [simp del]

definition parseOneCondition :: "regex \<Rightarrow> token list \<Rightarrow> pq_error + condition \<times> token list" where
  "parseOneCondition re ts0 =
     (let var = pv ts0; ts1 = tl ts0;
          (prop, ts) = (if pv ts1 = ''.'' then (pv (tl ts1), tl (tl ts1)) else ('''', ts1));
          c = empty_condition\<lparr>c_variable := var, c_property := prop\<rparr>;
          v = pv ts
      in case comparison_op v of
           Some op \<Rightarrow>
             let c1 = with_value c op (peek (tl ts)); r = tl (tl ts) in
             if pv r = ''.'' then
               Inr (c1\<lparr>c_rhsVariable := c_value c1, c_rhsProperty := pv (tl r), c_value := '''',
                       c_valueKind := None\<rparr>, tl (tl r))
             else Inr (c1, r)
         | None \<Rightarrow>
           if v = ''=~'' then
             let c1 = with_value c OpRe (peek (tl ts)) in
             if re (c_value c1) = None then Inl (ErrRegex (c_value c1)) else Inr (c1, tl (tl ts))
           else if v = ''CONTAINS'' then
             Inr (with_value c OpContains (peek (tl ts)), tl (tl ts))
           else if v = ''STARTS'' then
             let r = skip ''WITH'' (tl ts) in Inr (with_value c OpStarts (peek r), tl r)
           else if v = ''ENDS'' then
             let r = skip ''WITH'' (tl ts) in Inr (with_value c OpEnds (peek r), tl r)
           else if v = ''IS'' then
             let r = tl ts in
             if pv r = ''NOT'' then Inr (c\<lparr>c_op := OpIsNotNull, c_value := ''''\<rparr>, skip ''NULL'' (tl r))
             else Inr (c\<lparr>c_op := OpIsNull, c_value := ''''\<rparr>, skip ''NULL'' r)
           else if v = ''IN'' then
             let r = tl ts in
             if pv r = ''('' then Inl ErrInParens
             else if pv r \<noteq> ''['' then
               Inl (ErrInBracket (if pk r = EOF then ''end of query'' else pv r))
             else if pv (tl r) = '']'' then Inl ErrInEmpty
             else parse_in_list (c\<lparr>c_op := OpIn\<rparr>) (tl r)
           else if v = ''!'' then
             (if pv (tl ts) = ''='' then Inl ErrBangEq else Inl (ErrUnsupported v))
           else if prop \<noteq> '''' \<and> isExpressionBoundary (peek ts) then
             (if isBoolCol (cypherPropToCol prop) then Inr (c\<lparr>c_op := OpEq, c_value := ''1''\<rparr>, ts)
              else Inl (ErrNeedsOperator var prop v))
           else (case operatorHint v of
                   Some h \<Rightarrow> Inl (ErrUnsupportedHint v h)
                 | None \<Rightarrow> Inl (ErrUnsupported v)))"

lemma parse_in_list_less: "parse_in_list c ts = Inr (c', ts') \<Longrightarrow> length ts' < length ts"
proof (induction c ts rule: parse_in_list.induct)
  case (1 c ts)
  have ne: "ts \<noteq> []" using "1.prems" by (subst (asm) parse_in_list.simps) (auto split: if_splits)
  show ?case
    using "1.prems" "1.IH" ne
    by (subst (asm) parse_in_list.simps)
      (cases ts; fastforce simp: Let_def split: if_splits)
qed

lemma parseOneCondition_Nil: "parseOneCondition re [] = Inl (ErrUnsupported '''')"
  by (simp add: parseOneCondition_def comparison_op_def operatorHint_def to_upper_def)

lemma parseOneCondition_less:
  assumes "parseOneCondition re ts = Inr (c, ts')"
  shows "length ts' < length ts"
proof (cases ts)
  case Nil
  then show ?thesis using assms by (simp add: parseOneCondition_Nil)
next
  case (Cons t r)
  then show ?thesis using assms
    by (auto simp: parseOneCondition_def Let_def skip_def split: if_splits option.splits
        dest!: parse_in_list_less)
qed

section \<open>The WHERE grammar\<close>

text \<open>
  \<open>parseOrExpr\<close>, \<open>parseAndExpr\<close>, \<open>parseFactor\<close> with the two \<open>for\<close> loops as functions of their own.
  They terminate because every successful call consumes at least one token.
\<close>

function
  parseOrExpr :: "regex \<Rightarrow> token list \<Rightarrow> pq_error + whereExpr \<times> token list" and
  parse_or_loop :: "regex \<Rightarrow> whereExpr \<Rightarrow> token list \<Rightarrow> pq_error + whereExpr \<times> token list" and
  parseAndExpr :: "regex \<Rightarrow> token list \<Rightarrow> pq_error + whereExpr \<times> token list" and
  parse_and_loop :: "regex \<Rightarrow> whereExpr \<Rightarrow> token list \<Rightarrow> pq_error + whereExpr \<times> token list" and
  parseFactor :: "regex \<Rightarrow> token list \<Rightarrow> pq_error + whereExpr \<times> token list"
where
  "parseOrExpr re ts =
     bind_res (parseAndExpr re ts) (\<lambda>(left, ts1). parse_or_loop re left ts1)"
| "parse_or_loop re left ts =
     (if pv ts = ''OR'' then
        bind_res (parseAndExpr re (tl ts)) (\<lambda>(right, ts1). parse_or_loop re (BinE Or_op left right) ts1)
      else Inr (left, ts))"
| "parseAndExpr re ts =
     bind_res (parseFactor re ts) (\<lambda>(left, ts1). parse_and_loop re left ts1)"
| "parse_and_loop re left ts =
     (if pv ts = ''AND'' then
        bind_res (parseFactor re (tl ts)) (\<lambda>(right, ts1). parse_and_loop re (BinE And_op left right) ts1)
      else Inr (left, ts))"
| "parseFactor re ts =
     (let negated = (pv ts = ''NOT''); ts1 = (if negated then tl ts else ts) in
      if pv ts1 = ''('' then
        bind_res (parseOrExpr re (tl ts1)) (\<lambda>(inner, ts2).
          if pv ts2 \<noteq> '')'' then Inl (ErrCloseParen (pv ts2))
          else Inr (if negated then NotE inner else inner, tl ts2))
      else bind_res (parseOneCondition re ts1) (\<lambda>(c, ts2).
             Inr (CondE (c\<lparr>c_negated := negated\<rparr>), ts2)))"
  by pat_completeness auto


abbreviation where_dom where
  "where_dom \<equiv> parseOrExpr_parse_or_loop_parseAndExpr_parse_and_loop_parseFactor_dom"

lemma where_parsers_consume:
  "where_dom (Inl (Inl (re1, ts1))) \<Longrightarrow> \<forall>w ts'. parseOrExpr re1 ts1 = Inr (w, ts') \<longrightarrow> length ts' < length ts1"
  "where_dom (Inl (Inr (re2, l2, ts2))) \<Longrightarrow> \<forall>w ts'. parse_or_loop re2 l2 ts2 = Inr (w, ts') \<longrightarrow> length ts' \<le> length ts2"
  "where_dom (Inr (Inl (re3, ts3))) \<Longrightarrow> \<forall>w ts'. parseAndExpr re3 ts3 = Inr (w, ts') \<longrightarrow> length ts' < length ts3"
  "where_dom (Inr (Inr (Inl (re4, l4, ts4)))) \<Longrightarrow> \<forall>w ts'. parse_and_loop re4 l4 ts4 = Inr (w, ts') \<longrightarrow> length ts' \<le> length ts4"
  "where_dom (Inr (Inr (Inr (re5, ts5)))) \<Longrightarrow> \<forall>w ts'. parseFactor re5 ts5 = Inr (w, ts') \<longrightarrow> length ts' < length ts5"
proof (induction rule: parseOrExpr_parse_or_loop_parseAndExpr_parse_and_loop_parseFactor.pinduct)
  case (1 re ts)
  then show ?case by (fastforce simp: parseOrExpr.psimps)
next
  case (2 re left ts)
  then show ?case by (cases ts) (fastforce simp: parse_or_loop.psimps split: if_splits)+
next
  case (3 re ts)
  then show ?case by (fastforce simp: parseAndExpr.psimps)
next
  case (4 re left ts)
  then show ?case by (cases ts) (fastforce simp: parse_and_loop.psimps split: if_splits)+
next
  case (5 re ts)
  then show ?case
    by (cases ts) (fastforce simp: parseFactor.psimps Let_def split: if_splits dest: parseOneCondition_less)+
qed

lemma pv_Cons: "pv ts = c # v \<Longrightarrow> \<exists>t r. ts = t # r"
  by (cases ts) auto

lemma pv_tl_Cons: "pv (tl ts) = c # v \<Longrightarrow> \<exists>t u r. ts = t # u # r"
  by (cases ts; cases "tl ts") auto

lemmas where_consume_dom = where_parsers_consume(3,5) [rule_format]

termination parseOrExpr
  by (relation "measure (\<lambda>x. case x of
         Inl (Inl (re, ts)) \<Rightarrow> 3 * length ts + 2
       | Inl (Inr (re, l, ts)) \<Rightarrow> 3 * length ts
       | Inr (Inl (re, ts)) \<Rightarrow> 3 * length ts + 1
       | Inr (Inr (Inl (re, l, ts))) \<Rightarrow> 3 * length ts
       | Inr (Inr (Inr (re, ts))) \<Rightarrow> 3 * length ts)")
    (auto dest!: where_consume_dom pv_tl_Cons pv_Cons)

lemmas where_parsers_simps =
  parseOrExpr.simps parse_or_loop.simps parseAndExpr.simps parse_and_loop.simps parseFactor.simps

declare parseOrExpr.simps [simp del] parse_or_loop.simps [simp del] parseAndExpr.simps [simp del]
  parse_and_loop.simps [simp del] parseFactor.simps [simp del]

lemma where_parsers_less:
  "\<forall>w ts'. parseOrExpr re1 ts1 = Inr (w, ts') \<longrightarrow> length ts' < length ts1"
  "\<forall>w ts'. parse_or_loop re2 l2 ts2 = Inr (w, ts') \<longrightarrow> length ts' \<le> length ts2"
  "\<forall>w ts'. parseAndExpr re3 ts3 = Inr (w, ts') \<longrightarrow> length ts' < length ts3"
  "\<forall>w ts'. parse_and_loop re4 l4 ts4 = Inr (w, ts') \<longrightarrow> length ts' \<le> length ts4"
  "\<forall>w ts'. parseFactor re5 ts5 = Inr (w, ts') \<longrightarrow> length ts' < length ts5"
proof (induction re1 ts1 and re2 l2 ts2 and re3 ts3 and re4 l4 ts4 and re5 ts5
    rule: parseOrExpr_parse_or_loop_parseAndExpr_parse_and_loop_parseFactor.induct)
  case (1 re ts)
  then show ?case by - (subst parseOrExpr.simps, fastforce)
next
  case (2 re left ts)
  then show ?case
    by - (subst parse_or_loop.simps, cases ts; fastforce split: if_splits)
next
  case (3 re ts)
  then show ?case by - (subst parseAndExpr.simps, fastforce)
next
  case (4 re left ts)
  then show ?case
    by - (subst parse_and_loop.simps, cases ts; fastforce split: if_splits)
next
  case (5 re ts)
  then show ?case
    by - (subst parseFactor.simps, cases ts; fastforce simp: Let_def split: if_splits dest: parseOneCondition_less)
qed

definition parseWhere :: "regex \<Rightarrow> token list \<Rightarrow> pq_error + whereExpr \<times> token list" where
  "parseWhere re ts = parseOrExpr re ts"

section \<open>RETURN\<close>

definition return_agg_arg ::
    "aggfn \<Rightarrow> token list \<Rightarrow> pq_error + returnVar \<times> token list" where
  "return_agg_arg fn ts =
     (let is_distinct = (pk ts = KEYWORD \<and> pv ts = ''DISTINCT'') in
      if is_distinct \<and> fn \<noteq> FnCount then Inl (ErrDistinctAgg fn)
      else
        let ts1 = (if is_distinct then tl ts else ts);
            (var, prop, ts2) =
              (if pk ts1 = HOPS \<and> pv ts1 = '''' then (''*'', '''', tl ts1)
               else let ts' = tl ts1 in
                 if pv ts' = ''.'' then (pv ts1, pv (tl ts'), tl (tl ts')) else (pv ts1, '''', ts'))
        in if is_distinct \<and> var = ''*'' then Inl ErrDistinctStar
           else if is_distinct \<and> prop = '''' then Inl (ErrDistinctVar var)
           else bind_res (expect '')'' ts2) (\<lambda>ts3.
             Inr (\<lparr>r_variable = var, r_property = prop, r_alias = '''', r_fn = Some fn,
                   r_distinct = is_distinct\<rparr>, ts3)))"

definition parse_return_item :: "token list \<Rightarrow> pq_error + returnVar \<times> token list" where
  "parse_return_item ts =
     bind_res
       (case agg_of (pv ts) of
          Some fn \<Rightarrow> return_agg_arg fn (skip ''('' (tl ts))
        | None \<Rightarrow>
            let tok = peek ts; ts1 = tl ts in
            if pv ts1 = ''('' then Inl (ErrUnknownFunction (tvalue tok))
            else if tkind tok = HOPS \<or> tvalue tok = '''' then Inl ErrReturnStar
            else
              let (prop, ts2) = (if pv ts1 = ''.'' then (pv (tl ts1), tl (tl ts1)) else ('''', ts1))
              in Inr (\<lparr>r_variable = tvalue tok, r_property = prop, r_alias = '''', r_fn = None,
                       r_distinct = False\<rparr>, ts2))
       (\<lambda>(rv, ts3). if pv ts3 = ''AS'' then Inr (rv\<lparr>r_alias := pv (tl ts3)\<rparr>, tl (tl ts3)) else Inr (rv, ts3))"

lemma return_agg_arg_len:
  "return_agg_arg fn ts = Inr (rv, ts') \<Longrightarrow> length ts' \<le> length ts"
  by (auto simp: return_agg_arg_def Let_def split: if_splits dest!: expect_len)

lemma agg_of_Nil [simp]: "agg_of '''' = None"
  by (simp add: agg_of_def to_upper_def)

lemma parse_return_item_less:
  assumes "parse_return_item ts = Inr (rv, ts')"
  shows "length ts' < length ts"
proof (cases ts)
  case Nil
  then show ?thesis using assms by (simp add: parse_return_item_def)
next
  case (Cons t r)
  then show ?thesis using assms skip_len [of "''(''" r]
    by (auto simp: parse_return_item_def Let_def split: option.splits if_splits
        dest!: return_agg_arg_len)
qed

function parseReturn :: "token list \<Rightarrow> returnVar list \<Rightarrow> pq_error + returnVar list \<times> token list" where
  "parseReturn ts vars =
     bind_res (parse_return_item ts) (\<lambda>(rv, ts1).
       if pv ts1 \<noteq> '','' then Inr (vars @ [rv], ts1)
       else
         let ts2 = tl ts1 in
         if pv ts2 \<in> {''WHERE'', ''ORDER'', ''LIMIT'', ''MATCH''} then Inr (vars @ [rv], ts2)
         else parseReturn ts2 (vars @ [rv]))"
  by pat_completeness auto
termination
  by (relation "measure (\<lambda>(ts, vars). length ts)") (auto dest!: parse_return_item_less)

declare parseReturn.simps [simp del]

lemma parseReturn_less:
  "parseReturn ts vars = Inr (vs, ts') \<Longrightarrow> length ts' < length ts"
proof (induction ts vars rule: parseReturn.induct)
  case (1 ts vars)
  obtain rv ts1 where i: "parse_return_item ts = Inr (rv, ts1)"
    using "1.prems" by (subst (asm) parseReturn.simps) auto
  show ?case
    using "1.prems" "1.IH" [OF i refl] parse_return_item_less [OF i]
    by (subst (asm) parseReturn.simps) (auto simp: i Let_def split: if_splits)
qed

section \<open>ORDER BY and LIMIT\<close>

definition parse_order_target :: "token list \<Rightarrow> pq_error + string \<times> token list" where
  "parse_order_target ts =
     (if isAggFn (pv ts) then
        let fn = to_upper (pv ts); ts1 = skip ''('' (tl ts);
            (v, ts2) =
              (if pk ts1 = HOPS \<and> pv ts1 = '''' then (''*'', tl ts1)
               else let ts' = tl ts1 in
                 if pv ts' = ''.'' then (pv ts1 @ ''.'' @ pv (tl ts'), tl (tl ts')) else (pv ts1, ts'))
        in bind_res (expect '')'' ts2) (\<lambda>ts3. Inr (fn @ ''('' @ v @ '')'', ts3))
      else
        let ts1 = tl ts in
        if pv ts1 = ''.'' then Inr (pv ts @ ''.'' @ pv (tl ts1), tl (tl ts1)) else Inr (pv ts, ts1))"

definition parse_order :: "queryAST \<Rightarrow> token list \<Rightarrow> pq_error + queryAST \<times> token list" where
  "parse_order q ts0 =
     bind_res (parse_order_target (skip ''BY'' ts0)) (\<lambda>(ob, ts1).
       let q1 = q\<lparr>q_orderBy := ob\<rparr>;
           (q2, ts2) = (if pv ts1 = ''DESC'' then (q1\<lparr>q_orderDir := ''DESC''\<rparr>, tl ts1)
                        else if pv ts1 = ''ASC'' then (q1, tl ts1) else (q1, ts1))
       in if pv ts2 = '','' then Inl ErrMultiOrderBy else Inr (q2, ts2))"

definition parse_limit :: "token list \<Rightarrow> pq_error + int \<times> token list" where
  "parse_limit ts =
     (if pv ts = ''-'' then Inl ErrLimitNegative
      else if pk ts \<noteq> NUMBER then Inl (ErrLimitKind (pv ts) (pk ts))
      else if CHR ''.'' \<in> set (pv ts) \<or> CHR ''e'' \<in> set (pv ts) \<or> CHR ''E'' \<in> set (pv ts)
        then Inl (ErrLimitFloat (pv ts))
      else
        let (n, ok) = atoi (pv ts) in
        if \<not> ok then Inl (ErrLimitAtoi (pv ts))
        else if n < 0 then Inl (ErrLimitAtoi (pv ts))
        else Inr (n, tl ts))"

lemma parse_order_len: "parse_order q ts = Inr (q', ts') \<Longrightarrow> length ts' \<le> length ts"
  using skip_len [of "''BY''" ts] skip_len [of "''(''" "tl (skip ''BY'' ts)"]
  by (auto simp: parse_order_def parse_order_target_def Let_def split: if_splits dest!: expect_len)

lemma parse_limit_len: "parse_limit ts = Inr (n, ts') \<Longrightarrow> length ts' \<le> length ts"
  by (auto simp: parse_limit_def Let_def split: if_splits prod.splits)

section \<open>The clause loop\<close>

lemma parseProps_loop_len: "parseProps_loop ts ps = (ps', ts') \<Longrightarrow> length ts' \<le> length ts"
proof (induction ts ps arbitrary: ps' ts' rule: parseProps_loop.induct)
  case (1 ts props)
  show ?case
  proof (cases "pv ts \<noteq> ''}'' \<and> pk ts \<noteq> EOF")
    case True
    let ?ts1 = "skip '':'' (tl ts)" and ?ts2 = "skip '','' (tl (skip '':'' (tl ts)))"
    have "parseProps_loop ts props = parseProps_loop ?ts2 (AList.update (pv ts) (pv ?ts1) props)"
      using True by (subst parseProps_loop.simps) (simp add: Let_def)
    then have "length ts' \<le> length ?ts2" using "1.IH" [OF True refl refl refl, of ps' ts'] "1.prems" by simp
    moreover have "length ?ts2 \<le> length (tl ?ts1)" by (rule skip_len)
    moreover have "length ?ts1 \<le> length (tl ts)" by (rule skip_len)
    ultimately show ?thesis by simp
  next
    case False
    then show ?thesis using "1.prems" by (subst (asm) parseProps_loop.simps) auto
  qed
qed

lemma parseProps_len: "parseProps ts = Inr (ps, ts') \<Longrightarrow> length ts' \<le> length ts"
  using skip_len [of "''{''" ts]
  by (auto simp: parseProps_def split: prod.splits dest!: parseProps_loop_len expect_len)

lemma parse_node_len: "parse_node ts = Inr (n, ts') \<Longrightarrow> length ts' \<le> length ts"
  by (auto simp: parse_node_def Let_def split: if_splits prod.splits dest!: parseProps_len expect_len)

lemma parse_edge_kinds_len: "parse_edge_kinds ts = (ks, ts') \<Longrightarrow> length ts' \<le> length ts"
proof (induction ts arbitrary: ks ts' rule: parse_edge_kinds.induct)
  case (1 ts)
  show ?case
  proof (cases "pk ts = IDENT \<and> pv (tl ts) = ''|''")
    case True
    obtain ks1 ts1 where r: "parse_edge_kinds (tl (tl ts)) = (ks1, ts1)"
      by (cases "parse_edge_kinds (tl (tl ts))")
    then have "length ts1 \<le> length (tl (tl ts))" using "1.IH" True by blast
    moreover have "ts' = ts1"
      using "1.prems" True r by (subst (asm) parse_edge_kinds.simps) (simp add: Let_def)
    ultimately show ?thesis by simp
  next
    case False
    then show ?thesis using "1.prems"
      by (subst (asm) parse_edge_kinds.simps) (auto simp: Let_def split: if_splits)
  qed
qed

lemma parse_edge_bracket_len: "parse_edge_bracket ts = Inr (e, ts') \<Longrightarrow> length ts' \<le> length ts"
  by (auto simp: parse_edge_bracket_def Let_def split: if_splits prod.splits
      dest!: parse_edge_kinds_len expect_len)

lemma parse_arrow_len: "parse_arrow ts = Inr ts' \<Longrightarrow> length ts' \<le> length ts"
  by (auto simp: parse_arrow_def split: if_splits)

lemma parsePattern_len: "parsePattern ts = Inr (p, ts') \<Longrightarrow> length ts' \<le> length ts"
  using skip_len [of "''(''" ts]
  by (auto simp: parsePattern_def Let_def split: if_splits
      dest!: parse_node_len parse_edge_bracket_len parse_arrow_len)

lemma parseWhere_less: "parseWhere re ts = Inr (w, ts') \<Longrightarrow> length ts' < length ts"
  using where_parsers_less(1) [of re ts] by (simp add: parseWhere_def)

definition empty_query :: queryAST where
  "empty_query =
     \<lparr>q_patterns = [], q_conditions = [], q_where = None, q_returnVars = [], q_orderBy = '''',
      q_orderDir = '''', q_limit = -1, q_distinct = False\<rparr>"

text \<open>A parsed WHERE is ANDed to the earlier ones; the flat form is recomputed, nil when there is none.\<close>

definition add_where :: "queryAST \<Rightarrow> whereExpr \<Rightarrow> queryAST" where
  "add_where q w =
     (let w' = (case q_where q of None \<Rightarrow> w | Some w0 \<Rightarrow> BinE And_op w0 w)
      in q\<lparr>q_where := Some w',
           q_conditions := (case flattenWhere w' of None \<Rightarrow> [] | Some cs \<Rightarrow> cs)\<rparr>)"

definition clause_error :: "string \<Rightarrow> pq_error" where
  "clause_error bad =
     (if isCypherWriteKeyword bad then ErrWriteKeyword bad
      else if bad = '','' then ErrCommaPattern
      else if nearestClauseKeyword bad \<noteq> '''' then ErrDidYouMean bad (nearestClauseKeyword bad)
      else ErrUnexpected bad)"

function parse_clauses ::
    "regex \<Rightarrow> queryAST \<Rightarrow> bool \<Rightarrow> token list \<Rightarrow> pq_error + queryAST" where
  "parse_clauses re q seenReturn ts =
     (if ts = [] then Inr q
      else
        let v = pv ts; r = tl ts in
        if v = ''MATCH'' then
          bind_res (parsePattern r) (\<lambda>(pat, ts1).
            if pv ts1 = ''-'' \<or> pv ts1 = ''<'' then Inl ErrChainedEdge
            else parse_clauses re (q\<lparr>q_patterns := q_patterns q @ [pat]\<rparr>) seenReturn ts1)
        else if v = ''WHERE'' then
          (if seenReturn then Inl ErrWhereAfterReturn
           else bind_res (parseWhere re r) (\<lambda>(w, ts1). parse_clauses re (add_where q w) seenReturn ts1))
        else if v = ''RETURN'' then
          let d = (pv r = ''DISTINCT''); r1 = (if d then tl r else r) in
          bind_res (parseReturn r1 []) (\<lambda>(vars, ts1).
            parse_clauses re (q\<lparr>q_distinct := q_distinct q \<or> d, q_returnVars := vars\<rparr>) True ts1)
        else if v = ''ORDER'' then
          bind_res (parse_order q r) (\<lambda>(q', ts1). parse_clauses re q' seenReturn ts1)
        else if v = ''LIMIT'' then
          bind_res (parse_limit r) (\<lambda>(n, ts1). parse_clauses re (q\<lparr>q_limit := n\<rparr>) seenReturn ts1)
        else if v = ''WITH'' then Inl ErrWith
        else Inl (clause_error v))"
  by pat_completeness auto
termination
  by (relation "measure (\<lambda>(re, q, seen, ts). length ts)")
    (auto simp: neq_Nil_conv split: if_splits
      dest!: parsePattern_len parseWhere_less parseReturn_less parse_order_len parse_limit_len)

declare parse_clauses.simps [simp del]

definition parseQuery :: "regex \<Rightarrow> token list \<Rightarrow> pq_error + queryAST" where
  "parseQuery re ts =
     bind_res (parse_clauses re empty_query False ts) (\<lambda>q.
       if q_patterns q = [] then Inl ErrNoMatch
       else if q_returnVars q = [] then Inl ErrNoReturn
       else Inr q)"

text \<open>\<open>parse\<close>: \<open>None\<close> is the tokenizer's runtime panic.\<close>

definition parse :: "regex \<Rightarrow> string \<Rightarrow> (pq_error + queryAST) option" where
  "parse re query = map_option (parseQuery re) (tokenize query)"

end
