(* ===== verification/PinchQL_Eval.thy ===== *)
theory PinchQL_Eval
  imports PinchQL_Parser
begin

text \<open>
  The in-Go row evaluator of \<open>internal/cypher/engine.go\<close>: \<open>evalCondition\<close>, the \<open>eval\<close> methods of the
  three \<open>whereExpr\<close> shapes, \<open>matchesWhere\<close>, \<open>matchesConditions\<close>.

  A row (\<open>map[string]any\<close>) is an association list with distinct keys. \<open>float64\<close> is a type parameter with
  the operations the code uses of it, bundled in \<open>fops\<close>. \<open>fmt.Sprint\<close> is \<open>sprint\<close>: a nil prints as
  \<open><nil>\<close>, a map as \<open>map[k:v ...]\<close> in key order.
  The regular-expression cache is threaded as a state; \<open>None\<close> is the nil map.
\<close>

section \<open>Values and rows\<close>

record 'f fops =
  f_parse :: "string \<Rightarrow> 'f option"
  f_show :: "'f \<Rightarrow> string"
  f_lt :: "'f \<Rightarrow> 'f \<Rightarrow> bool"
  f_le :: "'f \<Rightarrow> 'f \<Rightarrow> bool"
  f_add :: "'f \<Rightarrow> 'f \<Rightarrow> 'f"
  f_div :: "'f \<Rightarrow> 'f \<Rightarrow> 'f"
  f_of_int :: "int \<Rightarrow> 'f"

datatype 'f val =
  VNil | VStr string | VInt int | VFloat 'f | VBool bool | VMap "(string \<times> 'f val) list"

type_synonym 'f row = "(string \<times> 'f val) list"

fun sprint :: "'f fops \<Rightarrow> 'f val \<Rightarrow> string" where
  "sprint F VNil = ''<nil>''"
| "sprint F (VStr s) = s"
| "sprint F (VInt i) = show_int i"
| "sprint F (VFloat f) = f_show F f"
| "sprint F (VBool b) = (if b then ''true'' else ''false'')"
| "sprint F (VMap m) =
     ''map['' @
     str_join '' '' (map (\<lambda>(k, s). k @ '':'' @ s) (sort_key fst (map (\<lambda>(k, v). (k, sprint F v)) m))) @
     '']''"

text \<open>\<open>row[key]\<close>: the zero value nil when the key is absent.\<close>

definition row_get :: "'f row \<Rightarrow> string \<Rightarrow> 'f val" where
  "row_get row key = (case map_of row key of None \<Rightarrow> VNil | Some v \<Rightarrow> v)"

text \<open>\<open>raw, present := row[key]; !present || raw == nil\<close>\<close>

definition row_nil :: "'f row \<Rightarrow> string \<Rightarrow> bool" where
  "row_nil row key = (case map_of row key of None \<Rightarrow> True | Some VNil \<Rightarrow> True | _ \<Rightarrow> False)"

lemma row_nil_get: "row_nil row key \<longleftrightarrow> row_get row key = VNil"
  by (auto simp: row_nil_def row_get_def split: option.splits val.splits)

section \<open>Leaf conditions\<close>

type_synonym re_cache = "(string \<rightharpoonup> (string \<Rightarrow> bool)) option"

text \<open>The body of the \<open>=~\<close> case: look up, compile, store.\<close>

definition eval_regex :: "regex \<Rightarrow> string \<Rightarrow> string \<Rightarrow> re_cache \<Rightarrow> bool \<times> re_cache" where
  "eval_regex re pat actual cache =
     (case (case cache of None \<Rightarrow> None | Some m \<Rightarrow> m pat) of
        Some f \<Rightarrow> (f actual, cache)
      | None \<Rightarrow>
          (case re pat of
             None \<Rightarrow> (False, cache)
           | Some f \<Rightarrow> (f actual, map_option (\<lambda>m. m(pat \<mapsto> f)) cache)))"

definition eval_number ::
    "'f fops \<Rightarrow> ('f \<Rightarrow> 'f \<Rightarrow> bool) \<Rightarrow> string \<Rightarrow> string \<Rightarrow> bool" where
  "eval_number F cmp actual value =
     (case (f_parse F actual, f_parse F value) of (Some a, Some b) \<Rightarrow> cmp a b | _ \<Rightarrow> False)"

definition bool_zero :: "string \<Rightarrow> string \<Rightarrow> bool" where
  "bool_zero property value \<longleftrightarrow> isBoolCol (cypherPropToCol property) \<and> value \<in> {''false'', ''0''}"

definition eval_eq :: "bool \<Rightarrow> string \<Rightarrow> string \<Rightarrow> string \<Rightarrow> bool" where
  "eval_eq isNullRow property actual value =
     (if isNullRow \<and> value = '''' then True
      else if isNullRow \<and> bool_zero property value then True
      else if actual = value then True
      else boolCoerceEqual actual value)"

definition eval_ne :: "bool \<Rightarrow> string \<Rightarrow> string \<Rightarrow> string \<Rightarrow> bool" where
  "eval_ne isNullRow property actual value =
     (if isNullRow then
        (if value = '''' then False else if bool_zero property value then False else True)
      else if actual = value then False
      else \<not> boolCoerceEqual actual value)"

definition evalCondition ::
    "'f fops \<Rightarrow> regex \<Rightarrow> 'f row \<Rightarrow> condition \<Rightarrow> re_cache \<Rightarrow> bool \<times> re_cache" where
  "evalCondition F re row c cache =
     (if c_rhsProperty c \<noteq> '''' then (True, cache)
      else
        let key = c_variable c @ ''.'' @ c_property c;
            actual = sprint F (row_get row key);
            missing = row_nil row key;
            isNullRow = (missing \<or> actual = ''<nil>'')
        in case c_op c of
             OpEq \<Rightarrow> (eval_eq isNullRow (c_property c) actual (c_value c), cache)
           | OpNe \<Rightarrow> (eval_ne isNullRow (c_property c) actual (c_value c), cache)
           | OpRe \<Rightarrow> eval_regex re (c_value c) actual cache
           | OpContains \<Rightarrow> (str_contains actual (c_value c), cache)
           | OpStarts \<Rightarrow> (has_prefix actual (c_value c), cache)
           | OpEnds \<Rightarrow> (has_suffix actual (c_value c), cache)
           | OpIsNull \<Rightarrow> (missing \<or> actual = '''' \<or> actual = ''<nil>'', cache)
           | OpIsNotNull \<Rightarrow> (\<not> missing \<and> actual \<noteq> '''' \<and> actual \<noteq> ''<nil>'', cache)
           | OpIn \<Rightarrow>
               (if missing then False
                else list_ex (\<lambda>v. actual = v \<or> boolCoerceEqual actual v) (c_inValues c), cache)
           | OpGt \<Rightarrow> (eval_number F (\<lambda>a b. f_lt F b a) actual (c_value c), cache)
           | OpLt \<Rightarrow> (eval_number F (f_lt F) actual (c_value c), cache)
           | OpGe \<Rightarrow> (eval_number F (\<lambda>a b. f_le F b a) actual (c_value c), cache)
           | OpLe \<Rightarrow> (eval_number F (f_le F) actual (c_value c), cache)
           | OpNone \<Rightarrow> (False, cache))"

section \<open>Trees and flat lists\<close>

fun eval_where ::
    "'f fops \<Rightarrow> regex \<Rightarrow> 'f row \<Rightarrow> whereExpr \<Rightarrow> re_cache \<Rightarrow> bool \<times> re_cache" where
  "eval_where F re row (CondE c) cache =
     (let (r, cache') = evalCondition F re row c cache
      in (if c_negated c then \<not> r else r, cache'))"
| "eval_where F re row (BinE op l r) cache =
     (let (b, cache') = eval_where F re row l cache in
      case op of
        Or_op \<Rightarrow> if b then (True, cache') else eval_where F re row r cache'
      | And_op \<Rightarrow> if b then eval_where F re row r cache' else (False, cache'))"
| "eval_where F re row (NotE w) cache =
     (let (b, cache') = eval_where F re row w cache in (\<not> b, cache'))"

definition matchesWhere ::
    "'f fops \<Rightarrow> regex \<Rightarrow> 'f row \<Rightarrow> whereExpr option \<Rightarrow> re_cache \<Rightarrow> bool \<times> re_cache" where
  "matchesWhere F re row w cache =
     (case w of None \<Rightarrow> (True, cache) | Some e \<Rightarrow> eval_where F re row e cache)"

definition signed_eval ::
    "'f fops \<Rightarrow> regex \<Rightarrow> 'f row \<Rightarrow> condition \<Rightarrow> re_cache \<Rightarrow> bool \<times> re_cache" where
  "signed_eval F re row c cache =
     (let (r, cache') = evalCondition F re row c cache in (if c_negated c then \<not> r else r, cache'))"

fun conditions_loop ::
    "'f fops \<Rightarrow> regex \<Rightarrow> 'f row \<Rightarrow> bool \<Rightarrow> condition list \<Rightarrow> re_cache \<Rightarrow> bool \<times> re_cache" where
  "conditions_loop F re row result [] cache = (result, cache)"
| "conditions_loop F re row result (c # cs) cache =
     (let (matched, cache') = signed_eval F re row c cache
      in conditions_loop F re row
           (case c_connector c of Some Or_op \<Rightarrow> result \<or> matched | _ \<Rightarrow> result \<and> matched) cs cache')"

definition matchesConditionsWithCache ::
    "'f fops \<Rightarrow> regex \<Rightarrow> 'f row \<Rightarrow> condition list \<Rightarrow> re_cache \<Rightarrow> bool \<times> re_cache" where
  "matchesConditionsWithCache F re row conds cache =
     (case conds of
        [] \<Rightarrow> (True, cache)
      | c # cs \<Rightarrow> (let (r, cache') = signed_eval F re row c cache
                  in conditions_loop F re row r cs cache'))"

definition matchesConditions :: "'f fops \<Rightarrow> regex \<Rightarrow> 'f row \<Rightarrow> condition list \<Rightarrow> bool" where
  "matchesConditions F re row conds = fst (matchesConditionsWithCache F re row conds None)"

section \<open>The cache is transparent\<close>

text \<open>A cache is coherent when it only holds what compiling the pattern gives.\<close>

definition coherent :: "regex \<Rightarrow> re_cache \<Rightarrow> bool" where
  "coherent re cache = (\<forall>m pat f. cache = Some m \<longrightarrow> m pat = Some f \<longrightarrow> re pat = Some f)"

lemma coherent_None [simp]: "coherent re None"
  by (simp add: coherent_def)

lemma coherent_empty [simp]: "coherent re (Some Map.empty)"
  by (simp add: coherent_def)

definition leaf :: "'f fops \<Rightarrow> regex \<Rightarrow> 'f row \<Rightarrow> condition \<Rightarrow> bool" where
  "leaf F re row c = fst (evalCondition F re row c None)"

lemma eval_regex_cache:
  "coherent re cache \<Longrightarrow>
     fst (eval_regex re pat a cache) = fst (eval_regex re pat a None) \<and>
     coherent re (snd (eval_regex re pat a cache))"
  by (auto simp: eval_regex_def coherent_def split: option.splits)

lemma evalCondition_cache:
  "coherent re cache \<Longrightarrow>
     fst (evalCondition F re row c cache) = leaf F re row c \<and>
     coherent re (snd (evalCondition F re row c cache))"
proof (cases "c_op c = OpRe \<and> c_rhsProperty c = ''''")
  case True
  then show "coherent re cache \<Longrightarrow> ?thesis"
    using eval_regex_cache [of re cache "c_value c"] by (auto simp: evalCondition_def leaf_def Let_def)
next
  case False
  then show "coherent re cache \<Longrightarrow> ?thesis"
    by (cases "c_op c") (auto simp: evalCondition_def leaf_def Let_def)
qed

lemma evalCondition_pair:
  assumes "coherent re cache"
  obtains cache' where "evalCondition F re row c cache = (leaf F re row c, cache')" "coherent re cache'"
  using evalCondition_cache [OF assms, of F row c] by (cases "evalCondition F re row c cache") simp

lemma signed_eval_pair:
  assumes "coherent re cache"
  obtains cache' where "signed_eval F re row c cache = (signed (leaf F re row) c, cache')" "coherent re cache'"
proof (rule evalCondition_pair [OF assms])
  fix cache'
  assume "evalCondition F re row c cache = (leaf F re row c, cache')" "coherent re cache'"
  then show thesis by (intro that [of cache']) (simp_all add: signed_eval_def signed_def)
qed

lemma eval_where_pair:
  "coherent re cache \<Longrightarrow>
     \<exists>cache'. eval_where F re row w cache = (eval_tree (leaf F re row) w, cache') \<and> coherent re cache'"
proof (induction w arbitrary: cache)
  case (CondE c)
  then show ?case
    by (auto simp: signed_def intro: evalCondition_pair [of re cache F row c])
next
  case (BinE op l r)
  obtain c1 where l: "eval_where F re row l cache = (eval_tree (leaf F re row) l, c1)" "coherent re c1"
    using BinE by blast
  obtain c2 where r: "eval_where F re row r c1 = (eval_tree (leaf F re row) r, c2)" "coherent re c2"
    using BinE.IH(2) [OF l(2)] by blast
  show ?case using l r by (cases op; cases "eval_tree (leaf F re row) l") auto
next
  case (NotE w)
  then show ?case by (fastforce simp: Let_def)
qed

lemma matchesWhere_pair:
  "coherent re cache \<Longrightarrow>
     fst (matchesWhere F re row w cache) = eval_opt (leaf F re row) w \<and>
     coherent re (snd (matchesWhere F re row w cache))"
proof (cases w)
  case (Some e)
  then show "coherent re cache \<Longrightarrow> ?thesis"
    using eval_where_pair [of re cache F row e] by (auto simp: matchesWhere_def eval_opt_def)
qed (simp add: matchesWhere_def eval_opt_def)

lemma conditions_loop_pair:
  "coherent re cache \<Longrightarrow>
     fst (conditions_loop F re row r cs cache) = foldl (flat_step (leaf F re row)) r cs"
proof (induction cs arbitrary: r cache)
  case (Cons c cs)
  obtain c1 where "signed_eval F re row c cache = (signed (leaf F re row) c, c1)" "coherent re c1"
    using signed_eval_pair [OF Cons.prems] by blast
  then show ?case using Cons.IH by (simp add: flat_step_def)
qed simp

lemma matchesConditions_pure: "matchesConditions F re row conds = eval_flat (leaf F re row) conds"
proof (cases conds)
  case (Cons c cs)
  obtain c1 where "signed_eval F re row c None = (signed (leaf F re row) c, c1)" "coherent re c1"
    using signed_eval_pair [of re None F row c] by auto
  then show ?thesis using Cons conditions_loop_pair [of re c1]
    by (simp add: matchesConditions_def matchesConditionsWithCache_def eval_flat_def)
qed (simp add: matchesConditions_def matchesConditionsWithCache_def eval_flat_def)

section \<open>The evaluator is a leaf semantics\<close>

lemma leaf_connector_irrelevant: "leaf F re row (c\<lparr>c_connector := k\<rparr>) = leaf F re row c"
  by (simp add: leaf_def evalCondition_def Let_def split: cmp_op.split)

interpretation row_leaf: leaf_semantics "leaf F re row" for F re row
  by unfold_locales (rule leaf_connector_irrelevant)

section \<open>Properties of the evaluator\<close>

lemma boolNorm_nil [simp]: "boolNorm ''<nil>'' = None" "boolNorm '''' = None"
  by (simp_all add: boolNorm_def)

lemma row_nil_sprint: "row_nil row key \<Longrightarrow> sprint F (row_get row key) = ''<nil>''"
  by (simp add: row_nil_get)

definition null_row :: "'f fops \<Rightarrow> 'f row \<Rightarrow> condition \<Rightarrow> bool" where
  "null_row F row c \<longleftrightarrow> sprint F (row_get row (c_variable c @ ''.'' @ c_property c)) = ''<nil>''"

text \<open>
  \<open>=\<close> and \<open><>\<close> partition the rows: whatever the row holds (missing key, nil, any value), exactly one of
  \<open>x = v\<close> and \<open>x <> v\<close> holds, with a single exception: a NULL row and the literal \<open>"<nil>"\<close>, which satisfies both.
\<close>
theorem eq_ne_partition:
  assumes "c_rhsProperty c = ''''"
  shows "(leaf F re row (c\<lparr>c_op := OpEq\<rparr>) \<longleftrightarrow> \<not> leaf F re row (c\<lparr>c_op := OpNe\<rparr>)) \<longleftrightarrow>
     \<not> (null_row F row c \<and> c_value c = ''<nil>'')"
proof -
  let ?k = "c_variable c @ ''.'' @ c_property c"
  have "row_nil row ?k \<Longrightarrow> sprint F (row_get row ?k) = ''<nil>''" by (rule row_nil_sprint)
  then show ?thesis using assms
    by (cases "sprint F (row_get row ?k) = ''<nil>''")
      (auto simp: leaf_def evalCondition_def Let_def null_row_def eval_eq_def eval_ne_def boolCoerceEqual_def
        bool_zero_def split: if_splits)
qed

definition unit_fops :: "unit fops" where
  "unit_fops = \<lparr>f_parse = (\<lambda>_. None), f_show = (\<lambda>_. ''0''), f_lt = (\<lambda>_ _. False), f_le = (\<lambda>_ _. True),
     f_add = (\<lambda>_ _. ()), f_div = (\<lambda>_ _. ()), f_of_int = (\<lambda>_. ())\<rparr>"

lemma eq_ne_partition_witness:
  "(leaf unit_fops (\<lambda>_. None) [(''n.name'', VStr ''a'')] (empty_condition\<lparr>c_variable := ''n'',
       c_property := ''name'', c_value := ''b'', c_op := OpEq\<rparr>) \<longleftrightarrow>
     \<not> leaf unit_fops (\<lambda>_. None) [(''n.name'', VStr ''a'')] (empty_condition\<lparr>c_variable := ''n'',
       c_property := ''name'', c_value := ''b'', c_op := OpNe\<rparr>)) \<longleftrightarrow>
   \<not> (null_row unit_fops [(''n.name'', VStr ''a'')] (empty_condition\<lparr>c_variable := ''n'',
       c_property := ''name'', c_value := ''b''\<rparr>) \<and> ''b'' = ''<nil>'')"
  using eq_ne_partition [of "empty_condition\<lparr>c_variable := ''n'', c_property := ''name'', c_value := ''b''\<rparr>"
      unit_fops "\<lambda>_. None" "[(''n.name'', VStr ''a'')]"]
  by (simp add: empty_condition_def)

text \<open>
  The flat condition list and the tree agree: whenever \<open>flattenWhere\<close> succeeds, \<open>matchesConditions\<close> on
  the flat list decides every row as \<open>matchesWhere\<close> on the tree, with or without a cache.
\<close>
theorem flat_tree_agree:
  assumes "flattenWhere w = Some cs" and "coherent re cache"
  shows "matchesConditions F re row cs = fst (matchesWhere F re row (Some w) cache)"
  using row_leaf.flatten_sound [OF assms(1), of F re row] matchesWhere_pair [OF assms(2), of F row "Some w"]
  by (simp add: matchesConditions_pure eval_opt_def)

lemma flat_tree_agree_witness:
  "matchesConditions unit_fops (\<lambda>_. None) [(''n.name'', VStr ''a'')]
      [empty_condition\<lparr>c_op := OpIsNull\<rparr>, empty_condition\<lparr>c_op := OpIsNotNull, c_connector := Some Or_op\<rparr>] =
   fst (matchesWhere unit_fops (\<lambda>_. None) [(''n.name'', VStr ''a'')]
      (Some (BinE Or_op (CondE (empty_condition\<lparr>c_op := OpIsNull\<rparr>)) (CondE (empty_condition\<lparr>c_op := OpIsNotNull\<rparr>))))
      (Some Map.empty))"
  by (rule flat_tree_agree) (simp_all add: empty_condition_def)

text \<open>
  Comparing with the empty literal is the NULL test, and \<open>IS NOT NULL\<close> is its complement: for every row,
  \<open>x = ""\<close> holds iff \<open>x IS NULL\<close> holds iff \<open>x IS NOT NULL\<close> fails.
\<close>
theorem null_tests:
  "leaf F re row (c\<lparr>c_rhsProperty := '''', c_op := OpEq, c_value := ''''\<rparr>) =
     leaf F re row (c\<lparr>c_rhsProperty := '''', c_op := OpIsNull\<rparr>) \<and>
   leaf F re row (c\<lparr>c_rhsProperty := '''', c_op := OpIsNull\<rparr>) =
     (\<not> leaf F re row (c\<lparr>c_rhsProperty := '''', c_op := OpIsNotNull\<rparr>))"
  by (auto simp: leaf_def evalCondition_def Let_def eval_eq_def boolCoerceEqual_def split: option.splits)

text \<open>
  A NULL cell is compared as the text \<open><nil>\<close>: on a row whose property is missing, CONTAINS holds for every
  substring of \<open><nil>\<close> (and a regular expression is matched against it), although IS NULL holds as well.
\<close>
theorem null_matches_nil_text:
  assumes "row_nil row (c_variable c @ ''.'' @ c_property c)" and "c_rhsProperty c = ''''"
  shows "leaf F re row (c\<lparr>c_op := OpContains\<rparr>) = str_contains ''<nil>'' (c_value c) \<and>
         leaf F re row (c\<lparr>c_op := OpIsNull\<rparr>) \<and>
         leaf F re row (c\<lparr>c_op := OpRe\<rparr>) = (case re (c_value c) of None \<Rightarrow> False | Some f \<Rightarrow> f ''<nil>'')"
  using assms row_nil_sprint [OF assms(1), of F]
  by (auto simp: leaf_def evalCondition_def Let_def eval_regex_def split: option.split)

lemma null_matches_nil_text_witness:
  "leaf unit_fops (\<lambda>_. None) [] (empty_condition\<lparr>c_value := ''nil'', c_op := OpContains\<rparr>) =
     str_contains ''<nil>'' ''nil'' \<and>
   leaf unit_fops (\<lambda>_. None) [] (empty_condition\<lparr>c_value := ''nil'', c_op := OpIsNull\<rparr>) \<and>
   leaf unit_fops (\<lambda>_. None) [] (empty_condition\<lparr>c_value := ''nil'', c_op := OpRe\<rparr>) = False"
  using null_matches_nil_text [of "[] :: unit row" "empty_condition\<lparr>c_value := ''nil''\<rparr>" unit_fops "\<lambda>_. None"]
  by (simp add: row_nil_def empty_condition_def)

end
