(* ===== verification/PinchQL_Sql.thy ===== *)
theory PinchQL_Sql
  imports PinchQL_Eval
begin

text \<open>
  Translation of patterns and conditions to SQL text in \<open>internal/cypher/engine.go\<close>: inline property
  filters, \<open>condLeafToSQL\<close>, \<open>whereExprToSQL\<close>, \<open>appendWhereOp\<close>, the ORDER BY and LIMIT choices. A Go function that
  appends to \<open>*sqlQ\<close> and \<open>*args\<close> returns the text and the arguments it appends.
  The second half reads the emitted text back as a boolean expression with SQL's three-valued logic and
  compares it with the in-Go evaluator.
\<close>

datatype sqlarg = AStr string | AInt int

type_synonym sqlfrag = "string \<times> sqlarg list"

section \<open>Fragments\<close>

definition inPlaceholders :: "nat \<Rightarrow> string" where
  "inPlaceholders n = (let s = concat (replicate n ''?,'') in take (length s - 1) s)"

text \<open>One round of the \<open>appendInlinePropFilters\<close> loop, then the loop.\<close>

definition inline_prop_filter :: "string \<Rightarrow> string \<times> string \<Rightarrow> sqlfrag" where
  "inline_prop_filter prefix kv =
     (let (k, v) = kv; col = cypherPropToCol k in
      if col = '''' then ('' AND 1=0'', [])
      else ('' AND '' @ prefix @ col @ ''=?'', [AStr (if isBoolCol col then coerceBoolLiteral v else v)]))"

definition appendInlinePropFilters :: "string \<Rightarrow> (string \<times> string) list \<Rightarrow> sqlfrag" where
  "appendInlinePropFilters prefix props =
     (concat (map (fst \<circ> inline_prop_filter prefix) props),
      concat (map (snd \<circ> inline_prop_filter prefix) props))"

definition matchesInlineProps ::
    "'f fops \<Rightarrow> 'f row \<Rightarrow> string \<Rightarrow> (string \<times> string) list \<Rightarrow> bool" where
  "matchesInlineProps F m variable props =
     list_all (\<lambda>(k, want).
       let col = cypherPropToCol k in
       if col = '''' then False
       else
         let got = sprint F (row_get m (variable @ ''.'' @ k)) in
         if isBoolCol col then boolCoerceEqual got want else got = want) props"

definition like_clause :: "string \<Rightarrow> string" where
  "like_clause lhs = lhs @ '' LIKE ? ESCAPE '' @ [sq, bsl, sq]"

definition cond_inner :: "string \<Rightarrow> string \<Rightarrow> condition \<Rightarrow> sqlfrag option" where
  "cond_inner prefix col c =
     (let val = (if isBoolCol col then coerceBoolLiteral (c_value c) else c_value c);
          lhs = prefix @ col
      in case c_op c of
           OpEq \<Rightarrow>
             Some (if isZeroValuePredicate col val
                   then ''('' @ lhs @ '' IS NULL OR '' @ lhs @ ''=?)'' else lhs @ ''=?'', [AStr val])
         | OpNe \<Rightarrow>
             Some (if isZeroValuePredicate col val
                   then ''('' @ lhs @ '' IS NOT NULL AND '' @ lhs @ ''<>?)''
                   else ''('' @ lhs @ '' IS NULL OR '' @ lhs @ ''<>?)'', [AStr val])
         | OpGt \<Rightarrow> Some (lhs @ ''>?'', [AStr val])
         | OpLt \<Rightarrow> Some (lhs @ ''<?'', [AStr val])
         | OpGe \<Rightarrow> Some (lhs @ ''>=?'', [AStr val])
         | OpLe \<Rightarrow> Some (lhs @ ''<=?'', [AStr val])
         | OpContains \<Rightarrow>
             Some (like_clause lhs, [AStr (''%'' @ escapeLikePattern (c_value c) @ ''%'')])
         | OpStarts \<Rightarrow> Some (like_clause lhs, [AStr (escapeLikePattern (c_value c) @ ''%'')])
         | OpEnds \<Rightarrow> Some (like_clause lhs, [AStr (''%'' @ escapeLikePattern (c_value c))])
         | OpIsNull \<Rightarrow> Some (''('' @ lhs @ '' IS NULL OR '' @ lhs @ '' = '' @ [sq, sq] @ '')'', [])
         | OpIsNotNull \<Rightarrow> Some (''('' @ lhs @ '' IS NOT NULL AND '' @ lhs @ '' <> '' @ [sq, sq] @ '')'', [])
         | OpIn \<Rightarrow>
             if c_inValues c = [] then None
             else Some (lhs @ '' IN ('' @ str_join '','' (map (\<lambda>_. ''?'') (c_inValues c)) @ '')'',
                        map (\<lambda>v. AStr (if isBoolCol col then coerceBoolLiteral v else v)) (c_inValues c))
         | OpRe \<Rightarrow> None
         | OpNone \<Rightarrow> None)"

definition condLeafToSQL :: "string \<Rightarrow> string \<Rightarrow> condition \<Rightarrow> sqlfrag option" where
  "condLeafToSQL prefix col c =
     (case cond_inner prefix col c of
        None \<Rightarrow> None
      | Some (inner, args) \<Rightarrow>
          Some (if c_negated c then ''NOT ('' @ inner @ '')'' else inner, args))"

definition appendWhereOp :: "string \<Rightarrow> string \<Rightarrow> condition \<Rightarrow> sqlfrag" where
  "appendWhereOp prefix col c =
     (case condLeafToSQL prefix col c of
        None \<Rightarrow> ('''', [])
      | Some (inner, args) \<Rightarrow>
          if c_negated c then
            ('' AND NOT ('' @ trim_suffix (trim_prefix inner ''NOT ('') '')'' @ '')'', args)
          else ('' AND '' @ inner, args))"

definition scanLimitFor :: "int \<Rightarrow> whereExpr option \<Rightarrow> int" where
  "scanLimitFor maxRows filt =
     (case filt of
        None \<Rightarrow> maxRows * 2
      | Some _ \<Rightarrow> (let limit = maxRows * 50 in if limit > 10000 then 10000 else limit))"

fun pushableOp :: "cmp_op \<Rightarrow> bool" where
  "pushableOp OpNone = False" | "pushableOp OpRe = False" | "pushableOp OpIn = False"
| "pushableOp _ = True"

fun whereExprToSQL :: "(string \<Rightarrow> string option) \<Rightarrow> whereExpr \<Rightarrow> sqlfrag option" where
  "whereExprToSQL prefixFor (CondE c) =
     (if c_rhsProperty c \<noteq> '''' then None
      else (case prefixFor (c_variable c) of
              None \<Rightarrow> None
            | Some prefix \<Rightarrow>
                let col = cypherPropToCol (c_property c) in
                if col = '''' then None else condLeafToSQL prefix col c))"
| "whereExprToSQL prefixFor (BinE op l r) =
     (case whereExprToSQL prefixFor l of
        None \<Rightarrow> None
      | Some (ls, la) \<Rightarrow>
          (case whereExprToSQL prefixFor r of
             None \<Rightarrow> None
           | Some (rs, ra) \<Rightarrow>
               Some (''('' @ ls @ (case op of Or_op \<Rightarrow> '' OR '' | And_op \<Rightarrow> '' AND '') @ rs @ '')'', la @ ra)))"
| "whereExprToSQL prefixFor (NotE w) =
     (case whereExprToSQL prefixFor w of
        None \<Rightarrow> None | Some (s, a) \<Rightarrow> Some (''NOT ('' @ s @ '')'', a))"

section \<open>ORDER BY targets\<close>

definition orderByCol :: "string \<Rightarrow> string \<Rightarrow> string" where
  "orderByCol orderBy fromVar =
     (let ob = (case str_index orderBy ''.'' of None \<Rightarrow> orderBy | Some i \<Rightarrow> drop (Suc i) orderBy)
      in if str_contains ob ''('' then '''' else cypherPropToCol ob)"

definition resolveOrderByAlias :: "string \<Rightarrow> returnVar list \<Rightarrow> string" where
  "resolveOrderByAlias orderBy rvs =
     (if orderBy = '''' then orderBy
      else case List.find (\<lambda>rv. r_alias rv \<noteq> '''' \<and> r_alias rv = orderBy \<and>
                           r_variable rv \<noteq> '''' \<and> r_property rv \<noteq> '''') rvs of
             Some rv \<Rightarrow> r_variable rv @ ''.'' @ r_property rv
           | None \<Rightarrow> orderBy)"

definition joinOrderByCol :: "string \<Rightarrow> pattern \<Rightarrow> string \<times> string" where
  "joinOrderByCol orderBy pat =
     (let (v, prop) = (case str_index orderBy ''.'' of
                         None \<Rightarrow> ('''', orderBy)
                       | Some i \<Rightarrow> (take i orderBy, drop (Suc i) orderBy))
      in if str_contains prop ''('' then ('''', '''')
         else
           let c = cypherPropToCol prop in
           if c = '''' then ('''', '''')
           else if v = p_fromVar pat then (''a.'', c)
           else if v = p_toVar pat then (''b.'', c)
           else ('''', ''''))"

section \<open>The emitted text never depends on literals\<close>

text \<open>The number of \<open>?\<close> placeholders, for comparison with the bind arguments.\<close>

definition holes :: "string \<Rightarrow> nat" where
  "holes s = length (filter (\<lambda>c. c = CHR ''?'') s)"

lemma holes_append [simp]: "holes (s @ t) = holes s + holes t"
  by (simp add: holes_def)

lemma holes_Cons [simp]: "holes (c # s) = (if c = CHR ''?'' then 1 else 0) + holes s"
  by (simp add: holes_def)

lemma holes_Nil [simp]: "holes [] = 0"
  by (simp add: holes_def)

lemma holes_join: "holes (str_join '','' (map (\<lambda>_. ''?'') xs)) = length xs"
proof (induction xs)
  case (Cons x xs)
  then show ?case by (cases xs) auto
qed simp

lemma prop_cols_holes: "holes (cypherPropToCol p) = 0"
proof (cases "map_of prop_cols p")
  case None
  then show ?thesis by (simp add: cypherPropToCol_def)
next
  case (Some col)
  then have "(p, col) \<in> set prop_cols" by (rule map_of_SomeD)
  moreover have "\<forall>(k, c) \<in> set prop_cols. holes c = 0" by (simp add: prop_cols_def)
  ultimately show ?thesis using Some by (auto simp: cypherPropToCol_def)
qed

lemma cond_inner_holes:
  "cond_inner prefix col c = Some (s, args) \<Longrightarrow> holes prefix = 0 \<Longrightarrow> holes col = 0 \<Longrightarrow> holes s = length args"
  by (cases "c_op c") (auto simp: cond_inner_def Let_def like_clause_def holes_join split: if_splits)

lemma condLeafToSQL_holes:
  "condLeafToSQL prefix col c = Some (s, args) \<Longrightarrow> holes prefix = 0 \<Longrightarrow> holes col = 0 \<Longrightarrow> holes s = length args"
  by (auto simp: condLeafToSQL_def cond_inner_holes split: option.splits if_splits)

lemma whereExprToSQL_holes:
  "whereExprToSQL pf w = Some (s, args) \<Longrightarrow> (\<And>v p. pf v = Some p \<Longrightarrow> holes p = 0) \<Longrightarrow> holes s = length args"
proof (induction w arbitrary: s args)
  case (CondE c)
  then show ?case using condLeafToSQL_holes [OF _ _ prop_cols_holes]
    by (auto simp: Let_def split: if_splits option.splits)
next
  case (BinE op l r)
  then show ?case by (auto split: option.splits boolop.splits)
next
  case (NotE w)
  then show ?case by (auto split: option.splits)
qed

text \<open>Replacing every literal of a condition, or of a tree, by another of the same shape.\<close>

definition relit_cond :: "(string \<Rightarrow> string) \<Rightarrow> condition \<Rightarrow> condition" where
  "relit_cond f c = c\<lparr>c_value := f (c_value c), c_inValues := map f (c_inValues c)\<rparr>"

fun relit :: "(string \<Rightarrow> string) \<Rightarrow> whereExpr \<Rightarrow> whereExpr" where
  "relit f (CondE c) = CondE (relit_cond f c)"
| "relit f (BinE op l r) = BinE op (relit f l) (relit f r)"
| "relit f (NotE w) = NotE (relit f w)"

definition keeps_zero :: "(string \<Rightarrow> string) \<Rightarrow> bool" where
  "keeps_zero f \<longleftrightarrow> (\<forall>v. (f v = '''') = (v = '''') \<and> (coerceBoolLiteral (f v) = ''0'') = (coerceBoolLiteral v = ''0''))"

lemma coerceBoolLiteral_empty [simp]: "coerceBoolLiteral v = '''' \<longleftrightarrow> v = ''''"
  by (auto simp: coerceBoolLiteral_def to_lower_def)

lemma keeps_zero_col:
  assumes "keeps_zero f"
  shows "isZeroValuePredicate col (if isBoolCol col then coerceBoolLiteral (f v) else f v) =
     isZeroValuePredicate col (if isBoolCol col then coerceBoolLiteral v else v)"
proof -
  have "f v = '''' \<longleftrightarrow> v = ''''" "coerceBoolLiteral (f v) = ''0'' \<longleftrightarrow> coerceBoolLiteral v = ''0''"
    using assms by (simp_all add: keeps_zero_def)
  then show ?thesis by (simp add: isZeroValuePredicate_def)
qed

lemma cond_inner_relit:
  "keeps_zero f \<Longrightarrow> map_option fst (cond_inner p col (relit_cond f c)) = map_option fst (cond_inner p col c)"
  using keeps_zero_col [of f col "c_value c"]
  by (cases "isBoolCol col"; cases "c_op c") (simp_all add: cond_inner_def relit_cond_def Let_def comp_def)

lemma condLeafToSQL_fst:
  "map_option fst (condLeafToSQL p col c) =
     map_option (\<lambda>s. if c_negated c then ''NOT ('' @ s @ '')'' else s) (map_option fst (cond_inner p col c))"
  by (simp add: condLeafToSQL_def split: option.split)

lemma condLeafToSQL_relit:
  assumes "keeps_zero f"
  shows "map_option fst (condLeafToSQL p col (relit_cond f c)) = map_option fst (condLeafToSQL p col c)"
proof -
  have "c_negated (relit_cond f c) = c_negated c" by (simp add: relit_cond_def)
  then show ?thesis unfolding condLeafToSQL_fst cond_inner_relit [OF assms] by simp
qed

lemma whereExprToSQL_fst_bin:
  "map_option fst (whereExprToSQL pf (BinE op l r)) =
     (case (map_option fst (whereExprToSQL pf l), map_option fst (whereExprToSQL pf r)) of
        (Some ls, Some rs) \<Rightarrow> Some (''('' @ ls @ (case op of Or_op \<Rightarrow> '' OR '' | And_op \<Rightarrow> '' AND '') @ rs @ '')'')
      | _ \<Rightarrow> None)"
  by (auto split: option.splits)

lemma whereExprToSQL_fst_not:
  "map_option fst (whereExprToSQL pf (NotE w)) =
     map_option (\<lambda>s. ''NOT ('' @ s @ '')'') (map_option fst (whereExprToSQL pf w))"
  by (auto split: option.splits)

lemma whereExprToSQL_relit:
  "keeps_zero f \<Longrightarrow>
     map_option fst (whereExprToSQL pf (relit f w)) = map_option fst (whereExprToSQL pf w)"
proof (induction w)
  case (CondE c)
  have "c_rhsProperty (relit_cond f c) = c_rhsProperty c" "c_variable (relit_cond f c) = c_variable c"
    "c_property (relit_cond f c) = c_property c" by (simp_all add: relit_cond_def)
  then show ?case using condLeafToSQL_relit [OF CondE] by (auto simp: Let_def split: option.split)
next
  case (BinE op l r)
  then show ?case unfolding relit.simps whereExprToSQL_fst_bin by simp
next
  case (NotE w)
  then show ?case unfolding relit.simps whereExprToSQL_fst_not by simp
qed

text \<open>
  The SQL text of a WHERE tree is injection-free: the number of placeholders is the number of bind
  arguments, and replacing the literals of the query by any others leaves the text unchanged, as long as the
  replacement keeps which literals are the zero value (empty, or false on a boolean column).
\<close>
theorem where_sql_parametric:
  assumes "keeps_zero f" and "\<And>v p. pf v = Some p \<Longrightarrow> holes p = 0"
  shows "map_option fst (whereExprToSQL pf (relit f w)) = map_option fst (whereExprToSQL pf w) \<and>
         pred_option (\<lambda>(s, args). holes s = length args) (whereExprToSQL pf w)"
  using whereExprToSQL_relit [OF assms(1), of pf w] whereExprToSQL_holes [of pf w] assms(2)
  by (auto simp: pred_option_def)

lemma where_sql_parametric_witness:
  "map_option fst (whereExprToSQL (\<lambda>v. if v = ''n'' then Some '''' else None)
     (relit (\<lambda>v. if v = ''x'' then [sq, CHR '';''] else v) (NotE (CondE (empty_condition\<lparr>c_variable := ''n'', c_property := ''name'', c_op := OpEq, c_value := ''x''\<rparr>))))) =
   map_option fst (whereExprToSQL (\<lambda>v. if v = ''n'' then Some '''' else None)
     (NotE (CondE (empty_condition\<lparr>c_variable := ''n'', c_property := ''name'', c_op := OpEq, c_value := ''x''\<rparr>)))) \<and>
   pred_option (\<lambda>(s, args). holes s = length args)
     (whereExprToSQL (\<lambda>v. if v = ''n'' then Some '''' else None)
       (NotE (CondE (empty_condition\<lparr>c_variable := ''n'', c_property := ''name'', c_op := OpEq, c_value := ''x''\<rparr>))))"
  by (rule where_sql_parametric)
    (auto simp: keeps_zero_def coerceBoolLiteral_def to_lower_def lower_char_def is_upper_char_def code_of_def
      split: if_splits)

section \<open>The AND-chain emitter agrees with the tree emitter\<close>

lemma strip_not [simp]:
  "trim_suffix (trim_prefix (CHR ''N'' # CHR ''O'' # CHR ''T'' # sp # CHR ''('' # s @ '')'') ''NOT ('') '')'' = s"
proof -
  have "trim_prefix (''NOT ('' @ (s @ '')'')) ''NOT ('' = s @ '')''" by (rule trim_prefix_append)
  then show ?thesis using trim_suffix_append [of s "'')''"] by simp
qed

lemma appendWhereOp_fragment_aux:
  "appendWhereOp prefix col c =
     (case condLeafToSQL prefix col c of None \<Rightarrow> ('''', []) | Some (s, args) \<Rightarrow> ('' AND '' @ s, args))"
  by (auto simp: appendWhereOp_def condLeafToSQL_def split: option.splits)

text \<open>
  Stripping and re-wrapping the NOT is harmless: on every condition, negated or not, \<open>appendWhereOp\<close> emits
  \<open>AND\<close> followed by exactly the fragment \<open>condLeafToSQL\<close> builds, with its arguments, and nothing when the
  operator cannot be pushed.
\<close>
theorem appendWhereOp_fragment:
  "appendWhereOp prefix col c =
     (case condLeafToSQL prefix col c of None \<Rightarrow> ('''', []) | Some (s, args) \<Rightarrow> ('' AND '' @ s, args))"
  by (rule appendWhereOp_fragment_aux)

section \<open>The emitted text as a boolean expression\<close>

datatype sqlb =
  BEq string string | BNe string string | BNull string | BNotNull string
| BEmpty string | BNonEmpty string | BCmp cmp_op string string | BLike string string
| BIn string "string list" | BOr sqlb sqlb | BAnd sqlb sqlb | BNot sqlb

fun op_text :: "cmp_op \<Rightarrow> string" where
  "op_text OpGt = ''>''" | "op_text OpLt = ''<''" | "op_text OpGe = ''>=''" | "op_text OpLe = ''<=''"
| "op_text _ = ''''"

fun render_b :: "sqlb \<Rightarrow> string" where
  "render_b (BEq l v) = l @ ''=?''"
| "render_b (BNe l v) = l @ ''<>?''"
| "render_b (BNull l) = l @ '' IS NULL''"
| "render_b (BNotNull l) = l @ '' IS NOT NULL''"
| "render_b (BEmpty l) = l @ '' = '' @ [sq, sq]"
| "render_b (BNonEmpty l) = l @ '' <> '' @ [sq, sq]"
| "render_b (BCmp op l v) = l @ op_text op @ ''?''"
| "render_b (BLike l v) = like_clause l"
| "render_b (BIn l vs) = l @ '' IN ('' @ str_join '','' (map (\<lambda>_. ''?'') vs) @ '')''"
| "render_b (BOr a b) = ''('' @ render_b a @ '' OR '' @ render_b b @ '')''"
| "render_b (BAnd a b) = ''('' @ render_b a @ '' AND '' @ render_b b @ '')''"
| "render_b (BNot a) = ''NOT ('' @ render_b a @ '')''"

fun binds_b :: "sqlb \<Rightarrow> string list" where
  "binds_b (BEq l v) = [v]" | "binds_b (BNe l v) = [v]" | "binds_b (BNull l) = []"
| "binds_b (BNotNull l) = []" | "binds_b (BEmpty l) = []" | "binds_b (BNonEmpty l) = []"
| "binds_b (BCmp op l v) = [v]" | "binds_b (BLike l v) = [v]" | "binds_b (BIn l vs) = vs"
| "binds_b (BOr a b) = binds_b a @ binds_b b" | "binds_b (BAnd a b) = binds_b a @ binds_b b"
| "binds_b (BNot a) = binds_b a"

definition lit_for :: "string \<Rightarrow> string \<Rightarrow> string" where
  "lit_for col v = (if isBoolCol col then coerceBoolLiteral v else v)"

fun leaf_inner :: "string \<Rightarrow> string \<Rightarrow> cmp_op \<Rightarrow> string \<Rightarrow> string list \<Rightarrow> sqlb option" where
  "leaf_inner l col OpEq v vs =
     Some (if isZeroValuePredicate col (lit_for col v) then BOr (BNull l) (BEq l (lit_for col v))
           else BEq l (lit_for col v))"
| "leaf_inner l col OpNe v vs =
     Some (if isZeroValuePredicate col (lit_for col v) then BAnd (BNotNull l) (BNe l (lit_for col v))
           else BOr (BNull l) (BNe l (lit_for col v)))"
| "leaf_inner l col OpContains v vs = Some (BLike l (''%'' @ escapeLikePattern v @ ''%''))"
| "leaf_inner l col OpStarts v vs = Some (BLike l (escapeLikePattern v @ ''%''))"
| "leaf_inner l col OpEnds v vs = Some (BLike l (''%'' @ escapeLikePattern v))"
| "leaf_inner l col OpIsNull v vs = Some (BOr (BNull l) (BEmpty l))"
| "leaf_inner l col OpIsNotNull v vs = Some (BAnd (BNotNull l) (BNonEmpty l))"
| "leaf_inner l col OpIn v vs = (if vs = [] then None else Some (BIn l (map (lit_for col) vs)))"
| "leaf_inner l col OpRe v vs = None"
| "leaf_inner l col OpNone v vs = None"
| "leaf_inner l col op v vs = Some (BCmp op l (lit_for col v))"

definition leaf_sqlb :: "string \<Rightarrow> string \<Rightarrow> condition \<Rightarrow> sqlb option" where
  "leaf_sqlb prefix col c =
     map_option (\<lambda>b. if c_negated c then BNot b else b)
       (leaf_inner (prefix @ col) col (c_op c) (c_value c) (c_inValues c))"

fun where_sqlb :: "(string \<Rightarrow> string option) \<Rightarrow> whereExpr \<Rightarrow> sqlb option" where
  "where_sqlb pf (CondE c) =
     (if c_rhsProperty c \<noteq> '''' \<or> cypherPropToCol (c_property c) = '''' then None
      else Option.bind (pf (c_variable c)) (\<lambda>p. leaf_sqlb p (cypherPropToCol (c_property c)) c))"
| "where_sqlb pf (BinE op l r) =
     Option.bind (where_sqlb pf l) (\<lambda>a. map_option (\<lambda>b. case op of Or_op \<Rightarrow> BOr a b | And_op \<Rightarrow> BAnd a b)
       (where_sqlb pf r))"
| "where_sqlb pf (NotE w) = map_option BNot (where_sqlb pf w)"

lemma condLeafToSQL_render:
  "condLeafToSQL prefix col c = map_option (\<lambda>b. (render_b b, map AStr (binds_b b))) (leaf_sqlb prefix col c)"
  by (cases "c_op c") (simp_all add: condLeafToSQL_def cond_inner_def leaf_sqlb_def lit_for_def Let_def comp_def)

lemma whereExprToSQL_render_aux:
  "whereExprToSQL pf w = map_option (\<lambda>b. (render_b b, map AStr (binds_b b))) (where_sqlb pf w)"
proof (induction w)
  case (CondE c)
  then show ?case by (simp add: condLeafToSQL_render Let_def split: option.split)
next
  case (BinE op l r)
  then show ?case by (cases op) (simp_all split: option.split)
next
  case (NotE w)
  then show ?case by (simp split: option.split)
qed

section \<open>Three-valued reading, and agreement with the evaluator\<close>

text \<open>
  SQL's logic over the TEXT columns \<open>env\<close> of one row (\<open>None\<close> is NULL): the truth values are true, false and
  unknown (\<open>None\<close>); comparisons of TEXT are on bytes, LIKE folds ASCII case as SQLite does by default. A row
  is selected when its condition is \<open>Some True\<close>.
\<close>

definition sqlite_eqc :: "char \<Rightarrow> char \<Rightarrow> bool" where
  "sqlite_eqc c d \<longleftrightarrow> lower_char c = lower_char d"

definition or3 :: "bool option \<Rightarrow> bool option \<Rightarrow> bool option" where
  "or3 a b = (if a = Some True \<or> b = Some True then Some True
              else if a = None \<or> b = None then None else Some False)"

definition and3 :: "bool option \<Rightarrow> bool option \<Rightarrow> bool option" where
  "and3 a b = (if a = Some False \<or> b = Some False then Some False
               else if a = None \<or> b = None then None else Some True)"

fun text_cmp :: "cmp_op \<Rightarrow> string \<Rightarrow> string \<Rightarrow> bool" where
  "text_cmp OpGt a b = (b < a)" | "text_cmp OpLt a b = (a < b)" | "text_cmp OpGe a b = (b \<le> a)"
| "text_cmp OpLe a b = (a \<le> b)" | "text_cmp _ a b = False"

fun tri :: "(string \<Rightarrow> string option) \<Rightarrow> sqlb \<Rightarrow> bool option" where
  "tri env (BEq l v) = map_option (\<lambda>t. t = v) (env l)"
| "tri env (BNe l v) = map_option (\<lambda>t. t \<noteq> v) (env l)"
| "tri env (BNull l) = Some (env l = None)"
| "tri env (BNotNull l) = Some (env l \<noteq> None)"
| "tri env (BEmpty l) = map_option (\<lambda>t. t = '''') (env l)"
| "tri env (BNonEmpty l) = map_option (\<lambda>t. t \<noteq> '''') (env l)"
| "tri env (BCmp op l v) = map_option (\<lambda>t. text_cmp op t v) (env l)"
| "tri env (BLike l v) = map_option (like_ref sqlite_eqc v) (env l)"
| "tri env (BIn l vs) = map_option (\<lambda>t. t \<in> set vs) (env l)"
| "tri env (BOr a b) = or3 (tri env a) (tri env b)"
| "tri env (BAnd a b) = and3 (tri env a) (tri env b)"
| "tri env (BNot a) = map_option Not (tri env a)"

lemma tri_simps3 [simp]:
  "or3 (Some a) (Some b) = Some (a \<or> b)" "and3 (Some a) (Some b) = Some (a \<and> b)"
  "or3 (Some True) x = Some True" "and3 (Some False) x = Some False"
  by (auto simp: or3_def and3_def)

text \<open>Literals that the boolean and nil spellings of the evaluator do not touch, and caseless ones.\<close>

definition plain_lit :: "string \<Rightarrow> bool" where
  "plain_lit v \<longleftrightarrow> boolNorm v = None \<and> v \<noteq> ''<nil>''"

definition caseless :: "string \<Rightarrow> bool" where
  "caseless v \<longleftrightarrow> list_all (\<lambda>c. \<not> is_lower_char c \<and> \<not> is_upper_char c) v"

text \<open>The row and the SQL columns hold the same data: NULL is nil, TEXT is the string.\<close>

definition same_cell :: "'f row \<Rightarrow> (string \<Rightarrow> string option) \<Rightarrow> string \<Rightarrow> string \<Rightarrow> bool" where
  "same_cell row env key l \<longleftrightarrow>
     (case env l of None \<Rightarrow> row_get row key = VNil
      | Some t \<Rightarrow> row_get row key = VStr t \<and> t \<noteq> ''<nil>'')"

text \<open>
  The leaves whose SQL form is exact: text columns, plain literals, and an operator that either is
  NULL-safe in both readings or is applied to a column that is not NULL in the row.
\<close>

definition exact_leaf :: "(string \<Rightarrow> string option) \<Rightarrow> string \<Rightarrow> condition \<Rightarrow> bool" where
  "exact_leaf env l c \<longleftrightarrow>
     c_rhsProperty c = '''' \<and> cypherPropType (c_property c) = Some PText \<and>
     plain_lit (c_value c) \<and> list_all plain_lit (c_inValues c) \<and>
     (case c_op c of
        OpEq \<Rightarrow> c_value c = '''' \<or> env l \<noteq> None
      | OpNe \<Rightarrow> True
      | OpIsNull \<Rightarrow> True
      | OpIsNotNull \<Rightarrow> True
      | OpIn \<Rightarrow> env l \<noteq> None
      | OpContains \<Rightarrow> caseless (c_value c) \<and> env l \<noteq> None
      | OpStarts \<Rightarrow> caseless (c_value c) \<and> env l \<noteq> None
      | OpEnds \<Rightarrow> caseless (c_value c) \<and> env l \<noteq> None
      | _ \<Rightarrow> False)"

lemma plain_not_bool: "plain_lit v \<Longrightarrow> \<not> boolCoerceEqual t v"
  by (auto simp: plain_lit_def boolCoerceEqual_def split: option.splits)

lemma text_not_bool:
  "cypherPropType p = Some PText \<Longrightarrow> \<not> isBoolCol (cypherPropToCol p) \<and> cypherPropToCol p \<noteq> ''''"
  by (auto simp: cypherPropType_def Let_def split: if_splits)

lemma caseless_eqc: "\<not> is_lower_char c \<Longrightarrow> \<not> is_upper_char c \<Longrightarrow> sqlite_eqc c d \<longleftrightarrow> c = d"
proof -
  assume c: "\<not> is_lower_char c" "\<not> is_upper_char c"
  have l: "is_upper_char d \<Longrightarrow> is_lower_char (lower_char d)"
    by (simp add: lower_char_def is_upper_char_def is_lower_char_def code_of_def)
  then show ?thesis using c
    by (cases "is_upper_char d") (auto simp: sqlite_eqc_def lower_char_def)
qed

lemma caseless_list: "caseless v \<Longrightarrow> list_all2 sqlite_eqc v m \<longleftrightarrow> v = m"
  unfolding caseless_def by (induction v arbitrary: m) (auto simp: caseless_eqc list_all2_Cons1)

lemma like_any: "like_ref eqc ''%'' s"
  using like_percent [of eqc "[]" s] by auto

lemma like_contains_caseless:
  "caseless v \<Longrightarrow> like_ref sqlite_eqc (CHR ''%'' # escapeLikePattern v @ ''%'') s = str_contains s v"
  by (auto simp: like_percent [of _ "escapeLikePattern v @ ''%''"] like_prefix caseless_list like_any
      str_contains_iff)

lemma like_prefix_caseless:
  "caseless v \<Longrightarrow> like_ref sqlite_eqc (escapeLikePattern v @ ''%'') s = has_prefix s v"
  by (simp add: like_prefix caseless_list like_any has_prefix_iff)

lemma like_suffix_caseless:
  "caseless v \<Longrightarrow> like_ref sqlite_eqc (CHR ''%'' # escapeLikePattern v) s = has_suffix s v"
  using like_prefix [of sqlite_eqc v "[]"]
  by (simp add: like_percent caseless_list has_suffix_iff)

lemma leaf_exact:
  assumes "exact_leaf env l c" "same_cell row env (c_variable c @ ''.'' @ c_property c) l"
    and "leaf_inner l (cypherPropToCol (c_property c)) (c_op c) (c_value c) (c_inValues c) = Some b"
  shows "tri env b = Some (leaf F re row c)"
proof -
  let ?k = "c_variable c @ ''.'' @ c_property c"
  have bc: "\<not> isBoolCol (cypherPropToCol (c_property c))"
    using assms(1) text_not_bool by (auto simp: exact_leaf_def)
  have lit: "lit_for (cypherPropToCol (c_property c)) = (\<lambda>v. v)" using bc by (simp add: lit_for_def fun_eq_iff)
  have pl: "plain_lit (c_value c)" "list_all plain_lit (c_inValues c)" using assms(1) by (auto simp: exact_leaf_def)
  have nb: "\<not> boolCoerceEqual t (c_value c)" for t using plain_not_bool [OF pl(1)] by blast
  have nbi: "list_ex (\<lambda>v. t = v \<or> boolCoerceEqual t v) (c_inValues c) \<longleftrightarrow> t \<in> set (c_inValues c)" for t
    using pl(2) plain_not_bool by (auto simp: list_ex_iff list_all_iff)
  have bz: "\<not> bool_zero (c_property c) (c_value c)" using bc by (simp add: bool_zero_def)
  have zv: "isZeroValuePredicate (cypherPropToCol (c_property c)) v = (v = '''')" for v
    using bc by (simp add: isZeroValuePredicate_def)
  have nn: "c_value c \<noteq> ''<nil>''" using pl(1) by (simp add: plain_lit_def)
  show ?thesis
  proof (cases "env l")
    case None
    then have r: "row_get row ?k = VNil" "row_nil row ?k"
      using assms(2) by (simp_all add: same_cell_def row_nil_get)
    show ?thesis using assms(1,3) None r nn nb bz
      by (cases "c_op c") (auto simp: exact_leaf_def leaf_def evalCondition_def Let_def lit zv eval_eq_def
          eval_ne_def or3_def and3_def split: if_splits)
  next
    case (Some t)
    then have r: "row_get row ?k = VStr t" "\<not> row_nil row ?k" "t \<noteq> ''<nil>''"
      using assms(2) by (simp_all add: same_cell_def row_nil_get)
    show ?thesis using assms(1,3) Some r nn nb bz nbi
      by (cases "c_op c") (auto simp: exact_leaf_def leaf_def evalCondition_def Let_def lit zv eval_eq_def
          eval_ne_def like_contains_caseless like_prefix_caseless like_suffix_caseless split: if_splits)
  qed
qed

definition exact_tree ::
    "'f row \<Rightarrow> (string \<Rightarrow> string option) \<Rightarrow> (string \<Rightarrow> string option) \<Rightarrow> whereExpr \<Rightarrow> bool" where
  "exact_tree row env pf w \<longleftrightarrow>
     (\<forall>c \<in> set (leaves w). \<forall>p. pf (c_variable c) = Some p \<longrightarrow>
        exact_leaf env (p @ cypherPropToCol (c_property c)) c \<and>
        same_cell row env (c_variable c @ ''.'' @ c_property c) (p @ cypherPropToCol (c_property c)))"

lemma where_exact_aux:
  "where_sqlb pf w = Some b \<Longrightarrow> exact_tree row env pf w \<Longrightarrow> tri env b = Some (eval_tree (leaf F re row) w)"
proof (induction w arbitrary: b)
  case (CondE c)
  then obtain p b0 where p: "pf (c_variable c) = Some p"
    "leaf_inner (p @ cypherPropToCol (c_property c)) (cypherPropToCol (c_property c)) (c_op c) (c_value c)
       (c_inValues c) = Some b0" "b = (if c_negated c then BNot b0 else b0)"
    by (auto simp: leaf_sqlb_def bind_eq_Some_conv split: if_splits)
  have "tri env b0 = Some (leaf F re row c)"
    using CondE p leaf_exact [OF _ _ p(2)] by (auto simp: exact_tree_def)
  then show ?case using p(3) by (simp add: signed_def)
next
  case (BinE op l r)
  then obtain a b0 where ab: "where_sqlb pf l = Some a" "where_sqlb pf r = Some b0"
    "b = (case op of Or_op \<Rightarrow> BOr a b0 | And_op \<Rightarrow> BAnd a b0)"
    by (auto simp: bind_eq_Some_conv)
  have "exact_tree row env pf l" "exact_tree row env pf r" using BinE.prems(2) by (auto simp: exact_tree_def)
  then show ?case using BinE.IH ab by (cases op) simp_all
next
  case (NotE w)
  then obtain a where a: "where_sqlb pf w = Some a" "b = BNot a" by auto
  have "exact_tree row env pf w" using NotE.prems(2) by (simp add: exact_tree_def)
  then show ?case using NotE.IH [OF a(1)] a(2) by simp
qed

text \<open>
  C2: Pushing a WHERE tree to SQL is exact on the leaves that SQLite and the evaluator read alike: the emitted text
  and arguments are those of a boolean expression that, in SQL's three-valued logic, is never unknown and has the
  value the in-Go evaluator computes. The tree may have any shape; each leaf is over a text column whose cell is the
  same in the row and in SQL and is not the text <nil>, its literals spell neither a boolean nor <nil>, and its
  operator is <>, IS NULL, IS NOT NULL, equality (with the empty literal, or on a column that is not NULL in the row),
  IN (on a column that is not NULL), or CONTAINS, STARTS WITH or ENDS WITH on a column that is not NULL and with a
  literal without ASCII letters, since LIKE folds their case and the evaluator does not. The comparisons <, >, <= and
  >=, regular expressions and comparisons with a column are not covered.
\<close>
theorem pushdown_exact:
  assumes "whereExprToSQL pf w = Some (s, args)" and "exact_tree row env pf w"
  shows "\<exists>b. s = render_b b \<and> args = map AStr (binds_b b) \<and>
     tri env b = Some (fst (matchesWhere F re row (Some w) None))"
  using assms where_exact_aux [of pf w _ row env F re] matchesWhere_pair [of re None F row "Some w"]
  by (auto simp: whereExprToSQL_render_aux eval_opt_def)

definition name_is :: "string \<Rightarrow> condition" where
  "name_is v = empty_condition\<lparr>c_variable := ''n'', c_property := ''name'', c_op := OpEq, c_value := v,
     c_valueKind := Some STRING\<rparr>"

definition only_n :: "string \<Rightarrow> string option" where
  "only_n v = (if v = ''n'' then Some '''' else None)"

lemma pushdown_exact_witness:
  "\<exists>b. ''(name=? OR NOT (name=?))'' = render_b b \<and> [AStr ''a'', AStr ''b''] = map AStr (binds_b b) \<and>
     tri (\<lambda>_. Some ''a'') b =
       Some (fst (matchesWhere unit_fops (\<lambda>_. None) [(''n.name'', VStr ''a'')]
         (Some (BinE Or_op (CondE (name_is ''a'')) (NotE (CondE (name_is ''b''))))) None))"
  by (rule pushdown_exact [where pf = only_n])
    (auto simp: only_n_def name_is_def empty_condition_def cypherPropToCol_def prop_cols_def condLeafToSQL_def
      cond_inner_def isZeroValuePredicate_def isBoolCol_def exact_tree_def exact_leaf_def same_cell_def
      cypherPropType_def plain_lit_def boolNorm_def row_get_def Let_def)

section \<open>Where the two readings part\<close>

text \<open>
  On a NULL text column a negated equality has opposite outcomes: the in-Go evaluator selects the row for
  \<open>NOT x = v\<close>, the pushed SQL does not, for every non-empty plain literal.
\<close>
theorem negated_null_diverges:
  assumes "plain_lit v" and "v \<noteq> ''''" and "env ''docstring'' = None"
  shows "fst (matchesWhere F re [(''n.docstring'', VNil)]
            (Some (CondE ((name_is v)\<lparr>c_property := ''docstring'', c_negated := True\<rparr>))) None) \<and>
         (\<exists>b. whereExprToSQL only_n (CondE ((name_is v)\<lparr>c_property := ''docstring'', c_negated := True\<rparr>)) =
                Some (render_b b, map AStr (binds_b b)) \<and> tri env b \<noteq> Some True)"
proof
  have d: "cypherPropToCol ''docstring'' = ''docstring''" "\<not> isBoolCol ''docstring''"
    by (simp_all add: cypherPropToCol_def prop_cols_def isBoolCol_def)
  show "fst (matchesWhere F re [(''n.docstring'', VNil)]
            (Some (CondE ((name_is v)\<lparr>c_property := ''docstring'', c_negated := True\<rparr>))) None)"
    using assms d by (auto simp: matchesWhere_def evalCondition_def name_is_def empty_condition_def eval_eq_def
        row_get_def row_nil_def bool_zero_def plain_lit_def boolCoerceEqual_def Let_def)
  show "\<exists>b. whereExprToSQL only_n (CondE ((name_is v)\<lparr>c_property := ''docstring'', c_negated := True\<rparr>)) =
                Some (render_b b, map AStr (binds_b b)) \<and> tri env b \<noteq> Some True"
    using assms d
    by (intro exI [where x = "BNot (BEq ''docstring'' v)"])
      (simp add: name_is_def empty_condition_def only_n_def condLeafToSQL_def cond_inner_def isZeroValuePredicate_def)
qed

lemma negated_null_diverges_witness:
  "fst (matchesWhere unit_fops (\<lambda>_. None) [(''n.docstring'', VNil)]
            (Some (CondE ((name_is ''x'')\<lparr>c_property := ''docstring'', c_negated := True\<rparr>))) None) \<and>
   (\<exists>b. whereExprToSQL only_n (CondE ((name_is ''x'')\<lparr>c_property := ''docstring'', c_negated := True\<rparr>)) =
                Some (render_b b, map AStr (binds_b b)) \<and> tri (\<lambda>_. None) b \<noteq> Some True)"
  by (rule negated_null_diverges) (simp_all add: plain_lit_def boolNorm_def)

end
