(* ===== verification/PinchQL_Warn.thy ===== *)
theory PinchQL_Warn
  imports PinchQL_Parser "HOL-Library.Product_Lexorder"
begin

text \<open>
  The static warning collectors of \<open>internal/cypher/engine.go\<close>: functions of the parsed query alone that
  name references the engine will silently treat as undefined. Each warning text is a constructor of
  \<open>warning\<close> with the values its format string names; a Go map used as a set and sorted before it is
  printed is \<open>sorted_keys\<close>. The collectors that query the database are in \<open>PinchQL_Exec\<close>.
\<close>

section \<open>Warnings\<close>

datatype warning =
  WUnknownProp string bool
| WUnknownVar string "string list"
| WCrossColumn string
| WUnknownEdgeKind string
| WHopInverted int int
| WHopClamped int
| WUnknownOrderBy string
| WTypeMismatch ptype string tkind
| WAggType aggfn ptype string
| WOrderByAgg string
| WRepeatedVar string
| WBareProperty string "string list"
| WAggMixed string string
| WMaxRows int int
| WLabelTypo string "string list"
| WEnumValue string string bool "string list"
| WLabelMismatch string string "string list"

text \<open>Token kinds and aggregate names are Go strings and sort as such.\<close>

fun tkind_name :: "tkind \<Rightarrow> string" where
  "tkind_name IDENT = ''IDENT''" | "tkind_name KEYWORD = ''KEYWORD''" | "tkind_name NUMBER = ''NUMBER''"
| "tkind_name STRING = ''STRING''" | "tkind_name PUNCT = ''PUNCT''" | "tkind_name HOPS = ''HOPS''"
| "tkind_name EOF = ''EOF''"

lemma tkind_name_inj: "tkind_name a = tkind_name b \<Longrightarrow> a = b"
  by (cases a; cases b) simp_all

lemma agg_name_inj: "agg_name a = agg_name b \<Longrightarrow> a = b"
  by (cases a; cases b) simp_all

instantiation tkind :: linorder
begin

definition less_eq_tkind :: "tkind \<Rightarrow> tkind \<Rightarrow> bool" where
  "less_eq_tkind a b \<longleftrightarrow> tkind_name a \<le> tkind_name b"

definition less_tkind :: "tkind \<Rightarrow> tkind \<Rightarrow> bool" where
  "less_tkind a b \<longleftrightarrow> tkind_name a < tkind_name b"

instance
  by standard (auto simp: less_eq_tkind_def less_tkind_def intro: tkind_name_inj)

end

instantiation aggfn :: linorder
begin

definition less_eq_aggfn :: "aggfn \<Rightarrow> aggfn \<Rightarrow> bool" where
  "less_eq_aggfn a b \<longleftrightarrow> agg_name a \<le> agg_name b"

definition less_aggfn :: "aggfn \<Rightarrow> aggfn \<Rightarrow> bool" where
  "less_aggfn a b \<longleftrightarrow> agg_name a < agg_name b"

instance
  by standard (auto simp: less_eq_aggfn_def less_aggfn_def intro: agg_name_inj)

end

section \<open>What a query mentions\<close>

text \<open>The flat conditions, then the leaves of the WHERE tree: every collector visits both.\<close>

definition mentioned :: "queryAST \<Rightarrow> condition list" where
  "mentioned q = q_conditions q @ (case q_where q of None \<Rightarrow> [] | Some w \<Rightarrow> leaves w)"

definition edge_vars :: "queryAST \<Rightarrow> string list" where
  "edge_vars q = filter (\<lambda>v. v \<noteq> '''') (map p_edgeVar (q_patterns q))"

definition bound_vars :: "queryAST \<Rightarrow> string list" where
  "bound_vars q =
     filter (\<lambda>v. v \<noteq> '''')
       (concat (map (\<lambda>p. [p_fromVar p, p_toVar p, p_edgeVar p]) (q_patterns q)))"

section \<open>Unknown properties\<close>

definition knownPropertyList :: "string list" where
  "knownPropertyList =
     [''id'', ''project_id (project)'', ''name'', ''qualified_name (qn)'', ''kind (label)'', ''file_path'',
      ''language'', ''start_line'', ''end_line'', ''start_byte'', ''end_byte'', ''complexity'',
      ''extraction_confidence (confidence)'', ''is_exported'', ''is_entry_point'', ''is_test'',
      ''signature'', ''return_type'', ''docstring'']"

text \<open>\<open>check\<close>: the map from unknown property names to whether an edge variable used them.\<close>

definition unknown_prop_check ::
    "string list \<Rightarrow> (string \<times> bool) list \<Rightarrow> string \<times> string \<Rightarrow> (string \<times> bool) list" where
  "unknown_prop_check evs unknown ref =
     (let (variable, prop) = ref in
      if prop = '''' then unknown
      else
        let isEdge = (variable \<noteq> '''' \<and> variable \<in> set evs) in
        if (if isEdge then isKnownEdgeProperty prop else cypherPropToCol prop \<noteq> '''') then unknown
        else (case map_of unknown prop of
                None \<Rightarrow> AList.update prop isEdge unknown
              | Some e \<Rightarrow> if isEdge \<and> \<not> e then AList.update prop isEdge unknown else unknown))"

definition property_refs :: "queryAST \<Rightarrow> (string \<times> string) list" where
  "property_refs q =
     map (\<lambda>c. (c_variable c, c_property c)) (mentioned q) @
     concat (map (\<lambda>p. map (\<lambda>(k, v). (p_fromVar p, k)) (p_fromProps p) @
                     map (\<lambda>(k, v). (p_toVar p, k)) (p_toProps p)) (q_patterns q)) @
     map (\<lambda>rv. (r_variable rv, r_property rv)) (q_returnVars q)"

definition collectUnknownPropertyWarnings :: "queryAST \<Rightarrow> warning list" where
  "collectUnknownPropertyWarnings q =
     (let unknown = foldl (unknown_prop_check (edge_vars q)) [] (property_refs q)
      in map (\<lambda>n. WUnknownProp n (map_of unknown n = Some True)) (sorted_keys (map fst unknown)))"

section \<open>Unbound variables\<close>

definition variable_refs :: "queryAST \<Rightarrow> (string \<times> string) list" where
  "variable_refs q =
     concat (map (\<lambda>c. (c_variable c, c_property c) #
         (if c_rhsVariable c \<noteq> '''' then [(c_rhsVariable c, c_rhsProperty c)] else [])) (mentioned q)) @
     map (\<lambda>rv. (r_variable rv, r_property rv)) (q_returnVars q)"

definition collectUnknownVariableWarnings :: "queryAST \<Rightarrow> warning list" where
  "collectUnknownVariableWarnings q =
     (let bound = bound_vars q in
      if bound = [] then []
      else
        let unknown = map fst (filter (\<lambda>(v, p). v \<noteq> '''' \<and> p \<noteq> '''' \<and> v \<notin> set bound) (variable_refs q))
        in map (\<lambda>n. WUnknownVar n (sorted_keys bound)) (sorted_keys unknown))"

section \<open>Cross-column comparisons\<close>

fun op_name :: "cmp_op \<Rightarrow> string" where
  "op_name OpNone = ''''" | "op_name OpEq = ''=''" | "op_name OpNe = ''<>''" | "op_name OpGt = ''>''"
| "op_name OpLt = ''<''" | "op_name OpGe = ''>=''" | "op_name OpLe = ''<=''" | "op_name OpRe = ''=~''"
| "op_name OpContains = ''CONTAINS''" | "op_name OpStarts = ''STARTS WITH''"
| "op_name OpEnds = ''ENDS WITH''" | "op_name OpIsNull = ''IS NULL''"
| "op_name OpIsNotNull = ''IS NOT NULL''" | "op_name OpIn = ''IN''"

definition cross_clause :: "condition \<Rightarrow> string" where
  "cross_clause c =
     c_variable c @ ''.'' @ c_property c @ '' '' @ op_name (c_op c) @ '' '' @
     c_rhsVariable c @ ''.'' @ c_rhsProperty c"

definition collectCrossColumnWarnings :: "queryAST \<Rightarrow> warning list" where
  "collectCrossColumnWarnings q =
     map WCrossColumn
       (sorted_keys (map cross_clause (filter (\<lambda>c. c_rhsProperty c \<noteq> '''') (mentioned q))))"

section \<open>Literal types\<close>

definition literal_mismatch :: "ptype \<Rightarrow> tkind \<Rightarrow> string \<Rightarrow> bool" where
  "literal_mismatch t k v =
     (case t of
        PText \<Rightarrow> k = NUMBER
      | PInt \<Rightarrow> k = STRING
      | PReal \<Rightarrow> k = STRING
      | PBool \<Rightarrow> k = NUMBER \<and> v \<noteq> ''0'' \<and> v \<noteq> ''1'' \<or>
                k = STRING \<and> to_lower v \<notin> {''true'', ''false'', ''0'', ''1''})"

definition type_mismatch :: "condition \<Rightarrow> (string \<times> tkind) option" where
  "type_mismatch c =
     (if c_property c = '''' \<or> c_rhsProperty c \<noteq> '''' then None
      else (case c_valueKind c of
              None \<Rightarrow> None
            | Some k \<Rightarrow>
                if c_op c \<notin> {OpEq, OpNe, OpGt, OpLt, OpGe, OpLe} then None
                else (case cypherPropType (c_property c) of
                        None \<Rightarrow> None
                      | Some t \<Rightarrow> if literal_mismatch t k (c_value c) then Some (c_property c, k) else None)))"

definition collectTypeMismatchWarnings :: "queryAST \<Rightarrow> warning list" where
  "collectTypeMismatchWarnings q =
     map (\<lambda>(p, k). WTypeMismatch (the (cypherPropType p)) p k)
       (sorted_keys (List.map_filter type_mismatch (mentioned q)))"

definition agg_mismatch :: "returnVar \<Rightarrow> (aggfn \<times> string) option" where
  "agg_mismatch rv =
     (case r_fn rv of
        Some fn \<Rightarrow>
          if fn = FnCount \<or> r_property rv = '''' then None
          else (case cypherPropType (r_property rv) of
                  Some PText \<Rightarrow> Some (fn, r_property rv)
                | Some PBool \<Rightarrow> Some (fn, r_property rv)
                | _ \<Rightarrow> None)
      | None \<Rightarrow> None)"

definition collectAggregateTypeMismatchWarnings :: "queryAST \<Rightarrow> warning list" where
  "collectAggregateTypeMismatchWarnings q =
     map (\<lambda>(fn, p). WAggType fn (the (cypherPropType p)) p)
       (sorted_keys (List.map_filter agg_mismatch (q_returnVars q)))"

section \<open>ORDER BY and RETURN shapes\<close>

text \<open>What follows the first point, or the whole string when there is none.\<close>

definition after_dot :: "string \<Rightarrow> string" where
  "after_dot s = (case str_index s ''.'' of None \<Rightarrow> s | Some i \<Rightarrow> drop (Suc i) s)"

definition collectUnknownOrderByWarnings :: "queryAST \<Rightarrow> warning list" where
  "collectUnknownOrderByWarnings q =
     (let ob = q_orderBy q in
      if ob = '''' then []
      else if str_contains ob ''('' then []
      else if list_ex (\<lambda>rv. r_alias rv \<noteq> '''' \<and> r_alias rv = ob) (q_returnVars q) then []
      else
        let prop = after_dot ob in
        if prop = '''' \<or> cypherPropToCol prop \<noteq> '''' then [] else [WUnknownOrderBy ob])"

definition collectReturnBarePropertyWarnings :: "queryAST \<Rightarrow> warning list" where
  "collectReturnBarePropertyWarnings q =
     (let bound = bound_vars q in
      if bound = [] then []
      else
        map (\<lambda>rv. WBareProperty (r_variable rv) (sorted_keys bound))
          (filter (\<lambda>rv. r_fn rv = None \<and> r_property rv = '''' \<and> r_variable rv \<noteq> '''' \<and> r_variable rv \<noteq> ''*'' \<and>
             r_variable rv \<notin> set bound \<and> cypherPropToCol (r_variable rv) \<noteq> '''') (q_returnVars q)))"

definition hasAggregation :: "queryAST \<Rightarrow> bool" where
  "hasAggregation q = list_ex (\<lambda>rv. r_fn rv \<noteq> None) (q_returnVars q)"

definition collectOrderByAggregateWithoutGroupingWarnings :: "queryAST \<Rightarrow> warning list" where
  "collectOrderByAggregateWithoutGroupingWarnings q =
     (if q_orderBy q = '''' then []
      else
        let ob = trim_space (q_orderBy q) in
        case str_index ob ''('' of
          None \<Rightarrow> []
        | Some i \<Rightarrow>
            if i = 0 then []
            else if \<not> isAggFn (to_upper (trim_space (take i ob))) then []
            else if hasAggregation q then []
            else [WOrderByAgg ob])"

definition formatBareCol :: "returnVar \<Rightarrow> string" where
  "formatBareCol rv =
     (if r_property rv = '''' then r_variable rv else r_variable rv @ ''.'' @ r_property rv)"

definition formatAggExpr :: "returnVar \<Rightarrow> string" where
  "formatAggExpr rv =
     (let inner = (if r_property rv \<noteq> '''' then r_variable rv @ ''.'' @ r_property rv else r_variable rv);
          expr = to_lower (case r_fn rv of None \<Rightarrow> '''' | Some f \<Rightarrow> agg_name f) @ ''('' @ inner @ '')''
      in if r_alias rv \<noteq> '''' then expr @ '' AS '' @ r_alias rv else expr)"

text \<open>The loop keeps the first non-empty rendering of each sort.\<close>

definition first_nonempty :: "string \<Rightarrow> bool \<Rightarrow> string \<Rightarrow> string" where
  "first_nonempty s applies new = (if applies \<and> s = '''' then new else s)"

definition mixed_exprs :: "returnVar list \<Rightarrow> string \<times> string" where
  "mixed_exprs rvs =
     foldl (\<lambda>(agg, bare) rv.
         (first_nonempty agg (r_fn rv \<noteq> None \<and> r_alias rv \<noteq> '''') (formatAggExpr rv),
          first_nonempty bare (r_fn rv = None) (formatBareCol rv)))
       ('''', '''') rvs"

definition orders_by_agg :: "string \<Rightarrow> bool" where
  "orders_by_agg orderBy =
     (orderBy \<noteq> '''' \<and>
      (let ob = trim_space orderBy in
       case str_index ob ''('' of
         None \<Rightarrow> False
       | Some i \<Rightarrow> i > 0 \<and> isAggFn (trim_space (take i ob))))"

definition collectAggregateMixedWithBareWarnings :: "queryAST \<Rightarrow> warning list" where
  "collectAggregateMixedWithBareWarnings q =
     (if length (q_returnVars q) < 2 then []
      else if q_distinct q then []
      else if orders_by_agg (q_orderBy q) then []
      else
        let (agg, bare) = mixed_exprs (q_returnVars q)
        in if agg = '''' \<or> bare = '''' then [] else [WAggMixed agg bare])"

section \<open>Pattern shapes\<close>

definition collectRepeatedPatternVarWarnings :: "queryAST \<Rightarrow> warning list" where
  "collectRepeatedPatternVarWarnings q =
     map (\<lambda>p. WRepeatedVar (p_fromVar p))
       (filter (\<lambda>p. p_fromVar p \<noteq> '''' \<and> p_fromVar p = p_toVar p \<and> p_minHops p \<le> 1 \<and> p_maxHops p \<le> 1)
         (q_patterns q))"

definition collectHopRangeWarnings :: "queryAST \<Rightarrow> warning list" where
  "collectHopRangeWarnings q =
     concat (map (\<lambda>p.
         (if p_invertedHops p then [WHopInverted (p_minHops p) (p_maxHops p)] else []) @
         (if p_minHopsClamped p then [WHopClamped (p_maxHops p)] else [])) (q_patterns q))"

definition collectUnknownEdgeKindWarnings :: "queryAST \<Rightarrow> warning list" where
  "collectUnknownEdgeKindWarnings q =
     map WUnknownEdgeKind
       (sorted_keys (filter (\<lambda>k. k \<noteq> '''' \<and> k \<notin> set knownEdgeKinds)
         (concat (map p_edgeKinds (q_patterns q)))))"

text \<open>The collectors \<open>Execute\<close> runs before the query, in its order.\<close>

definition static_warnings :: "queryAST \<Rightarrow> warning list" where
  "static_warnings q =
     collectUnknownPropertyWarnings q @ collectUnknownVariableWarnings q @ collectCrossColumnWarnings q @
     collectUnknownEdgeKindWarnings q @ collectHopRangeWarnings q @ collectUnknownOrderByWarnings q @
     collectTypeMismatchWarnings q @ collectAggregateTypeMismatchWarnings q @
     collectOrderByAggregateWithoutGroupingWarnings q @ collectRepeatedPatternVarWarnings q @
     collectReturnBarePropertyWarnings q @ collectAggregateMixedWithBareWarnings q"

section \<open>The unknown-property collector is exact\<close>

definition is_edge_ref :: "queryAST \<Rightarrow> string \<Rightarrow> bool" where
  "is_edge_ref q v \<longleftrightarrow> v \<noteq> '''' \<and> v \<in> set (edge_vars q)"

definition known_ref :: "queryAST \<Rightarrow> string \<Rightarrow> string \<Rightarrow> bool" where
  "known_ref q v p \<longleftrightarrow>
     p = '''' \<or> (if is_edge_ref q v then isKnownEdgeProperty p else cypherPropToCol p \<noteq> '''')"

lemma unknown_prop_check_get:
  "map_of (unknown_prop_check (edge_vars q) m (v, p)) n =
     (if n = p \<and> \<not> known_ref q v p then Some (is_edge_ref q v \<or> map_of m n = Some True) else map_of m n)"
  by (auto simp: unknown_prop_check_def known_ref_def is_edge_ref_def Let_def update_conv split: option.splits)

lemma unknown_prop_fold_get:
  "map_of (foldl (unknown_prop_check (edge_vars q)) m refs) n =
     (if \<exists>v. (v, n) \<in> set refs \<and> \<not> known_ref q v n
      then Some ((\<exists>v. (v, n) \<in> set refs \<and> \<not> known_ref q v n \<and> is_edge_ref q v) \<or> map_of m n = Some True)
      else map_of m n)"
proof (induction refs arbitrary: m)
  case Nil
  then show ?case by simp
next
  case (Cons r refs)
  obtain v p where r: "r = (v, p)" by (cases r)
  show ?case unfolding r foldl_Cons Cons.IH unknown_prop_check_get by auto
qed

lemma map_fst_dom: "n \<in> set (map fst m) \<longleftrightarrow> map_of m n \<noteq> None"
  by (simp add: map_of_eq_None_iff)

text \<open>
  The unknown-property collector is exact: it warns about a property name iff some reference to it (in
  WHERE, inline braces or RETURN) is not a property of its variable, and it calls the name an edge property
  iff one of those references is through an edge variable; names come sorted and without duplicates.
\<close>
theorem unknown_property_exact:
  "set (collectUnknownPropertyWarnings q) =
     {WUnknownProp n (\<exists>v. (v, n) \<in> set (property_refs q) \<and> \<not> known_ref q v n \<and> is_edge_ref q v) | n.
        \<exists>v. (v, n) \<in> set (property_refs q) \<and> \<not> known_ref q v n} \<and>
   (\<exists>ns f. collectUnknownPropertyWarnings q = map (\<lambda>n. WUnknownProp n (f n)) ns \<and> sorted ns \<and> distinct ns)"
proof -
  let ?m = "foldl (unknown_prop_check (edge_vars q)) [] (property_refs q)"
  have c: "collectUnknownPropertyWarnings q =
      map (\<lambda>n. WUnknownProp n (map_of ?m n = Some True)) (sorted_keys (map fst ?m))"
    by (simp add: collectUnknownPropertyWarnings_def Let_def)
  have keys: "n \<in> set (map fst ?m) \<longleftrightarrow> (\<exists>v. (v, n) \<in> set (property_refs q) \<and> \<not> known_ref q v n)" for n
    unfolding map_fst_dom unknown_prop_fold_get by auto
  have val: "map_of ?m n = Some True \<longleftrightarrow>
      (\<exists>v. (v, n) \<in> set (property_refs q) \<and> \<not> known_ref q v n \<and> is_edge_ref q v)" for n
    unfolding unknown_prop_fold_get by auto
  have "set (collectUnknownPropertyWarnings q) = (\<lambda>n. WUnknownProp n (map_of ?m n = Some True)) ` set (map fst ?m)"
    unfolding c by simp
  also have "\<dots> = {WUnknownProp n (map_of ?m n = Some True) | n. n \<in> set (map fst ?m)}" by blast
  finally show ?thesis unfolding keys val using c by (auto intro!: exI [where x = "sorted_keys (map fst ?m)"])
qed

section \<open>Silence means clean\<close>

definition clean_leaf :: "queryAST \<Rightarrow> condition \<Rightarrow> bool" where
  "clean_leaf q c \<longleftrightarrow> c_rhsProperty c = '''' \<and> type_mismatch c = None"

definition bound_ref :: "queryAST \<Rightarrow> string \<Rightarrow> string \<Rightarrow> bool" where
  "bound_ref q v p \<longleftrightarrow> v = '''' \<or> p = '''' \<or> v \<in> set (bound_vars q)"

definition clean_query :: "queryAST \<Rightarrow> bool" where
  "clean_query q \<longleftrightarrow>
     (\<forall>(v, p) \<in> set (property_refs q). known_ref q v p) \<and>
     (bound_vars q = [] \<or> (\<forall>(v, p) \<in> set (variable_refs q). bound_ref q v p)) \<and>
     (\<forall>c \<in> set (mentioned q). clean_leaf q c) \<and>
     (\<forall>p \<in> set (q_patterns q). set (p_edgeKinds p) \<subseteq> insert '''' (set knownEdgeKinds) \<and>
        \<not> p_invertedHops p \<and> \<not> p_minHopsClamped p)"

lemma foldl_unknown_Nil:
  "collectUnknownPropertyWarnings q = [] \<longleftrightarrow> (\<forall>(v, p) \<in> set (property_refs q). known_ref q v p)"
proof -
  let ?m = "foldl (unknown_prop_check (edge_vars q)) [] (property_refs q)"
  have "collectUnknownPropertyWarnings q = [] \<longleftrightarrow> set (map fst ?m) = {}"
    by (simp add: collectUnknownPropertyWarnings_def Let_def)
  also have "\<dots> \<longleftrightarrow> (\<forall>n. map_of ?m n = None)" unfolding set_eq_iff map_fst_dom by simp
  also have "\<dots> \<longleftrightarrow> (\<forall>(v, p) \<in> set (property_refs q). known_ref q v p)"
    unfolding unknown_prop_fold_get by (auto split: if_splits)
  finally show ?thesis .
qed

lemma map_filter_Nil: "List.map_filter f xs = [] \<longleftrightarrow> (\<forall>x \<in> set xs. f x = None)"
  by (induction xs) (auto simp: map_filter_simps split: option.splits)

text \<open>
  A query that draws none of the reference warnings is clean: every property reference is one the
  engine knows for its variable, every variable is bound by the pattern, no leaf compares two columns or
  a column with a literal of another type, and every edge kind and hop range is as written. Conversely a
  clean query draws none of them.
\<close>
theorem silence_means_clean:
  "collectUnknownPropertyWarnings q @ collectUnknownVariableWarnings q @ collectCrossColumnWarnings q @
   collectUnknownEdgeKindWarnings q @ collectHopRangeWarnings q @ collectTypeMismatchWarnings q = [] \<longleftrightarrow>
   clean_query q"
proof -
  have vars: "collectUnknownVariableWarnings q = [] \<longleftrightarrow>
      bound_vars q = [] \<or> (\<forall>(v, p) \<in> set (variable_refs q). bound_ref q v p)"
    by (auto simp: collectUnknownVariableWarnings_def bound_ref_def filter_empty_conv Let_def)
  have cross: "collectCrossColumnWarnings q = [] \<longleftrightarrow> (\<forall>c \<in> set (mentioned q). c_rhsProperty c = '''')"
    by (auto simp: collectCrossColumnWarnings_def filter_empty_conv)
  have kinds: "collectUnknownEdgeKindWarnings q = [] \<longleftrightarrow>
      (\<forall>p \<in> set (q_patterns q). set (p_edgeKinds p) \<subseteq> insert '''' (set knownEdgeKinds))"
    by (auto simp: collectUnknownEdgeKindWarnings_def filter_empty_conv)
  have hops: "collectHopRangeWarnings q = [] \<longleftrightarrow>
      (\<forall>p \<in> set (q_patterns q). \<not> p_invertedHops p \<and> \<not> p_minHopsClamped p)"
    by (auto simp: collectHopRangeWarnings_def split: if_splits)
  have types: "collectTypeMismatchWarnings q = [] \<longleftrightarrow> (\<forall>c \<in> set (mentioned q). type_mismatch c = None)"
    by (simp add: collectTypeMismatchWarnings_def map_filter_Nil)
  show ?thesis
    unfolding append_is_Nil_conv foldl_unknown_Nil vars cross kinds hops types clean_query_def clean_leaf_def
    by blast
qed

end
