(* ===== verification/PinchQL_Result.thy ===== *)
theory PinchQL_Result
  imports PinchQL_Eval PinchQL_Warn "HOL-Library.Multiset"
begin

text \<open>
  Scanning and result projection in \<open>internal/cypher/engine.go\<close>: \<open>symRow\<close>, \<open>scanSymRow\<close>, \<open>symRowToMap\<close>, the aggregates,
  ORDER BY comparison and \<open>buildResult\<close>. A map written key by key is an association list built with
  \<open>AList.update\<close>. \<open>sort.SliceStable\<close> is \<open>sort_stable\<close>, whose result is the only stable one when the comparison is
  a strict weak order (\<open>sort_stable_spec\<close>).
\<close>

section \<open>Symbol rows\<close>

text \<open>
  \<open>'b\<close> is the type of the flag columns: \<open>int option\<close> (\<open>sql.NullInt64\<close>) as scanned, \<open>bool\<close> in a \<open>symRow\<close>.
\<close>

record ('f, 'b) symRow =
  s_ID :: string
  s_ProjectID :: string
  s_FilePath :: string
  s_Name :: string
  s_QualifiedName :: string
  s_Kind :: string
  s_Language :: string
  s_StartByte :: int
  s_EndByte :: int
  s_StartLine :: int
  s_EndLine :: int
  s_IsExported :: 'b
  s_IsEntryPoint :: 'b
  s_Complexity :: int
  s_ExtractionConfidence :: 'f
  s_Signature :: "string option"
  s_ReturnType :: "string option"
  s_Docstring :: "string option"
  s_IsTest :: 'b
  s_Branch :: string

type_synonym 'f raw_row = "('f, int option) symRow"
type_synonym 'f sym_row = "('f, bool) symRow"

definition flag_of :: "int option \<Rightarrow> bool" where
  "flag_of v = ((case v of None \<Rightarrow> 0 | Some i \<Rightarrow> i) \<noteq> 0)"

definition scanSymRow :: "'f raw_row \<Rightarrow> 'f sym_row" where
  "scanSymRow r =
     \<lparr>s_ID = s_ID r, s_ProjectID = s_ProjectID r, s_FilePath = s_FilePath r, s_Name = s_Name r,
      s_QualifiedName = s_QualifiedName r, s_Kind = s_Kind r, s_Language = s_Language r,
      s_StartByte = s_StartByte r, s_EndByte = s_EndByte r, s_StartLine = s_StartLine r,
      s_EndLine = s_EndLine r, s_IsExported = flag_of (s_IsExported r),
      s_IsEntryPoint = flag_of (s_IsEntryPoint r), s_Complexity = s_Complexity r,
      s_ExtractionConfidence = s_ExtractionConfidence r, s_Signature = s_Signature r,
      s_ReturnType = s_ReturnType r, s_Docstring = s_Docstring r, s_IsTest = flag_of (s_IsTest r),
      s_Branch = s_Branch r\<rparr>"

definition nullable :: "string option \<Rightarrow> 'f val" where
  "nullable s = (case s of None \<Rightarrow> VNil | Some t \<Rightarrow> VStr t)"

definition symRowToMap :: "string \<Rightarrow> 'f sym_row \<Rightarrow> 'f row" where
  "symRowToMap varName n =
     (let p = (\<lambda>k. varName @ ''.'' @ k) in
      [(p ''id'', VStr (s_ID n)), (p ''project_id'', VStr (s_ProjectID n)), (p ''name'', VStr (s_Name n)),
       (p ''qualified_name'', VStr (s_QualifiedName n)), (p ''kind'', VStr (s_Kind n)),
       (p ''language'', VStr (s_Language n)), (p ''file_path'', VStr (s_FilePath n)),
       (p ''start_line'', VInt (s_StartLine n)), (p ''end_line'', VInt (s_EndLine n)),
       (p ''start_byte'', VInt (s_StartByte n)), (p ''end_byte'', VInt (s_EndByte n)),
       (p ''is_exported'', VBool (s_IsExported n)), (p ''is_entry_point'', VBool (s_IsEntryPoint n)),
       (p ''is_test'', VBool (s_IsTest n)), (p ''complexity'', VInt (s_Complexity n)),
       (p ''extraction_confidence'', VFloat (s_ExtractionConfidence n)),
       (p ''project'', VStr (s_ProjectID n)), (p ''qn'', VStr (s_QualifiedName n)),
       (p ''label'', VStr (s_Kind n)), (p ''signature'', nullable (s_Signature n)),
       (p ''return_type'', nullable (s_ReturnType n)), (p ''docstring'', nullable (s_Docstring n))])"

section \<open>Aggregates\<close>

definition var_key :: "returnVar \<Rightarrow> string" where
  "var_key rv = (if r_property rv \<noteq> '''' then r_variable rv @ ''.'' @ r_property rv else r_variable rv)"

definition aggColName :: "returnVar \<Rightarrow> string" where
  "aggColName rv =
     (if r_alias rv \<noteq> '''' then r_alias rv
      else
        let col = (if r_distinct rv then ''DISTINCT '' @ var_key rv else var_key rv)
        in (case r_fn rv of None \<Rightarrow> '''' | Some f \<Rightarrow> agg_name f) @ ''('' @ col @ '')'')"

definition agg_count :: "'f fops \<Rightarrow> 'f row list \<Rightarrow> returnVar \<Rightarrow> int" where
  "agg_count F rows rv =
     (if r_property rv = '''' then int (length rows)
      else
        let key = r_variable rv @ ''.'' @ r_property rv;
            present = filter (\<lambda>row. \<not> row_nil row key) rows
        in if r_distinct rv then int (length (remdups (map (\<lambda>row. sprint F (row_get row key)) present)))
           else int (length present))"

definition agg_nums :: "'f fops \<Rightarrow> 'f row list \<Rightarrow> string \<Rightarrow> 'f list" where
  "agg_nums F rows key =
     List.map_filter (\<lambda>row. if row_nil row key then None else f_parse F (sprint F (row_get row key))) rows"

definition sum_of :: "'f fops \<Rightarrow> 'f list \<Rightarrow> 'f" where
  "sum_of F nums = foldl (f_add F) (f_of_int F 0) nums"

definition computeAgg :: "'f fops \<Rightarrow> 'f row list \<Rightarrow> returnVar \<Rightarrow> 'f val" where
  "computeAgg F rows rv =
     (case r_fn rv of
        None \<Rightarrow> VNil
      | Some FnCount \<Rightarrow> VInt (agg_count F rows rv)
      | Some fn \<Rightarrow>
          (case agg_nums F rows (var_key rv) of
             [] \<Rightarrow> if fn = FnSum then VFloat (f_of_int F 0) else VNil
           | n # ns \<Rightarrow>
               (case fn of
                  FnSum \<Rightarrow> VFloat (sum_of F (n # ns))
                | FnAvg \<Rightarrow> VFloat (f_div F (sum_of F (n # ns)) (f_of_int F (int (length (n # ns)))))
                | FnMin \<Rightarrow> VFloat (foldl (\<lambda>m x. if f_lt F x m then x else m) n ns)
                | FnMax \<Rightarrow> VFloat (foldl (\<lambda>m x. if f_lt F m x then x else m) n ns)
                | FnCount \<Rightarrow> VNil)))"

section \<open>ORDER BY\<close>

fun toFloatForOrderBy :: "'f fops \<Rightarrow> 'f val \<Rightarrow> 'f option" where
  "toFloatForOrderBy F (VInt i) = Some (f_of_int F i)"
| "toFloatForOrderBy F (VFloat f) = Some f"
| "toFloatForOrderBy F _ = None"

definition cypherLessThan :: "'f fops \<Rightarrow> bool \<Rightarrow> 'f val \<Rightarrow> 'f val \<Rightarrow> bool" where
  "cypherLessThan F desc a b =
     (case (toFloatForOrderBy F a, toFloatForOrderBy F b) of
        (Some af, Some bf) \<Rightarrow> if desc then f_lt F bf af else f_lt F af bf
      | _ \<Rightarrow> if desc then sprint F b < sprint F a else sprint F a < sprint F b)"

definition order_rows :: "'f fops \<Rightarrow> string \<Rightarrow> bool \<Rightarrow> 'f row list \<Rightarrow> 'f row list" where
  "order_rows F key desc rows =
     sort_stable (\<lambda>a b. cypherLessThan F desc (row_get a key) (row_get b key)) rows"

definition limit_rows :: "int \<Rightarrow> 'a list \<Rightarrow> 'a list" where
  "limit_rows limit rows = take (nat (if limit < 0 then 200 else limit)) rows"

section \<open>Results\<close>

record 'f result =
  Columns :: "string list"
  Rows :: "'f row list"
  Total :: int
  Warnings :: "warning list"

definition mk_result :: "string list \<Rightarrow> 'f row list \<Rightarrow> 'f result" where
  "mk_result cols rows = \<lparr>Columns = cols, Rows = rows, Total = int (length rows), Warnings = []\<rparr>"

definition column_name :: "returnVar \<Rightarrow> string" where
  "column_name rv =
     (if r_fn rv \<noteq> None then aggColName rv
      else if r_alias rv \<noteq> '''' then r_alias rv else var_key rv)"

definition result_columns :: "'f row list \<Rightarrow> queryAST \<Rightarrow> string list" where
  "result_columns allRows q =
     (if q_returnVars q \<noteq> [] then map column_name (q_returnVars q)
      else (case allRows of
              [] \<Rightarrow> []
            | row # _ \<Rightarrow> sort (filter (\<lambda>k. \<not> has_prefix k ''_'') (map fst row))))"

definition group_values :: "returnVar list \<Rightarrow> 'f row \<Rightarrow> 'f row" where
  "group_values groupVars row =
     foldl (\<lambda>values rv.
         AList.update (if r_alias rv \<noteq> '''' then r_alias rv else var_key rv) (row_get row (var_key rv)) values)
       [] groupVars"

text \<open>\<open>groups\<close> and \<open>groupOrder\<close> together: the buckets in first-seen order, each with its values and rows.\<close>

type_synonym 'f groups = "(string \<times> 'f row \<times> 'f row list) list"

definition group_add :: "'f fops \<Rightarrow> returnVar list \<Rightarrow> 'f groups \<Rightarrow> 'f row \<Rightarrow> 'f groups" where
  "group_add F groupVars groups row =
     (let values = group_values groupVars row; groupKey = sprint F (VMap values) in
      case map_of groups groupKey of
        None \<Rightarrow> groups @ [(groupKey, values, [row])]
      | Some (vs, rows) \<Rightarrow> AList.update groupKey (vs, rows @ [row]) groups)"

definition group_rows :: "'f fops \<Rightarrow> returnVar list \<Rightarrow> 'f row list \<Rightarrow> 'f groups" where
  "group_rows F groupVars rows = foldl (group_add F groupVars) [] rows"

definition put_aggs :: "'f fops \<Rightarrow> returnVar list \<Rightarrow> 'f row list \<Rightarrow> 'f row \<Rightarrow> 'f row" where
  "put_aggs F aggVars rows out =
     foldl (\<lambda>out rv. AList.update (aggColName rv) (computeAgg F rows rv) out) out aggVars"

definition aggregate_result :: "'f fops \<Rightarrow> string list \<Rightarrow> 'f row list \<Rightarrow> queryAST \<Rightarrow> 'f result" where
  "aggregate_result F cols allRows q =
     (let aggVars = filter (\<lambda>rv. r_fn rv \<noteq> None) (q_returnVars q);
          groupVars = filter (\<lambda>rv. r_fn rv = None) (q_returnVars q)
      in if groupVars = [] then
           if q_limit q = 0 then mk_result cols []
           else mk_result cols [put_aggs F aggVars allRows []]
         else
           let grouped = map (\<lambda>(k, values, rows). put_aggs F aggVars rows values)
                           (group_rows F groupVars allRows);
               sorted_rows = (if q_orderBy q \<noteq> ''''
                              then order_rows F (q_orderBy q) (q_orderDir q = ''DESC'') grouped else grouped)
           in mk_result cols (limit_rows (q_limit q) sorted_rows))"

text \<open>A bare variable returns its node: the non-nil properties with the \<open>var.\<close> prefix cut.\<close>

definition node_value :: "string \<Rightarrow> 'f row \<Rightarrow> 'f row" where
  "node_value variable row =
     List.map_filter (\<lambda>(k, v).
         case v of
           VNil \<Rightarrow> None
         | _ \<Rightarrow> if has_prefix k (variable @ ''.'') then Some (drop (length variable + 1) k, v) else None)
       row"

definition project_row :: "string list \<Rightarrow> queryAST \<Rightarrow> 'f row \<Rightarrow> 'f row" where
  "project_row cols q row =
     (if q_returnVars q = [] then row
      else
        foldl (\<lambda>pr (col, rv).
            AList.update col
              (if r_property rv \<noteq> '''' then row_get row (r_variable rv @ ''.'' @ r_property rv)
               else VMap (node_value (r_variable rv) row)) pr)
          [] (zip cols (q_returnVars q)))"

fun distinct_rows :: "'f fops \<Rightarrow> string list \<Rightarrow> 'f row list \<Rightarrow> 'f row list" where
  "distinct_rows F seen [] = []"
| "distinct_rows F seen (pr # prs) =
     (let key = sprint F (VMap pr) in
      if key \<in> set seen then distinct_rows F seen prs else pr # distinct_rows F (key # seen) prs)"

definition order_key :: "string list \<Rightarrow> queryAST \<Rightarrow> string" where
  "order_key cols q =
     (let sourceToProjected =
            foldl (\<lambda>m (col, rv).
                if var_key rv \<noteq> '''' \<and> var_key rv \<noteq> col then m(var_key rv \<mapsto> col) else m)
              Map.empty (zip cols (q_returnVars q))
      in case sourceToProjected (q_orderBy q) of None \<Rightarrow> q_orderBy q | Some alias \<Rightarrow> alias)"

definition plain_result :: "'f fops \<Rightarrow> string list \<Rightarrow> 'f row list \<Rightarrow> queryAST \<Rightarrow> 'f result" where
  "plain_result F cols allRows q =
     (let prs = map (project_row cols q) allRows;
          projected = (if q_distinct q then distinct_rows F [] prs else prs);
          sorted_rows = (if q_orderBy q \<noteq> ''''
                         then order_rows F (order_key cols q) (q_orderDir q = ''DESC'') projected
                         else projected)
      in mk_result cols (limit_rows (q_limit q) sorted_rows))"

definition buildResult :: "'f fops \<Rightarrow> 'f row list \<Rightarrow> queryAST \<Rightarrow> 'f result" where
  "buildResult F allRows q =
     (let cols = result_columns allRows q in
      if hasAggregation q then aggregate_result F cols allRows q
      else plain_result F cols allRows q)"

section \<open>Stable sorting\<close>

text \<open>
  The contract of a comparison handed to \<open>sort.SliceStable\<close>: a strict weak order, stated as irreflexive-by-
  asymmetry and negatively transitive.
\<close>

locale strict_weak =
  fixes lt :: "'a \<Rightarrow> 'a \<Rightarrow> bool"
  assumes asym: "lt a b \<Longrightarrow> \<not> lt b a"
    and neg_trans: "\<not> lt a b \<Longrightarrow> \<not> lt b c \<Longrightarrow> \<not> lt a c"
begin

lemma insert_sorted:
  "sorted_wrt (\<lambda>a b. \<not> lt b a) ys \<Longrightarrow> sorted_wrt (\<lambda>a b. \<not> lt b a) (insert_by lt x ys)"
proof (induction ys)
  case (Cons y ys)
  show ?case
  proof (cases "lt y x")
    case True
    then show ?thesis using Cons asym by auto
  next
    case False
    then show ?thesis using Cons.prems neg_trans by auto
  qed
qed simp

lemma sort_sorted: "sorted_wrt (\<lambda>a b. \<not> lt b a) (sort_stable lt xs)"
  by (induction xs) (simp_all add: sort_stable_def insert_sorted)

lemma insert_filter:
  assumes "\<And>a b. P a \<Longrightarrow> P b \<Longrightarrow> \<not> lt a b"
  shows "filter P (insert_by lt x ys) = (if P x then x # filter P ys else filter P ys)"
  using assms by (induction ys) auto

lemma sort_filter:
  assumes "\<And>a b. P a \<Longrightarrow> P b \<Longrightarrow> \<not> lt a b"
  shows "filter P (sort_stable lt xs) = filter P xs"
  using insert_filter [OF assms] by (induction xs) (simp_all add: sort_stable_def)

end

lemma insert_by_mset: "mset (insert_by lt x ys) = {#x#} + mset ys"
  by (induction ys) auto

lemma sort_stable_mset [simp]: "mset (sort_stable lt xs) = mset xs"
  by (induction xs) (simp_all add: sort_stable_def insert_by_mset)

text \<open>What the code relies on of \<open>float64\<close> comparison: \<open><\<close> is a strict total order on the values that occur (no NaN).\<close>

definition float_order :: "'f fops \<Rightarrow> bool" where
  "float_order F \<longleftrightarrow>
     (\<forall>a b. f_lt F a b \<longrightarrow> \<not> f_lt F b a) \<and> (\<forall>a b c. \<not> f_lt F a b \<longrightarrow> \<not> f_lt F b c \<longrightarrow> \<not> f_lt F a c)"

text \<open>A column is homogeneous when all its cells are numbers, or none is.\<close>

definition homogeneous :: "'f fops \<Rightarrow> 'f val list \<Rightarrow> bool" where
  "homogeneous F vs \<longleftrightarrow>
     (\<forall>v \<in> set vs. toFloatForOrderBy F v \<noteq> None) \<or> (\<forall>v \<in> set vs. toFloatForOrderBy F v = None)"

text \<open>The comparison totalised on each kind of column, where it is a strict weak order outright.\<close>

definition dir_lt :: "'f fops \<Rightarrow> bool \<Rightarrow> 'f \<Rightarrow> 'f \<Rightarrow> bool" where
  "dir_lt F desc x y = (if desc then f_lt F y x else f_lt F x y)"

definition num_less :: "'f fops \<Rightarrow> bool \<Rightarrow> 'f val \<Rightarrow> 'f val \<Rightarrow> bool" where
  "num_less F desc a b =
     (case (toFloatForOrderBy F a, toFloatForOrderBy F b) of
        (Some x, Some y) \<Rightarrow> dir_lt F desc x y
      | (None, Some _) \<Rightarrow> True
      | _ \<Rightarrow> False)"

definition text_less :: "'f fops \<Rightarrow> bool \<Rightarrow> 'f val \<Rightarrow> 'f val \<Rightarrow> bool" where
  "text_less F desc a b = (if desc then sprint F b < sprint F a else sprint F a < sprint F b)"

interpretation str_ord: strict_weak "\<lambda>a b. text_less F desc (g a) (g b)" for F desc g
  by unfold_locales (auto simp: text_less_def split: if_splits)

lemma float_order_dir:
  assumes "float_order F"
  shows "dir_lt F desc x y \<Longrightarrow> \<not> dir_lt F desc y x"
    "\<not> dir_lt F desc x y \<Longrightarrow> \<not> dir_lt F desc y z \<Longrightarrow> \<not> dir_lt F desc x z"
  using assms unfolding float_order_def dir_lt_def by (cases desc; metis)+

lemma num_strict_weak:
  assumes "float_order F"
  shows "strict_weak (\<lambda>a b. num_less F desc (g a) (g b))"
proof
  fix a b
  show "num_less F desc (g a) (g b) \<Longrightarrow> \<not> num_less F desc (g b) (g a)"
    using float_order_dir(1) [OF assms] by (auto simp: num_less_def split: option.splits)
next
  fix a b c
  show "\<not> num_less F desc (g a) (g b) \<Longrightarrow> \<not> num_less F desc (g b) (g c) \<Longrightarrow> \<not> num_less F desc (g a) (g c)"
    unfolding num_less_def
    by (cases "toFloatForOrderBy F (g a)"; cases "toFloatForOrderBy F (g b)"; cases "toFloatForOrderBy F (g c)")
      (simp_all add: float_order_dir(2) [OF assms])
qed

lemma num_less_irrefl: "float_order F \<Longrightarrow> \<not> num_less F desc a a"
  by (cases "toFloatForOrderBy F a") (auto simp: num_less_def dest: float_order_dir(1))

lemma sort_stable_cong:
  "(\<And>a b. a \<in> set xs \<Longrightarrow> b \<in> set xs \<Longrightarrow> f a b = g a b) \<Longrightarrow> sort_stable f xs = sort_stable g xs"
proof (induction xs)
  case Nil
  show ?case by (simp add: sort_stable_def)
next
  case (Cons x xs)
  have ins: "(\<And>b. b \<in> set ys \<Longrightarrow> f b x = g b x) \<Longrightarrow> insert_by f x ys = insert_by g x ys" for ys
    by (induction ys) auto
  have t: "sort_stable f xs = sort_stable g xs" using Cons by simp
  have "insert_by f x (sort_stable g xs) = insert_by g x (sort_stable g xs)"
    using Cons.prems by (intro ins) auto
  then show ?case using t by (simp add: sort_stable_def)
qed

lemma cypherLessThan_num:
  "toFloatForOrderBy F a \<noteq> None \<Longrightarrow> toFloatForOrderBy F b \<noteq> None \<Longrightarrow>
     cypherLessThan F desc a b = num_less F desc a b"
  by (auto simp: cypherLessThan_def num_less_def dir_lt_def)

lemma cypherLessThan_text:
  "toFloatForOrderBy F a = None \<Longrightarrow> cypherLessThan F desc a b = text_less F desc a b"
  by (auto simp: cypherLessThan_def text_less_def split: option.split)

text \<open>The order of a homogeneous column is that of a strict weak order which agrees with the code's comparison.\<close>

lemma order_rows_weak:
  assumes "float_order F" "homogeneous F (map (\<lambda>r. row_get r key) rows)"
  obtains lt where "strict_weak lt" "order_rows F key desc rows = sort_stable lt rows"
    "\<And>a b. a \<in> set rows \<Longrightarrow> b \<in> set rows \<Longrightarrow>
       lt a b = cypherLessThan F desc (row_get a key) (row_get b key)"
    "\<And>a b. row_get a key = row_get b key \<Longrightarrow> \<not> lt a b"
proof -
  let ?c = "\<lambda>a b. cypherLessThan F desc (row_get a key) (row_get b key)"
  consider "\<forall>r \<in> set rows. toFloatForOrderBy F (row_get r key) \<noteq> None"
    | "\<forall>r \<in> set rows. toFloatForOrderBy F (row_get r key) = None"
    using assms(2) by (auto simp: homogeneous_def)
  then show ?thesis
  proof cases
    case 1
    let ?l = "\<lambda>a b. num_less F desc (row_get a key) (row_get b key)"
    have e: "a \<in> set rows \<Longrightarrow> b \<in> set rows \<Longrightarrow> ?l a b = ?c a b" for a b
      using 1 cypherLessThan_num by metis
    show ?thesis
      using num_strict_weak [OF assms(1)] e num_less_irrefl [OF assms(1)]
      by (intro that [of ?l]) (auto simp: order_rows_def intro!: sort_stable_cong)
  next
    case 2
    let ?l = "\<lambda>a b. text_less F desc (row_get a key) (row_get b key)"
    have e: "a \<in> set rows \<Longrightarrow> b \<in> set rows \<Longrightarrow> ?l a b = ?c a b" for a b
      using 2 cypherLessThan_text by metis
    show ?thesis
      using str_ord.strict_weak_axioms [of F desc "\<lambda>r. row_get r key"] e
      by (intro that [of ?l]) (auto simp: order_rows_def text_less_def intro!: sort_stable_cong)
  qed
qed

text \<open>
  ORDER BY sorts stably: on a column whose cells are all numbers or all non-numbers, the ordered rows are a
  permutation of the input, no row is less than an earlier one, and rows that compare equal keep their order.
\<close>
theorem order_by_stable:
  assumes "float_order F" and "homogeneous F (map (\<lambda>r. row_get r key) rows)"
  shows "mset (order_rows F key desc rows) = mset rows \<and>
     sorted_wrt (\<lambda>a b. \<not> cypherLessThan F desc (row_get b key) (row_get a key)) (order_rows F key desc rows) \<and>
     (\<forall>v. filter (\<lambda>r. row_get r key = v) (order_rows F key desc rows) = filter (\<lambda>r. row_get r key = v) rows)"
proof -
  obtain lt where w: "strict_weak lt" and o: "order_rows F key desc rows = sort_stable lt rows"
    and e: "\<And>a b. a \<in> set rows \<Longrightarrow> b \<in> set rows \<Longrightarrow>
       lt a b = cypherLessThan F desc (row_get a key) (row_get b key)"
    and i: "\<And>a b. row_get a key = row_get b key \<Longrightarrow> \<not> lt a b"
    using order_rows_weak [OF assms] by blast
  have "sorted_wrt (\<lambda>a b. \<not> cypherLessThan F desc (row_get b key) (row_get a key)) (sort_stable lt rows)"
    using strict_weak.sort_sorted [OF w, of rows] by (rule sorted_wrt_mono_rel [rotated]) (simp add: e)
  moreover have "filter (\<lambda>r. row_get r key = v) (sort_stable lt rows) = filter (\<lambda>r. row_get r key = v) rows" for v
    by (rule strict_weak.sort_filter [OF w]) (simp add: i)
  ultimately show ?thesis by (simp add: o)
qed

definition int_fops :: "int fops" where
  "int_fops = \<lparr>f_parse = (\<lambda>s. if s \<noteq> '''' \<and> list_all is_digit_char s then Some (int (digits_val s)) else None),
     f_show = show_int, f_lt = (<), f_le = (\<le>), f_add = (+), f_div = (div), f_of_int = (\<lambda>i. i)\<rparr>"

lemma int_float_order: "float_order int_fops"
  by (simp add: float_order_def int_fops_def)

lemma order_by_stable_witness:
  "mset (order_rows int_fops ''k'' True [[(''k'', VInt 1)], [(''k'', VInt 2)]]) =
     mset [[(''k'', VInt 1)], [(''k'', VInt 2)]] \<and>
   sorted_wrt (\<lambda>a b. \<not> cypherLessThan int_fops True (row_get b ''k'') (row_get a ''k''))
     (order_rows int_fops ''k'' True [[(''k'', VInt 1)], [(''k'', VInt 2)]]) \<and>
   (\<forall>v. filter (\<lambda>r. row_get r ''k'' = v) (order_rows int_fops ''k'' True [[(''k'', VInt 1)], [(''k'', VInt 2)]]) =
        filter (\<lambda>r. row_get r ''k'' = v) [[(''k'', VInt 1)], [(''k'', VInt 2)]])"
  by (rule order_by_stable) (simp_all add: int_float_order homogeneous_def row_get_def)

text \<open>
  On a mixed column the comparison is cyclic: 10 < "5" < 9 < 10, so no order of these three cells is sorted
  and the result of ORDER BY depends on the sorting algorithm.
\<close>
theorem order_by_mixed_cyclic:
  "cypherLessThan int_fops False (VInt 10) (VStr ''5'') \<and> cypherLessThan int_fops False (VStr ''5'') (VInt 9) \<and>
   cypherLessThan int_fops False (VInt 9) (VInt 10)"
  by code_simp

section \<open>Grouping\<close>

definition group_key :: "'f fops \<Rightarrow> returnVar list \<Rightarrow> 'f row \<Rightarrow> string" where
  "group_key F gvs row = sprint F (VMap (group_values gvs row))"

text \<open>The buckets after some rows: keys distinct, each bucket exactly the rows with its key, in order.\<close>

definition groups_ok :: "'f fops \<Rightarrow> returnVar list \<Rightarrow> 'f row list \<Rightarrow> 'f groups \<Rightarrow> bool" where
  "groups_ok F gvs rows groups \<longleftrightarrow>
     map fst groups = rev (remdups (rev (map (group_key F gvs) rows))) \<and>
     (\<forall>(k, values, bucket) \<in> set groups.
        bucket = filter (\<lambda>r. group_key F gvs r = k) rows \<and> bucket \<noteq> [] \<and> values = group_values gvs (hd bucket))"

lemma update_existing_keys: "k \<in> set (map fst al) \<Longrightarrow> map fst (AList.update k v al) = map fst al"
  by (simp add: update_keys)

lemma remdups_rev_snoc:
  "rev (remdups (rev (xs @ [x]))) =
     (if x \<in> set xs then rev (remdups (rev xs)) else rev (remdups (rev xs)) @ [x])"
  by simp


lemma map_of_None_keys: "map_of al k = None \<longleftrightarrow> k \<notin> set (map fst al)"
  by (simp add: map_of_eq_None_iff)

lemma group_add_ok:
  assumes "groups_ok F gvs rows groups"
  shows "groups_ok F gvs (rows @ [row]) (group_add F gvs groups row)"
proof -
  let ?k = "group_key F gvs row" and ?vs = "group_values gvs row"
  have keys: "map fst groups = rev (remdups (rev (map (group_key F gvs) rows)))"
    and bucket: "\<And>k vs b. (k, vs, b) \<in> set groups \<Longrightarrow>
        b = filter (\<lambda>r. group_key F gvs r = k) rows \<and> b \<noteq> [] \<and> vs = group_values gvs (hd b)"
    using assms by (auto simp: groups_ok_def)
  have kset: "set (map fst groups) = group_key F gvs ` set rows" unfolding keys by simp
  have dist: "distinct (map fst groups)" unfolding keys by simp
  show ?thesis
  proof (cases "map_of groups ?k")
    case None
    have n: "?k \<notin> group_key F gvs ` set rows" using None unfolding map_of_None_keys kset .
    then have f: "filter (\<lambda>r. group_key F gvs r = ?k) rows = []" by (auto simp: filter_empty_conv) (metis imageI)
    have ne: "k \<noteq> ?k" if m: "(k, vs, b) \<in> set groups" for k vs b
    proof -
      have "k \<in> set (map fst groups)" using m by force
      then show ?thesis using n unfolding kset by blast
    qed
    have g: "group_add F gvs groups row = groups @ [(?k, ?vs, [row])]"
      using None by (simp add: group_add_def group_key_def Let_def)
    show ?thesis unfolding groups_ok_def g
      using keys n f bucket ne by (fastforce simp: remdups_rev_snoc)
  next
    case (Some vb)
    obtain vs b where vb: "vb = (vs, b)" by (cases vb)
    then have m: "(?k, vs, b) \<in> set groups" using Some by (auto dest: map_of_SomeD)
    have g: "group_add F gvs groups row = AList.update ?k (vs, b @ [row]) groups"
      using Some vb by (simp add: group_add_def group_key_def Let_def)
    have k_in: "?k \<in> set (map fst groups)" using m by force
    have keys': "map fst (AList.update ?k (vs, b @ [row]) groups) = map fst groups"
      using k_in by (rule update_existing_keys)
    have upd: "(k, x) \<in> set (AList.update ?k (vs, b @ [row]) groups) \<longleftrightarrow>
        (if k = ?k then x = (vs, b @ [row]) else (k, x) \<in> set groups)" for k x
    proof -
      have d: "distinct (map fst (AList.update ?k (vs, b @ [row]) groups))" using dist keys' by simp
      have "(k, x) \<in> set (AList.update ?k (vs, b @ [row]) groups) \<longleftrightarrow>
          map_of (AList.update ?k (vs, b @ [row]) groups) k = Some x" using d by simp
      then show ?thesis using dist by (auto simp: update_conv)
    qed
    have "?k \<in> group_key F gvs ` set rows" using k_in kset by simp
    then have "map fst groups = rev (remdups (rev (map (group_key F gvs) (rows @ [row]))))"
      using keys by (simp add: remdups_rev_snoc)
    moreover have "bkt = filter (\<lambda>r. group_key F gvs r = k) (rows @ [row]) \<and> bkt \<noteq> [] \<and>
        vals = group_values gvs (hd bkt)"
      if "(k, vals, bkt) \<in> set (AList.update ?k (vs, b @ [row]) groups)" for k vals bkt
    proof (cases "k = ?k")
      case True
      then have "vals = vs" "bkt = b @ [row]" using that by (simp_all only: upd if_True prod.inject)
      then show ?thesis using True bucket [OF m] by (auto simp: hd_append)
    next
      case False
      then have "(k, vals, bkt) \<in> set groups" using that by (simp only: upd if_False)
      then have "bkt = filter (\<lambda>r. group_key F gvs r = k) rows \<and> bkt \<noteq> [] \<and> vals = group_values gvs (hd bkt)"
        by (rule bucket)
      moreover have "filter (\<lambda>r. group_key F gvs r = k) (rows @ [row]) = filter (\<lambda>r. group_key F gvs r = k) rows"
        using False by simp
      ultimately show ?thesis by metis
    qed
    ultimately show ?thesis unfolding groups_ok_def g keys' by blast
  qed
qed

lemma group_rows_ok_aux:
  "groups_ok F gvs seen groups \<Longrightarrow> groups_ok F gvs (seen @ rows) (foldl (group_add F gvs) groups rows)"
proof (induction rows arbitrary: seen groups)
  case (Cons r rows)
  then show ?case using Cons.IH [OF group_add_ok [OF Cons.prems, of r]] by simp
qed simp

lemma group_rows_ok: "groups_ok F gvs rows (group_rows F gvs rows)"
  using group_rows_ok_aux [of F gvs "[]" "[]" rows] by (simp add: group_rows_def groups_ok_def)


section \<open>What a result contains\<close>

lemma limit_rows_length: "int (length (limit_rows n rows)) \<le> (if n < 0 then 200 else n)"
  by (auto simp: limit_rows_def)

lemma order_rows_length [simp]: "length (order_rows F key desc rows) = length rows"
  by (simp add: order_rows_def)

lemma mk_result_sel [simp]:
  "Columns (mk_result cols rs) = cols" "Rows (mk_result cols rs) = rs" "Total (mk_result cols rs) = int (length rs)"
  by (simp_all add: mk_result_def)

lemma distinct_rows_length: "length (distinct_rows F seen prs) \<le> length prs"
  by (induction F seen prs rule: distinct_rows.induct) (auto simp: Let_def le_SucI)

lemma group_rows_length: "length (group_rows F gvs rows) \<le> length rows"
proof -
  have "map fst (group_rows F gvs rows) = rev (remdups (rev (map (group_key F gvs) rows)))"
    using group_rows_ok [of F gvs rows] by (simp add: groups_ok_def)
  then have "length (group_rows F gvs rows) = length (rev (remdups (rev (map (group_key F gvs) rows))))"
    by (metis length_map)
  also have "\<dots> \<le> length rows" using length_remdups_leq [of "rev (map (group_key F gvs) rows)"] by simp
  finally show ?thesis .
qed

lemma plain_result_shape:
  "\<exists>rs. plain_result F cols rows q = mk_result cols (limit_rows (q_limit q) rs) \<and> length rs \<le> length rows"
  using distinct_rows_length [of F "[]" "map (project_row cols q) rows"]
  by (auto simp: plain_result_def Let_def
      intro: exI [where x = "order_rows F (order_key cols q) (q_orderDir q = ''DESC'')
        (if q_distinct q then distinct_rows F [] (map (project_row cols q) rows) else map (project_row cols q) rows)"]
        exI [where x = "if q_distinct q then distinct_rows F [] (map (project_row cols q) rows)
          else map (project_row cols q) rows"])

lemma aggregate_result_shape:
  assumes "list_ex (\<lambda>rv. r_fn rv = None) (q_returnVars q)"
  shows "\<exists>rs. aggregate_result F cols rows q = mk_result cols (limit_rows (q_limit q) rs) \<and> length rs \<le> length rows"
proof -
  let ?gvs = "filter (\<lambda>rv. r_fn rv = None) (q_returnVars q)"
  let ?rs = "map (\<lambda>(k, values, rs). put_aggs F (filter (\<lambda>rv. r_fn rv \<noteq> None) (q_returnVars q)) rs values)
      (group_rows F ?gvs rows)"
  have "?gvs \<noteq> []" using assms by (auto simp: filter_empty_conv list_ex_iff)
  then show ?thesis using group_rows_length [of F ?gvs rows]
    by (auto simp: aggregate_result_def Let_def intro: exI [where x = ?rs]
        exI [where x = "order_rows F (q_orderBy q) (q_orderDir q = ''DESC'') ?rs"])
qed

lemma grouped_result_shape:
  "list_ex (\<lambda>rv. r_fn rv = None) (q_returnVars q) \<Longrightarrow>
     \<exists>rs. buildResult F rows q = mk_result (map column_name (q_returnVars q)) (limit_rows (q_limit q) rs) \<and>
       length rs \<le> length rows"
  using plain_result_shape [of F "map column_name (q_returnVars q)" rows q]
    aggregate_result_shape [of q F "map column_name (q_returnVars q)" rows]
  by (auto simp: buildResult_def result_columns_def Let_def)

text \<open>
  Every result of a query that returns at least one plain column is rectangular and bounded: one column
  name per RETURN item in order, a total that is the number of rows, at most LIMIT rows (200 without LIMIT,
  none under LIMIT 0) and at most as many rows as matched.
\<close>
theorem buildResult_bounds:
  assumes "list_ex (\<lambda>rv. r_fn rv = None) (q_returnVars q)"
  shows "Columns (buildResult F rows q) = map column_name (q_returnVars q) \<and>
     Total (buildResult F rows q) = int (length (Rows (buildResult F rows q))) \<and>
     length (Rows (buildResult F rows q)) \<le> length rows \<and>
     Total (buildResult F rows q) \<le> (if q_limit q < 0 then 200 else q_limit q)"
proof -
  obtain rs where rs: "buildResult F rows q = mk_result (map column_name (q_returnVars q)) (limit_rows (q_limit q) rs)"
    "length rs \<le> length rows"
    using grouped_result_shape [OF assms, of F rows] by blast
  have "length (limit_rows (q_limit q) rs) \<le> length rs" by (simp add: limit_rows_def)
  then show ?thesis unfolding rs(1) using rs(2) limit_rows_length [of "q_limit q" rs]
    by (simp del: of_nat_le_iff)
qed

definition name_query :: queryAST where
  "name_query = empty_query\<lparr>q_returnVars :=
     [\<lparr>r_variable = ''n'', r_property = ''name'', r_alias = '''', r_fn = None, r_distinct = False\<rparr>], q_limit := 1\<rparr>"

lemma buildResult_bounds_witness:
  "Columns (buildResult int_fops [[(''n.name'', VStr ''a'')], [(''n.name'', VStr ''b'')]] name_query) =
     map column_name (q_returnVars name_query) \<and>
   Total (buildResult int_fops [[(''n.name'', VStr ''a'')], [(''n.name'', VStr ''b'')]] name_query) =
     int (length (Rows (buildResult int_fops [[(''n.name'', VStr ''a'')], [(''n.name'', VStr ''b'')]] name_query))) \<and>
   length (Rows (buildResult int_fops [[(''n.name'', VStr ''a'')], [(''n.name'', VStr ''b'')]] name_query)) \<le>
     length [[(''n.name'', VStr ''a'')], [(''n.name'', VStr ''b'' :: int val)]] \<and>
   Total (buildResult int_fops [[(''n.name'', VStr ''a'')], [(''n.name'', VStr ''b'')]] name_query) \<le>
     (if q_limit name_query < 0 then 200 else q_limit name_query)"
  by (rule buildResult_bounds) (simp add: name_query_def)

text \<open>
  Implicit GROUP BY partitions the matched rows: bucket keys are distinct and in first-seen order, every
  bucket is exactly the sub-list of rows with its key, none is empty, the displayed values are those of the
  bucket's first row, and every row is in the bucket of its key.
\<close>
theorem group_rows_partition:
  "groups_ok F gvs rows (group_rows F gvs rows) \<and>
   (\<Sum>(k, values, bucket) \<leftarrow> group_rows F gvs rows. mset bucket) = mset rows"
proof
  show ok: "groups_ok F gvs rows (group_rows F gvs rows)" by (rule group_rows_ok)
  let ?g = "group_rows F gvs rows"
  have m: "map (\<lambda>(k, values, bucket). mset bucket) ?g =
      map (\<lambda>k. mset (filter (\<lambda>r. group_key F gvs r = k) rows)) (map fst ?g)"
    unfolding map_map by (rule map_cong) (use ok in \<open>auto simp: groups_ok_def\<close>)
  have d: "distinct (map fst ?g)" "set (map fst ?g) = group_key F gvs ` set rows"
    using ok unfolding groups_ok_def by (simp_all only: set_rev set_remdups set_map distinct_rev distinct_remdups)
  have part: "distinct ks \<Longrightarrow> group_key F gvs ` set rs \<subseteq> set ks \<Longrightarrow>
      sum_list (map (\<lambda>k. mset (filter (\<lambda>r. group_key F gvs r = k) rs)) ks) = mset rs" for ks rs
  proof (induction rs)
    case Nil
    then show ?case by (simp add: sum_list_0)
  next
    case (Cons r rs)
    have "sum_list (map (\<lambda>k. mset (filter (\<lambda>x. group_key F gvs x = k) (r # rs))) ks) =
        sum_list (map (\<lambda>k. (if group_key F gvs r = k then {#r#} else {#}) +
          mset (filter (\<lambda>x. group_key F gvs x = k) rs)) ks)"
      by (rule arg_cong [of _ _ sum_list], rule map_cong) auto
    also have "\<dots> = sum_list (map (\<lambda>k. if group_key F gvs r = k then {#r#} else {#}) ks) + mset rs"
      using Cons by (simp add: sum_list_addf)
    also have "sum_list (map (\<lambda>k. if group_key F gvs r = k then {#r#} else {#}) ks) = {#r#}"
      using Cons.prems by (subst sum_list_distinct_conv_sum_set) auto
    finally show ?case by simp
  qed
  show "(\<Sum>(k, values, bucket) \<leftarrow> ?g. mset bucket) = mset rows"
    unfolding m using part [OF d(1)] d(2) by simp
qed


section \<open>DISTINCT and COUNT\<close>

lemma distinct_rows_keys:
  "distinct (map (\<lambda>pr. sprint F (VMap pr)) (distinct_rows F seen prs)) \<and>
   set (map (\<lambda>pr. sprint F (VMap pr)) (distinct_rows F seen prs)) =
     set (map (\<lambda>pr. sprint F (VMap pr)) prs) - set seen"
  by (induction F seen prs rule: distinct_rows.induct) (auto simp: Let_def simp del: sprint.simps)

text \<open>
  RETURN DISTINCT removes duplicates by printed form: the printed rows that remain are pairwise different and
  are exactly those of the input, and the surviving rows are a sub-collection of the input rows.
\<close>
theorem distinct_rows_spec:
  "distinct (map (\<lambda>pr. sprint F (VMap pr)) (distinct_rows F [] prs)) \<and>
   set (map (\<lambda>pr. sprint F (VMap pr)) (distinct_rows F [] prs)) = set (map (\<lambda>pr. sprint F (VMap pr)) prs) \<and>
   mset (distinct_rows F [] prs) \<subseteq># mset prs"
proof -
  have "mset (distinct_rows F seen prs) \<subseteq># mset prs" for seen
  proof (induction F seen prs rule: distinct_rows.induct)
    case (2 F seen pr prs)
    have skip: "A \<subseteq># B \<Longrightarrow> A \<subseteq># add_mset pr B" for A B
      by (metis add_mset_add_single mset_subset_eq_add_left subset_mset.trans)
    show ?case using 2 skip by (simp add: Let_def del: sprint.simps)
  qed simp
  then show ?thesis using distinct_rows_keys [of F "[]" prs] by simp
qed

text \<open>
  The printed form confuses rows: two rows with different cells print alike when a value holds a space and the
  next key, so DISTINCT (and implicit GROUP BY, which uses the same key) merges them.
\<close>
theorem distinct_merges_different:
  "let r1 = [(''a.name'', VStr ''x b.name:y''), (''b.name'', VStr ''z'')];
       r2 = [(''a.name'', VStr ''x''), (''b.name'', VStr ''y b.name:z'')]
   in r1 \<noteq> r2 \<and> distinct_rows F [] [r1, r2] = [r1]"
proof -
  have "sprint F (VMap [(''a.name'', VStr ''x b.name:y''), (''b.name'', VStr ''z'')]) =
      ''map[a.name:x b.name:y b.name:z]''"
    "sprint F (VMap [(''a.name'', VStr ''x''), (''b.name'', VStr ''y b.name:z'')]) =
      ''map[a.name:x b.name:y b.name:z]''"
    by code_simp+
  then show ?thesis by (simp add: Let_def del: sprint.simps)
qed

text \<open>
  \<open>COUNT(DISTINCT n.p)\<close> is the number of different printed non-NULL values of the column, \<open>COUNT(n.p)\<close> the
  number of its non-NULL cells, and \<open>COUNT(n)\<close> the number of rows.
\<close>
theorem count_spec:
  "computeAgg F rows \<lparr>r_variable = v, r_property = c # p, r_alias = a, r_fn = Some FnCount, r_distinct = True\<rparr> =
     VInt (int (card {sprint F (row_get row (v @ ''.'' @ c # p)) | row.
        row \<in> set rows \<and> row_get row (v @ ''.'' @ c # p) \<noteq> VNil})) \<and>
   computeAgg F rows \<lparr>r_variable = v, r_property = c # p, r_alias = a, r_fn = Some FnCount, r_distinct = False\<rparr> =
     VInt (int (length (filter (\<lambda>row. row_get row (v @ ''.'' @ c # p) \<noteq> VNil) rows))) \<and>
   computeAgg F rows \<lparr>r_variable = v, r_property = '''', r_alias = a, r_fn = Some FnCount, r_distinct = d\<rparr> =
     VInt (int (length rows))"
proof -
  have "{sprint F (row_get row k) | row. row \<in> set rows \<and> row_get row k \<noteq> VNil} =
      set (map (\<lambda>row. sprint F (row_get row k)) (filter (\<lambda>row. \<not> row_nil row k) rows))" for k
    by (auto simp: row_nil_get)
  then show ?thesis
    by (simp add: computeAgg_def agg_count_def Let_def row_nil_get length_remdups_card_conv)
qed

end
