(* ===== verification/PinchQL_Exec.thy ===== *)
theory PinchQL_Exec
  imports PinchQL_Sql PinchQL_Result
begin

text \<open>
  The executor of \<open>internal/cypher/engine.go\<close>: the planners and row loops of \<open>runNodeScan\<close>, \<open>runJoinQuery\<close> and
  \<open>runBFS\<close>, the warning collectors that query the database, and \<open>Execute\<close>.
  The database is a parameter: \<open>QueryContext\<close> together with the scan of its rows is a function from SQL text
  and arguments to a reply, one per shape of row the code scans. \<open>cancelled i\<close> is \<open>ctx.Err() != nil\<close> at the
  \<open>i\<close>-th start node.
\<close>

section \<open>Executor and database\<close>

datatype 'a reply = QueryErr string | ScanErr string | RowsOk 'a

record 'f database =
  db_nodes :: "string \<Rightarrow> sqlarg list \<Rightarrow> 'f raw_row list reply"
  db_joins :: "string \<Rightarrow> sqlarg list \<Rightarrow> ('f raw_row \<times> 'f raw_row \<times> string \<times> 'f) list reply"
  db_hops :: "string \<Rightarrow> sqlarg list \<Rightarrow> ('f raw_row \<times> int) list reply"
  db_strings :: "string \<Rightarrow> sqlarg list \<Rightarrow> string option list reply"

record 'f executor =
  DB :: "'f database"
  MaxRows :: int
  ProjectID :: string
  AllowAllProjects :: bool

datatype exec_error =
  ExProjectRequired | ExParse pq_error | ExMultiMatch
| ExNodeScan string | ExJoin string | ExBfs string string | ExDb string | ExCancelled

definition maxRows :: "'f executor \<Rightarrow> int" where
  "maxRows e =
     (if MaxRows e \<le> 0 then 200 else if MaxRows e > 10000 then 10000 else MaxRows e)"

section \<open>Shared clauses\<close>

definition lf :: string where "lf = [nl, tab]"
definition lf2 :: string where "lf2 = [nl, tab, tab]"

definition symCols :: string where
  "symCols =
     ''id, project_id, file_path, name, qualified_name, kind, language,'' @ lf @
     ''start_byte, end_byte, start_line, end_line, is_exported, is_entry_point, complexity,'' @ lf @
     ''extraction_confidence, signature, return_type, docstring, is_test, branch''"

definition select_symbols :: string where
  "select_symbols = ''SELECT '' @ symCols @ '' FROM symbols WHERE 1=1''"

definition frag_append :: "sqlfrag \<Rightarrow> sqlfrag \<Rightarrow> sqlfrag" where
  "frag_append a b = (fst a @ fst b, snd a @ snd b)"

definition frags :: "sqlfrag list \<Rightarrow> sqlfrag" where
  "frags fs = (concat (map fst fs), concat (map snd fs))"

text \<open>\<open>if v != "" { sqlQ += text; args = append(args, v) }\<close>\<close>

definition opt_clause :: "string \<Rightarrow> string \<Rightarrow> sqlfrag" where
  "opt_clause v text = (if v \<noteq> '''' then (text, [AStr v]) else ('''', []))"

definition order_clause :: "string \<Rightarrow> string \<Rightarrow> sqlfrag" where
  "order_clause col dir =
     (if col = '''' then ('''', [])
      else ('' ORDER BY '' @ col @ (if to_lower dir = ''desc'' then '' DESC'' else '' ASC''), []))"

definition limit_clause :: "'f executor \<Rightarrow> queryAST \<Rightarrow> whereExpr option \<Rightarrow> sqlfrag" where
  "limit_clause e q filt =
     (if \<not> hasAggregation q \<and> \<not> q_distinct q
      then ('' LIMIT ?'', [AInt (scanLimitFor (maxRows e) filt)]) else ('''', []))"

section \<open>Node scan\<close>

text \<open>One round of the AND-chain loop: what goes to SQL, and what is left for the in-Go filter.\<close>

definition node_push :: "pattern \<Rightarrow> condition \<Rightarrow> sqlfrag \<times> condition list" where
  "node_push pat c =
     (if c_rhsProperty c \<noteq> '''' then (('''', []), [c])
      else if c_variable c \<noteq> p_fromVar pat then (('''', []), [])
      else
        let col = cypherPropToCol (c_property c) in
        if col \<noteq> '''' \<and> pushableOp (c_op c) then (appendWhereOp '''' col c, []) else (('''', []), [c]))"

text \<open>The WHERE part of a plan: the SQL fragment and the filter left for Go.\<close>

definition where_plan ::
    "(condition \<Rightarrow> sqlfrag \<times> condition list) \<Rightarrow> (string \<Rightarrow> string option) \<Rightarrow> queryAST \<Rightarrow>
     sqlfrag \<times> whereExpr option" where
  "where_plan push prefixFor q =
     (if pushdownAllowed q then
        (frags (map (fst \<circ> push) (q_conditions q)),
         andChainFromConds (concat (map (snd \<circ> push) (q_conditions q))))
      else (case q_where q of
              None \<Rightarrow> (('''', []), None)
            | Some w \<Rightarrow>
                (case whereExprToSQL prefixFor w of
                   Some (s, args) \<Rightarrow> (('' AND '' @ s, args), None)
                 | None \<Rightarrow> (('''', []), Some w))))"

definition node_prefix :: "pattern \<Rightarrow> string \<Rightarrow> string option" where
  "node_prefix pat v = (if v = p_fromVar pat then Some '''' else None)"

definition node_plan :: "'f executor \<Rightarrow> queryAST \<Rightarrow> pattern \<Rightarrow> sqlfrag \<times> whereExpr option" where
  "node_plan e q pat =
     (let (w, filt) = where_plan (node_push pat) (node_prefix pat) q;
          ord = (if \<not> hasAggregation q \<and> q_orderBy q \<noteq> ''''
                 then order_clause (orderByCol (resolveOrderByAlias (q_orderBy q) (q_returnVars q)) (p_fromVar pat))
                        (q_orderDir q)
                 else ('''', []))
      in (frags [(select_symbols, []), opt_clause (ProjectID e) '' AND project_id=?'',
                 opt_clause (p_fromKind pat) '' AND kind=?'',
                 appendInlinePropFilters '''' (p_fromProps pat), w, ord, limit_clause e q filt], filt))"

fun filter_rows ::
    "'f fops \<Rightarrow> regex \<Rightarrow> whereExpr option \<Rightarrow> 'f row list \<Rightarrow> re_cache \<Rightarrow> 'f row list" where
  "filter_rows F re filt [] cache = []"
| "filter_rows F re filt (m # ms) cache =
     (let (ok, cache') = matchesWhere F re m filt cache in
      if ok then m # filter_rows F re filt ms cache' else filter_rows F re filt ms cache')"

definition runNodeScan ::
    "'f fops \<Rightarrow> regex \<Rightarrow> 'f executor \<Rightarrow> queryAST \<Rightarrow> pattern \<Rightarrow> exec_error + 'f result" where
  "runNodeScan F re e q pat =
     (let ((sql, args), filt) = node_plan e q pat in
      case db_nodes (DB e) sql args of
        QueryErr m \<Rightarrow> Inl (ExNodeScan m)
      | ScanErr m \<Rightarrow> Inl (ExDb m)
      | RowsOk rs \<Rightarrow>
          Inr (buildResult F
                (filter_rows F re filt (map (\<lambda>r. symRowToMap (p_fromVar pat) (scanSymRow r)) rs) (Some Map.empty)) q))"

section \<open>Join query\<close>

definition join_select :: string where
  "join_select =
     ''SELECT'' @ lf2 @
     ''a.id, a.project_id, a.file_path, a.name, a.qualified_name, a.kind, a.language,'' @ lf2 @
     ''a.start_byte, a.end_byte, a.start_line, a.end_line, a.is_exported, a.is_entry_point, a.complexity,'' @ lf2 @
     ''a.extraction_confidence, a.signature, a.return_type, a.docstring, a.is_test, a.branch,'' @ lf2 @
     ''b.id, b.project_id, b.file_path, b.name, b.qualified_name, b.kind, b.language,'' @ lf2 @
     ''b.start_byte, b.end_byte, b.start_line, b.end_line, b.is_exported, b.is_entry_point, b.complexity,'' @ lf2 @
     ''b.extraction_confidence, b.signature, b.return_type, b.docstring, b.is_test, b.branch,'' @ lf2 @
     ''e.kind, e.confidence'' @ lf2 @
     ''FROM edges e'' @ lf2 @
     ''JOIN symbols a ON a.id = e.from_id AND a.project_id = e.project_id'' @ lf2 @
     ''JOIN symbols b ON b.id = e.to_id   AND b.project_id = e.project_id'' @ lf2 @
     ''WHERE 1=1''"

definition edge_filter :: "pattern \<Rightarrow> sqlfrag" where
  "edge_filter pat =
     (if p_edgeKinds pat = [] then ('''', [])
      else ('' AND e.kind IN ('' @ inPlaceholders (length (p_edgeKinds pat)) @ '')'', map AStr (p_edgeKinds pat)))"

definition join_push :: "pattern \<Rightarrow> condition \<Rightarrow> sqlfrag \<times> condition list" where
  "join_push pat c =
     (if c_rhsProperty c \<noteq> '''' then (('''', []), [c])
      else if c_variable c \<noteq> p_toVar pat \<and> c_variable c \<noteq> p_fromVar pat then (('''', []), [c])
      else
        let prefix = (if c_variable c = p_toVar pat then ''b.'' else ''a.'');
            col = cypherPropToCol (c_property c)
        in if col \<noteq> '''' \<and> pushableOp (c_op c) then (appendWhereOp prefix col c, []) else (('''', []), [c]))"

definition join_prefix :: "pattern \<Rightarrow> string \<Rightarrow> string option" where
  "join_prefix pat v =
     (if v = p_fromVar pat then Some ''a.'' else if v = p_toVar pat then Some ''b.'' else None)"

definition join_plan :: "'f executor \<Rightarrow> queryAST \<Rightarrow> pattern \<Rightarrow> sqlfrag \<times> whereExpr option" where
  "join_plan e q pat =
     (let (w, filt) = where_plan (join_push pat) (join_prefix pat) q;
          ord = (if \<not> hasAggregation q \<and> q_orderBy q \<noteq> '''' then
                   (let (alias, col) = joinOrderByCol (resolveOrderByAlias (q_orderBy q) (q_returnVars q)) pat
                    in order_clause (if col = '''' then '''' else alias @ col) (q_orderDir q))
                 else ('''', []));
          self = (if p_fromVar pat \<noteq> '''' \<and> p_fromVar pat = p_toVar pat then ('' AND a.id = b.id'', []) else ('''', []))
      in (frags [(join_select, []), edge_filter pat, opt_clause (ProjectID e) '' AND a.project_id=?'',
                 opt_clause (p_fromKind pat) '' AND a.kind=?'', opt_clause (p_toKind pat) '' AND b.kind=?'',
                 appendInlinePropFilters ''a.'' (p_fromProps pat), appendInlinePropFilters ''b.'' (p_toProps pat),
                 self, w, ord, limit_clause e q filt], filt))"

definition put_all :: "'f row \<Rightarrow> 'f row \<Rightarrow> 'f row" where
  "put_all m kvs = foldl (\<lambda>m (k, v). AList.update k v m) m kvs"

definition join_row :: "pattern \<Rightarrow> 'f sym_row \<Rightarrow> 'f sym_row \<Rightarrow> string \<Rightarrow> 'f \<Rightarrow> 'f row" where
  "join_row pat a b edgeKind conf =
     (let m = put_all (put_all [] (symRowToMap (p_fromVar pat) a)) (symRowToMap (p_toVar pat) b)
      in if p_edgeVar pat \<noteq> ''''
         then AList.update (p_edgeVar pat @ ''.confidence'') (VFloat conf)
                (AList.update (p_edgeVar pat @ ''.kind'') (VStr edgeKind) m)
         else m)"

definition edge_key :: "'f sym_row \<Rightarrow> 'f sym_row \<Rightarrow> string \<Rightarrow> string" where
  "edge_key a b edgeKind = s_ID a @ CHR 0x00 # s_ID b @ CHR 0x00 # edgeKind"

fun float_cell :: "'f fops \<Rightarrow> 'f val \<Rightarrow> 'f" where
  "float_cell F (VFloat f) = f"
| "float_cell F _ = f_of_int F 0"

text \<open>The row loop: result rows, the map from edge keys to their indexes, the regex cache.\<close>

fun join_loop ::
    "'f fops \<Rightarrow> regex \<Rightarrow> pattern \<Rightarrow> whereExpr option \<Rightarrow>
     ('f raw_row \<times> 'f raw_row \<times> string \<times> 'f) list \<Rightarrow>
     'f row list \<Rightarrow> (string \<rightharpoonup> nat) \<Rightarrow> re_cache \<Rightarrow> 'f row list" where
  "join_loop F re pat filt [] rows seen cache = rows"
| "join_loop F re pat filt ((ra, rb, edgeKind, conf) # rs) rows seen cache =
     (let a = scanSymRow ra; b = scanSymRow rb; m = join_row pat a b edgeKind conf;
          (ok, cache') = matchesWhere F re m filt cache; key = edge_key a b edgeKind
      in if \<not> ok then join_loop F re pat filt rs rows seen cache'
         else (case seen key of
                 Some idx \<Rightarrow>
                   join_loop F re pat filt rs
                     (if p_edgeVar pat \<noteq> '''' \<and>
                         f_lt F (float_cell F (row_get (rows ! idx) (p_edgeVar pat @ ''.confidence''))) conf
                      then rows[idx := m] else rows) seen cache'
               | None \<Rightarrow>
                   join_loop F re pat filt rs (rows @ [m]) (seen(key \<mapsto> length rows)) cache'))"

definition runJoinQuery ::
    "'f fops \<Rightarrow> regex \<Rightarrow> 'f executor \<Rightarrow> queryAST \<Rightarrow> pattern \<Rightarrow> exec_error + 'f result" where
  "runJoinQuery F re e q pat =
     (let ((sql, args), filt) = join_plan e q pat in
      case db_joins (DB e) sql args of
        QueryErr m \<Rightarrow> Inl (ExJoin m)
      | ScanErr m \<Rightarrow> Inl (ExDb m)
      | RowsOk rs \<Rightarrow> Inr (buildResult F (join_loop F re pat filt rs [] Map.empty (Some Map.empty)) q))"

section \<open>Breadth-first traversal\<close>

definition shouldInvertBFS :: "queryAST \<Rightarrow> pattern \<Rightarrow> bool" where
  "shouldInvertBFS q pat =
     (if p_toVar pat = '''' \<or> p_fromVar pat = '''' then False
      else if \<not> pushdownAllowed q then False
      else
        let consts = filter (\<lambda>c. cypherPropToCol (c_property c) \<noteq> '''' \<and> c_op c = OpEq) (q_conditions q);
            hasFromConst = list_ex (\<lambda>c. c_variable c = p_fromVar pat) consts;
            hasToConst = list_ex (\<lambda>c. c_variable c \<noteq> p_fromVar pat \<and> c_variable c = p_toVar pat) consts
        in hasToConst \<and> \<not> hasFromConst)"

definition bfs_start_cond :: "string \<Rightarrow> condition \<Rightarrow> sqlfrag" where
  "bfs_start_cond startVar c =
     (let col = cypherPropToCol (c_property c) in
      if c_variable c = startVar \<and> col \<noteq> '''' \<and> c_op c = OpEq
      then ('' AND '' @ col @ ''=?'', [AStr (c_value c)]) else ('''', []))"

definition bfs_start_plan :: "'f executor \<Rightarrow> queryAST \<Rightarrow> pattern \<Rightarrow> sqlfrag" where
  "bfs_start_plan e q pat =
     (let inverted = shouldInvertBFS q pat;
          startVar = (if inverted then p_toVar pat else p_fromVar pat);
          startKind = (if inverted then p_toKind pat else p_fromKind pat);
          startProps = (if inverted then p_toProps pat else p_fromProps pat)
      in frags [(select_symbols, []), opt_clause (ProjectID e) '' AND project_id=?'',
                opt_clause startKind '' AND kind=?'', appendInlinePropFilters '''' startProps,
                (if pushdownAllowed q then frags (map (bfs_start_cond startVar) (q_conditions q)) else ('''', [])),
                ('' LIMIT 100'', [])])"

definition bfsSymbolProjectFilter :: "string \<Rightarrow> string" where
  "bfsSymbolProjectFilter projectID = (if projectID = '''' then '''' else '' WHERE s.project_id = ?'')"

definition bfs_recursive_step :: "bool \<Rightarrow> string" where
  "bfs_recursive_step inbound =
     (if inbound then ''SELECT e.from_id, r.depth + 1 FROM reach r JOIN edges e ON e.to_id = r.id''
      else ''SELECT e.to_id, r.depth + 1 FROM reach r JOIN edges e ON e.from_id = r.id'')"

definition cte_head :: "nat \<Rightarrow> bool \<Rightarrow> string" where
  "cte_head nkinds inbound =
     ''WITH RECURSIVE reach(id, depth) AS ('' @ lf2 @
     ''SELECT ?, 0'' @ lf2 @
     ''UNION ALL'' @ lf2 @
     bfs_recursive_step inbound @ '' AND e.kind IN ('' @ inPlaceholders nkinds @ '')''"

definition cte_mid :: string where
  "cte_mid =
     lf2 @ ''WHERE r.depth < ?'' @ lf @
     ''),'' @ lf @
     ''reachAgg AS ('' @ lf2 @
     ''SELECT id, MIN(depth) AS min_depth FROM reach'' @ lf2 @
     ''WHERE depth >= ? AND id != ?'' @ lf2 @
     ''GROUP BY id'' @ lf @
     '')'' @ lf @
     ''SELECT s.id, s.project_id, s.file_path, s.name, s.qualified_name, s.kind, s.language,'' @ lf2 @
     ''s.start_byte, s.end_byte, s.start_line, s.end_line, s.is_exported, s.is_entry_point, s.complexity,'' @ lf2 @
     ''s.extraction_confidence, s.signature, s.return_type, s.docstring, s.is_test, ra.min_depth'' @ lf @
     ''FROM reachAgg ra'' @ lf @
     ''CROSS JOIN symbols s ON s.id = ra.id''"

definition cte_tail :: string where
  "cte_tail = lf @ ''ORDER BY ra.min_depth'' @ lf @ ''LIMIT ?''"

definition bfs_cte :: "nat \<Rightarrow> string \<Rightarrow> bool \<Rightarrow> string" where
  "bfs_cte nkinds projectID inbound =
     cte_head nkinds inbound @ (if projectID \<noteq> '''' then '' AND e.project_id = ?'' else '''') @ cte_mid @
     bfsSymbolProjectFilter projectID @ cte_tail"

definition bfs_args :: "string \<Rightarrow> string list \<Rightarrow> int \<Rightarrow> int \<Rightarrow> string \<Rightarrow> int \<Rightarrow> sqlarg list" where
  "bfs_args startID kinds minHops maxHops projectID rows =
     AStr startID # map AStr kinds @ (if projectID \<noteq> '''' then [AStr projectID] else []) @
     [AInt maxHops, AInt minHops, AStr startID] @
     (if projectID \<noteq> '''' then [AStr projectID] else []) @ [AInt rows]"

definition bfsViaCTE ::
    "'f executor \<Rightarrow> string \<Rightarrow> string list \<Rightarrow> int \<Rightarrow> int \<Rightarrow> bool \<Rightarrow> string + ('f sym_row \<times> int) list" where
  "bfsViaCTE e startID kinds minHops maxHops inbound =
     (case db_hops (DB e) (bfs_cte (length kinds) (ProjectID e) inbound)
             (bfs_args startID kinds minHops maxHops (ProjectID e) (maxRows e)) of
        QueryErr m \<Rightarrow> Inl m
      | ScanErr m \<Rightarrow> Inl m
      | RowsOk hs \<Rightarrow> Inr (map (\<lambda>(r, d). (scanSymRow r, d)) hs))"

text \<open>The inner loop over one start's hops; the flag is the jump to \<open>done\<close>.\<close>

fun hop_loop ::
    "'f fops \<Rightarrow> regex \<Rightarrow> queryAST \<Rightarrow> pattern \<Rightarrow> int \<Rightarrow> 'f sym_row \<Rightarrow> ('f sym_row \<times> int) list \<Rightarrow>
     'f row list \<Rightarrow> re_cache \<Rightarrow> bool \<times> 'f row list \<times> re_cache" where
  "hop_loop F re q pat cap start [] rows cache = (False, rows, cache)"
| "hop_loop F re q pat cap start ((node, depth) # hops) rows cache =
     (let inverted = shouldInvertBFS q pat;
          (a, b) = (if inverted then (node, start) else (start, node));
          m = AList.update ''_hop'' (VInt depth)
                (put_all (put_all [] (symRowToMap (p_fromVar pat) a)) (symRowToMap (p_toVar pat) b));
          (destVar, destProps) = (if inverted then (p_fromVar pat, p_fromProps pat) else (p_toVar pat, p_toProps pat));
          (ok, cache') = matchesWhere F re m (q_where q) cache
      in if \<not> ok then hop_loop F re q pat cap start hops rows cache'
         else if \<not> matchesInlineProps F m destVar destProps then hop_loop F re q pat cap start hops rows cache'
         else
           let rows' = rows @ [m] in
           if int (length rows') \<ge> cap then (True, rows', cache')
           else hop_loop F re q pat cap start hops rows' cache')"

fun start_loop ::
    "'f fops \<Rightarrow> regex \<Rightarrow> (nat \<Rightarrow> bool) \<Rightarrow> 'f executor \<Rightarrow> queryAST \<Rightarrow> pattern \<Rightarrow> nat \<Rightarrow> 'f sym_row list \<Rightarrow>
     'f row list \<Rightarrow> re_cache \<Rightarrow> exec_error + 'f row list" where
  "start_loop F re cancelled e q pat i [] rows cache = Inr rows"
| "start_loop F re cancelled e q pat i (start # starts) rows cache =
     (if cancelled i then Inl ExCancelled
      else
        let kinds = (if p_edgeKinds pat = [] then [''CALLS''] else p_edgeKinds pat);
            maxDepth = (if p_maxHops pat > 10 then 10 else p_maxHops pat)
        in case bfsViaCTE e (s_ID start) kinds (p_minHops pat) maxDepth (shouldInvertBFS q pat) of
             Inl m \<Rightarrow> Inl (ExBfs (s_ID start) m)
           | Inr hops \<Rightarrow>
               (let (stop, rows', cache') = hop_loop F re q pat (maxRows e * 2) start hops rows cache in
                if stop then Inr rows'
                else start_loop F re cancelled e q pat (Suc i) starts rows' cache'))"

definition runBFS ::
    "'f fops \<Rightarrow> regex \<Rightarrow> (nat \<Rightarrow> bool) \<Rightarrow> 'f executor \<Rightarrow> queryAST \<Rightarrow> pattern \<Rightarrow> exec_error + 'f result" where
  "runBFS F re cancelled e q pat =
     (let (sql, args) = bfs_start_plan e q pat in
      case db_nodes (DB e) sql args of
        QueryErr m \<Rightarrow> Inl (ExDb m)
      | ScanErr m \<Rightarrow> Inl (ExDb m)
      | RowsOk rs \<Rightarrow>
          bind_res (start_loop F re cancelled e q pat 0 (map scanSymRow rs) [] (Some Map.empty))
            (\<lambda>rows. Inr (buildResult F rows q)))"

definition run ::
    "'f fops \<Rightarrow> regex \<Rightarrow> (nat \<Rightarrow> bool) \<Rightarrow> 'f executor \<Rightarrow> queryAST \<Rightarrow> exec_error + 'f result" where
  "run F re cancelled e q =
     (case q_patterns q of
        [] \<Rightarrow> Inr (mk_result [] [])
      | pat # _ \<Rightarrow>
          if p_toVar pat = '''' then runNodeScan F re e q pat
          else if p_minHops pat = 1 \<and> p_maxHops pat = 1 then runJoinQuery F re e q pat
          else runBFS F re cancelled e q pat)"

section \<open>Collectors that query the database\<close>

text \<open>\<open>SELECT DISTINCT col\<close>, project-scoped when there is a project; an error gives nil (\<open>None\<close>).\<close>

definition distinct_query :: "string \<Rightarrow> string \<Rightarrow> string \<Rightarrow> sqlfrag" where
  "distinct_query table col projectID =
     (if projectID \<noteq> '''' then
        (''SELECT DISTINCT '' @ col @ '' FROM '' @ table @ '' WHERE project_id=? AND '' @ col @ '' != '' @ [sq, sq] @
         '' ORDER BY '' @ col, [AStr projectID])
      else
        (''SELECT DISTINCT '' @ col @ '' FROM '' @ table @ '' WHERE '' @ col @ '' != '' @ [sq, sq] @
         '' ORDER BY '' @ col, []))"

definition scanned_strings :: "string option list reply \<Rightarrow> string list option" where
  "scanned_strings r = (case r of RowsOk vs \<Rightarrow> Some (List.map_filter (\<lambda>v. v) vs) | _ \<Rightarrow> None)"

definition query_strings :: "'f executor \<Rightarrow> sqlfrag \<Rightarrow> string list option" where
  "query_strings e frag = scanned_strings (db_strings (DB e) (fst frag) (snd frag))"

definition distinctSymbolsColumn :: "'f executor \<Rightarrow> string \<Rightarrow> string list option" where
  "distinctSymbolsColumn e col = query_strings e (distinct_query ''symbols'' col (ProjectID e))"

definition distinctEdgesColumn :: "'f executor \<Rightarrow> string \<Rightarrow> string list option" where
  "distinctEdgesColumn e col = query_strings e (distinct_query ''edges'' col (ProjectID e))"

definition kindsForSymbolName :: "'f executor \<Rightarrow> string \<Rightarrow> string list option" where
  "kindsForSymbolName e name =
     query_strings e
       (if ProjectID e \<noteq> '''' then
          (''SELECT DISTINCT kind FROM symbols WHERE project_id=? AND name=? ORDER BY kind'',
           [AStr (ProjectID e), AStr name])
        else (''SELECT DISTINCT kind FROM symbols WHERE name=? ORDER BY kind'', [AStr name]))"

definition collectKindLabelTypoWarnings :: "'f executor \<Rightarrow> queryAST \<Rightarrow> warning list" where
  "collectKindLabelTypoWarnings e q =
     (let probes = filter (\<lambda>k. k \<noteq> '''') (concat (map (\<lambda>p. [p_fromKind p, p_toKind p]) (q_patterns q))) in
      if probes = [] then []
      else (case distinctSymbolsColumn e ''kind'' of
              None \<Rightarrow> []
            | Some known \<Rightarrow>
                map (\<lambda>v. WLabelTypo v known) (filter (\<lambda>v. v \<notin> set known) (sorted_keys probes))))"

fun is_zero_cell :: "'f fops \<Rightarrow> 'f val \<Rightarrow> bool" where
  "is_zero_cell F VNil = True"
| "is_zero_cell F (VInt i) = (i = 0)"
| "is_zero_cell F (VFloat f) = (f_le F f (f_of_int F 0) \<and> f_le F (f_of_int F 0) f)"
| "is_zero_cell F _ = False"

definition isEffectivelyZero :: "'f fops \<Rightarrow> 'f result \<Rightarrow> queryAST \<Rightarrow> bool" where
  "isEffectivelyZero F res q =
     (if Total res = 0 then True
      else if \<not> hasAggregation q then False
      else (case (Rows res, Columns res) of
              (row # _, col # _) \<Rightarrow> is_zero_cell F (row_get row col)
            | _ \<Rightarrow> True))"

definition enum_probe :: "queryAST \<Rightarrow> condition \<Rightarrow> (bool \<times> string \<times> string) option" where
  "enum_probe q c =
     (if c_op c \<noteq> OpEq \<or> c_value c = '''' then None
      else if c_property c \<notin> set enumValuedProperties then None
      else
        let col = cypherPropToCol (c_property c) in
        if col = '''' then None else Some (c_variable c \<in> set (edge_vars q), col, c_value c))"

definition enum_warning :: "'f executor \<Rightarrow> bool \<times> string \<times> string \<Rightarrow> warning option" where
  "enum_warning e probe =
     (let (edge, prop, value) = probe in
      case (if edge then distinctEdgesColumn e prop else distinctSymbolsColumn e prop) of
        None \<Rightarrow> None
      | Some known \<Rightarrow> if value \<in> set known then None else Some (WEnumValue prop value edge known))"

definition collectUnknownEnumValueWarnings :: "'f executor \<Rightarrow> queryAST \<Rightarrow> warning list" where
  "collectUnknownEnumValueWarnings e q =
     List.map_filter (enum_warning e) (sorted_keys (List.map_filter (enum_probe q) (mentioned q)))"

definition label_of :: "queryAST \<Rightarrow> string \<rightharpoonup> string" where
  "label_of q =
     foldl (\<lambda>m p.
         let m1 = (if p_fromVar p \<noteq> '''' \<and> p_fromKind p \<noteq> '''' then m(p_fromVar p \<mapsto> p_fromKind p) else m)
         in if p_toVar p \<noteq> '''' \<and> p_toKind p \<noteq> '''' then m1(p_toVar p \<mapsto> p_toKind p) else m1)
       Map.empty (q_patterns q)"

definition name_probe :: "queryAST \<Rightarrow> condition \<Rightarrow> (string \<times> string \<times> string) option" where
  "name_probe q c =
     (if c_op c \<noteq> OpEq \<or> c_property c \<noteq> ''name'' \<or> c_value c = '''' then None
      else map_option (\<lambda>label. (c_value c, label, c_variable c)) (label_of q (c_variable c)))"

definition label_warning :: "'f executor \<Rightarrow> string \<times> string \<times> string \<Rightarrow> warning option" where
  "label_warning e probe =
     (let (name, label, variable) = probe in
      case kindsForSymbolName e name of
        None \<Rightarrow> None
      | Some kinds \<Rightarrow>
          if kinds = [] then None
          else if label \<in> set kinds then None
          else Some (WLabelMismatch label name kinds))"

definition collectKindLabelMismatchWarnings :: "'f executor \<Rightarrow> queryAST \<Rightarrow> warning list" where
  "collectKindLabelMismatchWarnings e q =
     List.map_filter (label_warning e) (sorted_keys (List.map_filter (name_probe q) (mentioned q)))"

section \<open>Execute\<close>

definition trim_to_cap :: "int \<Rightarrow> queryAST \<Rightarrow> 'f result \<Rightarrow> 'f result" where
  "trim_to_cap cap q res =
     (if \<not> hasAggregation q \<and> int (length (Rows res)) > cap then
        res\<lparr>Warnings := Warnings res @ [WMaxRows cap (int (length (Rows res)))],
            Rows := take (nat cap) (Rows res), Total := cap\<rparr>
      else res)"

definition finish :: "'f fops \<Rightarrow> 'f executor \<Rightarrow> queryAST \<Rightarrow> 'f result \<Rightarrow> 'f result" where
  "finish F e q res0 =
     (let res = trim_to_cap (maxRows e) q res0
      in res\<lparr>Warnings := Warnings res @ static_warnings q @ collectKindLabelTypoWarnings e q @
            (if isEffectivelyZero F res q
             then collectUnknownEnumValueWarnings e q @ collectKindLabelMismatchWarnings e q else [])\<rparr>)"

text \<open>\<open>None\<close> is the panic of the tokenizer.\<close>

definition Execute ::
    "'f fops \<Rightarrow> regex \<Rightarrow> (nat \<Rightarrow> bool) \<Rightarrow> 'f executor \<Rightarrow> string \<Rightarrow> (exec_error + 'f result) option" where
  "Execute F re cancelled e query =
     (if ProjectID e = '''' \<and> \<not> AllowAllProjects e then Some (Inl ExProjectRequired)
      else (case parse re query of
              None \<Rightarrow> None
            | Some (Inl err) \<Rightarrow> Some (Inl (ExParse err))
            | Some (Inr q) \<Rightarrow>
                if length (q_patterns q) > 1 then Some (Inl ExMultiMatch)
                else Some (bind_res (run F re cancelled e q) (\<lambda>res. Inr (finish F e q res)))))"

section \<open>Row loops\<close>

lemma filter_rows_pure_aux:
  "coherent re cache \<Longrightarrow> filter_rows F re filt ms cache = filter (\<lambda>m. eval_opt (leaf F re m) filt) ms"
proof (induction ms arbitrary: cache)
  case (Cons m ms)
  obtain ok c1 where mc: "matchesWhere F re m filt cache = (ok, c1)" by (cases "matchesWhere F re m filt cache")
  then have "ok = eval_opt (leaf F re m) filt" "coherent re c1"
    using matchesWhere_pair [OF Cons.prems, of F m filt] by auto
  then show ?case using Cons.IH mc by simp
qed simp

text \<open>
  The node scan with its shared regular-expression cache returns exactly the projection of the scanned rows
  that satisfy the residual WHERE filter, each row judged on its own; database errors are passed on.
\<close>
theorem runNodeScan_spec:
  "runNodeScan F re e q pat =
     (case db_nodes (DB e) (fst (fst (node_plan e q pat))) (snd (fst (node_plan e q pat))) of
        QueryErr m \<Rightarrow> Inl (ExNodeScan m)
      | ScanErr m \<Rightarrow> Inl (ExDb m)
      | RowsOk rs \<Rightarrow>
          Inr (buildResult F (filter (\<lambda>m. eval_opt (leaf F re m) (snd (node_plan e q pat)))
                (map (\<lambda>r. symRowToMap (p_fromVar pat) (scanSymRow r)) rs)) q))"
  by (cases "node_plan e q pat")
    (auto simp: runNodeScan_def filter_rows_pure_aux split: reply.split)

section \<open>Every statement is fully bound\<close>

abbreviation bound :: "sqlfrag \<Rightarrow> bool" where
  "bound f \<equiv> holes (fst f) = length (snd f)"

lemma bound_frags:
  "bound (frags [])" "bound f \<Longrightarrow> bound (frags fs) \<Longrightarrow> bound (frags (f # fs))"
  by (auto simp: frags_def)

lemma bound_frags_map: "(\<And>c. bound (g c)) \<Longrightarrow> bound (frags (map g cs))"
  by (induction cs) (auto simp: bound_frags simp del: fst_conv snd_conv intro!: bound_frags)

lemma bound_plain: "holes s = 0 \<Longrightarrow> bound (s, [])"
  by simp

lemma holes_replicate: "holes (concat (replicate n ''?,'')) = n"
  by (induction n) auto

lemma inPlaceholders_Suc: "inPlaceholders (Suc n) = concat (replicate n ''?,'') @ ''?''"
proof -
  have "concat (replicate (Suc n) ''?,'') = (concat (replicate n ''?,'') @ ''?'') @ '',''"
    by (induction n) auto
  then show ?thesis unfolding inPlaceholders_def Let_def by (metis butlast_conv_take butlast_snoc)
qed

lemma holes_placeholders: "holes (inPlaceholders n) = n"
  by (cases n) (simp_all add: inPlaceholders_Suc holes_replicate, simp add: inPlaceholders_def)

lemma bound_opt: "holes text = 1 \<Longrightarrow> bound (opt_clause v text)"
  by (simp add: opt_clause_def)

lemma bound_inline: "holes prefix = 0 \<Longrightarrow> bound (appendInlinePropFilters prefix props)"
  by (induction props)
    (auto simp: appendInlinePropFilters_def inline_prop_filter_def Let_def prop_cols_holes)

lemma bound_order: "holes col = 0 \<Longrightarrow> bound (order_clause col dir)"
  by (simp add: order_clause_def)

lemma bound_limit: "bound (limit_clause e q filt)"
  by (simp add: limit_clause_def)

lemma bound_appendWhereOp: "holes prefix = 0 \<Longrightarrow> bound (appendWhereOp prefix (cypherPropToCol p) c)"
  using condLeafToSQL_holes [of prefix "cypherPropToCol p" c] prop_cols_holes [of p]
  by (auto simp: appendWhereOp_fragment_aux split: option.splits)

lemma bound_where_plan:
  assumes "\<And>c. bound (fst (push c))" "\<And>v p. pf v = Some p \<Longrightarrow> holes p = 0"
  shows "bound (fst (where_plan push pf q))"
proof (cases "pushdownAllowed q")
  case True
  have "bound (frags (map (fst \<circ> push) (q_conditions q)))" by (rule bound_frags_map) (simp add: assms(1))
  then show ?thesis using True by (simp add: where_plan_def)
next
  case False
  then show ?thesis using whereExprToSQL_holes [OF _ assms(2)]
    by (auto simp: where_plan_def split: option.splits)
qed

lemma bound_node_push: "bound (fst (node_push pat c))"
  using bound_appendWhereOp [of "''''" "c_property c" c] by (simp add: node_push_def Let_def)

lemma bound_join_push: "bound (fst (join_push pat c))"
  using bound_appendWhereOp [of "''a.''" "c_property c" c] bound_appendWhereOp [of "''b.''" "c_property c" c]
  by (simp add: join_push_def Let_def)

lemma holes_orderByCol: "holes (orderByCol ob v) = 0"
  by (simp add: orderByCol_def Let_def prop_cols_holes)

lemma holes_joinOrderByCol: "holes (fst (joinOrderByCol ob pat)) = 0 \<and> holes (snd (joinOrderByCol ob pat)) = 0"
  by (auto simp: joinOrderByCol_def Let_def prop_cols_holes split: prod.splits)

lemma holes_selects: "holes select_symbols = 0" "holes join_select = 0"
  by code_simp+

lemma bound_node_plan: "bound (fst (node_plan e q pat))"
proof -
  have w: "bound (fst (where_plan (node_push pat) (node_prefix pat) q))"
    by (rule bound_where_plan) (auto simp: bound_node_push node_prefix_def split: if_splits)
  show ?thesis unfolding node_plan_def Let_def split_beta fst_conv
    by (intro bound_frags bound_opt bound_inline bound_limit w bound_plain)
      (simp_all add: holes_selects bound_order holes_orderByCol)
qed

lemma bound_edge_filter: "bound (edge_filter pat)"
  by (simp add: edge_filter_def holes_placeholders)

lemma bound_join_plan: "bound (fst (join_plan e q pat))"
proof -
  have w: "bound (fst (where_plan (join_push pat) (join_prefix pat) q))"
    by (rule bound_where_plan) (auto simp: bound_join_push join_prefix_def split: if_splits)
  have o: "bound (order_clause (if snd jc = '''' then '''' else fst jc @ snd jc) dir)"
    if "jc = joinOrderByCol ob pat" for jc ob dir
    using that holes_joinOrderByCol [of ob pat] by (intro bound_order) simp
  show ?thesis unfolding join_plan_def Let_def split_beta fst_conv
    by (intro bound_frags bound_opt bound_inline bound_limit bound_edge_filter w bound_plain)
      (simp_all add: holes_selects o)
qed

lemma bound_bfs_start: "bound (bfs_start_plan e q pat)"
proof -
  have c: "bound (frags (map (bfs_start_cond v) cs))" for v cs
    by (rule bound_frags_map) (simp add: bfs_start_cond_def Let_def prop_cols_holes)
  show ?thesis unfolding bfs_start_plan_def Let_def
    by (intro bound_frags bound_opt bound_inline bound_plain) (simp_all add: holes_selects c)
qed

lemma bound_cte: "holes (bfs_cte (length kinds) pid inbound) = length (bfs_args start kinds mn mx pid n)"
  by (cases "pid = ''''"; cases inbound)
    (simp_all add: bfs_cte_def cte_head_def cte_mid_def cte_tail_def bfs_args_def bfs_recursive_step_def bfsSymbolProjectFilter_def holes_placeholders
      lf_def lf2_def)

text \<open>
  Every SQL statement the executor issues is fully bound: whatever the query, pattern and project, the node
  scan, the join, the start-node query and the recursive traversal have as many placeholders as arguments.
\<close>
theorem statements_bound:
  "bound (fst (node_plan e q pat)) \<and> bound (fst (join_plan e q pat)) \<and> bound (bfs_start_plan e q pat) \<and>
   holes (bfs_cte (length kinds) pid inbound) = length (bfs_args start kinds mn mx pid n)"
  by (intro conjI bound_node_plan bound_join_plan bound_bfs_start bound_cte)


section \<open>Project scope\<close>

lemma frags_Cons: "frags (f # fs) = (fst f @ fst (frags fs), snd f @ snd (frags fs))"
  by (simp add: frags_def)

text \<open>
  A statement binds a project with a predicate when the predicate, which ends in its placeholder, is part of the text
  and the argument at the position of that placeholder (the number of those before it) is the project.
\<close>

definition binds_project :: "string \<Rightarrow> string \<Rightarrow> string \<Rightarrow> sqlarg list \<Rightarrow> bool" where
  "binds_project predicate pid sql args \<longleftrightarrow>
     (\<exists>before after l r. sql = before @ predicate @ after \<and> args = l @ AStr pid # r \<and> length l = holes before)"

text \<open>
  Two databases that give the same replies to the statements scoped to one project: symbol queries with the
  predicate on the project, joins with it on the source symbol (the head of a join equates the projects of the edge
  and of both symbols), traversals with it on the edges and on the symbols, and vocabulary queries.
\<close>

definition same_for_project :: "string \<Rightarrow> 'f database \<Rightarrow> 'f database \<Rightarrow> bool" where
  "same_for_project pid db1 db2 \<longleftrightarrow>
     (\<forall>sql args. has_prefix sql select_symbols \<and> binds_project '' AND project_id=?'' pid sql args \<longrightarrow>
        db_nodes db1 sql args = db_nodes db2 sql args) \<and>
     (\<forall>sql args. has_prefix sql join_select \<and> binds_project '' AND a.project_id=?'' pid sql args \<longrightarrow>
        db_joins db1 sql args = db_joins db2 sql args) \<and>
     (\<forall>sql args. binds_project '' AND e.project_id = ?'' pid sql args \<and>
        binds_project '' WHERE s.project_id = ?'' pid sql args \<longrightarrow> db_hops db1 sql args = db_hops db2 sql args) \<and>
     (\<forall>sql args. binds_project '' WHERE project_id=?'' pid sql args \<longrightarrow> db_strings db1 sql args = db_strings db2 sql args)"

lemma same_for_projectD:
  assumes "same_for_project pid db1 db2"
  shows "has_prefix sql select_symbols \<Longrightarrow> binds_project '' AND project_id=?'' pid sql args \<Longrightarrow>
      db_nodes db1 sql args = db_nodes db2 sql args"
    and "has_prefix sql join_select \<Longrightarrow> binds_project '' AND a.project_id=?'' pid sql args \<Longrightarrow>
      db_joins db1 sql args = db_joins db2 sql args"
    and "binds_project '' AND e.project_id = ?'' pid sql args \<Longrightarrow> binds_project '' WHERE s.project_id = ?'' pid sql args \<Longrightarrow>
      db_hops db1 sql args = db_hops db2 sql args"
    and "binds_project '' WHERE project_id=?'' pid sql args \<Longrightarrow> db_strings db1 sql args = db_strings db2 sql args"
  using assms unfolding same_for_project_def by blast+

lemma binds_projectI:
  "sql = before @ predicate @ after \<Longrightarrow> args = l @ AStr pid # r \<Longrightarrow> length l = holes before \<Longrightarrow>
     binds_project predicate pid sql args"
  unfolding binds_project_def by blast

lemma frags_scoped:
  assumes "pid \<noteq> ''''" and "holes (fst h) = length (snd h)"
  shows "binds_project predicate pid (fst (frags (h # opt_clause pid predicate # fs))) (snd (frags (h # opt_clause pid predicate # fs)))"
  using assms by (intro binds_projectI [where before = "fst h" and l = "snd h"]) (simp_all add: frags_Cons opt_clause_def)

lemma node_plan_frags:
  "\<exists>fs. fst (node_plan e q pat) = frags ((select_symbols, []) # opt_clause (ProjectID e) '' AND project_id=?'' # fs)"
  unfolding node_plan_def Let_def split_beta fst_conv by (intro exI) (rule refl)

lemma bfs_start_frags:
  "\<exists>fs. bfs_start_plan e q pat = frags ((select_symbols, []) # opt_clause (ProjectID e) '' AND project_id=?'' # fs)"
  unfolding bfs_start_plan_def Let_def by (intro exI) (rule refl)

lemma join_plan_frags:
  "\<exists>fs. fst (join_plan e q pat) =
     frags ((join_select @ fst (edge_filter pat), snd (edge_filter pat)) # opt_clause (ProjectID e) '' AND a.project_id=?'' # fs)"
proof -
  have "\<exists>fs. fst (join_plan e q pat) =
      frags ((join_select, []) # edge_filter pat # opt_clause (ProjectID e) '' AND a.project_id=?'' # fs)"
    unfolding join_plan_def Let_def split_beta fst_conv by (intro exI) (rule refl)
  moreover have "frags ((join_select, []) # edge_filter pat # fs) =
      frags ((join_select @ fst (edge_filter pat), snd (edge_filter pat)) # fs)" for fs
    by (simp add: frags_Cons)
  ultimately show ?thesis by metis
qed

lemma frags_head: "has_prefix (fst (frags ((h @ t, as) # fs))) h"
  by (simp add: frags_Cons has_prefix_append)

lemma node_plan_scoped:
  assumes "ProjectID e \<noteq> ''''"
  shows "has_prefix (fst (fst (node_plan e q pat))) select_symbols \<and>
     binds_project '' AND project_id=?'' (ProjectID e) (fst (fst (node_plan e q pat))) (snd (fst (node_plan e q pat)))"
proof -
  obtain fs where f: "fst (node_plan e q pat) =
      frags ((select_symbols, []) # opt_clause (ProjectID e) '' AND project_id=?'' # fs)"
    using node_plan_frags by blast
  show ?thesis unfolding f using frags_scoped [OF assms, of "(select_symbols, [])"] frags_head [of select_symbols "''''"]
    by (simp add: holes_selects)
qed

lemma bfs_start_scoped:
  assumes "ProjectID e \<noteq> ''''"
  shows "has_prefix (fst (bfs_start_plan e q pat)) select_symbols \<and>
     binds_project '' AND project_id=?'' (ProjectID e) (fst (bfs_start_plan e q pat)) (snd (bfs_start_plan e q pat))"
proof -
  obtain fs where f: "bfs_start_plan e q pat =
      frags ((select_symbols, []) # opt_clause (ProjectID e) '' AND project_id=?'' # fs)"
    using bfs_start_frags by blast
  show ?thesis unfolding f using frags_scoped [OF assms, of "(select_symbols, [])"] frags_head [of select_symbols "''''"]
    by (simp add: holes_selects)
qed

lemma join_plan_scoped:
  assumes "ProjectID e \<noteq> ''''"
  shows "has_prefix (fst (fst (join_plan e q pat))) join_select \<and>
     binds_project '' AND a.project_id=?'' (ProjectID e) (fst (fst (join_plan e q pat))) (snd (fst (join_plan e q pat)))"
proof -
  let ?h = "(join_select @ fst (edge_filter pat), snd (edge_filter pat))"
  obtain fs where f: "fst (join_plan e q pat) = frags (?h # opt_clause (ProjectID e) '' AND a.project_id=?'' # fs)"
    using join_plan_frags by blast
  have "holes (fst ?h) = length (snd ?h)" using bound_edge_filter [of pat] holes_selects by simp
  then show ?thesis unfolding f using frags_scoped [OF assms] frags_head by blast
qed

lemma holes_cte: "holes (cte_head n inbound) = Suc n" "holes cte_mid = 3"
  by (cases inbound; simp add: cte_head_def cte_mid_def bfs_recursive_step_def holes_placeholders lf_def lf2_def)+

lemma bfs_cte_scoped:
  assumes "pid \<noteq> ''''"
  shows "binds_project '' AND e.project_id = ?'' pid (bfs_cte (length kinds) pid inbound) (bfs_args start kinds mn mx pid n)"
    and "binds_project '' WHERE s.project_id = ?'' pid (bfs_cte (length kinds) pid inbound) (bfs_args start kinds mn mx pid n)"
proof -
  show "binds_project '' AND e.project_id = ?'' pid (bfs_cte (length kinds) pid inbound) (bfs_args start kinds mn mx pid n)"
    using assms by (intro binds_projectI [where before = "cte_head (length kinds) inbound" and l = "AStr start # map AStr kinds"])
      (simp_all add: bfs_cte_def bfs_args_def holes_cte)
  show "binds_project '' WHERE s.project_id = ?'' pid (bfs_cte (length kinds) pid inbound) (bfs_args start kinds mn mx pid n)"
    using assms by (intro binds_projectI [where
        before = "cte_head (length kinds) inbound @ '' AND e.project_id = ?'' @ cte_mid" and
        l = "AStr start # map AStr kinds @ [AStr pid, AInt mx, AInt mn, AStr start]"])
      (simp_all add: bfs_cte_def bfs_args_def bfsSymbolProjectFilter_def holes_cte)
qed

lemma distinct_query_scoped:
  assumes "pid \<noteq> ''''" "holes col = 0" "holes table = 0"
  shows "binds_project '' WHERE project_id=?'' pid (fst (distinct_query table col pid)) (snd (distinct_query table col pid))"
  using assms by (intro binds_projectI [where before = "''SELECT DISTINCT '' @ col @ '' FROM '' @ table" and l = "[]"])
    (simp_all add: distinct_query_def)

text \<open>With another database that agrees on the statements of the project, each part of the execution is the same.\<close>

lemma scoped_columns:
  assumes "ProjectID e \<noteq> ''''" "same_for_project (ProjectID e) (DB e) db" "holes col = 0"
  shows "distinctSymbolsColumn (e\<lparr>DB := db\<rparr>) col = distinctSymbolsColumn e col"
    and "distinctEdgesColumn (e\<lparr>DB := db\<rparr>) col = distinctEdgesColumn e col"
proof -
  have "holes ''symbols'' = 0" "holes ''edges'' = 0" by (simp_all add: holes_def)
  then show "distinctSymbolsColumn (e\<lparr>DB := db\<rparr>) col = distinctSymbolsColumn e col"
    "distinctEdgesColumn (e\<lparr>DB := db\<rparr>) col = distinctEdgesColumn e col"
    using same_for_projectD(4) [OF assms(2) distinct_query_scoped [OF assms(1,3)]]
    by (simp_all add: distinctSymbolsColumn_def distinctEdgesColumn_def query_strings_def)
qed

lemma scoped_kinds:
  assumes "ProjectID e \<noteq> ''''" "same_for_project (ProjectID e) (DB e) db"
  shows "kindsForSymbolName (e\<lparr>DB := db\<rparr>) name = kindsForSymbolName e name"
proof -
  have "binds_project '' WHERE project_id=?'' (ProjectID e)
      ''SELECT DISTINCT kind FROM symbols WHERE project_id=? AND name=? ORDER BY kind'' [AStr (ProjectID e), AStr name]"
    by (intro binds_projectI [where before = "''SELECT DISTINCT kind FROM symbols''" and l = "[]"])
      (simp_all add: holes_def)
  from same_for_projectD(4) [OF assms(2) this] show ?thesis
    using assms(1) by (simp add: kindsForSymbolName_def query_strings_def)
qed

lemma map_filter_cong: "(\<And>x. x \<in> set xs \<Longrightarrow> f x = g x) \<Longrightarrow> List.map_filter f xs = List.map_filter g xs"
  by (induction xs) (simp_all add: List.map_filter_simps split: option.split)

lemma enum_probe_holes: "enum_probe q c = Some (b, col, v) \<Longrightarrow> holes col = 0"
  by (auto simp: enum_probe_def Let_def prop_cols_holes split: if_splits)

lemma scoped_finish:
  assumes "ProjectID e \<noteq> ''''" "same_for_project (ProjectID e) (DB e) db"
  shows "finish F (e\<lparr>DB := db\<rparr>) q res = finish F e q res"
proof -
  have 1: "collectKindLabelTypoWarnings (e\<lparr>DB := db\<rparr>) q = collectKindLabelTypoWarnings e q"
  proof -
    have k: "distinctSymbolsColumn (e\<lparr>DB := db\<rparr>) ''kind'' = distinctSymbolsColumn e ''kind''"
      by (rule scoped_columns(1) [OF assms]) (simp add: holes_def)
    show ?thesis unfolding collectKindLabelTypoWarnings_def k by (rule refl)
  qed
  have "enum_warning (e\<lparr>DB := db\<rparr>) p = enum_warning e p" if "p \<in> set (sorted_keys (List.map_filter (enum_probe q) (mentioned q)))" for p
  proof -
    obtain b col v where p: "p = (b, col, v)" by (cases p)
    have "holes col = 0" using that enum_probe_holes unfolding p sorted_keys_set by (auto simp: List.map_filter_def)
    then show ?thesis using scoped_columns [OF assms] by (simp add: enum_warning_def p)
  qed
  then have 2: "collectUnknownEnumValueWarnings (e\<lparr>DB := db\<rparr>) q = collectUnknownEnumValueWarnings e q"
    unfolding collectUnknownEnumValueWarnings_def by (rule map_filter_cong)
  have "label_warning (e\<lparr>DB := db\<rparr>) = label_warning e"
    by (rule ext) (simp add: label_warning_def scoped_kinds [OF assms])
  then have 3: "collectKindLabelMismatchWarnings (e\<lparr>DB := db\<rparr>) q = collectKindLabelMismatchWarnings e q"
    by (simp add: collectKindLabelMismatchWarnings_def)
  have "maxRows (e\<lparr>DB := db\<rparr>) = maxRows e" by (simp add: maxRows_def)
  then show ?thesis by (simp only: finish_def 1 2 3)
qed

lemma plan_database [simp]:
  "node_plan (e\<lparr>DB := db\<rparr>) q pat = node_plan e q pat"
  "join_plan (e\<lparr>DB := db\<rparr>) q pat = join_plan e q pat"
  "bfs_start_plan (e\<lparr>DB := db\<rparr>) q pat = bfs_start_plan e q pat"
proof -
  have "maxRows (e\<lparr>DB := db\<rparr>) = maxRows e" "ProjectID (e\<lparr>DB := db\<rparr>) = ProjectID e" by (simp_all add: maxRows_def)
  then show "node_plan (e\<lparr>DB := db\<rparr>) q pat = node_plan e q pat" "join_plan (e\<lparr>DB := db\<rparr>) q pat = join_plan e q pat"
    "bfs_start_plan (e\<lparr>DB := db\<rparr>) q pat = bfs_start_plan e q pat"
    by (simp_all only: node_plan_def join_plan_def bfs_start_plan_def limit_clause_def)
qed

lemma scoped_starts:
  assumes "ProjectID e \<noteq> ''''" "same_for_project (ProjectID e) (DB e) db"
  shows "start_loop F re cancelled (e\<lparr>DB := db\<rparr>) q pat i starts rows cache = start_loop F re cancelled e q pat i starts rows cache"
proof -
  have m: "maxRows (e\<lparr>DB := db\<rparr>) = maxRows e" by (simp add: maxRows_def)
  have "bfsViaCTE (e\<lparr>DB := db\<rparr>) start kinds mn mx inbound = bfsViaCTE e start kinds mn mx inbound" for start kinds mn mx inbound
    using same_for_projectD(3) [OF assms(2) bfs_cte_scoped [OF assms(1)]] by (simp add: bfsViaCTE_def m)
  then show ?thesis
    by (induction starts arbitrary: i rows cache) (simp_all add: m Let_def split: sum.split prod.split)
qed

lemma scoped_run:
  assumes "ProjectID e \<noteq> ''''" "same_for_project (ProjectID e) (DB e) db"
  shows "run F re cancelled (e\<lparr>DB := db\<rparr>) q = run F re cancelled e q"
proof -
  note scope = node_plan_scoped [OF assms(1)] join_plan_scoped [OF assms(1)] bfs_start_scoped [OF assms(1)]
  have "runNodeScan F re (e\<lparr>DB := db\<rparr>) q pat = runNodeScan F re e q pat" for pat
    using same_for_projectD(1) [OF assms(2)] scope(1) [of q pat] by (simp add: runNodeScan_def split_beta)
  moreover have "runJoinQuery F re (e\<lparr>DB := db\<rparr>) q pat = runJoinQuery F re e q pat" for pat
    using same_for_projectD(2) [OF assms(2)] scope(2) [of q pat] by (simp add: runJoinQuery_def split_beta)
  moreover have "runBFS F re cancelled (e\<lparr>DB := db\<rparr>) q pat = runBFS F re cancelled e q pat" for pat
  proof -
    have "db_nodes db (fst (bfs_start_plan e q pat)) (snd (bfs_start_plan e q pat)) =
        db_nodes (DB e) (fst (bfs_start_plan e q pat)) (snd (bfs_start_plan e q pat))"
      using same_for_projectD(1) [OF assms(2)] scope(3) [of q pat] by simp
    then show ?thesis unfolding runBFS_def split_beta scoped_starts [OF assms] by simp
  qed
  ultimately show ?thesis by (simp add: run_def split: list.split)
qed

text \<open>
  C4: Isolation: without the cross-project opt-in the answer, warnings included, depends only on the database's
  replies to statements scoped to the project. Without a project the answer is the error that asks for one, whatever the query and the database; with
  a project it is the same for any two databases that reply alike to the statements scoped to that project, that is,
  those whose text has the project predicate at each of its required places with its placeholder bound to
  that project, for node scans, joins, the start and the recursion of traversals, and the queries behind the warnings.
\<close>
theorem project_scope:
  assumes "\<not> AllowAllProjects e" and "same_for_project (ProjectID e) (DB e) db"
  shows "Execute F re cancelled (e\<lparr>DB := db\<rparr>) query = Execute F re cancelled e query \<and>
     (ProjectID e = '''' \<longrightarrow> Execute F re cancelled e query = Some (Inl ExProjectRequired))"
proof (cases "ProjectID e = ''''")
  case True
  then show ?thesis using assms(1) by (simp add: Execute_def)
next
  case False
  then show ?thesis unfolding Execute_def scoped_run [OF False assms(2)] scoped_finish [OF False assms(2)] by simp
qed


section \<open>Row limits\<close>

lemma maxRows_range: "1 \<le> maxRows e \<and> maxRows e \<le> 10000"
  by (simp add: maxRows_def)

lemma trim_rows:
  "\<not> hasAggregation q \<Longrightarrow> Total res = int (length (Rows res)) \<Longrightarrow> 0 \<le> cap \<Longrightarrow>
     int (length (Rows (trim_to_cap cap q res))) \<le> cap \<and>
     Total (trim_to_cap cap q res) = int (length (Rows (trim_to_cap cap q res)))"
  by (auto simp: trim_to_cap_def)

lemma buildResult_total: "Total (buildResult F rows q) = int (length (Rows (buildResult F rows q)))"
  by (simp add: buildResult_def aggregate_result_def plain_result_def Let_def)

lemma run_total: "run F re cancelled e q = Inr res \<Longrightarrow> Total res = int (length (Rows res))"
  by (auto simp: run_def runNodeScan_def runJoinQuery_def runBFS_def buildResult_total split_beta Let_def
      split: list.splits if_splits reply.splits)

text \<open>
  The row cap holds end to end: a successful non-aggregating query returns at most \<open>maxRows\<close> rows, which is
  between 1 and 10000 whatever the caller configured, and its total is the number of rows it returns.
\<close>
theorem execute_capped:
  assumes "Execute F re cancelled e query = Some (Inr res)" and "parse re query = Some (Inr q)"
    and "\<not> hasAggregation q"
  shows "int (length (Rows res)) \<le> maxRows e \<and> maxRows e \<le> 10000 \<and> Total res = int (length (Rows res))"
proof -
  obtain r where r: "run F re cancelled e q = Inr r" "res = finish F e q r"
    using assms(1,2) by (auto simp: Execute_def split: if_splits)
  have "Rows res = Rows (trim_to_cap (maxRows e) q r)" "Total res = Total (trim_to_cap (maxRows e) q r)"
    unfolding r(2) by (simp_all add: finish_def Let_def)
  then show ?thesis using trim_rows [OF assms(3) run_total [OF r(1)], of "maxRows e"] maxRows_range [of e] by simp
qed

section \<open>Joined rows are deduplicated\<close>

text \<open>The key of a scanned row, its projected row, and whether it passes the filter.\<close>

definition jkey :: "'f raw_row \<times> 'f raw_row \<times> string \<times> 'f \<Rightarrow> string" where
  "jkey r = (case r of (ra, rb, k, conf) \<Rightarrow> edge_key (scanSymRow ra) (scanSymRow rb) k)"

definition jrow :: "pattern \<Rightarrow> 'f raw_row \<times> 'f raw_row \<times> string \<times> 'f \<Rightarrow> 'f row" where
  "jrow pat r = (case r of (ra, rb, k, conf) \<Rightarrow> join_row pat (scanSymRow ra) (scanSymRow rb) k conf)"

definition jconf :: "'f raw_row \<times> 'f raw_row \<times> string \<times> 'f \<Rightarrow> 'f" where
  "jconf r = (case r of (_, _, _, conf) \<Rightarrow> conf)"

text \<open>
  The row that stands for a key among the scanned rows \<open>kept\<close>: the first of highest confidence when the edge is
  bound to a variable, the first otherwise.
\<close>

definition jbest :: "'f fops \<Rightarrow> pattern \<Rightarrow> ('f raw_row \<times> 'f raw_row \<times> string \<times> 'f) list \<Rightarrow> string \<Rightarrow>
    'f raw_row \<times> 'f raw_row \<times> string \<times> 'f \<Rightarrow> bool" where
  "jbest F pat kept key r \<longleftrightarrow>
     (\<exists>before after. kept = before @ r # after \<and> jkey r = key \<and>
        (if p_edgeVar pat = '''' then key \<notin> jkey ` set before
         else (\<forall>s \<in> set before. jkey s = key \<longrightarrow> f_lt F (jconf s) (jconf r)) \<and>
              (\<forall>s \<in> set after. jkey s = key \<longrightarrow> \<not> f_lt F (jconf r) (jconf s))))"

text \<open>The keys of the scanned rows, each where it is first seen.\<close>

definition jkeys :: "('f raw_row \<times> 'f raw_row \<times> string \<times> 'f) list \<Rightarrow> string list" where
  "jkeys kept = rev (remdups (rev (map jkey kept)))"

lemma jkeys_simps [simp]:
  "jkeys [] = []" "set (jkeys rs) = jkey ` set rs" "distinct (jkeys rs)"
  by (simp_all add: jkeys_def)

lemma jkeys_snoc: "jkeys (rs @ [r]) = (if jkey r \<in> jkey ` set rs then jkeys rs else jkeys rs @ [jkey r])"
  using remdups_rev_snoc [of "map jkey rs" "jkey r"] by (simp add: jkeys_def)

definition join_inv ::
    "'f fops \<Rightarrow> pattern \<Rightarrow> ('f raw_row \<times> 'f raw_row \<times> string \<times> 'f) list \<Rightarrow> 'f row list \<Rightarrow> (string \<rightharpoonup> nat) \<Rightarrow> bool" where
  "join_inv F pat kept rows seen \<longleftrightarrow>
     length rows = length (jkeys kept) \<and>
     (\<forall>i < length (jkeys kept). seen (jkeys kept ! i) = Some i) \<and> (\<forall>k. k \<notin> set (jkeys kept) \<longrightarrow> seen k = None) \<and>
     (\<forall>i < length (jkeys kept). \<exists>r. jbest F pat kept (jkeys kept ! i) r \<and> rows ! i = jrow pat r)"


definition jpass :: "'f fops \<Rightarrow> regex \<Rightarrow> pattern \<Rightarrow> whereExpr option \<Rightarrow>
    'f raw_row \<times> 'f raw_row \<times> string \<times> 'f \<Rightarrow> bool" where
  "jpass F re pat filt r = eval_opt (leaf F re (jrow pat r)) filt"

definition jstep :: "'f fops \<Rightarrow> pattern \<Rightarrow> 'f row list \<times> (string \<rightharpoonup> nat) \<Rightarrow>
    'f raw_row \<times> 'f raw_row \<times> string \<times> 'f \<Rightarrow> 'f row list \<times> (string \<rightharpoonup> nat)" where
  "jstep F pat st r =
     (let (rows, seen) = st in
      case seen (jkey r) of
        Some idx \<Rightarrow>
          (if p_edgeVar pat \<noteq> '''' \<and>
              f_lt F (float_cell F (row_get (rows ! idx) (p_edgeVar pat @ ''.confidence''))) (jconf r)
           then rows[idx := jrow pat r] else rows, seen)
      | None \<Rightarrow> (rows @ [jrow pat r], seen(jkey r \<mapsto> length rows)))"

lemma join_loop_Cons:
  "join_loop F re pat filt (r # rs) rows seen cache =
     (let (ok, cache') = matchesWhere F re (jrow pat r) filt cache in
      if \<not> ok then join_loop F re pat filt rs rows seen cache'
      else (let (rows', seen') = jstep F pat (rows, seen) r in join_loop F re pat filt rs rows' seen' cache'))"
  by (cases r) (simp add: jrow_def jkey_def jconf_def jstep_def Let_def split: option.split prod.split)

lemma join_loop_fold:
  "coherent re cache \<Longrightarrow>
     join_loop F re pat filt rs rows seen cache = fst (foldl (jstep F pat) (rows, seen) (filter (jpass F re pat filt) rs))"
proof (induction rs arbitrary: rows seen cache)
  case (Cons r rs)
  obtain ok c1 where mc: "matchesWhere F re (jrow pat r) filt cache = (ok, c1)"
    by (cases "matchesWhere F re (jrow pat r) filt cache")
  have ok: "ok = jpass F re pat filt r" "coherent re c1"
    using matchesWhere_pair [OF Cons.prems, of F "jrow pat r" filt] mc by (auto simp: jpass_def)
  then show ?case using Cons.IH [OF ok(2)] mc
    by (cases ok) (simp_all add: join_loop_Cons del: join_loop.simps split: prod.split)
qed simp

lemma float_irrefl: "float_order F \<Longrightarrow> \<not> f_lt F x x"
  unfolding float_order_def by metis

lemma join_conf: "p_edgeVar pat \<noteq> '''' \<Longrightarrow>
    float_cell F (row_get (jrow pat r) (p_edgeVar pat @ ''.confidence'')) = jconf r"
  by (cases r) (simp add: jrow_def join_row_def jconf_def row_get_def update_conv Let_def)

lemma jbest_new: "jkey r \<notin> jkey ` set rs \<Longrightarrow> jbest F pat (rs @ [r]) (jkey r) r"
  unfolding jbest_def by (rule exI [where x = rs], rule exI [where x = "[]"]) (auto simp: image_iff)

lemma jbest_keep:
  assumes "jbest F pat rs k s" and "jkey r = k \<Longrightarrow> p_edgeVar pat \<noteq> '''' \<Longrightarrow> \<not> f_lt F (jconf s) (jconf r)"
  shows "jbest F pat (rs @ [r]) k s"
proof -
  obtain us vs where "rs = us @ s # vs" "jkey s = k"
      "if p_edgeVar pat = '''' then k \<notin> jkey ` set us
       else (\<forall>t \<in> set us. jkey t = k \<longrightarrow> f_lt F (jconf t) (jconf s)) \<and>
            (\<forall>t \<in> set vs. jkey t = k \<longrightarrow> \<not> f_lt F (jconf s) (jconf t))"
    using assms(1) unfolding jbest_def by auto
  then show ?thesis unfolding jbest_def
    using assms(2) by (intro exI [where x = us] exI [where x = "vs @ [r]"]) (auto split: if_splits)
qed

lemma jbest_beat:
  assumes "jbest F pat rs (jkey r) s" "float_order F" "f_lt F (jconf s) (jconf r)" "p_edgeVar pat \<noteq> ''''"
  shows "jbest F pat (rs @ [r]) (jkey r) r"
proof -
  have neg: "f_lt F t (jconf r)" if "\<not> f_lt F (jconf s) t" for t
    using assms(2,3) that unfolding float_order_def by metis
  have "f_lt F (jconf t) (jconf r)" if "t \<in> set rs" "jkey t = jkey r" for t
  proof -
    obtain us vs where "rs = us @ s # vs" "\<forall>t \<in> set us. jkey t = jkey r \<longrightarrow> f_lt F (jconf t) (jconf s)"
        "\<forall>t \<in> set vs. jkey t = jkey r \<longrightarrow> \<not> f_lt F (jconf s) (jconf t)"
      using assms(1,4) unfolding jbest_def by auto
    moreover have "\<not> f_lt F (jconf s) (jconf t)" if "f_lt F (jconf t) (jconf s)"
      using that assms(2) unfolding float_order_def by metis
    moreover from calculation(1) that(1) have "t \<in> set us \<or> t = s \<or> t \<in> set vs" by auto
    ultimately have "t = s \<or> \<not> f_lt F (jconf s) (jconf t)" using that(2) by metis
    then show ?thesis using neg assms(3) by metis
  qed
  then show ?thesis unfolding jbest_def using assms(4)
    by (intro exI [where x = rs] exI [where x = "[]"]) auto
qed

lemma jstep_inv:
  assumes "join_inv F pat rs rows seen" "float_order F"
  shows "case jstep F pat (rows, seen) r of (rows', seen') \<Rightarrow> join_inv F pat (rs @ [r]) rows' seen'"
proof -
  define keys where "keys = jkeys rs"
  have k: "distinct keys" "length rows = length keys" "set keys = jkey ` set rs"
    "\<And>i. i < length keys \<Longrightarrow> seen (keys ! i) = Some i" "\<And>k. k \<notin> set keys \<Longrightarrow> seen k = None"
    "\<And>i. i < length keys \<Longrightarrow> \<exists>s. jbest F pat rs (keys ! i) s \<and> rows ! i = jrow pat s"
  proof -
    note inv = assms(1) [unfolded join_inv_def, folded keys_def]
    show "distinct keys" "set keys = jkey ` set rs" unfolding keys_def by (rule jkeys_simps)+
    show "length rows = length keys" using inv by (rule conjunct1)
    show "\<And>i. i < length keys \<Longrightarrow> seen (keys ! i) = Some i" using inv by blast
    show "\<And>k. k \<notin> set keys \<Longrightarrow> seen k = None" using inv by blast
    show "\<And>i. i < length keys \<Longrightarrow> \<exists>s. jbest F pat rs (keys ! i) s \<and> rows ! i = jrow pat s" using inv by blast
  qed
  show ?thesis
  proof (cases "jkey r \<in> set keys")
    case False
    have st: "jstep F pat (rows, seen) r = (rows @ [jrow pat r], seen(jkey r \<mapsto> length rows))"
      using k(5) [OF False] by (simp add: jstep_def)
    have new: "jkeys (rs @ [r]) = keys @ [jkey r]" using False k(3) by (simp add: jkeys_snoc keys_def)
    have "\<exists>s. jbest F pat (rs @ [r]) ((keys @ [jkey r]) ! i) s \<and> (rows @ [jrow pat r]) ! i = jrow pat s"
      if "i < length (keys @ [jkey r])" for i
    proof (cases "i < length keys")
      case True
      then obtain s where "jbest F pat rs (keys ! i) s" "rows ! i = jrow pat s" using k(6) by blast
      moreover have "jkey r \<noteq> keys ! i" using True False by auto
      ultimately show ?thesis using True k(2) jbest_keep by (metis nth_append)
    next
      case i: False
      then have "i = length keys" using that by simp
      then have "(keys @ [jkey r]) ! i = jkey r" "(rows @ [jrow pat r]) ! i = jrow pat r"
        using k(2) by (simp_all add: nth_append)
      then show ?thesis using jbest_new [of r rs F pat] False k(3) by metis
    qed
    moreover have "\<forall>i < length (keys @ [jkey r]). (seen(jkey r \<mapsto> length rows)) ((keys @ [jkey r]) ! i) = Some i"
    proof (intro allI impI)
      fix i assume "i < length (keys @ [jkey r])"
      then consider "i < length keys" | "i = length keys" by (auto simp: less_Suc_eq)
      then show "(seen(jkey r \<mapsto> length rows)) ((keys @ [jkey r]) ! i) = Some i"
      proof cases
        case 1
        then have "keys ! i \<noteq> jkey r" using False nth_mem by metis
        then show ?thesis using 1 k(4) by (simp add: nth_append)
      qed (use k(2) in \<open>simp add: nth_append\<close>)
    qed
    ultimately show ?thesis unfolding st prod.case join_inv_def new
      using k(2,5) by auto
  next
    case True
    then obtain i where i: "i < length keys" "keys ! i = jkey r" by (auto simp: in_set_conv_nth)
    have sk: "seen (jkey r) = Some i" using k(4) [OF i(1)] i(2) by simp
    have same: "jkeys (rs @ [r]) = keys" using True k(3) by (simp add: jkeys_snoc keys_def)
    obtain s where s: "jbest F pat rs (jkey r) s" "rows ! i = jrow pat s" using k(6) [OF i(1)] i(2) by auto
    let ?beat = "p_edgeVar pat \<noteq> '''' \<and> f_lt F (jconf s) (jconf r)"
    have st: "jstep F pat (rows, seen) r = (if ?beat then rows[i := jrow pat r] else rows, seen)"
      using join_conf [of pat F s] by (auto simp: jstep_def sk s(2))
    have other: "\<exists>t. jbest F pat (rs @ [r]) (keys ! j) t \<and> rows ! j = jrow pat t"
      if j: "j < length keys" "j \<noteq> i" for j
    proof -
      obtain t where t: "jbest F pat rs (keys ! j) t" "rows ! j = jrow pat t" using k(6) [OF j(1)] by blast
      have "jkey r \<noteq> keys ! j" using j i k(1) by (metis nth_eq_iff_index_eq)
      then show ?thesis using t jbest_keep by metis
    qed
    have this_i: "\<exists>t. jbest F pat (rs @ [r]) (keys ! i) t \<and>
        (if ?beat then rows[i := jrow pat r] else rows) ! i = jrow pat t"
    proof (cases ?beat)
      case b: True
      then show ?thesis using jbest_beat [OF s(1) assms(2)] i k(2) by (intro exI [where x = r]) auto
    next
      case b: False
      then have "jbest F pat (rs @ [r]) (keys ! i) s" using s(1) i(2) by (auto intro: jbest_keep)
      then show ?thesis unfolding if_not_P [OF b] s(2) by blast
    qed
    have "\<forall>j < length keys. \<exists>t. jbest F pat (rs @ [r]) (keys ! j) t \<and>
        (if ?beat then rows[i := jrow pat r] else rows) ! j = jrow pat t"
    proof (intro allI impI)
      fix j assume j: "j < length keys"
      show "\<exists>t. jbest F pat (rs @ [r]) (keys ! j) t \<and>
          (if ?beat then rows[i := jrow pat r] else rows) ! j = jrow pat t"
      proof (cases "j = i")
        case True
        then show ?thesis using this_i by (simp only:)
      next
        case False
        then have "(if ?beat then rows[i := jrow pat r] else rows) ! j = rows ! j" by simp
        then show ?thesis using other [OF j False] by (simp only:)
      qed
    qed
    moreover have "length (if ?beat then rows[i := jrow pat r] else rows) = length keys" using k(2) by simp
    ultimately show ?thesis unfolding st prod.case join_inv_def same
      using k(4,5) by blast
  qed
qed

lemma join_fold_inv:
  "join_inv F pat seen_rows rows seen \<Longrightarrow> float_order F \<Longrightarrow>
     case foldl (jstep F pat) (rows, seen) rs of (rows', seen') \<Rightarrow> join_inv F pat (seen_rows @ rs) rows' seen'"
proof (induction rs arbitrary: seen_rows rows seen)
  case (Cons r rs)
  obtain rows1 seen1 where st: "jstep F pat (rows, seen) r = (rows1, seen1)" by (cases "jstep F pat (rows, seen) r")
  then have "join_inv F pat (seen_rows @ [r]) rows1 seen1" using jstep_inv [OF Cons.prems, of r] by simp
  then show ?case using Cons.IH Cons.prems(2) st by fastforce
qed simp

text \<open>
  C38: The join returns each logical edge once: the result rows are, one for each (from, to, kind) key of the
  scanned rows that pass the filter and in the order in which the keys are first scanned, the projections of the
  first row of highest confidence for the key when the edge is bound to a variable, and of the first row for the key
  otherwise. The comparison of confidences must be a strict weak order, as that of numbers other than NaN is.
\<close>
theorem join_dedup:
  assumes "float_order F" and "kept = filter (jpass F re pat filt) rs"
  shows "list_all2 (\<lambda>key row. \<exists>r. jbest F pat kept key r \<and> row = jrow pat r)
     (rev (remdups (rev (map jkey kept)))) (join_loop F re pat filt rs [] Map.empty (Some Map.empty))"
proof -
  obtain rows seen where f: "foldl (jstep F pat) ([], Map.empty) kept = (rows, seen)"
    by (cases "foldl (jstep F pat) ([], Map.empty) kept")
  have "join_inv F pat [] [] Map.empty" by (simp add: join_inv_def)
  then have "join_inv F pat kept rows seen" using join_fold_inv [OF _ assms(1), of pat "[]" "[]" Map.empty kept] f by simp
  moreover have "join_loop F re pat filt rs [] Map.empty (Some Map.empty) = rows"
    using f assms(2) by (simp add: join_loop_fold)
  ultimately show ?thesis by (simp add: join_inv_def list_all2_conv_all_nth flip: jkeys_def)
qed

definition demo_row :: "int raw_row" where
  "demo_row =
     \<lparr>s_ID = ''1'', s_ProjectID = ''p'', s_FilePath = ''f.go'', s_Name = ''x'', s_QualifiedName = ''f.x'',
      s_Kind = ''Function'', s_Language = ''Go'', s_StartByte = 0, s_EndByte = 9, s_StartLine = 1, s_EndLine = 2,
      s_IsExported = Some 1, s_IsEntryPoint = None, s_Complexity = 3, s_ExtractionConfidence = 1,
      s_Signature = None, s_ReturnType = None, s_Docstring = None, s_IsTest = Some 0, s_Branch = ''''\<rparr>"

definition demo_executor :: "int executor" where
  "demo_executor =
     \<lparr>DB = \<lparr>db_nodes = (\<lambda>_ _. RowsOk [demo_row]), db_joins = (\<lambda>_ _. RowsOk []),
            db_hops = (\<lambda>_ _. RowsOk [(demo_row, 1)]), db_strings = (\<lambda>_ _. RowsOk [Some ''Function''])\<rparr>,
      MaxRows = 5, ProjectID = ''p'', AllowAllProjects = False\<rparr>"

definition sample_pat :: pattern where
  "sample_pat =
     \<lparr>p_fromVar = ''a'', p_fromKind = '''', p_fromProps = [], p_edgeVar = ''r'', p_edgeKinds = [], p_minHops = 1,
      p_maxHops = 3, p_invertedHops = False, p_minHopsClamped = False, p_toVar = ''b'', p_toKind = '''',
      p_toProps = [], p_directed = True\<rparr>"

text \<open>Two edges, the first scanned three times with the confidences 1, 2 and 2.\<close>

definition demo_scan :: "(int raw_row \<times> int raw_row \<times> string \<times> int) list" where
  "demo_scan =
     (let b = demo_row\<lparr>s_ID := ''2''\<rparr>; b' = b\<lparr>s_Name := ''y''\<rparr> in
      [(demo_row, b, ''CALLS'', 1), (b, demo_row, ''CALLS'', 3), (demo_row, b, ''CALLS'', 2), (demo_row, b', ''CALLS'', 2)])"

lemma join_dedup_witness:
  "join_loop int_fops (\<lambda>_. None) sample_pat None demo_scan [] Map.empty (Some Map.empty) =
     [jrow sample_pat (demo_scan ! 2), jrow sample_pat (demo_scan ! 1)]"
proof -
  let ?rows = "join_loop int_fops (\<lambda>_. None) sample_pat None demo_scan [] Map.empty (Some Map.empty)"
  have kept: "filter (jpass int_fops (\<lambda>_. None) sample_pat None) demo_scan = demo_scan"
    by (simp add: jpass_def eval_opt_def)
  have keys: "map jkey demo_scan = [jkey (demo_scan ! 0), jkey (demo_scan ! 1), jkey (demo_scan ! 0), jkey (demo_scan ! 0)]"
      and ne: "jkey (demo_scan ! 0) \<noteq> jkey (demo_scan ! 1)"
    by (simp_all add: demo_scan_def jkey_def edge_key_def scanSymRow_def demo_row_def Let_def)
  have "list_all2 (\<lambda>key row. \<exists>r. jbest int_fops sample_pat demo_scan key r \<and> row = jrow sample_pat r)
      (rev (remdups (rev (map jkey demo_scan)))) ?rows"
    by (rule join_dedup [OF int_float_order]) (simp add: kept)
  then obtain r s where rows: "?rows = [jrow sample_pat r, jrow sample_pat s]"
      and r: "jbest int_fops sample_pat demo_scan (jkey (demo_scan ! 0)) r"
      and s: "jbest int_fops sample_pat demo_scan (jkey (demo_scan ! 1)) s"
    using ne by (auto simp: keys list_all2_Cons1)
  define a b c d where "a = demo_scan ! 0" "b = demo_scan ! 1" "c = demo_scan ! 2" "d = demo_scan ! 3"
  note abcd = this
  have scan: "demo_scan = [a, b, c, d]" by (simp add: abcd demo_scan_def Let_def)
  have k: "jkey c = jkey a" "jkey d = jkey a" "jkey a \<noteq> jkey b"
    using keys [folded abcd, unfolded scan] ne [folded abcd] by simp_all
  have f: "jconf a = 1" "jconf c = 2" "jconf d = 2" by (simp_all add: abcd demo_scan_def jconf_def Let_def)
  have v: "p_edgeVar sample_pat \<noteq> ''''" by (simp add: sample_pat_def)
  have "r = c" using r v k f
    by (auto simp: jbest_def scan Cons_eq_append_conv int_fops_def)
  moreover have "s = b" using s v k
    by (auto simp: jbest_def scan Cons_eq_append_conv)
  ultimately show ?thesis unfolding rows by (simp add: abcd)
qed


section \<open>Splitting an AND chain between SQL and Go\<close>

definition pushed_by :: "(condition \<Rightarrow> sqlfrag \<times> condition list) \<Rightarrow> queryAST \<Rightarrow> condition list" where
  "pushed_by push q = filter (\<lambda>c. snd (push c) = []) (q_conditions q)"

lemma pushable_leaf: "pushableOp (c_op c) \<Longrightarrow> \<exists>s args. condLeafToSQL p col c = Some (s, args)"
  by (cases "c_op c") (simp_all add: condLeafToSQL_def cond_inner_def Let_def)

lemma join_push_cases:
  "snd (join_push pat c) = [c] \<and> fst (join_push pat c) = ('''', []) \<or>
   snd (join_push pat c) = [] \<and>
     (\<exists>p s args. condLeafToSQL p (cypherPropToCol (c_property c)) c = Some (s, args) \<and>
        fst (join_push pat c) = ('' AND '' @ s, args))"
proof -
  let ?p = "if c_variable c = p_toVar pat then ''b.'' else ''a.''"
  consider "join_push pat c = (('''', []), [c])"
    | "join_push pat c = (appendWhereOp ?p (cypherPropToCol (c_property c)) c, [])" "pushableOp (c_op c)"
    unfolding join_push_def Let_def by presburger
  then show ?thesis
  proof cases
    case 2
    obtain s args where "condLeafToSQL ?p (cypherPropToCol (c_property c)) c = Some (s, args)"
      using pushable_leaf [OF 2(2)] by blast
    then show ?thesis unfolding 2(1) appendWhereOp_fragment_aux by auto
  qed simp
qed

lemma pushed_rest: 
  assumes "\<And>c. snd (push c) = [] \<or> snd (push c) = [c]"
  shows "set cs = set (filter (\<lambda>c. snd (push c) = []) cs) \<union> set (concat (map (snd \<circ> push) cs))"
proof (induction cs)
  case (Cons a cs)
  then show ?case using assms [of a] by auto
qed simp

text \<open>
  The join plan loses no condition: for an AND-chain WHERE, every condition is either emitted as its own SQL
  fragment or kept in the residual in-Go filter, and the pushed conditions together with the residual
  filter are equivalent to the whole WHERE tree on every row.
\<close>
theorem join_plan_split:
  assumes "q_where q = Some w" and "whereIsAndChain w" and "flattenWhere w = Some (q_conditions q)"
  shows "eval_tree (leaf F re row) w \<longleftrightarrow>
     (\<forall>c \<in> set (pushed_by (join_push pat) q). signed (leaf F re row) c) \<and>
     eval_opt (leaf F re row) (snd (join_plan e q pat))"
proof -
  have push: "pushdownAllowed q" using assms(1,2) by (simp add: pushdownAllowed_def whereIsAndChainOfLeaves_def)
  have r: "snd (join_plan e q pat) = andChainFromConds (concat (map (snd \<circ> join_push pat) (q_conditions q)))"
    using push by (simp add: join_plan_def where_plan_def Let_def split_beta)
  have "set (q_conditions q) = set (pushed_by (join_push pat) q) \<union>
      set (concat (map (snd \<circ> join_push pat) (q_conditions q)))"
    unfolding pushed_by_def by (rule pushed_rest) (use join_push_cases in blast)
  then show ?thesis unfolding r by (rule row_leaf.and_chain_split [OF assms(2,3)])
qed

lemma join_plan_split_witness:
  "eval_tree (leaf int_fops (\<lambda>_. None) []) (CondE (name_is ''x'')) \<longleftrightarrow>
     (\<forall>c \<in> set (pushed_by (join_push sample_pat) (empty_query\<lparr>q_where := Some (CondE (name_is ''x'')),
          q_conditions := [name_is ''x'']\<rparr>)). signed (leaf int_fops (\<lambda>_. None) []) c) \<and>
     eval_opt (leaf int_fops (\<lambda>_. None) []) (snd (join_plan demo_executor
        (empty_query\<lparr>q_where := Some (CondE (name_is ''x'')), q_conditions := [name_is ''x'']\<rparr>) sample_pat))"
  by (rule join_plan_split) (simp_all add: empty_query_def name_is_def empty_condition_def)

section \<open>Where a plan departs from the query\<close>

text \<open>
  The node scan forgets conditions on unbound variables: when the only WHERE condition compares a property of
  a variable other than the pattern's, the plan is the plan of the query without WHERE, so every row is
  returned, while the warning collector announces that the predicate never matches.
\<close>
theorem node_scan_drops_unbound:
  assumes "c_variable c \<noteq> p_fromVar pat" and "c_rhsProperty c = ''''"
    and "q_where q = Some (CondE c)" and "q_conditions q = [c]"
  shows "node_plan e q pat = node_plan e (q\<lparr>q_where := None, q_conditions := []\<rparr>) pat"
proof -
  have "where_plan (node_push pat) (node_prefix pat) q = (('''', []), None)"
    using assms by (simp add: where_plan_def pushdownAllowed_def whereIsAndChainOfLeaves_def node_push_def
        frags_def andChainFromConds_def)
  moreover have "where_plan (node_push pat) (node_prefix pat) (q\<lparr>q_where := None, q_conditions := []\<rparr>) = (('''', []), None)"
    by (simp add: where_plan_def pushdownAllowed_def whereIsAndChainOfLeaves_def frags_def andChainFromConds_def)
  ultimately show ?thesis
    by (simp add: node_plan_def hasAggregation_def limit_clause_def Let_def)
qed

lemma node_scan_drops_unbound_witness:
  "node_plan demo_executor (empty_query\<lparr>q_where := Some (CondE (name_is ''x'')), q_conditions := [name_is ''x'']\<rparr>) sample_pat =
   node_plan demo_executor (empty_query\<lparr>q_where := None, q_conditions := []\<rparr>) sample_pat"
  using node_scan_drops_unbound [of "name_is ''x''" sample_pat
      "empty_query\<lparr>q_where := Some (CondE (name_is ''x'')), q_conditions := [name_is ''x'']\<rparr>" demo_executor]
  by (simp add: name_is_def empty_condition_def sample_pat_def)

text \<open>
  The start-node prefilter of the traversal ignores negation: for \<open>WHERE NOT a.name = v\<close> it asks the database for
  the symbols named \<open>v\<close>. If the database returns only those, as it should, every hop fails the WHERE
  clause and the query has no rows, whatever the graph.
\<close>
theorem bfs_prefilter_ignores_not:
  assumes "q_where q = Some (CondE c)" and "q_conditions q = [c]"
    and "c = (name_is v)\<lparr>c_variable := ''a'', c_negated := True\<rparr>"
    and "p_fromVar pat = ''a''" and "p_toVar pat = ''b''"
    and "bfs_start_plan e q pat = (sql, args)" and "db_nodes (DB e) sql args = RowsOk rs"
    and "\<forall>r \<in> set rs. s_Name r = v"
    and "\<And>i. \<not> cancelled i" and "\<And>s a. \<exists>hs. db_hops (DB e) s a = RowsOk hs"
  shows "runBFS F re cancelled e q pat = Inr (buildResult F [] q) \<and>
     fst (bfs_start_cond ''a'' c) = fst (bfs_start_cond ''a'' (c\<lparr>c_negated := False\<rparr>))"
proof -
  have inv: "\<not> shouldInvertBFS q pat"
    using assms(1-5) by (simp add: shouldInvertBFS_def Let_def name_is_def empty_condition_def
        cypherPropToCol_def prop_cols_def)
  have fail: "fst (matchesWhere F re (AList.update ''_hop'' (VInt d)
      (put_all (put_all [] (symRowToMap ''a'' s)) (symRowToMap ''b'' n))) (Some (CondE c)) cache) = False"
    if "s_Name s = v" for s n d cache
    using that assms(3)
    by (simp add: matchesWhere_def evalCondition_def name_is_def empty_condition_def row_get_def put_all_def
        symRowToMap_def row_nil_def update_conv eval_eq_def Let_def)
  have hops: "\<exists>cache'. hop_loop F re q pat cap s hops rows cache = (False, rows, cache')"
    if "s_Name s = v" for s hops rows cache cap
    using that
  proof (induction hops arbitrary: cache)
    case (Cons h hops)
    obtain n d where h: "h = (n, d)" by (cases h)
    let ?m = "AList.update ''_hop'' (VInt d) (put_all (put_all [] (symRowToMap ''a'' s)) (symRowToMap ''b'' n))"
    obtain ok c1 where mc: "matchesWhere F re ?m (Some (CondE c)) cache = (ok, c1)"
      by (cases "matchesWhere F re ?m (Some (CondE c)) cache")
    then have "\<not> ok" using fail [OF Cons.prems, of d n cache] by simp
    then show ?case using Cons mc assms(1,4,5) inv by (simp add: h)
  qed simp
  have starts: "start_loop F re cancelled e q pat i ss rows cache = Inr rows"
    if "\<forall>s \<in> set ss. s_Name s = v" for ss i rows cache
    using that
  proof (induction ss arbitrary: i cache)
    case (Cons s ss)
    obtain hs where hs: "bfsViaCTE e (s_ID s) (if p_edgeKinds pat = [] then [''CALLS''] else p_edgeKinds pat)
        (p_minHops pat) (if p_maxHops pat > 10 then 10 else p_maxHops pat) (shouldInvertBFS q pat) = Inr hs"
      using assms(10) unfolding bfsViaCTE_def by (metis (no_types, lifting) reply.simps(12))
    obtain c1 where "hop_loop F re q pat (maxRows e * 2) s hs rows cache = (False, rows, c1)"
      using hops Cons.prems by fastforce
    then show ?case using Cons hs assms(9) by (simp add: Let_def)
  qed simp
  have "\<forall>s \<in> set (map scanSymRow rs). s_Name s = v" using assms(8) by (simp add: scanSymRow_def)
  then have "start_loop F re cancelled e q pat 0 (map scanSymRow rs) [] (Some Map.empty) = Inr []"
    by (rule starts)
  then show ?thesis using assms(6,7)
    by (simp add: runBFS_def bfs_start_cond_def Let_def)
qed

text \<open>
  A database that replies to the demo project as that of the executor does, and to every other statement
  with an error.
\<close>

definition walled_db :: "int database" where
  "walled_db =
     \<lparr>db_nodes = (\<lambda>sql args. if AStr ''p'' \<in> set args then RowsOk [demo_row] else QueryErr ''wall''),
      db_joins = (\<lambda>sql args. if AStr ''p'' \<in> set args then RowsOk [] else QueryErr ''wall''),
      db_hops = (\<lambda>sql args. if AStr ''p'' \<in> set args then RowsOk [(demo_row, 1)] else QueryErr ''wall''),
      db_strings = (\<lambda>sql args. if AStr ''p'' \<in> set args then RowsOk [Some ''Function''] else QueryErr ''wall'')\<rparr>"

lemma project_scope_witness:
  "Execute int_fops (\<lambda>_. None) (\<lambda>_. False) (demo_executor\<lparr>DB := walled_db\<rparr>) ''MATCH (n) RETURN n'' =
     Execute int_fops (\<lambda>_. None) (\<lambda>_. False) demo_executor ''MATCH (n) RETURN n''"
proof -
  have "same_for_project (ProjectID demo_executor) (DB demo_executor) walled_db"
    by (auto simp: same_for_project_def binds_project_def demo_executor_def walled_db_def)
  then show ?thesis using project_scope [of demo_executor walled_db] by (simp add: demo_executor_def)
qed

lemma execute_capped_witness:
  "\<exists>res. Execute int_fops (\<lambda>_. None) (\<lambda>_. False) demo_executor ''MATCH (n) RETURN n'' = Some (Inr res) \<and>
     int (length (Rows res)) \<le> maxRows demo_executor \<and> maxRows demo_executor \<le> 10000 \<and>
     Total res = int (length (Rows res))"
proof -
  have p: "case parse (\<lambda>_. None) ''MATCH (n) RETURN n'' of
      Some (Inr q) \<Rightarrow> \<not> hasAggregation q | _ \<Rightarrow> False"
    by code_simp
  have x: "case Execute int_fops (\<lambda>_. None) (\<lambda>_. False) demo_executor ''MATCH (n) RETURN n'' of
      Some r \<Rightarrow> \<not> isl r | None \<Rightarrow> False"
    by code_simp
  obtain q where q: "parse (\<lambda>_. None) ''MATCH (n) RETURN n'' = Some (Inr q)" "\<not> hasAggregation q"
    using p by (auto split: option.splits sum.splits)
  obtain res where r: "Execute int_fops (\<lambda>_. None) (\<lambda>_. False) demo_executor ''MATCH (n) RETURN n'' = Some (Inr res)"
    using x by (auto split: option.splits) (metis sum.collapse(2))
  show ?thesis using execute_capped [OF r q] r by blast
qed

definition not_query :: queryAST where
  "not_query = name_query\<lparr>
     q_where := Some (CondE ((name_is ''x'')\<lparr>c_variable := ''a'', c_negated := True\<rparr>)),
     q_conditions := [(name_is ''x'')\<lparr>c_variable := ''a'', c_negated := True\<rparr>]\<rparr>"

lemma bfs_prefilter_ignores_not_witness:
  "runBFS int_fops (\<lambda>_. None) (\<lambda>_. False) demo_executor not_query sample_pat = Inr (buildResult int_fops [] not_query) \<and>
   fst (bfs_start_cond ''a'' ((name_is ''x'')\<lparr>c_variable := ''a'', c_negated := True\<rparr>)) =
     fst (bfs_start_cond ''a'' ((name_is ''x'')\<lparr>c_variable := ''a'', c_negated := True\<rparr>\<lparr>c_negated := False\<rparr>))"
  by (rule bfs_prefilter_ignores_not [where sql = "fst (bfs_start_plan demo_executor not_query sample_pat)"
        and args = "snd (bfs_start_plan demo_executor not_query sample_pat)" and rs = "[demo_row]" and v = "''x''"])
    (simp_all add: not_query_def name_query_def empty_query_def sample_pat_def demo_executor_def demo_row_def)

end
