(* ===== verification/PinchQL_Roundtrip.thy ===== *)
theory PinchQL_Roundtrip
  imports PinchQL_Parser
begin

text \<open>
  The grammar round-trips: a printer for WHERE trees, patterns, RETURN items and whole queries, and
  the proofs that the parser of \<open>PinchQL_Parser\<close> reads back exactly what was printed, first on tokens
  and then, with the round trip of the lexer, on query texts.
\<close>

section \<open>Decimal printing\<close>

lemma split2_no_sep:
  "a \<notin> set s \<Longrightarrow> split2 a b acc s = [rev acc @ s]"
  by (induction a b acc s rule: split2.induct) auto

lemma split2_sep:
  "a \<notin> set s \<Longrightarrow> split2 a b acc (s @ a # b # t) = (rev acc @ s) # split2 a b [] t"
  by (induction s arbitrary: acc) (simp, case_tac s, auto)

lemma parseHops_show:
  assumes "1 \<le> m" "m \<le> n" "int n \<le> int_max"
  shows "parseHops (show_nat m @ ''..'' @ show_nat n) = (int m, int n, False, False)"
proof -
  have dot: "CHR ''.'' \<notin> set (show_nat k)" for k
    using show_nat_digits [of k] by (auto simp: list_all_iff is_digit_char_def code_of_def)
  have "split2 (CHR ''.'') (CHR ''.'') [] (show_nat m @ ''..'' @ show_nat n) = [show_nat m, show_nat n]"
    using split2_sep [OF dot, of "CHR ''.''" "[]" m "show_nat n"] split2_no_sep [OF dot, of "CHR ''.''" "[]" n]
    by simp
  then show ?thesis using assms by (simp add: parseHops_def atoi_show_nat Let_def)
qed

section \<open>Printing WHERE trees\<close>

definition is_ident :: "string \<Rightarrow> bool" where
  "is_ident v \<longleftrightarrow>
     v \<noteq> [] \<and> is_ident_start (hd v) \<and> list_all is_ident_char (tl v) \<and> to_upper v \<notin> set pq_keywords"

abbreviation P :: "string \<Rightarrow> token" where "P v \<equiv> Tok PUNCT v"
abbreviation K :: "string \<Rightarrow> token" where "K v \<equiv> Tok KEYWORD v"
abbreviation I :: "string \<Rightarrow> token" where "I v \<equiv> Tok IDENT v"
abbreviation L :: "string \<Rightarrow> token" where "L v \<equiv> Tok STRING v"

fun print_list :: "string list \<Rightarrow> token list" where
  "print_list [] = [P '']'']"
| "print_list [v] = [L v, P '']'']"
| "print_list (v # w # vs) = L v # P '','' # print_list (w # vs)"

fun print_op :: "cmp_op \<Rightarrow> string \<Rightarrow> string list \<Rightarrow> token list" where
  "print_op OpEq v vs = [P ''='', L v]"
| "print_op OpNe v vs = [P ''<>'', L v]"
| "print_op OpGt v vs = [P ''>'', L v]"
| "print_op OpLt v vs = [P ''<'', L v]"
| "print_op OpGe v vs = [P ''>='', L v]"
| "print_op OpLe v vs = [P ''<='', L v]"
| "print_op OpRe v vs = [P ''=~'', L v]"
| "print_op OpContains v vs = [K ''CONTAINS'', L v]"
| "print_op OpStarts v vs = [K ''STARTS'', K ''WITH'', L v]"
| "print_op OpEnds v vs = [K ''ENDS'', K ''WITH'', L v]"
| "print_op OpIsNull v vs = [K ''IS'', K ''NULL'']"
| "print_op OpIsNotNull v vs = [K ''IS'', K ''NOT'', K ''NULL'']"
| "print_op OpIn v vs = [K ''IN'', P ''[''] @ print_list vs"
| "print_op OpNone v vs = []"

definition print_cond :: "condition \<Rightarrow> token list" where
  "print_cond c =
     [I (c_variable c), P ''.'', I (c_property c)] @ print_op (c_op c) (c_value c) (c_inValues c)"

text \<open>
  The conditions that have a canonical spelling: named by an identifier and a property, compared to
  string literals, without a column on the right.
\<close>

fun canon_op :: "regex \<Rightarrow> cmp_op \<Rightarrow> string \<Rightarrow> string list \<Rightarrow> tkind option \<Rightarrow> bool" where
  "canon_op re OpNone v vs k = False"
| "canon_op re OpIsNull v vs k = (v = '''' \<and> vs = [] \<and> k = None)"
| "canon_op re OpIsNotNull v vs k = (v = '''' \<and> vs = [] \<and> k = None)"
| "canon_op re OpIn v vs k = (v = '''' \<and> vs \<noteq> [] \<and> hd vs \<noteq> '']'' \<and> k = Some STRING)"
| "canon_op re OpRe v vs k = (re v \<noteq> None \<and> vs = [] \<and> k = Some STRING)"
| "canon_op re _ v vs k = (vs = [] \<and> k = Some STRING)"

definition canon_cond :: "regex \<Rightarrow> condition \<Rightarrow> bool" where
  "canon_cond re c \<longleftrightarrow>
     is_ident (c_variable c) \<and> is_ident (c_property c) \<and> c_connector c = None \<and>
     c_rhsVariable c = '''' \<and> c_rhsProperty c = '''' \<and>
     canon_op re (c_op c) (c_value c) (c_inValues c) (c_valueKind c)"

fun op_token :: "boolop \<Rightarrow> token" where
  "op_token And_op = K ''AND''" | "op_token Or_op = K ''OR''"

fun print_factor :: "whereExpr \<Rightarrow> token list" where
  "print_factor (CondE c) = (if c_negated c then [K ''NOT''] else []) @ print_cond c"
| "print_factor (NotE w) = [K ''NOT'', P ''(''] @ print_factor w @ [P '')'']"
| "print_factor (BinE op l r) = P ''('' # print_factor l @ op_token op # print_factor r @ [P '')'']"

fun print_where :: "whereExpr \<Rightarrow> token list" where
  "print_where (BinE op l r) = print_factor l @ op_token op # print_factor r"
| "print_where w = print_factor w"

lemma ident_facts:
  assumes "is_ident v"
  shows "v \<noteq> ''NOT''" "v \<noteq> ''(''" "v \<noteq> ''''"
  using assms by (auto simp: is_ident_def is_ident_start_def is_lower_char_def is_upper_char_def
      code_of_def to_upper_def upper_char_def pq_keywords_def)

lemma parse_in_list_print:
  "vs \<noteq> [] \<Longrightarrow> c_valueKind c = None \<or> c_valueKind c = Some STRING \<Longrightarrow>
     parse_in_list c (print_list vs @ rest) =
       Inr (c\<lparr>c_inValues := c_inValues c @ vs, c_valueKind := Some STRING\<rparr>, rest)"
proof (induction vs arbitrary: c rule: print_list.induct)
  case 1
  then show ?case by simp
next
  case (2 v)
  then show ?case
    by (subst parse_in_list.simps) (auto simp: normalizeConditionValue_def Let_def)
next
  case (3 v w vs)
  let ?c = "c\<lparr>c_inValues := c_inValues c @ [v], c_valueKind := Some STRING\<rparr>"
  have "parse_in_list c (print_list (v # w # vs) @ rest) = parse_in_list ?c (print_list (w # vs) @ rest)"
    using "3.prems" by (subst parse_in_list.simps) (auto simp: normalizeConditionValue_def Let_def)
  then show ?case using "3.IH" [of ?c] by simp
qed

lemma hd_print_list: "vs \<noteq> [] \<Longrightarrow> \<exists>ts. print_list vs = L (hd vs) # ts"
  by (cases vs rule: print_list.cases) auto

lemma parse_print_cond:
  assumes "canon_cond re c" "pv rest \<noteq> ''.''"
  shows "parseOneCondition re (print_cond c @ rest) = Inr (c\<lparr>c_negated := False\<rparr>, rest)"
proof (cases "c_op c = OpIn")
  case True
  then obtain ts where ts: "print_list (c_inValues c) = L (hd (c_inValues c)) # ts"
    using assms hd_print_list [of "c_inValues c"] by (auto simp: canon_cond_def)
  show ?thesis
    using True assms ts parse_in_list_print [of "c_inValues c"]
    by (cases c) (auto simp: parseOneCondition_def print_cond_def canon_cond_def comparison_op_def
        empty_condition_def Let_def)
next
  case False
  then show ?thesis using assms
    by (cases c; cases "c_op c") (auto simp: parseOneCondition_def print_cond_def canon_cond_def comparison_op_def
        empty_condition_def Let_def with_value_def normalizeConditionValue_def skip_def)
qed

fun canon_where :: "regex \<Rightarrow> whereExpr \<Rightarrow> bool" where
  "canon_where re (CondE c) = canon_cond re c"
| "canon_where re (BinE op l r) = (canon_where re l \<and> canon_where re r)"
| "canon_where re (NotE w) = canon_where re w"

text \<open>How the loops put two factors, or one, together.\<close>

lemma parse_or_two_factors:
  assumes "parseFactor re ts = Inr (l, op_token op # ts1)" "parseFactor re ts1 = Inr (r, rest)"
    and "pv rest \<noteq> ''AND''" "pv rest \<noteq> ''OR''"
  shows "parseOrExpr re ts = Inr (BinE op l r, rest)"
  using assms
  by (cases op) (simp_all add: parseOrExpr.simps [of re ts] parseAndExpr.simps [of re ts]
      parseAndExpr.simps [of re ts1]
      parse_and_loop.simps [of re _ "K _ # ts1"] parse_and_loop.simps [of re _ rest]
      parse_or_loop.simps [of re _ "K _ # ts1"] parse_or_loop.simps [of re _ rest])

lemma parse_or_one_factor:
  assumes "parseFactor re ts = Inr (w, rest)" "pv rest \<noteq> ''AND''" "pv rest \<noteq> ''OR''"
  shows "parseOrExpr re ts = Inr (w, rest)"
  using assms
  by (simp add: parseOrExpr.simps [of re ts] parseAndExpr.simps [of re ts]
      parse_and_loop.simps [of re _ rest] parse_or_loop.simps [of re _ rest])

lemma parse_factor_group:
  assumes "parseOrExpr re ts = Inr (w, P '')'' # rest)"
  shows "parseFactor re (P ''('' # ts) = Inr (w, rest)"
    "parseFactor re (K ''NOT'' # P ''('' # ts) = Inr (NotE w, rest)"
  using assms by (simp_all add: parseFactor.simps [of re "_ # _"])

lemma print_cond_shape:
  "\<exists>ts. print_cond c = I (c_variable c) # ts"
  by (simp add: print_cond_def)

lemma parse_factor_cond:
  assumes "canon_cond re c" "pv rest \<noteq> ''.''"
  shows "parseFactor re (print_factor (CondE c) @ rest) = Inr (CondE c, rest)"
proof -
  obtain ts where ts: "print_cond c = I (c_variable c) # ts" using print_cond_shape by blast
  have v: "c_variable c \<noteq> ''NOT''" "c_variable c \<noteq> ''(''"
    using assms(1) ident_facts by (auto simp: canon_cond_def)
  have p: "parseOneCondition re (I (c_variable c) # ts @ rest) = Inr (c\<lparr>c_negated := False\<rparr>, rest)"
    using parse_print_cond [OF assms] ts by simp
  show ?thesis
    by (cases "c_negated c") (simp_all add: ts v p parseFactor.simps [of re "_ # _"])
qed

lemma parse_print_factor:
  "canon_where re w \<Longrightarrow> pv rest \<noteq> ''.'' \<Longrightarrow> parseFactor re (print_factor w @ rest) = Inr (w, rest)"
proof (induction w arbitrary: rest)
  case (CondE c)
  then show ?case using parse_factor_cond by simp
next
  case (BinE op l r)
  have "parseOrExpr re (print_factor l @ op_token op # print_factor r @ P '')'' # rest) =
      Inr (BinE op l r, P '')'' # rest)"
  proof (rule parse_or_two_factors)
    show "parseFactor re (print_factor l @ op_token op # print_factor r @ P '')'' # rest) =
        Inr (l, op_token op # print_factor r @ P '')'' # rest)"
      using BinE.IH(1) [of "op_token op # print_factor r @ P '')'' # rest"] BinE.prems by (cases op) auto
    show "parseFactor re (print_factor r @ P '')'' # rest) = Inr (r, P '')'' # rest)"
      using BinE.IH(2) [of "P '')'' # rest"] BinE.prems by auto
  qed auto
  then show ?case using parse_factor_group(1) by simp
next
  case (NotE w)
  have "parseOrExpr re (print_factor w @ P '')'' # rest) = Inr (w, P '')'' # rest)"
    using NotE.IH [of "P '')'' # rest"] NotE.prems by (intro parse_or_one_factor) auto
  then show ?case using parse_factor_group(2) by simp
qed

lemma parseWhere_print_aux:
  assumes "canon_where re w" and "pv rest \<notin> {''.'', ''AND'', ''OR''}"
  shows "parseWhere re (print_where w @ rest) = Inr (w, rest)"
proof (cases w)
  case (BinE op l r)
  have "parseOrExpr re (print_factor l @ op_token op # print_factor r @ rest) = Inr (BinE op l r, rest)"
  proof (rule parse_or_two_factors)
    show "parseFactor re (print_factor l @ op_token op # print_factor r @ rest) =
        Inr (l, op_token op # print_factor r @ rest)"
      using parse_print_factor [of re l "op_token op # print_factor r @ rest"] assms BinE
      by (cases op) auto
    show "parseFactor re (print_factor r @ rest) = Inr (r, rest)"
      using parse_print_factor [of re r rest] assms BinE by auto
  qed (use assms in auto)
  then show ?thesis using BinE by (simp add: parseWhere_def)
qed (use assms in \<open>auto simp: parseWhere_def simp del: print_factor.simps
      intro!: parse_or_one_factor parse_print_factor\<close>)

text \<open>
  The WHERE grammar round-trips: every WHERE tree whose leaves compare a property to string
  literals (any bytes), test NULL, match a valid regular expression or an IN list, with any nesting
  of AND, OR, grouping NOT and leaf NOT, is read back exactly from its printed tokens.
\<close>
theorem parseWhere_print:
  assumes "canon_where re w" and "pv rest \<notin> {''.'', ''AND'', ''OR''}"
  shows "parseWhere re (print_where w @ rest) = Inr (w, rest)"
  using assms by (rule parseWhere_print_aux)

lemma parseWhere_print_witness:
  "parseWhere (\<lambda>_. None)
     (print_where (NotE (CondE (empty_condition\<lparr>c_variable := ''n'', c_property := ''docstring'',
        c_op := OpIsNull, c_negated := True\<rparr>))) @ [K ''RETURN''])
   = Inr (NotE (CondE (empty_condition\<lparr>c_variable := ''n'', c_property := ''docstring'',
        c_op := OpIsNull, c_negated := True\<rparr>)), [K ''RETURN''])"
  by (rule parseWhere_print)
    (simp_all add: canon_cond_def empty_condition_def is_ident_def is_ident_start_def is_ident_char_def
      is_lower_char_def is_upper_char_def is_digit_char_def code_of_def to_upper_def upper_char_def
      pq_keywords_def)


section \<open>Printing whole queries\<close>

definition opt_prop :: "string \<Rightarrow> token list" where
  "opt_prop p = (if p = '''' then [] else [P ''.'', I p])"

fun print_props :: "(string \<times> string) list \<Rightarrow> token list" where
  "print_props [] = [P ''}'']"
| "print_props [(k, v)] = [I k, P '':'', L v, P ''}'']"
| "print_props ((k, v) # x # xs) = [I k, P '':'', L v, P '',''] @ print_props (x # xs)"

definition print_node :: "string \<Rightarrow> string \<Rightarrow> (string \<times> string) list \<Rightarrow> token list" where
  "print_node v k ps =
     I v # (if k = '''' then [] else [P '':'', I k]) @
     (if ps = [] then [] else P ''{'' # print_props ps) @ [P '')'']"

fun print_kinds :: "string list \<Rightarrow> token list" where
  "print_kinds [] = []"
| "print_kinds [k] = [I k]"
| "print_kinds (k # l # ks) = [I k, P ''|''] @ print_kinds (l # ks)"

definition print_bracket :: "string \<Rightarrow> string list \<Rightarrow> int \<Rightarrow> int \<Rightarrow> token list" where
  "print_bracket ev ks mn mx =
     (if ev = '''' then [] else [I ev]) @ (if ks = [] then [] else P '':'' # print_kinds ks) @
     (if mn = 1 \<and> mx = 1 then []
      else [Tok HOPS (show_nat (nat mn) @ ''..'' @ show_nat (nat mx))]) @ [P '']'']"

definition print_pattern :: "pattern \<Rightarrow> token list" where
  "print_pattern p =
     P ''('' # print_node (p_fromVar p) (p_fromKind p) (p_fromProps p) @
     (if p_toVar p = '''' then []
      else [P ''-'', P ''[''] @ print_bracket (p_edgeVar p) (p_edgeKinds p) (p_minHops p) (p_maxHops p) @
           [P ''->'', P ''(''] @ print_node (p_toVar p) (p_toKind p) (p_toProps p))"

definition canon_node :: "string \<Rightarrow> string \<Rightarrow> (string \<times> string) list \<Rightarrow> bool" where
  "canon_node v k ps \<longleftrightarrow>
     is_ident v \<and> (k = '''' \<or> is_ident k) \<and> list_all (\<lambda>(k, v). is_ident k) ps \<and> distinct (map fst ps)"

definition canon_pattern :: "pattern \<Rightarrow> bool" where
  "canon_pattern p \<longleftrightarrow>
     canon_node (p_fromVar p) (p_fromKind p) (p_fromProps p) \<and> p_directed p \<and>
     \<not> p_invertedHops p \<and> \<not> p_minHopsClamped p \<and>
     (if p_toVar p = '''' then
        p_edgeVar p = '''' \<and> p_edgeKinds p = [] \<and> p_minHops p = 1 \<and> p_maxHops p = 1 \<and>
        p_toKind p = '''' \<and> p_toProps p = []
      else
        canon_node (p_toVar p) (p_toKind p) (p_toProps p) \<and>
        (p_edgeVar p = '''' \<or> is_ident (p_edgeVar p)) \<and>
        list_all (\<lambda>k. is_ident k \<and> to_upper k = k) (p_edgeKinds p) \<and>
        1 \<le> p_minHops p \<and> p_minHops p \<le> p_maxHops p \<and> p_maxHops p \<le> int_max)"

lemma is_ident_not_reserved:
  assumes "is_ident v"
  shows "v \<notin> set punct_tokens" "v \<notin> set pq_keywords"
proof -
  obtain c w where v: "v = c # w" "is_ident_start c" using assms by (cases v) (auto simp: is_ident_def)
  have "x \<in> set punct_tokens \<Longrightarrow> x \<noteq> [] \<and> \<not> is_ident_start (hd x)" for x
    by (auto simp: punct_tokens_def is_ident_start_def is_lower_char_def is_upper_char_def code_of_def)
  then show "v \<notin> set punct_tokens" using v by fastforce
  show "v \<notin> set pq_keywords" using assms keyword_spelling by (auto simp: is_ident_def)
qed

lemma ident_neq:
  "is_ident v \<Longrightarrow> x \<in> set punct_tokens \<union> set pq_keywords \<Longrightarrow> v \<noteq> x"
  using is_ident_not_reserved by blast

lemmas reserved = punct_tokens_def pq_keywords_def

lemma update_fresh: "k \<notin> fst ` set al \<Longrightarrow> AList.update k v al = al @ [(k, v)]"
  by (induction al) auto

lemma parseProps_loop_print:
  "list_all (\<lambda>(k, v). is_ident k) ps \<Longrightarrow> distinct (map fst (acc @ ps)) \<Longrightarrow>
     parseProps_loop (print_props ps @ rest) acc = (acc @ ps, P ''}'' # rest)"
proof (induction ps arbitrary: acc rule: print_props.induct)
  case 1
  then show ?case by (simp add: parseProps_loop.simps [of "_ # _"])
next
  case (2 k v)
  have "k \<noteq> ''}''" using 2 ident_neq by (auto simp: reserved)
  then show ?case using 2
    by (simp add: parseProps_loop.simps [of "_ # _"] Let_def skip_def update_fresh)
next
  case (3 k v x xs)
  have k: "k \<noteq> ''}''" using 3 ident_neq by (auto simp: reserved)
  have "parseProps_loop (print_props ((k, v) # x # xs) @ rest) acc =
      parseProps_loop (print_props (x # xs) @ rest) (acc @ [(k, v)])"
    using k 3(3) by (subst parseProps_loop.simps) (simp add: Let_def skip_def update_fresh)
  then show ?case using "3.IH" [of "acc @ [(k, v)]"] "3.prems" by simp
qed

lemma parseProps_print:
  assumes "list_all (\<lambda>(k, v). is_ident k) ps" "distinct (map fst ps)"
  shows "parseProps (P ''{'' # print_props ps @ rest) = Inr (ps, rest)"
  using parseProps_loop_print [of ps "[]" rest] assms by (simp add: parseProps_def skip_def expect_def)

lemma parse_node_print:
  assumes "canon_node v k ps"
  shows "parse_node (print_node v k ps @ rest) = Inr ((v, k, ps), rest)"
  using assms parseProps_print [of ps "P '')'' # rest"]
  by (auto simp: parse_node_def print_node_def canon_node_def expect_def Let_def)

lemma parse_edge_kinds_print:
  "list_all (\<lambda>k. is_ident k \<and> to_upper k = k) ks \<Longrightarrow> ks \<noteq> [] \<Longrightarrow> pk rest \<noteq> IDENT \<Longrightarrow> pv rest \<noteq> ''|'' \<Longrightarrow>
     parse_edge_kinds (print_kinds ks @ rest) = (ks, rest)"
proof (induction ks rule: print_kinds.induct)
  case 1
  then show ?case by simp
next
  case (2 k)
  then show ?case by (simp add: parse_edge_kinds.simps [of "_ # _"])
next
  case (3 k l ks)
  then show ?case by (simp add: parse_edge_kinds.simps [of "I k # _"])
qed

lemma parse_bracket_print:
  assumes "ev = '''' \<or> is_ident ev" "list_all (\<lambda>k. is_ident k \<and> to_upper k = k) ks"
    "1 \<le> mn" "mn \<le> mx" "mx \<le> int_max"
  shows "parse_edge_bracket (print_bracket ev ks mn mx @ rest) =
     Inr ((ev, ks, mn, mx, False, False), rest)"
proof -
  let ?h = "(if mn = 1 \<and> mx = 1 then [] else [Tok HOPS (show_nat (nat mn) @ ''..'' @ show_nat (nat mx))]) @
      P '']'' # rest"
  have h: "parseHops (show_nat (nat mn) @ ''..'' @ show_nat (nat mx)) = (mn, mx, False, False)"
    using parseHops_show [of "nat mn" "nat mx"] assms by simp
  have digit: "show_nat (nat mn) \<noteq> ''|''"
    using show_nat_digits [of "nat mn"] by (auto simp: is_digit_char_def code_of_def)
  have kinds: "ks \<noteq> [] \<Longrightarrow> parse_edge_kinds (print_kinds ks @ ?h) = (ks, ?h)"
    using digit by (intro parse_edge_kinds_print assms) auto
  have "ev = '''' \<Longrightarrow> ?thesis" "is_ident ev \<Longrightarrow> ?thesis"
    using kinds h ident_facts(3)
    by (auto simp: parse_edge_bracket_def print_bracket_def expect_def Let_def)
  then show ?thesis using assms(1) by blast
qed

lemma parsePattern_print:
  assumes "canon_pattern p" "pv rest \<noteq> ''-''" "pv rest \<noteq> ''<''"
  shows "parsePattern (print_pattern p @ rest) = Inr (p, rest)"
proof (cases "p_toVar p = ''''")
  case True
  then show ?thesis
    using assms parse_node_print [of "p_fromVar p" "p_fromKind p" "p_fromProps p" rest]
    by (cases p) (auto simp: parsePattern_def print_pattern_def canon_pattern_def skip_def)
next
  case False
  let ?to = "print_node (p_toVar p) (p_toKind p) (p_toProps p) @ rest"
  let ?br = "print_bracket (p_edgeVar p) (p_edgeKinds p) (p_minHops p) (p_maxHops p) @ P ''->'' # P ''('' # ?to"
  have "parse_node (print_node (p_fromVar p) (p_fromKind p) (p_fromProps p) @ P ''-'' # P ''['' # ?br) =
      Inr ((p_fromVar p, p_fromKind p, p_fromProps p), P ''-'' # P ''['' # ?br)"
    using assms by (intro parse_node_print) (simp add: canon_pattern_def)
  moreover have "parse_edge_bracket ?br =
      Inr ((p_edgeVar p, p_edgeKinds p, p_minHops p, p_maxHops p, False, False), P ''->'' # P ''('' # ?to)"
    using assms False by (intro parse_bracket_print) (auto simp: canon_pattern_def)
  moreover have "parse_node ?to = Inr ((p_toVar p, p_toKind p, p_toProps p), rest)"
    using assms False by (intro parse_node_print) (simp add: canon_pattern_def)
  ultimately show ?thesis using assms False
    by (cases p) (auto simp: parsePattern_def print_pattern_def canon_pattern_def skip_def parse_arrow_def)
qed

section \<open>Printing RETURN, ORDER BY and LIMIT\<close>

fun agg_token :: "aggfn \<Rightarrow> token" where
  "agg_token FnCount = K ''COUNT''"
| "agg_token f = I (agg_name f)"

definition print_item :: "returnVar \<Rightarrow> token list" where
  "print_item rv =
     (case r_fn rv of
        None \<Rightarrow> I (r_variable rv) # opt_prop (r_property rv)
      | Some f \<Rightarrow>
          [agg_token f, P ''(''] @ (if r_distinct rv then [K ''DISTINCT''] else []) @
          (if r_variable rv = ''*'' then [Tok HOPS ''''] else I (r_variable rv) # opt_prop (r_property rv)) @
          [P '')'']) @
     (if r_alias rv = '''' then [] else [I ''AS'', I (r_alias rv)])"

fun print_return :: "returnVar list \<Rightarrow> token list" where
  "print_return [] = []"
| "print_return [rv] = print_item rv"
| "print_return (rv # w # rvs) = print_item rv @ P '','' # print_return (w # rvs)"

definition dot_split :: "string \<Rightarrow> string \<times> string" where
  "dot_split s = (takeWhile (\<lambda>c. c \<noteq> CHR ''.'') s, tl (dropWhile (\<lambda>c. c \<noteq> CHR ''.'') s))"

definition print_order :: "string \<Rightarrow> string \<Rightarrow> token list" where
  "print_order ob dir =
     (if ob = '''' then []
      else [K ''ORDER'', K ''BY'', I (fst (dot_split ob))] @ opt_prop (snd (dot_split ob)) @
           (if dir = '''' then [] else [K ''DESC'']))"

definition print_limit :: "int \<Rightarrow> token list" where
  "print_limit n = (if n < 0 then [] else [K ''LIMIT'', Tok NUMBER (show_nat (nat n))])"

definition print_query :: "queryAST \<Rightarrow> token list" where
  "print_query q =
     concat (map (\<lambda>p. K ''MATCH'' # print_pattern p) (q_patterns q)) @
     (case q_where q of None \<Rightarrow> [] | Some w \<Rightarrow> K ''WHERE'' # print_where w) @
     K ''RETURN'' # (if q_distinct q then [K ''DISTINCT''] else []) @ print_return (q_returnVars q) @
     print_order (q_orderBy q) (q_orderDir q) @ print_limit (q_limit q)"

definition canon_item :: "returnVar \<Rightarrow> bool" where
  "canon_item rv \<longleftrightarrow>
     (r_alias rv = '''' \<or> is_ident (r_alias rv)) \<and> (r_property rv = '''' \<or> is_ident (r_property rv)) \<and>
     (case r_fn rv of
        None \<Rightarrow> is_ident (r_variable rv) \<and> agg_of (r_variable rv) = None \<and> \<not> r_distinct rv
      | Some f \<Rightarrow>
          (if r_distinct rv then f = FnCount \<and> is_ident (r_variable rv) \<and> r_property rv \<noteq> ''''
           else r_variable rv = ''*'' \<and> r_property rv = '''' \<or> is_ident (r_variable rv)))"

definition canon_order :: "string \<Rightarrow> string \<Rightarrow> bool" where
  "canon_order ob dir \<longleftrightarrow>
     (if ob = '''' then dir = ''''
      else (let (v, p) = dot_split ob in
        is_ident v \<and> agg_of v = None \<and> (p = '''' \<or> is_ident p) \<and>
        ob = v @ (if p = '''' then '''' else CHR ''.'' # p) \<and> dir \<in> {'''', ''DESC''}))"

definition canon_query :: "regex \<Rightarrow> queryAST \<Rightarrow> bool" where
  "canon_query re q \<longleftrightarrow>
     q_patterns q \<noteq> [] \<and> list_all canon_pattern (q_patterns q) \<and>
     pred_option (canon_where re) (q_where q) \<and>
     q_conditions q = (case q_where q of None \<Rightarrow> [] | Some w \<Rightarrow>
        (case flattenWhere w of None \<Rightarrow> [] | Some cs \<Rightarrow> cs)) \<and>
     q_returnVars q \<noteq> [] \<and> list_all canon_item (q_returnVars q) \<and>
     canon_order (q_orderBy q) (q_orderDir q) \<and> -1 \<le> q_limit q \<and> q_limit q \<le> int_max"

lemma agg_of_token [simp]: "agg_of (tvalue (agg_token f)) = Some f"
  by (cases f) (simp_all add: agg_of_def to_upper_def upper_char_def is_lower_char_def code_of_def)

lemma ident_not_star: "is_ident v \<Longrightarrow> v \<noteq> ''*''"
  by (auto simp: is_ident_def is_ident_start_def is_lower_char_def is_upper_char_def code_of_def)

text \<open>What may follow a RETURN item without being read as part of it.\<close>

abbreviation item_end :: "token list \<Rightarrow> bool" where
  "item_end rest \<equiv> pv rest \<notin> {''('', ''.'', ''AS''}"

lemma parse_item_print:
  assumes "canon_item rv" "item_end rest"
  shows "parse_return_item (print_item rv @ rest) = Inr (rv, rest)"
proof (cases "r_fn rv")
  case None
  then show ?thesis using assms ident_facts(3)
    by (cases rv) (auto simp: parse_return_item_def print_item_def canon_item_def opt_prop_def Let_def)
next
  case (Some f)
  have "agg_of ''('' = None" by (simp add: agg_of_def to_upper_def upper_char_def is_lower_char_def code_of_def)
  then show ?thesis using assms Some ident_facts(3) ident_not_star
    by (cases rv) (auto simp: parse_return_item_def print_item_def canon_item_def opt_prop_def Let_def
        return_agg_arg_def skip_def expect_def split: if_splits)
qed

lemma hd_print_item:
  assumes "canon_item rv"
  shows "\<exists>t ts. print_item rv = t # ts \<and> tvalue t \<notin> {''WHERE'', ''ORDER'', ''LIMIT'', ''MATCH'', ''DISTINCT''}"
proof (cases "r_fn rv")
  case None
  then show ?thesis using assms ident_neq [of "r_variable rv"]
    by (auto simp: print_item_def canon_item_def reserved)
next
  case (Some f)
  then show ?thesis by (cases f) (auto simp: print_item_def)
qed

lemma parse_return_print:
  "rvs \<noteq> [] \<Longrightarrow> list_all canon_item rvs \<Longrightarrow> item_end rest \<Longrightarrow> pv rest \<noteq> '','' \<Longrightarrow>
     parseReturn (print_return rvs @ rest) acc = Inr (acc @ rvs, rest)"
proof (induction rvs arbitrary: acc rule: print_return.induct)
  case 1
  then show ?case by simp
next
  case (2 rv)
  then show ?case using parse_item_print [of rv rest] by (simp add: parseReturn.simps [of _ acc])
next
  case (3 rv w rvs)
  obtain t ts where t: "print_return (w # rvs) = t # ts"
    "tvalue t \<notin> {''WHERE'', ''ORDER'', ''LIMIT'', ''MATCH'', ''DISTINCT''}"
    using hd_print_item [of w] "3.prems" by (cases rvs) auto
  have i: "parse_return_item (print_item rv @ P '','' # t # ts @ rest) = Inr (rv, P '','' # t # ts @ rest)"
    using "3.prems" by (intro parse_item_print) auto
  have r: "parseReturn (t # ts @ rest) (acc @ [rv]) = Inr ((acc @ [rv]) @ w # rvs, rest)"
    using "3.IH" [of "acc @ [rv]"] "3.prems" t(1) by simp
  have e: "print_return (rv # w # rvs) @ rest = print_item rv @ P '','' # t # ts @ rest"
    using t(1) by simp
  show ?case unfolding e parseReturn.simps [of "print_item rv @ P '','' # t # ts @ rest" acc] i
    using r t(2) by (simp add: Let_def)
qed

lemma hd_print_return:
  "rvs \<noteq> [] \<Longrightarrow> list_all canon_item rvs \<Longrightarrow> pv (print_return rvs @ rest) \<noteq> ''DISTINCT''"
  by (cases rvs rule: print_return.cases) (use hd_print_item in fastforce)+

lemma parse_order_dir:
  assumes "dir \<in> {'''', ''DESC''}" "pv rest \<notin> {''DESC'', ''ASC'', '',''}" "ob \<noteq> ''''"
    and "parse_order_target ts = Inr (ob, (if dir = '''' then [] else [K ''DESC'']) @ rest)"
  shows "parse_order q (K ''BY'' # ts) =
         Inr (q\<lparr>q_orderBy := ob, q_orderDir := (if dir = '''' then q_orderDir q else dir)\<rparr>, rest)"
  using assms by (cases q) (auto simp: parse_order_def skip_def Let_def)

lemma parse_order_print:
  assumes "canon_order ob dir" "ob \<noteq> ''''" "pv rest \<notin> {''.'', ''DESC'', ''ASC'', '',''}"
  shows "parse_order q (K ''BY'' # I (fst (dot_split ob)) # opt_prop (snd (dot_split ob)) @
            (if dir = '''' then [] else [K ''DESC'']) @ rest) =
         Inr (q\<lparr>q_orderBy := ob, q_orderDir := (if dir = '''' then q_orderDir q else dir)\<rparr>, rest)"
proof -
  obtain v p where d: "dot_split ob = (v, p)" by (cases "dot_split ob")
  have c: "agg_of v = None" "ob = v @ (if p = '''' then '''' else CHR ''.'' # p)" "dir \<in> {'''', ''DESC''}"
    using assms d by (auto simp: canon_order_def)
  show ?thesis unfolding d fst_conv snd_conv
  proof (rule parse_order_dir [OF c(3)])
    show "parse_order_target (I v # opt_prop p @ (if dir = '''' then [] else [K ''DESC'']) @ rest) =
        Inr (ob, (if dir = '''' then [] else [K ''DESC'']) @ rest)"
      using c(1,2) assms(3) by (cases "p = ''''"; cases "dir = ''''")
        (simp_all add: parse_order_target_def isAggFn_def opt_prop_def Let_def)
  qed (use assms in auto)
qed

lemma parse_limit_print:
  assumes "0 \<le> n" "n \<le> int_max"
  shows "parse_limit (Tok NUMBER (show_nat (nat n)) # rest) = Inr (n, rest)"
proof -
  have d: "c \<in> set (show_nat (nat n)) \<Longrightarrow> is_digit_char c" for c
    using show_nat_digits [of "nat n"] by (auto simp: list_all_iff)
  have "show_nat (nat n) \<noteq> ''-''" using d by (auto simp: is_digit_char_def code_of_def)
  moreover have "CHR ''.'' \<notin> set (show_nat (nat n))" "CHR ''e'' \<notin> set (show_nat (nat n))"
    "CHR ''E'' \<notin> set (show_nat (nat n))" using d by (fastforce simp: is_digit_char_def code_of_def)+
  ultimately show ?thesis using assms atoi_show_nat [of "nat n"] by (simp add: parse_limit_def)
qed

section \<open>Printing whole queries\<close>

lemma print_pattern_shape: "\<exists>ts. print_pattern p = P ''('' # ts"
  by (simp add: print_pattern_def)

lemma parse_clauses_limit:
  assumes "-1 \<le> n" "n \<le> int_max" "q_limit q = -1"
  shows "parse_clauses re q True (print_limit n) = Inr (q\<lparr>q_limit := n\<rparr>)"
  using assms parse_limit_print [of n "[]"]
  by (cases q) (auto simp: print_limit_def parse_clauses.simps [of re _ True])

lemma parse_clauses_order:
  assumes "canon_order ob dir" "-1 \<le> n" "n \<le> int_max" "q_limit q = -1" "q_orderBy q = ''''" "q_orderDir q = ''''"
  shows "parse_clauses re q True (print_order ob dir @ print_limit n) =
     Inr (q\<lparr>q_orderBy := ob, q_orderDir := dir, q_limit := n\<rparr>)"
proof (cases "ob = ''''")
  case True
  then show ?thesis using assms parse_clauses_limit [OF assms(2,3,4), of re]
    by (cases q) (simp add: print_order_def canon_order_def)
next
  case False
  let ?q = "q\<lparr>q_orderBy := ob, q_orderDir := dir\<rparr>"
  have e: "pv (print_limit n) \<notin> {''.'', ''DESC'', ''ASC'', '',''}" by (simp add: print_limit_def)
  have q: "q\<lparr>q_orderBy := ob, q_orderDir := (if dir = '''' then q_orderDir q else dir)\<rparr> = ?q"
    using assms by (cases q) simp
  have "parse_order q (K ''BY'' # I (fst (dot_split ob)) # opt_prop (snd (dot_split ob)) @
            (if dir = '''' then [] else [K ''DESC'']) @ print_limit n) = Inr (?q, print_limit n)"
    using parse_order_print [OF assms(1) False e, of q] unfolding q .
  then show ?thesis using False parse_clauses_limit [OF assms(2,3), of ?q re] assms(4)
    by (simp add: print_order_def parse_clauses.simps [of re q True])
qed

lemma tail_end:
  "pv (print_order ob dir @ print_limit n) \<notin> {''('', ''.'', ''AS'', '',''}"
  by (simp add: print_order_def print_limit_def)

lemma parse_clauses_return:
  assumes "rvs \<noteq> []" "list_all canon_item rvs"
    and "canon_order ob dir" "-1 \<le> n" "n \<le> int_max" "q_limit q = -1" "q_orderBy q = ''''" "q_orderDir q = ''''"
    and "\<not> q_distinct q"
  shows "parse_clauses re q seen (K ''RETURN'' # (if d then [K ''DISTINCT''] else []) @ print_return rvs @
            print_order ob dir @ print_limit n) =
     Inr (q\<lparr>q_distinct := d, q_returnVars := rvs, q_orderBy := ob, q_orderDir := dir, q_limit := n\<rparr>)"
proof -
  let ?tail = "print_order ob dir @ print_limit n"
  have r: "parseReturn (print_return rvs @ ?tail) [] = Inr (rvs, ?tail)"
    using parse_return_print [OF assms(1,2), of ?tail "[]"] tail_end [of ob dir n] by simp
  have o: "parse_clauses re (q\<lparr>q_distinct := d, q_returnVars := rvs\<rparr>) True ?tail =
     Inr (q\<lparr>q_distinct := d, q_returnVars := rvs, q_orderBy := ob, q_orderDir := dir, q_limit := n\<rparr>)"
    using parse_clauses_order [OF assms(3-5), of "q\<lparr>q_distinct := d, q_returnVars := rvs\<rparr>" re] assms by simp
  show ?thesis
    using r o hd_print_return [OF assms(1,2), of ?tail] assms(9)
    by (cases d) (simp_all add: parse_clauses.simps [of re q seen])
qed

lemma parse_clauses_matches:
  "list_all canon_pattern ps \<Longrightarrow> rest \<noteq> [] \<Longrightarrow> pv rest \<notin> {''-'', ''<''} \<Longrightarrow>
     parse_clauses re q seen (concat (map (\<lambda>p. K ''MATCH'' # print_pattern p) ps) @ rest) =
     parse_clauses re (q\<lparr>q_patterns := q_patterns q @ ps\<rparr>) seen rest"
proof (induction ps arbitrary: q)
  case Nil
  then show ?case by simp
next
  case (Cons p ps)
  let ?r = "concat (map (\<lambda>p. K ''MATCH'' # print_pattern p) ps) @ rest"
  have "pv ?r \<notin> {''-'', ''<''}" using Cons.prems by (cases ps) auto
  then have "parsePattern (print_pattern p @ ?r) = Inr (p, ?r)" "pv ?r \<noteq> ''-''" "pv ?r \<noteq> ''<''"
    using Cons.prems parsePattern_print [of p ?r] by auto
  then show ?case using Cons.IH [of "q\<lparr>q_patterns := q_patterns q @ [p]\<rparr>"] Cons.prems
    by (simp add: parse_clauses.simps [of re q seen "_ # _"])
qed

lemma parseQuery_print_aux:
  assumes "canon_query re q"
  shows "parseQuery re (print_query q) = Inr q"
proof -
  define tail where "tail = K ''RETURN'' # (if q_distinct q then [K ''DISTINCT''] else []) @
      print_return (q_returnVars q) @ print_order (q_orderBy q) (q_orderDir q) @ print_limit (q_limit q)"
  define q1 where "q1 = empty_query\<lparr>q_patterns := q_patterns q\<rparr>"
  define q2 where "q2 = q1\<lparr>q_where := q_where q, q_conditions := q_conditions q\<rparr>"
  let ?w = "case q_where q of None \<Rightarrow> [] | Some w \<Rightarrow> K ''WHERE'' # print_where w"
  have "parse_clauses re empty_query False (print_query q) = parse_clauses re q1 False (?w @ tail)"
    using assms parse_clauses_matches [of "q_patterns q" "?w @ tail" re empty_query False]
    by (auto simp: print_query_def tail_def q1_def canon_query_def empty_query_def split: option.split)
  also have "\<dots> = parse_clauses re q2 False tail"
  proof (cases "q_where q")
    case None
    then have "q2 = q1" using assms by (simp add: q2_def q1_def canon_query_def empty_query_def)
    then show ?thesis using None by simp
  next
    case (Some w)
    have "parseWhere re (print_where w @ tail) = Inr (w, tail)"
      using assms Some by (intro parseWhere_print_aux) (auto simp: canon_query_def tail_def)
    moreover have "add_where q1 w = q2"
      using assms Some by (simp add: add_where_def q1_def q2_def canon_query_def empty_query_def)
    ultimately show ?thesis using Some by (simp add: parse_clauses.simps [of re q1 False])
  qed
  also have "\<dots> = Inr (q2\<lparr>q_distinct := q_distinct q, q_returnVars := q_returnVars q,
      q_orderBy := q_orderBy q, q_orderDir := q_orderDir q, q_limit := q_limit q\<rparr>)"
    unfolding tail_def using assms
    by (intro parse_clauses_return) (simp_all add: canon_query_def q2_def q1_def empty_query_def)
  also have "\<dots> = Inr q" by (cases q) (simp add: q2_def q1_def empty_query_def)
  finally show ?thesis using assms by (simp add: parseQuery_def canon_query_def)
qed

section \<open>Printed queries are well-formed token sequences\<close>

lemma wf_token_P: "v \<in> set punct_tokens \<Longrightarrow> wf_token (P v)"
  by (simp add: wf_token_def)

lemma wf_token_K: "v \<in> set pq_keywords \<Longrightarrow> wf_token (K v)"
  by (simp add: wf_token_def)

lemma wf_token_I [simp]: "wf_token (I v) = is_ident v"
  by (simp add: wf_token_def is_ident_def)

lemma wf_token_L [simp]: "wf_token (L v)"
  by (simp add: wf_token_def)

lemma wf_token_puncts [simp]:
  "wf_token (P ''('')" "wf_token (P '')'')" "wf_token (P ''['')" "wf_token (P '']'')" "wf_token (P ''{'')"
  "wf_token (P ''}'')" "wf_token (P '':'')" "wf_token (P '','')" "wf_token (P ''.'')" "wf_token (P ''-'')"
  "wf_token (P ''->'')" "wf_token (P ''|'')" "wf_token (P ''='')" "wf_token (P ''<>'')" "wf_token (P ''<'')"
  "wf_token (P ''>'')" "wf_token (P ''<='')" "wf_token (P ''>='')" "wf_token (P ''=~'')"
  by (simp_all add: wf_token_P punct_tokens_def)

lemma wf_token_keywords [simp]:
  "wf_token (K ''MATCH'')" "wf_token (K ''WHERE'')" "wf_token (K ''RETURN'')" "wf_token (K ''ORDER'')"
  "wf_token (K ''BY'')" "wf_token (K ''LIMIT'')" "wf_token (K ''DISTINCT'')" "wf_token (K ''AND'')"
  "wf_token (K ''OR'')" "wf_token (K ''NOT'')" "wf_token (K ''CONTAINS'')" "wf_token (K ''STARTS'')"
  "wf_token (K ''ENDS'')" "wf_token (K ''WITH'')" "wf_token (K ''DESC'')" "wf_token (K ''COUNT'')"
  "wf_token (K ''IN'')" "wf_token (K ''IS'')" "wf_token (K ''NULL'')"
  by (simp_all add: wf_token_K pq_keywords_def)

lemma is_ident_agg [simp]:
  "is_ident ''AVG''" "is_ident ''MIN''" "is_ident ''MAX''" "is_ident ''SUM''" "is_ident ''AS''"
  by (simp_all add: is_ident_def is_ident_start_def is_ident_char_def is_lower_char_def is_upper_char_def
      code_of_def to_upper_def upper_char_def pq_keywords_def)

lemma wf_number_show: "wf_number (show_nat n)"
proof -
  have "takeWhile is_digit_char (show_nat n) = show_nat n" "dropWhile is_digit_char (show_nat n) = []"
    using show_nat_digits [of n] by (auto simp: list_all_iff)
  then have "fst (scan_number (show_nat n)) = show_nat n"
    unfolding scan_number_def Let_def by (simp only: list.case fst_conv)
  then show ?thesis
    using scan_number_wf [of "show_nat n"] show_nat_digits [of n] by (cases "show_nat n") auto
qed

lemma wf_token_limit [simp]: "wf_token (Tok NUMBER (show_nat n))"
  by (simp add: wf_token_def wf_number_show)

lemma wf_token_hops: "wf_token (Tok HOPS (show_nat m @ ''..'' @ show_nat n))" "wf_token (Tok HOPS [])"
  using show_nat_digits [of m] show_nat_digits [of n]
  by (auto simp: wf_token_def is_hop_char_def list_all_iff)

lemma print_list_wf: "list_all wf_token (print_list vs)"
  by (induction vs rule: print_list.induct) auto

lemma print_cond_wf: "canon_cond re c \<Longrightarrow> list_all wf_token (print_cond c)"
  by (cases "c_op c") (auto simp: print_cond_def canon_cond_def print_list_wf)

lemma op_token_wf [simp]: "wf_token (op_token op)"
  by (cases op) auto

lemma print_factor_wf: "canon_where re w \<Longrightarrow> list_all wf_token (print_factor w)"
  by (induction w) (auto simp: print_cond_wf)

lemma print_where_wf: "canon_where re w \<Longrightarrow> list_all wf_token (print_where w)"
  by (cases w) (auto simp: print_factor_wf print_cond_wf)

lemma opt_prop_wf [simp]: "p = '''' \<or> is_ident p \<Longrightarrow> list_all wf_token (opt_prop p)"
  by (auto simp: opt_prop_def)

lemma print_props_wf: "list_all (\<lambda>(k, v). is_ident k) ps \<Longrightarrow> list_all wf_token (print_props ps)"
  by (induction ps rule: print_props.induct) auto

lemma print_node_wf: "canon_node v k ps \<Longrightarrow> list_all wf_token (print_node v k ps)"
  by (auto simp: print_node_def canon_node_def print_props_wf)

lemma print_kinds_wf: "list_all (\<lambda>k. is_ident k \<and> to_upper k = k) ks \<Longrightarrow> list_all wf_token (print_kinds ks)"
  by (induction ks rule: print_kinds.induct) auto

lemma print_pattern_wf: "canon_pattern p \<Longrightarrow> list_all wf_token (print_pattern p)"
  using wf_token_hops
  by (auto simp: print_pattern_def canon_pattern_def print_node_wf print_bracket_def print_kinds_wf split: if_splits)

lemma agg_token_wf [simp]: "wf_token (agg_token f)"
  by (cases f) auto

lemma print_item_wf: "canon_item rv \<Longrightarrow> list_all wf_token (print_item rv)"
  using wf_token_hops(2)
  by (auto simp: print_item_def canon_item_def split: option.splits if_splits)

lemma print_return_wf: "list_all canon_item rvs \<Longrightarrow> list_all wf_token (print_return rvs)"
  by (induction rvs rule: print_return.induct) (auto simp: print_item_wf)

lemma print_order_wf: "canon_order ob dir \<Longrightarrow> list_all wf_token (print_order ob dir)"
  by (auto simp: print_order_def canon_order_def split: prod.splits if_splits)

lemma print_matches_wf:
  "list_all canon_pattern ps \<Longrightarrow>
     list_all wf_token (concat (map (\<lambda>p. K ''MATCH'' # print_pattern p) ps))"
  by (induction ps) (auto simp: print_pattern_wf)

lemma print_query_wf: "canon_query re q \<Longrightarrow> list_all wf_token (print_query q)"
  by (auto simp: canon_query_def print_query_def print_where_wf print_return_wf print_order_wf
      print_limit_def print_matches_wf split: option.split)

text \<open>
  C1: Whole queries round-trip through text: the printed text of a canonical query is tokenized and parsed back to
  exactly that query. A canonical query has one or more directed MATCH patterns, with or without inline properties
  under distinct names, upper-case edge kinds and a hop range from at least 1; no WHERE, or a WHERE tree of any shape
  whose leaves compare a property with string literals, with no column on the right, with regular expressions that
  compile and with no IN list that is empty or has a closing bracket as its first literal (the parser takes that for
  the end of the list); one or more RETURN items, which are variables, properties or aggregates, with aliases and
  DISTINCT counts; possibly DISTINCT, an ORDER BY of a variable or property (not of an aggregate) and a LIMIT. Its
  names are identifiers other than keywords, no plain item or order variable is named like an aggregate, and its flat
  condition list is that of the tree. Apart from that first IN literal, its string literals may hold any bytes.
\<close>
theorem parse_print:
  assumes "canon_query re q"
  shows "parse re (render (print_query q)) = Some (Inr q)"
  using tokenize_render_aux [OF print_query_wf [OF assms]] parseQuery_print_aux [OF assms]
  by (simp add: parse_def)

definition sample_query :: queryAST where
  "sample_query =
     empty_query\<lparr>
       q_patterns := [\<lparr>p_fromVar = ''f'', p_fromKind = ''Function'', p_fromProps = [(''name'', ''ma in'')],
          p_edgeVar = '''', p_edgeKinds = [''CALLS''], p_minHops = 1, p_maxHops = 3, p_invertedHops = False,
          p_minHopsClamped = False, p_toVar = ''g'', p_toKind = '''', p_toProps = [], p_directed = True\<rparr>],
       q_returnVars := [\<lparr>r_variable = ''g'', r_property = ''name'', r_alias = ''n'', r_fn = None,
          r_distinct = False\<rparr>,
          \<lparr>r_variable = ''*'', r_property = '''', r_alias = '''', r_fn = Some FnCount, r_distinct = False\<rparr>],
       q_orderBy := ''n'', q_orderDir := ''DESC'', q_limit := 5\<rparr>"

lemma parse_print_witness:
  "parse (\<lambda>_. None) (render (print_query sample_query)) = Some (Inr sample_query)"
proof (rule parse_print)
  have i: "is_ident ''f''" "is_ident ''g''" "is_ident ''n''" "is_ident ''name''" "is_ident ''Function''"
    "is_ident ''CALLS''" by code_simp+
  have a: "agg_of ''g'' = None" "agg_of ''n'' = None" "to_upper ''CALLS'' = ''CALLS''" by code_simp+
  show "canon_query (\<lambda>_. None) sample_query"
    by (simp add: canon_query_def sample_query_def empty_query_def canon_pattern_def canon_node_def
      canon_item_def canon_order_def dot_split_def int_max_def i a)
qed

end
