(* ===== verification/PinchQL_Parser_Correct.thy ===== *)
theory PinchQL_Parser_Correct
  imports PinchQL_Parser
begin

text \<open>
  What the parser of \<open>PinchQL_Parser\<close> guarantees about its results: hop ranges are within bounds and
  every accepted query is well formed (\<open>wf_query\<close>).
\<close>


section \<open>What a parsed query satisfies\<close>

definition wf_cond :: "regex \<Rightarrow> condition \<Rightarrow> bool" where
  "wf_cond re c \<longleftrightarrow>
     c_op c \<noteq> OpNone \<and> (c_op c = OpRe \<longrightarrow> re (c_value c) \<noteq> None) \<and>
     (c_op c = OpIn \<longrightarrow> c_inValues c \<noteq> [])"

lemma wf_cond_negated [simp]: "wf_cond re (c\<lparr>c_negated := b\<rparr>) = wf_cond re c"
  by (simp add: wf_cond_def)

lemma parse_in_list_wf:
  "parse_in_list c ts = Inr (c', ts') \<Longrightarrow> c_op c' = c_op c \<and> c_inValues c' \<noteq> []"
proof (induction c ts rule: parse_in_list.induct)
  case (1 c ts)
  show ?case
    using "1.prems" "1.IH" [OF refl refl _ refl]
    by (auto simp: parse_in_list.simps [of c ts] Let_def split: if_splits)
qed

lemma comparison_op_simps:
  "comparison_op v = Some op \<Longrightarrow> op \<noteq> OpNone \<and> op \<noteq> OpRe \<and> op \<noteq> OpIn"
  by (auto simp: comparison_op_def split: if_splits)

lemma parseOneCondition_wf: "parseOneCondition re ts = Inr (c, ts') \<Longrightarrow> wf_cond re c"
  by (auto simp: parseOneCondition_def Let_def wf_cond_def with_value_def
      split: if_splits option.splits dest!: parse_in_list_wf comparison_op_simps)

lemma where_parsers_wf:
  "parseOrExpr re1 ts1 = Inr (w1, r1) \<Longrightarrow> list_all (wf_cond re1) (leaves w1)"
  "list_all (wf_cond re2) (leaves l2) \<Longrightarrow> parse_or_loop re2 l2 ts2 = Inr (w2, r2) \<Longrightarrow>
     list_all (wf_cond re2) (leaves w2)"
  "parseAndExpr re3 ts3 = Inr (w3, r3) \<Longrightarrow> list_all (wf_cond re3) (leaves w3)"
  "list_all (wf_cond re4) (leaves l4) \<Longrightarrow> parse_and_loop re4 l4 ts4 = Inr (w4, r4) \<Longrightarrow>
     list_all (wf_cond re4) (leaves w4)"
  "parseFactor re5 ts5 = Inr (w5, r5) \<Longrightarrow> list_all (wf_cond re5) (leaves w5)"
proof (induction re1 ts1 and re2 l2 ts2 and re3 ts3 and re4 l4 ts4 and re5 ts5
    arbitrary: w1 r1 and w2 r2 and w3 r3 and w4 r4 and w5 r5
    rule: parseOrExpr_parse_or_loop_parseAndExpr_parse_and_loop_parseFactor.induct)
  case (1 re ts)
  from "1.prems" obtain l ts1 where p: "parseAndExpr re ts = Inr (l, ts1)" "parse_or_loop re l ts1 = Inr (w1, r1)"
    by (auto simp: parseOrExpr.simps [of re ts])
  show ?case using "1.IH"(2) [OF p(1) refl "1.IH"(1) [OF p(1)] p(2)] .
next
  case (2 re left ts)
  show ?case
  proof (cases "pv ts = ''OR''")
    case True
    from "2.prems"(2) True obtain r ts1 where p: "parseAndExpr re (tl ts) = Inr (r, ts1)"
      "parse_or_loop re (BinE Or_op left r) ts1 = Inr (w2, r2)"
      by (auto simp: parse_or_loop.simps [of re left ts])
    have "list_all (wf_cond re) (leaves (BinE Or_op left r))"
      using "2.prems"(1) "2.IH"(1) [OF True p(1)] by simp
    then show ?thesis by (rule "2.IH"(2) [OF True p(1) refl _ p(2)])
  qed (use "2.prems" in \<open>simp add: parse_or_loop.simps [of re left ts]\<close>)
next
  case (3 re ts)
  from "3.prems" obtain l ts1 where p: "parseFactor re ts = Inr (l, ts1)" "parse_and_loop re l ts1 = Inr (w3, r3)"
    by (auto simp: parseAndExpr.simps [of re ts])
  show ?case using "3.IH"(2) [OF p(1) refl "3.IH"(1) [OF p(1)] p(2)] .
next
  case (4 re left ts)
  show ?case
  proof (cases "pv ts = ''AND''")
    case True
    from "4.prems"(2) True obtain r ts1 where p: "parseFactor re (tl ts) = Inr (r, ts1)"
      "parse_and_loop re (BinE And_op left r) ts1 = Inr (w4, r4)"
      by (auto simp: parse_and_loop.simps [of re left ts])
    have "list_all (wf_cond re) (leaves (BinE And_op left r))"
      using "4.prems"(1) "4.IH"(1) [OF True p(1)] by simp
    then show ?thesis by (rule "4.IH"(2) [OF True p(1) refl _ p(2)])
  qed (use "4.prems" in \<open>simp add: parse_and_loop.simps [of re left ts]\<close>)
next
  case (5 re ts)
  show ?case using "5.prems" "5.IH"
    by (auto simp: parseFactor.simps [of re ts] Let_def split: if_splits dest: parseOneCondition_wf)
qed

definition wf_pattern :: "pattern \<Rightarrow> bool" where
  "wf_pattern p \<longleftrightarrow>
     1 \<le> p_minHops p \<and> p_minHops p \<le> p_maxHops p \<and> p_maxHops p \<le> int_max \<and>
     list_all (\<lambda>k. to_upper k = k) (p_edgeKinds p) \<and>
     distinct (map fst (p_fromProps p)) \<and> distinct (map fst (p_toProps p))"

text \<open>The flat condition list agrees with the tree, and every leaf can be evaluated.\<close>

definition wf_where :: "regex \<Rightarrow> whereExpr option \<Rightarrow> condition list \<Rightarrow> bool" where
  "wf_where re w conds =
     (case w of
        None \<Rightarrow> conds = []
      | Some w' \<Rightarrow> list_all (wf_cond re) (leaves w') \<and>
                   conds = (case flattenWhere w' of None \<Rightarrow> [] | Some cs \<Rightarrow> cs))"

definition wf_clauses :: "regex \<Rightarrow> queryAST \<Rightarrow> bool" where
  "wf_clauses re q \<longleftrightarrow>
     list_all wf_pattern (q_patterns q) \<and> wf_where re (q_where q) (q_conditions q) \<and>
     -1 \<le> q_limit q \<and> q_limit q \<le> int_max \<and> q_orderDir q \<in> {'''', ''DESC''}"

definition wf_query :: "regex \<Rightarrow> queryAST \<Rightarrow> bool" where
  "wf_query re q \<longleftrightarrow> wf_clauses re q \<and> q_patterns q \<noteq> [] \<and> q_returnVars q \<noteq> []"

text \<open>
  A parsed hop range is always a usable one: 1 <= min <= max, both within the machine integer
  range, whatever digits and points the query spells; the inverted flag is set exactly when the
  bounds were written backwards, and the clamp flag exactly when the lower of the two was below 1.
\<close>
theorem parseHops_range:
  "case parseHops s of (mn, mx, inverted, clamped) \<Rightarrow>
     1 \<le> mn \<and> mn \<le> mx \<and> mx \<le> int_max \<and>
     (case split2 (CHR ''.'') (CHR ''.'') [] s of
        [a, b] \<Rightarrow> s = '''' \<or>
          (inverted = (fst (atoi b) < fst (atoi a))) \<and>
          (clamped = (min (fst (atoi a)) (fst (atoi b)) < 1)) \<and>
          mn = max 1 (min (fst (atoi a)) (fst (atoi b))) \<and>
          mx = max 1 (max (fst (atoi a)) (fst (atoi b)))
      | _ \<Rightarrow> \<not> inverted)"
proof -
  have one: "(1::int) \<le> int_max" by (simp add: int_max_def)
  have up: "fst (atoi x) \<le> int_max" for x using atoi_bounds by blast
  show ?thesis
    using one up by (auto simp: parseHops_def Let_def split: list.split)
qed

lemma parseHops_bounds:
  "parseHops s = (mn, mx, iv, cl) \<Longrightarrow> 1 \<le> mn \<and> mn \<le> mx \<and> mx \<le> int_max"
  using atoi_bounds by (auto simp: parseHops_def Let_def int_max_def split: list.splits if_splits)

lemma parseProps_loop_distinct:
  "parseProps_loop ts ps = (ps', ts') \<Longrightarrow> distinct (map fst ps) \<Longrightarrow> distinct (map fst ps')"
proof (induction ts ps arbitrary: ps' ts' rule: parseProps_loop.induct)
  case (1 ts props)
  show ?case
  proof (cases "pv ts \<noteq> ''}'' \<and> pk ts \<noteq> EOF")
    case True
    let ?ts1 = "skip '':'' (tl ts)"
    have "parseProps_loop ts props =
      parseProps_loop (skip '','' (tl ?ts1)) (AList.update (pv ts) (pv ?ts1) props)"
      using True by (subst parseProps_loop.simps) (simp add: Let_def)
    then show ?thesis
      using "1.IH" [OF True refl refl refl, of ps' ts'] "1.prems" by (simp add: distinct_update)
  next
    case False
    then show ?thesis using "1.prems" by (subst (asm) parseProps_loop.simps) auto
  qed
qed

lemma parse_node_distinct: "parse_node ts = Inr ((v, k, ps), ts') \<Longrightarrow> distinct (map fst ps)"
  by (auto simp: parse_node_def parseProps_def Let_def split: if_splits prod.splits
      dest!: parseProps_loop_distinct)

lemma parse_edge_kinds_upper: "parse_edge_kinds ts = (ks, ts') \<Longrightarrow> list_all (\<lambda>k. to_upper k = k) ks"
proof (induction ts arbitrary: ks ts' rule: parse_edge_kinds.induct)
  case (1 ts)
  obtain ks1 ts1 where r: "parse_edge_kinds (tl (tl ts)) = (ks1, ts1)"
    by (cases "parse_edge_kinds (tl (tl ts))")
  show ?case using "1.prems" "1.IH" [OF _ refl refl, of ks1 ts1] r
    by (auto simp: parse_edge_kinds.simps [of ts] Let_def split: if_splits)
qed

lemma parse_edge_bracket_wf:
  "parse_edge_bracket ts = Inr ((ev, ks, mn, mx, iv, cl), ts') \<Longrightarrow>
     1 \<le> mn \<and> mn \<le> mx \<and> mx \<le> int_max \<and> list_all (\<lambda>k. to_upper k = k) ks"
  using parseHops_bounds parse_edge_kinds_upper
  by (fastforce simp: parse_edge_bracket_def Let_def int_max_def split: if_splits prod.splits)

lemma parsePattern_wf: "parsePattern ts = Inr (p, ts') \<Longrightarrow> wf_pattern p"
  by (auto simp: parsePattern_def wf_pattern_def Let_def int_max_def split: if_splits
      dest!: parse_node_distinct parse_edge_bracket_wf)

lemma add_where_wf:
  "wf_clauses re q \<Longrightarrow> list_all (wf_cond re) (leaves w) \<Longrightarrow> wf_clauses re (add_where q w)"
  by (auto simp: wf_clauses_def wf_where_def add_where_def Let_def split: option.splits)

lemma parse_order_wf: "parse_order q ts = Inr (q', ts') \<Longrightarrow> wf_clauses re q \<Longrightarrow> wf_clauses re q'"
  by (auto simp: parse_order_def wf_clauses_def Let_def split: if_splits)

lemma parse_limit_wf: "parse_limit ts = Inr (n, ts') \<Longrightarrow> 0 \<le> n \<and> n \<le> int_max"
  using atoi_bounds [of "pv ts"]
  by (auto simp: parse_limit_def Let_def split: if_splits prod.splits)

lemma parse_clauses_wf:
  "parse_clauses re q seen ts = Inr q' \<Longrightarrow> wf_clauses re q \<Longrightarrow> wf_clauses re q'"
proof (induction re q seen ts arbitrary: q' rule: parse_clauses.induct)
  case (1 re q seen ts)
  note eq = parse_clauses.simps [of re q seen ts]
  consider "ts = []" | "ts \<noteq> []" "pv ts = ''MATCH''" | "ts \<noteq> []" "pv ts = ''WHERE''"
    | "ts \<noteq> []" "pv ts = ''RETURN''" | "ts \<noteq> []" "pv ts = ''ORDER''" | "ts \<noteq> []" "pv ts = ''LIMIT''"
    | "ts \<noteq> []" "pv ts \<notin> {''MATCH'', ''WHERE'', ''RETURN'', ''ORDER'', ''LIMIT''}" by blast
  then show ?case
  proof cases
    case 1
    then show ?thesis using "1.prems" eq by simp
  next
    case 2
    then obtain p ts1 where p: "parsePattern (tl ts) = Inr (p, ts1)"
      "pv ts1 \<noteq> ''-'' \<and> pv ts1 \<noteq> ''<''" "parse_clauses re (q\<lparr>q_patterns := q_patterns q @ [p]\<rparr>) seen ts1 = Inr q'"
      using "1.prems" by (auto simp: eq Let_def split: if_splits)
    have "wf_clauses re (q\<lparr>q_patterns := q_patterns q @ [p]\<rparr>)"
      using "1.prems"(2) parsePattern_wf [OF p(1)] by (simp add: wf_clauses_def)
    then show ?thesis using "1.IH"(1) [OF 2(1) refl refl 2(2) p(1) refl _ p(3)] p(2) by simp
  next
    case 3
    then obtain w ts1 where p: "parseWhere re (tl ts) = Inr (w, ts1)" "\<not> seen"
      "parse_clauses re (add_where q w) seen ts1 = Inr q'"
      using "1.prems" by (auto simp: eq Let_def split: if_splits)
    have "wf_clauses re (add_where q w)"
      using "1.prems"(2) p(1) where_parsers_wf(1) by (simp add: add_where_wf parseWhere_def)
    then show ?thesis using "1.IH"(2) [OF 3(1) refl refl _ 3(2) p(2,1) refl p(3)] 3(2) by simp
  next
    case 4
    let ?d = "pv (tl ts) = ''DISTINCT''"
    obtain vs ts1 where p: "parseReturn (if ?d then tl (tl ts) else tl ts) [] = Inr (vs, ts1)"
      "parse_clauses re (q\<lparr>q_distinct := q_distinct q \<or> ?d, q_returnVars := vs\<rparr>) True ts1 = Inr q'"
      using "1.prems" 4 by (auto simp: eq Let_def split: if_splits)
    have "wf_clauses re (q\<lparr>q_distinct := q_distinct q \<or> ?d, q_returnVars := vs\<rparr>)"
      using "1.prems"(2) by (simp add: wf_clauses_def)
    then show ?thesis using "1.IH"(3) [OF 4(1) refl refl _ _ 4(2) refl refl p(1) refl p(2)] 4(2) by simp
  next
    case 5
    then obtain q1 ts1 where p: "parse_order q (tl ts) = Inr (q1, ts1)" "parse_clauses re q1 seen ts1 = Inr q'"
      using "1.prems" by (auto simp: eq Let_def split: if_splits)
    then show ?thesis
      using "1.IH"(4) [OF 5(1) refl refl _ _ _ 5(2) p(1) refl p(2)] 5(2) parse_order_wf [OF p(1) "1.prems"(2)]
      by simp
  next
    case 6
    then obtain n ts1 where p: "parse_limit (tl ts) = Inr (n, ts1)"
      "parse_clauses re (q\<lparr>q_limit := n\<rparr>) seen ts1 = Inr q'"
      using "1.prems" by (auto simp: eq Let_def split: if_splits)
    have "wf_clauses re (q\<lparr>q_limit := n\<rparr>)"
      using "1.prems"(2) parse_limit_wf [OF p(1)] by (simp add: wf_clauses_def)
    then show ?thesis
      using "1.IH"(5) [OF 6(1) refl refl _ _ _ _ 6(2) p(1) refl p(2)] 6(2) by simp
  next
    case 7
    then show ?thesis using "1.prems" by (auto simp: eq Let_def split: if_splits)
  qed
qed

lemma empty_query_wf: "wf_clauses re empty_query"
  by (simp add: wf_clauses_def wf_where_def empty_query_def int_max_def)

lemma parse_wf_aux: "parse re s = Some (Inr q) \<Longrightarrow> wf_query re q"
  using parse_clauses_wf [OF _ empty_query_wf]
  by (auto simp: parse_def parseQuery_def wf_query_def split: if_splits)

text \<open>
  C3: Every query the parser accepts is well formed: at least one MATCH pattern and one RETURN item,
  hop ranges within bounds, upper-cased edge kinds, inline properties without duplicate keys, a LIMIT
  that is -1 (absent) or a non-negative machine integer, the flat condition list equal to the
  flattened WHERE tree, and every WHERE leaf with an operator, a regular expression that compiles, or
  a non-empty IN list.
\<close>
theorem parse_wf:
  assumes "parse re s = Some (Inr q)"
  shows "wf_query re q"
  using assms by (rule parse_wf_aux)

lemma parse_wf_witness:
  "wf_query (\<lambda>_. None) (case parse (\<lambda>_. None) ''MATCH (n) RETURN n'' of Some (Inr q) \<Rightarrow> q | _ \<Rightarrow> empty_query)"
proof -
  have "case parse (\<lambda>_. None) ''MATCH (n) RETURN n'' of Some r \<Rightarrow> \<not> isl r | None \<Rightarrow> False"
    by code_simp
  then obtain q where q: "parse (\<lambda>_. None) ''MATCH (n) RETURN n'' = Some (Inr q)"
    by (auto simp: isl_def split: option.splits sum.splits) (metis sum.exhaust)
  show ?thesis using parse_wf [OF q] q by simp
qed

end
