(* ===== verification/Go_Json.thy ===== *)
theory Go_Json
  imports Pincher_Prelude
begin

text \<open>
  The part of Go's \<open>encoding/json\<close> that the supervisor uses: the syntax check and decoder behind
  \<open>json.Unmarshal\<close>, with the raw text of every object member (\<open>json.RawMessage\<close>), the matching of object keys
  to struct fields, and the encoder of strings behind \<open>json.Marshal\<close>.

  Nesting deeper than 10000 is an error, as in the scanner of the package. Bytes from 128 on are copied; the
  replacement of invalid UTF-8 is not modelled.
\<close>

section \<open>Lexical pieces\<close>

definition json_ws :: "char \<Rightarrow> bool" where
  "json_ws c \<longleftrightarrow> c = sp \<or> c = tab \<or> c = cr \<or> c = nl"

definition skip_ws :: "string \<Rightarrow> string" where
  "skip_ws s = dropWhile json_ws s"

definition starts :: "(char \<Rightarrow> bool) \<Rightarrow> string \<Rightarrow> bool" where
  "starts P s \<longleftrightarrow> s \<noteq> [] \<and> P (hd s)"

lemma starts_simps [simp]: "\<not> starts P []" "starts P (c # s) = P c"
  by (simp_all add: starts_def)

definition hex_val :: "char \<Rightarrow> nat option" where
  "hex_val c =
     (if is_digit_char c then Some (code_of c - 48)
      else if 97 \<le> code_of c \<and> code_of c \<le> 102 then Some (code_of c - 87)
      else if 65 \<le> code_of c \<and> code_of c \<le> 70 then Some (code_of c - 55)
      else None)"

fun hex4 :: "string \<Rightarrow> (nat \<times> string) option" where
  "hex4 (a # b # c # d # r) =
     (case (hex_val a, hex_val b, hex_val c, hex_val d) of
        (Some w, Some x, Some y, Some z) \<Rightarrow> Some (4096 * w + 256 * x + 16 * y + z, r)
      | _ \<Rightarrow> None)"
| "hex4 _ = None"

definition utf8 :: "nat \<Rightarrow> string" where
  "utf8 n =
     (if n < 128 then [char_of n]
      else if n < 2048 then [char_of (192 + n div 64), char_of (128 + n mod 64)]
      else if n < 65536 then
        [char_of (224 + n div 4096), char_of (128 + n div 64 mod 64), char_of (128 + n mod 64)]
      else
        [char_of (240 + n div 262144), char_of (128 + n div 4096 mod 64),
         char_of (128 + n div 64 mod 64), char_of (128 + n mod 64)])"

text \<open>An escape \<open>\u\<close> is read with the low surrogate that may follow; a lone surrogate becomes U+FFFD.\<close>

fun low_surrogate :: "string \<Rightarrow> (nat \<times> string) option" where
  "low_surrogate (b # u # r) =
     (if b = bsl \<and> u = CHR ''u'' then
        (case hex4 r of
           Some (m, r') \<Rightarrow> if 56320 \<le> m \<and> m < 57344 then Some (m, r') else None
         | None \<Rightarrow> None)
      else None)"
| "low_surrogate _ = None"

definition unicode_escape :: "string \<Rightarrow> (string \<times> string) option" where
  "unicode_escape s =
     (case hex4 s of
        None \<Rightarrow> None
      | Some (n, r) \<Rightarrow>
          if 55296 \<le> n \<and> n < 57344 then
            (case (if n < 56320 then low_surrogate r else None) of
               Some (m, r') \<Rightarrow> Some (utf8 (65536 + (n - 55296) * 1024 + (m - 56320)), r')
             | None \<Rightarrow> Some (utf8 65533, r))
          else Some (utf8 n, r))"

definition simple_escape :: "char \<Rightarrow> char option" where
  "simple_escape e =
     (if e = dq \<or> e = bsl \<or> e = CHR ''/'' then Some e
      else if e = CHR ''b'' then Some (CHR 0x08)
      else if e = CHR ''f'' then Some (CHR 0x0C)
      else if e = CHR ''n'' then Some nl
      else if e = CHR ''r'' then Some cr
      else if e = CHR ''t'' then Some tab
      else None)"

lemma hex4_len [len_simps]: "hex4 s = Some (n, r) \<Longrightarrow> length r < length s"
  by (induction s rule: hex4.induct) (auto split: option.splits)

lemma low_surrogate_len [len_simps]: "low_surrogate s = Some (n, r) \<Longrightarrow> length r < length s"
  by (induction s rule: low_surrogate.induct) (auto split: if_splits option.splits dest: hex4_len)

lemma unicode_escape_len [len_simps]: "unicode_escape s = Some (u, r) \<Longrightarrow> length r < length s"
  by (auto simp: unicode_escape_def split: option.splits if_splits dest!: hex4_len low_surrogate_len)

text \<open>The body of a string literal, after the opening quote: the decoded bytes and the rest.\<close>

function (sequential) jchars :: "string \<Rightarrow> (string \<times> string) option" where
  "jchars [] = None"
| "jchars (c # cs) =
     (if c = dq then Some ([], cs)
      else if c = bsl then
        (case cs of
           [] \<Rightarrow> None
         | e # r \<Rightarrow>
             if e = CHR ''u'' then
               (case unicode_escape r of
                  None \<Rightarrow> None
                | Some (u, r') \<Rightarrow> map_option (apfst ((@) u)) (jchars r'))
             else
               (case simple_escape e of
                  None \<Rightarrow> None
                | Some x \<Rightarrow> map_option (apfst (Cons x)) (jchars r)))
      else if code_of c < 32 then None
      else map_option (apfst (Cons c)) (jchars cs))"
  by pat_completeness auto
termination
  by (relation "measure length") (auto dest!: unicode_escape_len)

lemma jchars_len [len_simps]: "jchars s = Some (x, r) \<Longrightarrow> length r < length s"
proof (induction s arbitrary: x r rule: jchars.induct)
  case (2 c cs)
  then show ?case
    by (fastforce split: if_splits list.splits option.splits dest: unicode_escape_len)
qed simp

text \<open>Numbers: the grammar of the scanner, returning the rest.\<close>

definition exponent :: "string \<Rightarrow> string option" where
  "exponent s =
     (if starts (\<lambda>c. c = CHR ''e'' \<or> c = CHR ''E'') s then
        (let r = (if starts (\<lambda>c. c = CHR ''+'' \<or> c = CHR ''-'') (tl s) then tl (tl s) else tl s) in
         if starts is_digit_char r then Some (dropWhile is_digit_char r) else None)
      else Some s)"

definition fraction :: "string \<Rightarrow> string option" where
  "fraction s =
     (if starts (\<lambda>c. c = CHR ''.'') s then
        (if starts is_digit_char (tl s) then exponent (dropWhile is_digit_char (tl s)) else None)
      else exponent s)"

definition jnum :: "string \<Rightarrow> string option" where
  "jnum s =
     (let r = (if starts (\<lambda>c. c = CHR ''-'') s then tl s else s) in
      if starts (\<lambda>c. c = CHR ''0'') r then fraction (tl r)
      else if starts is_digit_char r then fraction (dropWhile is_digit_char r)
      else None)"

lemma drop_digits_len [len_simps]: "length (dropWhile P (tl s)) \<le> length s"
  using length_dropWhile_le [of P "tl s"] by simp

lemma drop_starts_len [len_simps]: "starts P s \<Longrightarrow> length (dropWhile P s) < length s"
  by (cases s) (auto simp: le_imp_less_Suc length_dropWhile_le)

lemma tl_starts_len [len_simps]: "starts P s \<Longrightarrow> length (tl s) < length s"
  by (cases s) auto

lemma exponent_len [len_simps]: "exponent s = Some r \<Longrightarrow> length r \<le> length s"
  using drop_digits_len [of is_digit_char s] drop_digits_len [of is_digit_char "tl s"]
  by (auto simp: exponent_def Let_def split: if_splits)

lemma fraction_len [len_simps]: "fraction s = Some r \<Longrightarrow> length r \<le> length s"
  using drop_digits_len [of is_digit_char s]
  by (auto simp: fraction_def split: if_splits dest!: exponent_len)

lemma jnum_len [len_simps]: "jnum s = Some r \<Longrightarrow> length r < length s"
  using drop_starts_len [of is_digit_char s] drop_starts_len [of is_digit_char "tl s"]
    tl_starts_len [of _ s] tl_starts_len [of _ "tl s"]
  by (fastforce simp: jnum_def Let_def split: if_splits dest!: fraction_len)

lemma skip_ws_len [len_simps]: "length (skip_ws s) \<le> length s"
  by (simp add: skip_ws_def length_dropWhile_le)

lemma skip_ws_Cons_len [len_simps]: "skip_ws s = c # r \<Longrightarrow> length r < length s"
  using skip_ws_len [of s] by simp

section \<open>Values\<close>

datatype json =
  JNull | JBool bool | JNum string | JStr string | JArr "json list" | JObj "(string \<times> json \<times> string) list"

text \<open>An object keeps, for every member, the key, the value and the raw text of the value.\<close>

function
  jvalue :: "int \<Rightarrow> string \<Rightarrow> (json \<times> string) option" and
  jmembers :: "int \<Rightarrow> string \<Rightarrow> ((string \<times> json \<times> string) list \<times> string) option" and
  jelems :: "int \<Rightarrow> string \<Rightarrow> (json list \<times> string) option"
where
  "jvalue d s =
     (if starts (\<lambda>c. c = CHR ''{'') s then
        (if d \<le> 0 then None
         else let r = skip_ws (tl s) in
           if starts (\<lambda>c. c = CHR ''}'') r then Some (JObj [], tl r)
           else map_option (apfst JObj) (jmembers (d - 1) r))
      else if starts (\<lambda>c. c = CHR ''['') s then
        (if d \<le> 0 then None
         else let r = skip_ws (tl s) in
           if starts (\<lambda>c. c = CHR '']'') r then Some (JArr [], tl r)
           else map_option (apfst JArr) (jelems (d - 1) r))
      else if starts (\<lambda>c. c = dq) s then map_option (apfst JStr) (jchars (tl s))
      else if has_prefix s ''true'' then Some (JBool True, drop 4 s)
      else if has_prefix s ''false'' then Some (JBool False, drop 5 s)
      else if has_prefix s ''null'' then Some (JNull, drop 4 s)
      else map_option (\<lambda>r. (JNum (take (length s - length r) s), r)) (jnum s))"
| "jmembers d s =
     (if \<not> starts (\<lambda>c. c = dq) s then None
      else (case jchars (tl s) of
        None \<Rightarrow> None
      | Some (k, r1) \<Rightarrow>
          let r2 = skip_ws r1 in
          if \<not> starts (\<lambda>c. c = CHR '':'') r2 then None
          else let r3 = skip_ws (tl r2) in
            (case jvalue d r3 of
               None \<Rightarrow> None
             | Some (v, r4) \<Rightarrow>
                 let m = (k, v, take (length r3 - length r4) r3); r5 = skip_ws r4 in
                 if starts (\<lambda>c. c = CHR ''}'') r5 then Some ([m], tl r5)
                 else if starts (\<lambda>c. c = CHR '','') r5 then
                   map_option (apfst (Cons m)) (jmembers d (skip_ws (tl r5)))
                 else None)))"
| "jelems d s =
     (case jvalue d s of
        None \<Rightarrow> None
      | Some (v, r) \<Rightarrow>
          let r1 = skip_ws r in
          if starts (\<lambda>c. c = CHR '']'') r1 then Some ([v], tl r1)
          else if starts (\<lambda>c. c = CHR '','') r1 then
            map_option (apfst (Cons v)) (jelems d (skip_ws (tl r1)))
          else None)"
  by pat_completeness auto

abbreviation json_dom where
  "json_dom \<equiv> jvalue_jmembers_jelems_dom"

lemma skip_tl_len [len_simps]: "length (skip_ws (tl s)) \<le> length s"
  using skip_ws_len [of "tl s"] by simp

lemma drop_prefix_len: "has_prefix s p \<Longrightarrow> p \<noteq> [] \<Longrightarrow> length (drop (length p) s) < length s"
  by (auto simp: has_prefix_iff)

lemma json_consume_dom:
  "json_dom (Inl (d1, s1)) \<Longrightarrow> \<forall>v r. jvalue d1 s1 = Some (v, r) \<longrightarrow> length r < length s1"
  "json_dom (Inr (Inl (d2, s2))) \<Longrightarrow> \<forall>v r. jmembers d2 s2 = Some (v, r) \<longrightarrow> length r < length s2"
  "json_dom (Inr (Inr (d3, s3))) \<Longrightarrow> \<forall>v r. jelems d3 s3 = Some (v, r) \<longrightarrow> length r < length s3"
proof (induction rule: jvalue_jmembers_jelems.pinduct)
  case (1 d s)
  show ?case
  proof (intro allI impI)
    fix v r assume a: "jvalue d s = Some (v, r)"
    have t: "starts P s \<Longrightarrow> length (skip_ws (tl s)) < length s" for P
      using skip_ws_len [of "tl s"] tl_starts_len [of P s] by simp
    show "length r < length s"
      using a 1(2,3) unfolding jvalue.psimps [OF 1(1)]
      using t drop_prefix_len [of s "''true''"] drop_prefix_len [of s "''false''"] drop_prefix_len [of s "''null''"]
      by (fastforce simp: Let_def split: if_splits dest: jchars_len jnum_len tl_starts_len)
  qed
next
  case (2 d s)
  show ?case
  proof (intro allI impI)
    fix ms r assume a: "jmembers d s = Some (ms, r)"
    then obtain k r1 v r4 where j: "jchars (tl s) = Some (k, r1)" "starts (\<lambda>c. c = dq) s"
        "starts (\<lambda>c. c = CHR '':'') (skip_ws r1)" "jvalue d (skip_ws (tl (skip_ws r1))) = Some (v, r4)"
        "r = tl (skip_ws r4) \<or> (starts (\<lambda>c. c = CHR '','') (skip_ws r4) \<and> \<not> starts (\<lambda>c. c = CHR ''}'') (skip_ws r4) \<and>
          (\<exists>ms'. jmembers d (skip_ws (tl (skip_ws r4))) = Some (ms', r)))"
      unfolding jmembers.psimps [OF 2(1)] by (auto simp: Let_def split: if_splits option.splits)
    have "length r4 < length s"
      using 2(2) j jchars_len [OF j(1)] skip_ws_len [of "tl (skip_ws r1)"] skip_ws_len [of r1] by fastforce
    then show "length r < length s"
      using 2(3) j skip_ws_len [of "tl (skip_ws r4)"] skip_ws_len [of r4] by fastforce
  qed
next
  case (3 d s)
  show ?case
  proof (intro allI impI)
    fix vs r assume a: "jelems d s = Some (vs, r)"
    then obtain v r4 where j: "jvalue d s = Some (v, r4)"
        "r = tl (skip_ws r4) \<or> (starts (\<lambda>c. c = CHR '','') (skip_ws r4) \<and> \<not> starts (\<lambda>c. c = CHR '']'') (skip_ws r4) \<and>
          (\<exists>ms'. jelems d (skip_ws (tl (skip_ws r4))) = Some (ms', r)))"
      unfolding jelems.psimps [OF 3(1)] by (auto simp: Let_def split: if_splits option.splits)
    then show "length r < length s"
      using 3(2,3) skip_ws_len [of "tl (skip_ws r4)"] skip_ws_len [of r4] by fastforce
  qed
qed

lemma json_steps_len:
  "starts P s \<Longrightarrow> length (skip_ws (tl s)) < length s"
  "jchars (tl s) = Some (k, r1) \<Longrightarrow> length (skip_ws (tl (skip_ws r1))) < length s"
  "length (skip_ws (tl (skip_ws r))) \<le> length r"
  using skip_ws_len [of "tl s"] tl_starts_len [of P s] skip_ws_len [of "tl (skip_ws r1)"] skip_ws_len [of r1]
    jchars_len [of "tl s" k r1] skip_ws_len [of "tl (skip_ws r)"] skip_ws_len [of r]
  by (auto simp: le_diff_conv)

lemma json_value_len:
  "json_dom (Inl (d, s)) \<Longrightarrow> jvalue d s = Some (v, r) \<Longrightarrow> length (skip_ws (tl (skip_ws r))) < length s"
  using json_consume_dom(1) [of d s] json_steps_len(3) [of r] by fastforce

termination jvalue
  by (relation "measure (\<lambda>x. case x of Inl (d, s) \<Rightarrow> 2 * length s
       | Inr (Inl (d, s)) \<Rightarrow> 2 * length s + 1 | Inr (Inr (d, s)) \<Rightarrow> 2 * length s + 1)")
    (auto dest!: json_steps_len(1,2) json_value_len)

declare jvalue.simps [simp del] jmembers.simps [simp del] jelems.simps [simp del]

text \<open>\<open>json.Unmarshal\<close>: one value with white space around it.\<close>

definition parse_json :: "string \<Rightarrow> json option" where
  "parse_json s =
     (case jvalue 10000 (skip_ws s) of
        Some (v, r) \<Rightarrow> if skip_ws r = [] then Some v else None
      | None \<Rightarrow> None)"

section \<open>What follows a value does not change how it is read\<close>

text \<open>
  A scanner reads the same value from the same text whatever follows it. For a number the following byte must
  not continue it: \<open>stop\<close> holds of the bytes that can follow a member of an object or an array.
\<close>

definition stop :: "string \<Rightarrow> bool" where
  "stop r \<longleftrightarrow> r = [] \<or> json_ws (hd r) \<or> hd r = CHR '','' \<or> hd r = CHR ''}'' \<or> hd r = CHR '']''"

lemma hex4_ctx:
  "hex4 s = Some (n, r) \<Longrightarrow> \<exists>p. s = p @ r \<and> (\<forall>t. hex4 (p @ t) = Some (n, t))"
proof (induction s rule: hex4.induct)
  case (1 a b c d r')
  then show ?case by (intro exI [of _ "[a, b, c, d]"]) (auto split: option.splits)
qed auto

lemma low_surrogate_ctx:
  "low_surrogate s = Some (n, r) \<Longrightarrow> \<exists>p. s = p @ r \<and> (\<forall>t. low_surrogate (p @ t) = Some (n, t))"
proof (induction s rule: low_surrogate.induct)
  case (1 b u s)
  then obtain p where "s = p @ r" "\<forall>t. hex4 (p @ t) = Some (n, t)"
    using hex4_ctx by (fastforce split: if_splits option.splits)
  then show ?case using 1 by (intro exI [of _ "b # u # p"]) (auto split: if_splits option.splits)
qed auto

lemma low_surrogate_other [simp]: "b \<noteq> bsl \<Longrightarrow> low_surrogate (b # t) = None"
  by (cases t) auto

lemma low_surrogate_None:
  assumes "jchars p = Some (y, [])"
  shows "low_surrogate (p @ t) = None \<longleftrightarrow> low_surrogate p = None"
proof (cases p rule: low_surrogate.cases)
  case (1 b u s)
  show ?thesis
  proof (cases "b = bsl \<and> u = CHR ''u''")
    case True
    then have "hex4 s \<noteq> None"
      using assms 1 by (auto simp: unicode_escape_def split: option.splits)
    then obtain n r where h: "hex4 s = Some (n, r)" by auto
    then obtain q where "s = q @ r" "\<forall>t. hex4 (q @ t) = Some (n, t)" using hex4_ctx by blast
    then have "hex4 (s @ t) = Some (n, r @ t)" by simp
    then show ?thesis using h 1 by simp
  qed (use 1 in auto)
qed (use assms in \<open>auto split: if_splits\<close>)

lemma unicode_escape_ctx:
  assumes "unicode_escape s = Some (u, p @ r)" and "jchars p = Some (y, [])"
  shows "\<exists>q. s = q @ p @ r \<and> (\<forall>t. unicode_escape (q @ p @ t) = Some (u, p @ t))"
proof -
  obtain n r1 where h: "hex4 s = Some (n, r1)"
    using assms(1) by (auto simp: unicode_escape_def split: option.splits)
  then obtain q where q: "s = q @ r1" "\<And>t. hex4 (q @ t) = Some (n, t)" using hex4_ctx by blast
  have nn: "low_surrogate (p @ t) = None \<longleftrightarrow> low_surrogate (p @ t') = None" for t t'
    using low_surrogate_None [OF assms(2)] by simp
  consider (lone) "r1 = p @ r" "u = utf8 (if 55296 \<le> n \<and> n < 57344 then 65533 else n)"
      "55296 \<le> n \<and> n < 56320 \<longrightarrow> low_surrogate (p @ r) = None"
    | (pair) m where "low_surrogate r1 = Some (m, p @ r)" "55296 \<le> n" "n < 56320"
        "u = utf8 (65536 + (n - 55296) * 1024 + (m - 56320))"
    using assms(1) h by (auto simp: unicode_escape_def split: option.splits if_splits)
  then show ?thesis
  proof cases
    case lone
    then have "unicode_escape (q @ p @ t) = Some (u, p @ t)" for t
      using q(2) nn [of t r] by (auto simp: unicode_escape_def split: option.splits)
    then show ?thesis using q lone by auto
  next
    case pair
    then obtain l where l: "r1 = l @ p @ r" "\<And>t. low_surrogate (l @ t) = Some (m, t)"
      using low_surrogate_ctx by blast
    have "unicode_escape ((q @ l) @ p @ t) = Some (u, p @ t)" for t
      using q(2) l(2) pair by (simp add: unicode_escape_def)
    then show ?thesis using q l by (intro exI [of _ "q @ l"]) simp
  qed
qed

lemma jchars_ctx:
  "jchars s = Some (x, r) \<Longrightarrow> \<exists>p. s = p @ r \<and> (\<forall>t. jchars (p @ t) = Some (x, t))"
proof (induction s arbitrary: x r rule: jchars.induct)
  case (2 c cs)
  consider (close) "c = dq" | (plain) "c \<noteq> dq" "c \<noteq> bsl"
    | (uni) r' where "c = bsl" "cs = CHR ''u'' # r'"
    | (simple) e r' where "c = bsl" "cs = e # r'" "e \<noteq> CHR ''u''"
    using "2.prems" by (cases cs) (auto split: if_splits)
  then show ?case
  proof cases
    case close
    then show ?thesis using "2.prems" by (intro exI [of _ "[c]"]) simp
  next
    case plain
    then obtain y where y: "jchars cs = Some (y, r)" "x = c # y" "\<not> code_of c < 32"
      using "2.prems" by (auto split: if_splits)
    then obtain p where "cs = p @ r" "\<forall>t. jchars (p @ t) = Some (y, t)"
      using 2(3) plain by blast
    then show ?thesis using plain y by (intro exI [of _ "c # p"]) simp
  next
    case uni
    then obtain u s' y where u: "unicode_escape r' = Some (u, s')" "jchars s' = Some (y, r)" "x = u @ y"
      using "2.prems" by (auto split: option.splits)
    then obtain p where p: "s' = p @ r" "\<And>t. jchars (p @ t) = Some (y, t)"
      using 2(1) uni by blast
    have "jchars p = Some (y, [])" using p(2) [of "[]"] by simp
    then obtain q where "r' = q @ p @ r" "\<forall>t. unicode_escape (q @ p @ t) = Some (u, p @ t)"
      using unicode_escape_ctx u(1) p(1) by blast
    then show ?thesis using uni u p by (intro exI [of _ "c # CHR ''u'' # q @ p"]) simp
  next
    case simple
    then obtain z y where y: "simple_escape e = Some z" "jchars r' = Some (y, r)" "x = z # y"
      using "2.prems" by (auto split: option.splits)
    then obtain p where "r' = p @ r" "\<forall>t. jchars (p @ t) = Some (y, t)"
      using 2(2) simple by blast
    then show ?thesis using simple y by (intro exI [of _ "c # e # p"]) simp
  qed
qed simp

lemma dropWhile_ctx:
  assumes "dropWhile P s = p @ r"
  shows "\<exists>q. s = q @ p @ r \<and> list_all P q \<and> (\<forall>t. \<not> starts P t \<longrightarrow> dropWhile P (q @ p @ t) = p @ t)"
proof (intro exI conjI allI impI)
  show "s = takeWhile P s @ p @ r" using assms takeWhile_dropWhile_id [of P s] by simp
  show "list_all P (takeWhile P s)" by (auto simp: list_all_iff dest: set_takeWhileD)
  fix t assume t: "\<not> starts P t"
  have "\<not> starts P (p @ t)"
    using assms t hd_dropWhile [of P s] by (cases p) (auto simp: starts_def)
  then have "dropWhile P (p @ t) = p @ t" by (cases "p @ t") auto
  then show "dropWhile P (takeWhile P s @ p @ t) = p @ t"
    by (subst dropWhile_append2) (auto dest: set_takeWhileD)
qed

lemma stop_not [simp]:
  "stop t \<Longrightarrow> \<not> starts is_digit_char t"
  "stop t \<Longrightarrow> \<not> starts (\<lambda>c. c = CHR ''e'' \<or> c = CHR ''E'') t"
  "stop t \<Longrightarrow> \<not> starts (\<lambda>c. c = CHR ''.'') t"
  by (auto simp: stop_def starts_def json_ws_def is_digit_char_def code_of_def)

lemma starts_append: "starts P (p @ t) \<longleftrightarrow> (if p = [] then starts P t else starts P p)"
  by (cases p) auto

lemma exponent_ctx:
  assumes "exponent s = Some r"
  shows "\<exists>p. s = p @ r \<and> (\<forall>t. stop t \<longrightarrow> exponent (p @ t) = Some t)"
proof (cases "starts (\<lambda>c. c = CHR ''e'' \<or> c = CHR ''E'') s")
  case True
  then obtain c s1 where s1: "s = c # s1" "c = CHR ''e'' \<or> c = CHR ''E''" by (cases s) auto
  define sign where "sign = (if starts (\<lambda>c. c = CHR ''+'' \<or> c = CHR ''-'') s1 then [hd s1] else [])"
  define d where "d = (if starts (\<lambda>c. c = CHR ''+'' \<or> c = CHR ''-'') s1 then tl s1 else s1)"
  have sd: "s1 = sign @ d" by (cases s1) (auto simp: sign_def d_def)
  have d: "starts is_digit_char d" "dropWhile is_digit_char d = [] @ r"
    using assms True s1 by (auto simp: exponent_def d_def Let_def split: if_splits)
  obtain q where q: "d = q @ [] @ r" "list_all is_digit_char q"
      "\<And>t. \<not> starts is_digit_char t \<Longrightarrow> dropWhile is_digit_char (q @ [] @ t) = [] @ t"
    using dropWhile_ctx [OF d(2)] by blast
  have qne: "q \<noteq> []" using drop_starts_len [OF d(1)] d(2) q(1) by auto
  then have qd: "starts is_digit_char q" using q(2) by (cases q) auto
  have dig: "is_digit_char x \<Longrightarrow> x \<noteq> CHR ''+'' \<and> x \<noteq> CHR ''-''" for x
    by (auto simp: is_digit_char_def code_of_def)
  have "exponent ((c # sign @ q) @ t) = Some t" if "stop t" for t
    using s1(2) q(3) [of t] qne qd that dig
    by (cases q; cases s1) (auto simp: exponent_def sign_def starts_append Let_def split: if_splits)
  then show ?thesis using s1 sd q by (intro exI [of _ "c # sign @ q"]) simp
next
  case False
  then show ?thesis using assms by (intro exI [of _ "[]"]) (auto simp: exponent_def)
qed

lemma fraction_ctx:
  assumes "fraction s = Some r"
  shows "\<exists>p. s = p @ r \<and> (\<forall>t. stop t \<longrightarrow> fraction (p @ t) = Some t)"
proof (cases "starts (\<lambda>c. c = CHR ''.'') s")
  case True
  then obtain s1 where s1: "s = CHR ''.'' # s1" by (cases s) auto
  have d: "starts is_digit_char s1" "exponent (dropWhile is_digit_char s1) = Some r"
    using assms s1 by (auto simp: fraction_def split: if_splits)
  then obtain p where p: "dropWhile is_digit_char s1 = p @ r" "\<And>t. stop t \<Longrightarrow> exponent (p @ t) = Some t"
    using exponent_ctx by blast
  obtain q where q: "s1 = q @ p @ r" "list_all is_digit_char q"
      "\<And>t. \<not> starts is_digit_char t \<Longrightarrow> dropWhile is_digit_char (q @ p @ t) = p @ t"
    using dropWhile_ctx [OF p(1)] by blast
  have "q \<noteq> []"
    using drop_starts_len [OF d(1)] p(1) q(1) by auto
  then have "starts is_digit_char (q @ u)" for u using q(2) by (cases q) auto
  then have "fraction ((CHR ''.'' # q @ p) @ t) = Some t" if "stop t" for t
    using q(3) [of t] p(2) [of t] that by (simp add: fraction_def)
  then show ?thesis using s1 q by (intro exI [of _ "CHR ''.'' # q @ p"]) simp
next
  case False
  then obtain p where p: "s = p @ r" "\<And>t. stop t \<Longrightarrow> exponent (p @ t) = Some t"
    using assms exponent_ctx by (auto simp: fraction_def)
  then have "\<not> starts (\<lambda>c. c = CHR ''.'') (p @ t)" if "stop t" for t
    using False that by (cases p) auto
  then show ?thesis using p by (auto simp: fraction_def)
qed

lemma jnum_ctx:
  assumes "jnum s = Some r"
  shows "\<exists>p. s = p @ r \<and> (\<forall>t. stop t \<longrightarrow> jnum (p @ t) = Some t)"
proof -
  define neg where "neg = (if starts (\<lambda>c. c = CHR ''-'') s then ''-'' else [])"
  define m where "m = (if starts (\<lambda>c. c = CHR ''-'') s then tl s else s)"
  have sm: "s = neg @ m" by (cases s) (auto simp: neg_def m_def)
  have dig: "is_digit_char x \<Longrightarrow> x \<noteq> CHR ''-''" for x by (auto simp: is_digit_char_def code_of_def)
  consider (zero) f where "m = CHR ''0'' # f" "fraction f = Some r"
    | (digits) "\<not> starts (\<lambda>c. c = CHR ''0'') m" "starts is_digit_char m"
        "fraction (dropWhile is_digit_char m) = Some r"
    using assms by (cases m) (auto simp: jnum_def m_def [symmetric] Let_def split: if_splits)
  then show ?thesis
  proof cases
    case zero
    then obtain p where "f = p @ r" "\<And>t. stop t \<Longrightarrow> fraction (p @ t) = Some t" using fraction_ctx by blast
    then show ?thesis using sm zero
      by (intro exI [of _ "neg @ CHR ''0'' # p"]) (auto simp: jnum_def neg_def)
  next
    case digits
    then obtain p where p: "dropWhile is_digit_char m = p @ r" "\<And>t. stop t \<Longrightarrow> fraction (p @ t) = Some t"
      using fraction_ctx by blast
    obtain q where q: "m = q @ p @ r" "list_all is_digit_char q"
        "\<And>t. \<not> starts is_digit_char t \<Longrightarrow> dropWhile is_digit_char (q @ p @ t) = p @ t"
      using dropWhile_ctx [OF p(1)] by blast
    have "q \<noteq> []" using drop_starts_len [OF digits(2)] p(1) q(1) by auto
    then obtain c q' where c: "q = c # q'" "is_digit_char c" using q(2) by (cases q) auto
    then have "c \<noteq> CHR ''0''" "c \<noteq> CHR ''-''" using digits(1) q(1) dig by auto
    then have "jnum ((neg @ q @ p) @ t) = Some t" if "stop t" for t
      using q(3) [of t] p(2) [of t] that c by (simp add: jnum_def neg_def)
    then show ?thesis using sm q by (intro exI [of _ "neg @ q @ p"]) simp
  qed
qed

lemma ws_ctx:
  assumes "skip_ws s = p @ r" and "p \<noteq> []"
  shows "\<exists>q. s = q @ p @ r \<and> (\<forall>t. skip_ws (q @ p @ t) = p @ t)"
proof -
  obtain q where q: "s = q @ p @ r" "list_all json_ws q"
    using dropWhile_ctx [of json_ws s p r] assms(1) by (auto simp: skip_ws_def)
  have "\<not> json_ws (hd p)"
    using assms hd_dropWhile [of json_ws s] by (simp add: skip_ws_def)
  then have "skip_ws (q @ p @ t) = p @ t" for t
    using q(2) assms(2) by (cases p) (auto simp: skip_ws_def list_all_iff dropWhile_append2)
  then show ?thesis using q by blast
qed

lemma ws_starts_ctx:
  assumes "starts P (skip_ws s)"
  shows "\<exists>q. s = q @ tl (skip_ws s) \<and> q \<noteq> [] \<and> starts (\<lambda>c. json_ws c \<or> P c) q
    \<and> (\<forall>t. skip_ws (q @ t) = hd (skip_ws s) # t)"
proof -
  obtain c r where c: "skip_ws s = [c] @ r" using assms by (cases "skip_ws s") auto
  then obtain q where q: "s = q @ [c] @ r" "\<And>t. skip_ws (q @ [c] @ t) = [c] @ t" using ws_ctx by blast
  have "starts (\<lambda>c. json_ws c \<or> P c) (q @ [c])"
  proof (cases q)
    case (Cons a q')
    then show ?thesis using q(1) c by (cases "json_ws a") (auto simp: skip_ws_def)
  qed (use assms c in simp)
  then show ?thesis using q c by (intro exI [of _ "q @ [c]"]) simp
qed

lemma jnum_starts: "jnum s = Some r \<Longrightarrow> starts (\<lambda>c. is_digit_char c \<or> c = CHR ''-'') s"
  by (cases s) (auto simp: jnum_def Let_def is_digit_char_def code_of_def split: if_splits)

lemma jvalue_number_ctx:
  assumes "jnum s = Some r"
  shows "\<exists>p. p \<noteq> [] \<and> s = p @ r \<and> (\<forall>t. stop t \<longrightarrow> jvalue d (p @ t) = Some (JNum p, t))"
proof -
  obtain p where p: "s = p @ r" "\<And>t. stop t \<Longrightarrow> jnum (p @ t) = Some t" using jnum_ctx [OF assms] by blast
  obtain c p' where c: "p = c # p'" using jnum_len [OF assms] p(1) by (cases p) auto
  have "is_digit_char c \<or> c = CHR ''-''" using jnum_starts [OF assms] p(1) c by simp
  then have "c \<noteq> CHR ''{'' \<and> c \<noteq> CHR ''['' \<and> c \<noteq> dq \<and> c \<noteq> CHR ''t'' \<and> c \<noteq> CHR ''f'' \<and> c \<noteq> CHR ''n''"
    by (auto simp: is_digit_char_def code_of_def)
  then have "jvalue d (p @ t) = Some (JNum p, t)" if "stop t" for t
    using p(2) [OF that] c by (simp add: jvalue.simps)
  then show ?thesis using p c by blast
qed

lemma jvalue_literal:
  "jvalue d (''true'' @ t) = Some (JBool True, t)"
  "jvalue d (''false'' @ t) = Some (JBool False, t)"
  "jvalue d (''null'' @ t) = Some (JNull, t)"
  by (simp_all add: jvalue.simps)

lemma jvalue_literal_ctx:
  assumes "has_prefix s w" and "w \<in> {''true'', ''false'', ''null''}" and "jvalue d s = Some (v, r)"
  shows "s = w @ r \<and> (\<forall>t. jvalue d (w @ t) = Some (v, t))"
proof -
  obtain t where t: "s = w @ t" using assms(1) has_prefix_iff by blast
  obtain x where "\<And>t. jvalue d (w @ t) = Some (x, t)" using assms(2) jvalue_literal by blast
  then show ?thesis using t assms(3) by simp
qed

lemma stop_append: "starts (\<lambda>c. json_ws c \<or> c = x) q \<Longrightarrow> x = CHR '','' \<or> x = CHR ''}'' \<or> x = CHR '']'' \<Longrightarrow> stop (q @ t)"
  by (cases q) (auto simp: stop_def)

abbreviation member_head where
  "member_head d s k v raw r \<equiv>
     (\<exists>s1 r1 r2 r3. s = dq # s1 \<and> jchars s1 = Some (k, r1) \<and> skip_ws r1 = CHR '':'' # r2 \<and> r3 = skip_ws r2
        \<and> jvalue d r3 = Some (v, r) \<and> raw = take (length r3 - length r) r3)"

lemma jmembers_elim:
  assumes "jmembers d s = Some (ms, r)"
  obtains k v raw r4 where "member_head d s k v raw r4" "starts (\<lambda>c. c = CHR ''}'') (skip_ws r4)"
      "r = tl (skip_ws r4)" "ms = [(k, v, raw)]"
  | k v raw r4 ms' where "member_head d s k v raw r4" "starts (\<lambda>c. c = CHR '','') (skip_ws r4)"
      "jmembers d (skip_ws (tl (skip_ws r4))) = Some (ms', r)" "ms = (k, v, raw) # ms'"
proof -
  note u = assms [unfolded jmembers.simps [of d s]]
  obtain s1 k r1 where s1: "s = dq # s1" "jchars s1 = Some (k, r1)"
    using u by (cases s) (auto split: if_splits option.splits)
  obtain r2 where r2: "skip_ws r1 = CHR '':'' # r2"
    using u s1 by (cases "skip_ws r1") (auto simp: Let_def split: if_splits)
  obtain v r4 where v: "jvalue d (skip_ws r2) = Some (v, r4)"
    using u s1 r2 by (auto simp: Let_def split: if_splits option.splits)
  let ?raw = "take (length (skip_ws r2) - length r4) (skip_ws r2)"
  have h: "member_head d s k v ?raw r4" using s1 r2 v by blast
  show thesis
  proof (cases "starts (\<lambda>c. c = CHR ''}'') (skip_ws r4)")
    case True
    then show thesis using u s1 r2 v
      by (intro that(1) [OF h]) (auto simp: Let_def)
  next
    case False
    then show thesis using u s1 r2 v h
      by (auto simp: Let_def split: if_splits intro!: that(2) [OF h])
  qed
qed

lemma member_head_ctx:
  assumes "member_head d s k v raw r"
    and ih: "\<And>s'. length s' < length s \<Longrightarrow> jvalue d s' = Some (v, r) \<Longrightarrow>
      \<exists>p. p \<noteq> [] \<and> s' = p @ r \<and> (\<forall>t. stop t \<longrightarrow> jvalue d (p @ t) = Some (v, t))"
  shows "\<exists>p. p \<noteq> [] \<and> s = p @ r \<and> (\<forall>t. stop t \<longrightarrow> member_head d (p @ t) k v raw t)"
proof -
  obtain s1 r1 r2 where h: "s = dq # s1" "jchars s1 = Some (k, r1)" "skip_ws r1 = CHR '':'' # r2"
      "jvalue d (skip_ws r2) = Some (v, r)" "raw = take (length (skip_ws r2) - length r) (skip_ws r2)"
    using assms(1) by blast
  obtain p1 where p1: "s1 = p1 @ r1" "\<And>t. jchars (p1 @ t) = Some (k, t)" using jchars_ctx [OF h(2)] by blast
  obtain q1 where q1: "r1 = q1 @ r2" "\<And>t. skip_ws (q1 @ t) = CHR '':'' # t"
    using ws_starts_ctx [of "\<lambda>c. c = CHR '':''" r1] h(3) by auto
  have "length (skip_ws r2) < length s"
    using skip_ws_len [of r2] p1(1) q1(1) h(1) by simp
  then obtain p3 where p3: "p3 \<noteq> []" "skip_ws r2 = p3 @ r" "\<And>t. stop t \<Longrightarrow> jvalue d (p3 @ t) = Some (v, t)"
    using ih h(4) by blast
  obtain q2 where q2: "r2 = q2 @ p3 @ r" "\<And>t. skip_ws (q2 @ p3 @ t) = p3 @ t"
    using ws_ctx [OF p3(2,1)] by blast
  have "raw = p3" using h(5) p3(2) by simp
  then have "member_head d ((dq # p1 @ q1 @ q2 @ p3) @ t) k v raw t" if "stop t" for t
    using p1(2) [of "q1 @ q2 @ p3 @ t"] q1(2) [of "q2 @ p3 @ t"] q2(2) [of t] p3(3) [OF that]
    by (intro exI [of _ "p1 @ q1 @ q2 @ p3 @ t"] exI [of _ "q1 @ q2 @ p3 @ t"] exI [of _ "q2 @ p3 @ t"]
        exI [of _ "p3 @ t"]) simp
  then show ?thesis using h(1) p1(1) q1(1) q2(1) by (intro exI [of _ "dq # p1 @ q1 @ q2 @ p3"]) simp
qed

definition value_ctx :: "int \<Rightarrow> string \<Rightarrow> bool" where
  "value_ctx d s \<longleftrightarrow> (\<forall>v r. jvalue d s = Some (v, r) \<longrightarrow>
     (\<exists>p. p \<noteq> [] \<and> s = p @ r \<and> (\<forall>t. stop t \<longrightarrow> jvalue d (p @ t) = Some (v, t))))"

definition members_ctx :: "int \<Rightarrow> string \<Rightarrow> bool" where
  "members_ctx d s \<longleftrightarrow> (\<forall>ms r. jmembers d s = Some (ms, r) \<longrightarrow>
     (\<exists>p. starts (\<lambda>c. c = dq) p \<and> s = p @ r \<and> (\<forall>t. jmembers d (p @ t) = Some (ms, t))))"

definition elems_ctx :: "int \<Rightarrow> string \<Rightarrow> bool" where
  "elems_ctx d s \<longleftrightarrow> (\<forall>vs r. jelems d s = Some (vs, r) \<longrightarrow>
     (\<exists>p. p \<noteq> [] \<and> s = p @ r \<and> (\<forall>t. jelems d (p @ t) = Some (vs, t))))"

lemma member_headD:
  "member_head d s k v raw r \<Longrightarrow> starts (\<lambda>c. c = CHR ''}'') (skip_ws r) \<Longrightarrow>
     jmembers d s = Some ([(k, v, raw)], tl (skip_ws r))"
  "member_head d s k v raw r \<Longrightarrow> starts (\<lambda>c. c = CHR '','') (skip_ws r) \<Longrightarrow>
     jmembers d (skip_ws (tl (skip_ws r))) = Some (ms, r') \<Longrightarrow> jmembers d s = Some ((k, v, raw) # ms, r')"
  by (auto simp: jmembers.simps [of d s] Let_def starts_def)

lemma members_ctxI:
  assumes val: "\<And>s'. length s' < length s \<Longrightarrow> value_ctx d s'"
    and mem: "\<And>s'. length s' < length s \<Longrightarrow> members_ctx d s'"
  shows "members_ctx d s"
  unfolding members_ctx_def
proof (intro allI impI)
  fix ms r assume a: "jmembers d s = Some (ms, r)"
  show "\<exists>p. starts (\<lambda>c. c = dq) p \<and> s = p @ r \<and> (\<forall>t. jmembers d (p @ t) = Some (ms, t))"
    using a
  proof (cases rule: jmembers_elim)
    case (1 k v raw r4)
    obtain p where p: "p \<noteq> []" "s = p @ r4" "\<And>t. stop t \<Longrightarrow> member_head d (p @ t) k v raw t"
      using member_head_ctx [OF 1(1)] val unfolding value_ctx_def by metis
    obtain q where q: "r4 = q @ r" "starts (\<lambda>c. json_ws c \<or> c = CHR ''}'') q"
        "\<And>t. skip_ws (q @ t) = CHR ''}'' # t"
      using ws_starts_ctx [OF 1(2)] 1 by (auto simp: starts_def)
    have "jmembers d ((p @ q) @ t) = Some (ms, t)" for t
      using member_headD(1) [OF p(3) [of "q @ t"]] stop_append [OF q(2)] q(3) 1(4) by simp
    moreover have "starts (\<lambda>c. c = dq) (p @ q)"
      using 1(1) p(1,2) by (auto simp: starts_append) (cases p; auto)
    ultimately show ?thesis using p q by (intro exI [of _ "p @ q"]) simp
  next
    case (2 k v raw r4 ms')
    obtain p where p: "p \<noteq> []" "s = p @ r4" "\<And>t. stop t \<Longrightarrow> member_head d (p @ t) k v raw t"
      using member_head_ctx [OF 2(1)] val unfolding value_ctx_def by metis
    obtain q where q: "r4 = q @ tl (skip_ws r4)" "q \<noteq> []" "starts (\<lambda>c. json_ws c \<or> c = CHR '','') q"
        "\<And>t. skip_ws (q @ t) = CHR '','' # t"
      using ws_starts_ctx [OF 2(2)] 2(2) by (auto simp: starts_def)
    have "length (skip_ws (tl (skip_ws r4))) < length s"
      using json_steps_len(3) [of r4] p(1,2) by (cases p) auto
    then obtain p2 where p2: "starts (\<lambda>c. c = dq) p2" "skip_ws (tl (skip_ws r4)) = p2 @ r"
        "\<And>t. jmembers d (p2 @ t) = Some (ms', t)"
      using mem 2(3) unfolding members_ctx_def by metis
    have "p2 \<noteq> []" using p2(1) by auto
    then obtain q2 where q2: "tl (skip_ws r4) = q2 @ p2 @ r" "\<And>t. skip_ws (q2 @ p2 @ t) = p2 @ t"
      using ws_ctx [OF p2(2)] by blast
    have "jmembers d ((p @ q @ q2 @ p2) @ t) = Some (ms, t)" for t
      using member_headD(2) [OF p(3) [of "q @ q2 @ p2 @ t"]] stop_append [OF q(3)] q(4) q2(2) p2(3) 2(4) by simp
    moreover have "starts (\<lambda>c. c = dq) (p @ q @ q2 @ p2)"
      using 2(1) p(1,2) by (auto simp: starts_append) (cases p; auto)
    ultimately show ?thesis using p q(1) q2 by (intro exI [of _ "p @ q @ q2 @ p2"]) simp
  qed
qed

lemma elems_ctxI:
  assumes val: "value_ctx d s"
    and el: "\<And>s'. length s' < length s \<Longrightarrow> elems_ctx d s'"
  shows "elems_ctx d s"
  unfolding elems_ctx_def
proof (intro allI impI)
  fix vs r assume a: "jelems d s = Some (vs, r)"
  obtain v r4 where v: "jvalue d s = Some (v, r4)"
    using a by (auto simp: jelems.simps [of d s] split: option.splits)
  obtain p where p: "p \<noteq> []" "s = p @ r4" "\<And>t. stop t \<Longrightarrow> jvalue d (p @ t) = Some (v, t)"
    using val v unfolding value_ctx_def by blast
  show "\<exists>p. p \<noteq> [] \<and> s = p @ r \<and> (\<forall>t. jelems d (p @ t) = Some (vs, t))"
  proof (cases "starts (\<lambda>c. c = CHR '']'') (skip_ws r4)")
    case True
    obtain q where q: "r4 = q @ tl (skip_ws r4)" "starts (\<lambda>c. json_ws c \<or> c = CHR '']'') q"
        "\<And>t. skip_ws (q @ t) = CHR '']'' # t"
      using ws_starts_ctx [OF True] True by (auto simp: starts_def)
    have r: "r = tl (skip_ws r4)" "vs = [v]" using a v True by (auto simp: jelems.simps [of d s] Let_def)
    have "jelems d ((p @ q) @ t) = Some (vs, t)" for t
      using p(3) [of "q @ t"] stop_append [OF q(2)] q(3) r(2) by (simp add: jelems.simps [of d "p @ q @ t"])
    then show ?thesis using p q r by (intro exI [of _ "p @ q"]) simp
  next
    case False
    then obtain vs' where c: "starts (\<lambda>c. c = CHR '','') (skip_ws r4)"
        "jelems d (skip_ws (tl (skip_ws r4))) = Some (vs', r)" "vs = v # vs'"
      using a v by (auto simp: jelems.simps [of d s] Let_def split: if_splits)
    obtain q where q: "r4 = q @ tl (skip_ws r4)" "starts (\<lambda>c. json_ws c \<or> c = CHR '','') q"
        "\<And>t. skip_ws (q @ t) = CHR '','' # t"
      using ws_starts_ctx [OF c(1)] c(1) by (auto simp: starts_def)
    have "length (skip_ws (tl (skip_ws r4))) < length s"
      using json_steps_len(3) [of r4] p(1,2) by (cases p) auto
    then obtain p2 where p2: "p2 \<noteq> []" "skip_ws (tl (skip_ws r4)) = p2 @ r"
        "\<And>t. jelems d (p2 @ t) = Some (vs', t)"
      using el c(2) unfolding elems_ctx_def by metis
    obtain q2 where q2: "tl (skip_ws r4) = q2 @ p2 @ r" "\<And>t. skip_ws (q2 @ p2 @ t) = p2 @ t"
      using ws_ctx [OF p2(2,1)] by blast
    have "jelems d ((p @ q @ q2 @ p2) @ t) = Some (vs, t)" for t
      using p(3) [of "q @ q2 @ p2 @ t"] stop_append [OF q(2)] q(3) q2(2) p2(3) c(3)
      by (simp add: jelems.simps [of d "p @ q @ q2 @ p2 @ t"])
    then show ?thesis using p q(1) q2 by (intro exI [of _ "p @ q @ q2 @ p2"]) simp
  qed
qed


lemma open_close_ctx:
  assumes "starts (\<lambda>c. c = x) (skip_ws s1)"
  shows "\<exists>q. s1 = q @ tl (skip_ws s1) \<and> (\<forall>t. skip_ws (q @ t) = x # t)"
  using ws_starts_ctx [OF assms] assms by (auto simp: starts_def)

lemma value_ctxI:
  assumes mem: "\<And>s'. length s' < length s \<Longrightarrow> members_ctx (d - 1) s'"
    and el: "\<And>s'. length s' < length s \<Longrightarrow> elems_ctx (d - 1) s'"
  shows "value_ctx d s"
  unfolding value_ctx_def
proof (intro allI impI)
  fix v r assume a: "jvalue d s = Some (v, r)"
  note u = a [unfolded jvalue.simps [of d s]]
  show "\<exists>p. p \<noteq> [] \<and> s = p @ r \<and> (\<forall>t. stop t \<longrightarrow> jvalue d (p @ t) = Some (v, t))"
  proof (cases s)
    case Nil
    then show ?thesis using a jnum_starts [of "[]"] by (auto simp: jvalue.simps)
  next
    case (Cons c s1)
    have len: "length (skip_ws s1) < length s" using skip_ws_len [of s1] Cons by simp
    have st: "starts P s \<longleftrightarrow> P c" for P using Cons by simp
    have "jnum s = Some r \<and> v = JNum (take (length s - length r) s)"
      if "c \<noteq> CHR ''{''" "c \<noteq> CHR ''[''" "c \<noteq> dq" "\<not> has_prefix s ''true''" "\<not> has_prefix s ''false''"
        "\<not> has_prefix s ''null''"
      using u that by (auto simp: st)
    then consider (obj) "c = CHR ''{''" | (arr) "c = CHR ''[''" | (str) "c = dq"
      | (lit) w where "w \<in> {''true'', ''false'', ''null''}" "has_prefix s w"
      | (num) "jnum s = Some r" "v = JNum (take (length s - length r) s)"
      by blast
    then show ?thesis
    proof cases
      case obj
      note v = u [unfolded Cons obj, simplified]
      show ?thesis
      proof (cases "starts (\<lambda>c. c = CHR ''}'') (skip_ws s1)")
        case True
        obtain q where "s1 = q @ tl (skip_ws s1)" "\<And>t. skip_ws (q @ t) = CHR ''}'' # t"
          using open_close_ctx [OF True] by blast
        then show ?thesis using v True Cons obj
          by (intro exI [of _ "c # q"]) (auto simp: jvalue.simps Let_def split: if_splits)
      next
        case False
        then obtain ms where ms: "jmembers (d - 1) (skip_ws s1) = Some (ms, r)" "v = JObj ms" "\<not> d \<le> 0"
          using v by (auto simp: Let_def split: if_splits)
        then obtain p where p: "starts (\<lambda>c. c = dq) p" "skip_ws s1 = p @ r"
            "\<And>t. jmembers (d - 1) (p @ t) = Some (ms, t)"
          using mem len unfolding members_ctx_def by metis
        then obtain q where "s1 = q @ p @ r" "\<And>t. skip_ws (q @ p @ t) = p @ t"
          using ws_ctx [OF p(2)] by fastforce
        then show ?thesis using ms p Cons obj
          by (intro exI [of _ "c # q @ p"]) (auto simp: jvalue.simps Let_def starts_append starts_def)
      qed
    next
      case arr
      note v = u [unfolded Cons arr, simplified]
      show ?thesis
      proof (cases "starts (\<lambda>c. c = CHR '']'') (skip_ws s1)")
        case True
        obtain q where "s1 = q @ tl (skip_ws s1)" "\<And>t. skip_ws (q @ t) = CHR '']'' # t"
          using open_close_ctx [OF True] by blast
        then show ?thesis using v True Cons arr
          by (intro exI [of _ "c # q"]) (auto simp: jvalue.simps Let_def split: if_splits)
      next
        case False
        then obtain ms where ms: "jelems (d - 1) (skip_ws s1) = Some (ms, r)" "v = JArr ms" "\<not> d \<le> 0"
          using v by (auto simp: Let_def split: if_splits)
        then obtain p where p: "p \<noteq> []" "skip_ws s1 = p @ r"
            "\<And>t. jelems (d - 1) (p @ t) = Some (ms, t)"
          using el len unfolding elems_ctx_def by metis
        moreover obtain q where "s1 = q @ p @ r" "\<And>t. skip_ws (q @ p @ t) = p @ t"
          using ws_ctx [OF p(2,1)] by blast
        ultimately show ?thesis using ms p Cons arr False
          by (intro exI [of _ "c # q @ p"]) (auto simp: jvalue.simps Let_def starts_append)
      qed
    next
      case str
      then obtain x where x: "jchars s1 = Some (x, r)" "v = JStr x"
        using u Cons by auto
      then obtain p where "s1 = p @ r" "\<And>t. jchars (p @ t) = Some (x, t)" using jchars_ctx by blast
      then show ?thesis using x Cons str by (intro exI [of _ "c # p"]) (auto simp: jvalue.simps)
    next
      case lit
      then show ?thesis using jvalue_literal_ctx [OF lit(2,1) a] by (intro exI [of _ w]) auto
    next
      case num
      obtain p where p: "p \<noteq> []" "s = p @ r" "\<And>t. stop t \<Longrightarrow> jvalue d (p @ t) = Some (JNum p, t)"
        using jvalue_number_ctx [OF num(1)] by blast
      then show ?thesis using num(2) by auto
    qed
  qed
qed

lemma json_ctx: "value_ctx d s \<and> members_ctx d s \<and> elems_ctx d s"
proof (induction "length s" arbitrary: d s rule: less_induct)
  case less
  have v: "value_ctx d s" by (rule value_ctxI) (use less in blast)+
  moreover have "members_ctx d s" by (rule members_ctxI) (use less in blast)+
  moreover have "elems_ctx d s" by (rule elems_ctxI [OF v]) (use less in blast)
  ultimately show ?case by blast
qed

lemma jvalue_len: "jvalue d s = Some (v, r) \<Longrightarrow> length r < length s"
  using json_ctx [of d s] unfolding value_ctx_def by fastforce

lemma jvalue_ctx:
  "jvalue d s = Some (v, r) \<Longrightarrow>
     \<exists>p. p \<noteq> [] \<and> s = p @ r \<and> (\<forall>t. stop t \<longrightarrow> jvalue d (p @ t) = Some (v, t))"
  using json_ctx [of d s] unfolding value_ctx_def by blast

section \<open>Decoding into structs\<close>

text \<open>
  Object keys are matched to field names up to case (ASCII), the last match wins, \<open>null\<close> leaves a string
  field as it is and any other value that is not a string is an error. A raw field keeps the text of the value.
  Decoding into a struct accepts an object or \<open>null\<close>.
\<close>

definition key_matches :: "string \<Rightarrow> string \<Rightarrow> bool" where
  "key_matches name k \<longleftrightarrow> to_lower k = to_lower name"

fun str_field :: "string \<Rightarrow> string \<Rightarrow> (string \<times> json \<times> string) list \<Rightarrow> string option" where
  "str_field name cur [] = Some cur"
| "str_field name cur ((k, v, raw) # ms) =
     (if key_matches name k then
        (case v of
           JStr s \<Rightarrow> str_field name s ms
         | JNull \<Rightarrow> str_field name cur ms
         | _ \<Rightarrow> None)
      else str_field name cur ms)"

fun raw_field :: "string \<Rightarrow> string \<Rightarrow> (string \<times> json \<times> string) list \<Rightarrow> string" where
  "raw_field name cur [] = cur"
| "raw_field name cur ((k, v, raw) # ms) =
     (if key_matches name k then raw_field name raw ms else raw_field name cur ms)"

fun obj_members :: "json \<Rightarrow> (string \<times> json \<times> string) list option" where
  "obj_members (JObj ms) = Some ms"
| "obj_members JNull = Some []"
| "obj_members _ = None"

definition unmarshal_members :: "string \<Rightarrow> (string \<times> json \<times> string) list option" where
  "unmarshal_members s = Option.bind (parse_json s) obj_members"

text \<open>\<open>json.Unmarshal\<close> into a \<open>string\<close>.\<close>

definition unmarshal_string :: "string \<Rightarrow> string option" where
  "unmarshal_string s =
     (case parse_json s of
        Some (JStr x) \<Rightarrow> Some x
      | Some JNull \<Rightarrow> Some ''''
      | _ \<Rightarrow> None)"

section \<open>Encoding\<close>

text \<open>The string encoder of \<open>json.Marshal\<close>, with \<open><\<close>, \<open>>\<close> and \<open>&\<close> escaped for HTML.\<close>

definition hex_digit :: "nat \<Rightarrow> char" where
  "hex_digit n = char_of (if n < 10 then 48 + n else 87 + n)"

definition json_escape :: "char \<Rightarrow> string" where
  "json_escape c =
     (if c = dq \<or> c = bsl then [bsl, c]
      else if c = CHR 0x08 then [bsl, CHR ''b'']
      else if c = CHR 0x0C then [bsl, CHR ''f'']
      else if c = nl then [bsl, CHR ''n'']
      else if c = cr then [bsl, CHR ''r'']
      else if c = tab then [bsl, CHR ''t'']
      else if code_of c < 32 \<or> c = CHR ''<'' \<or> c = CHR ''>'' \<or> c = CHR ''&'' then
        [bsl, CHR ''u'', CHR ''0'', CHR ''0'', hex_digit (code_of c div 16), hex_digit (code_of c mod 16)]
      else [c])"

definition json_quote :: "string \<Rightarrow> string" where
  "json_quote s = dq # concat (map json_escape s) @ [dq]"

text \<open>\<open>json.Compact\<close> with HTML escaping, applied to raw messages: the flags are inside a string, after a backslash.\<close>

fun compact :: "bool \<Rightarrow> bool \<Rightarrow> string \<Rightarrow> string" where
  "compact ins esc [] = []"
| "compact ins esc (c # cs) =
     (if c = CHR ''<'' \<or> c = CHR ''>'' \<or> c = CHR ''&'' then json_escape c @ compact ins False cs
      else if \<not> ins \<and> json_ws c then compact ins False cs
      else c # compact (if c = dq \<and> \<not> esc then \<not> ins else ins) (ins \<and> c = bsl \<and> \<not> esc) cs)"

lemma hex_val_digit: "n < 16 \<Longrightarrow> hex_val (hex_digit n) = Some n"
  by (auto simp: hex_val_def hex_digit_def is_digit_char_def code_of_def)

lemma utf8_ascii: "code_of c < 128 \<Longrightarrow> utf8 (code_of c) = [c]"
  by (simp add: utf8_def code_of_def)

lemma hex_digit_0: "hex_digit 0 = CHR ''0''"
  by code_simp

lemma hex4_digits:
  "a < 16 \<Longrightarrow> b < 16 \<Longrightarrow> hex4 (CHR ''0'' # CHR ''0'' # hex_digit a # hex_digit b # t) = Some (16 * a + b, t)"
  using hex_val_digit [of a] hex_val_digit [of b] hex_val_digit [of 0]
  by (simp add: hex_digit_0)

lemma hex4_escape:
  assumes "code_of c < 256"
  shows "hex4 (CHR ''0'' # CHR ''0'' # hex_digit (code_of c div 16) # hex_digit (code_of c mod 16) # t)
     = Some (code_of c, t)"
  using hex4_digits [of "code_of c div 16" "code_of c mod 16" t] assms by simp

lemma jchars_escape_short:
  "c \<in> {dq, bsl, CHR 0x08, CHR 0x0C, nl, cr, tab} \<Longrightarrow> \<exists>e. json_escape c = [bsl, e] \<and> e \<noteq> CHR ''u'' \<and> simple_escape e = Some c"
  by (elim insertE; simp add: json_escape_def simple_escape_def)

lemma jchars_escape: "jchars (json_escape c @ t) = map_option (apfst (Cons c)) (jchars t)"
proof -
  consider (short) e where "json_escape c = [bsl, e]" "e \<noteq> CHR ''u''" "simple_escape e = Some c"
    | (long) "json_escape c = [bsl, CHR ''u'', CHR ''0'', CHR ''0'', hex_digit (code_of c div 16), hex_digit (code_of c mod 16)]"
        "code_of c < 64"
    | (plain) "json_escape c = [c]" "\<not> code_of c < 32" "c \<noteq> dq" "c \<noteq> bsl"
  proof (cases "c \<in> {dq, bsl, CHR 0x08, CHR 0x0C, nl, cr, tab}")
    case True
    then show ?thesis using jchars_escape_short that(1) by blast
  next
    case False
    then have e: "json_escape c = (if code_of c < 32 \<or> c = CHR ''<'' \<or> c = CHR ''>'' \<or> c = CHR ''&'' then
        [bsl, CHR ''u'', CHR ''0'', CHR ''0'', hex_digit (code_of c div 16), hex_digit (code_of c mod 16)] else [c])"
      by (simp add: json_escape_def)
    show ?thesis
    proof (cases "code_of c < 32 \<or> c = CHR ''<'' \<or> c = CHR ''>'' \<or> c = CHR ''&''")
      case True
      then have "code_of c < 64" by (elim disjE) (simp_all add: code_of_def)
      then show ?thesis using that(2) e True by presburger
    next
      case noesc: False
      have "c \<noteq> dq" "c \<noteq> bsl" using False by blast+
      then show ?thesis using that(3) e noesc by presburger
    qed
  qed
  then show ?thesis
  proof cases
    case short
    then show ?thesis by simp
  next
    case long
    then have "unicode_escape (CHR ''0'' # CHR ''0'' # hex_digit (code_of c div 16) #
        hex_digit (code_of c mod 16) # t) = Some ([c], t)"
      using hex4_escape [of c t] utf8_ascii [of c] by (simp add: unicode_escape_def)
    moreover have "(@) [c] = Cons c" by auto
    ultimately show ?thesis using long by simp
  next
    case plain
    then show ?thesis by simp
  qed
qed

lemma jchars_quote: "jchars (concat (map json_escape s) @ dq # t) = Some (s, t)"
  by (induction s) (simp_all add: jchars_escape)

lemma jvalue_quote: "jvalue d (json_quote s @ t) = Some (JStr s, t)"
  using jchars_quote [of s t] by (simp add: json_quote_def jvalue.simps)

lemma unmarshal_quote: "unmarshal_string (json_quote s) = Some s"
proof -
  have "skip_ws (json_quote s) = json_quote s @ []" by (simp add: json_quote_def skip_ws_def json_ws_def)
  then have "parse_json (json_quote s) = Some (JStr s)"
    using jvalue_quote [of 10000 s "[]"] by (simp add: parse_json_def skip_ws_def)
  then show ?thesis by (simp add: unmarshal_string_def)
qed

section \<open>Reading members back\<close>

text \<open>The raw text of a member, put in front of anything that can follow a member, is read as the same value.\<close>

definition raw_of :: "int \<Rightarrow> string \<times> json \<times> string \<Rightarrow> bool" where
  "raw_of d m = (case m of (k, v, raw) \<Rightarrow> raw \<noteq> [] \<and> (\<forall>t. stop t \<longrightarrow> jvalue d (raw @ t) = Some (v, t)))"

lemma member_head_raw:
  assumes "member_head d s k v raw r"
  shows "raw_of d (k, v, raw) \<and> length r < length s"
proof -
  obtain s1 r1 r2 where h: "s = dq # s1" "jchars s1 = Some (k, r1)" "skip_ws r1 = CHR '':'' # r2"
      "jvalue d (skip_ws r2) = Some (v, r)" "raw = take (length (skip_ws r2) - length r) (skip_ws r2)"
    using assms by blast
  obtain p where p: "p \<noteq> []" "skip_ws r2 = p @ r" "\<forall>t. stop t \<longrightarrow> jvalue d (p @ t) = Some (v, t)"
    using jvalue_ctx [OF h(4)] by blast
  have "raw = p" using h(5) p(2) by simp
  moreover have "length r < length s"
    using jvalue_len [OF h(4)] skip_ws_len [of r2] skip_ws_Cons_len [OF h(3)] jchars_len [OF h(2)] h(1) by simp
  ultimately show ?thesis using p by (simp add: raw_of_def)
qed

lemma jmembers_raw: "jmembers d s = Some (ms, r) \<Longrightarrow> list_all (raw_of d) ms"
proof (induction "length s" arbitrary: s ms r rule: less_induct)
  case less
  from less.prems show ?case
  proof (cases rule: jmembers_elim)
    case (1 k v raw r4)
    then show ?thesis using member_head_raw by auto
  next
    case (2 k v raw r4 ms')
    have h: "raw_of d (k, v, raw)" "length r4 < length s" using member_head_raw [OF 2(1)] by auto
    have "length (skip_ws (tl (skip_ws r4))) < length s" using json_steps_len(3) [of r4] h(2) by simp
    then show ?thesis using less.hyps [OF _ 2(3)] 2(4) h(1) by simp
  qed
qed

lemma jnum_ws: "json_ws c \<Longrightarrow> jnum (c # r) = None"
  unfolding json_ws_def by (elim disjE; hypsubst; simp add: jnum_def Let_def is_digit_char_def code_of_def)

lemma jvalue_ws: "json_ws c \<Longrightarrow> jvalue d (c # r) = None"
  using jnum_ws [of c r] unfolding json_ws_def by (elim disjE; hypsubst; subst jvalue.simps; simp)

lemma jvalue_skip_ws: "jvalue d s = Some x \<Longrightarrow> skip_ws s = s"
  using jvalue_ws by (cases s) (auto simp: skip_ws_def)

lemma unmarshal_members_raw:
  assumes "unmarshal_members s = Some ms"
  shows "list_all (raw_of 9999) ms"
proof -
  have obj: "list_all (raw_of 9999) ms" if "jvalue 10000 t = Some (JObj ms, r)" for t r
  proof (cases "starts (\<lambda>c. c = CHR ''}'') (skip_ws (tl t))")
    case True
    then show ?thesis using that [unfolded jvalue.simps [of 10000 t]]
      by (auto simp: Let_def split: if_splits)
  next
    case False
    then have "\<exists>r. jmembers 9999 (skip_ws (tl t)) = Some (ms, r)"
      using that [unfolded jvalue.simps [of 10000 t]] by (auto simp: Let_def split: if_splits)
    then show ?thesis using jmembers_raw by blast
  qed
  show ?thesis
    using assms obj by (auto simp: unmarshal_members_def parse_json_def split: option.splits prod.splits if_splits
        elim!: obj_members.elims)
qed

lemma raw_field_of: "list_all (raw_of d) ms \<Longrightarrow> raw_field name cur ms = cur \<or> (\<exists>k v. raw_of d (k, v, raw_field name cur ms))"
proof (induction ms arbitrary: cur)
  case (Cons m ms)
  obtain k v raw where "m = (k, v, raw)" by (cases m)
  then show ?case using Cons.IH [of raw] Cons.IH [of cur] Cons.prems by auto
qed simp

text \<open>Object texts built by concatenation.\<close>

definition quoted :: "string \<Rightarrow> string" where
  "quoted s = dq # s @ [dq]"

definition plain :: "string \<Rightarrow> bool" where
  "plain s \<longleftrightarrow> list_all (\<lambda>c. c \<noteq> dq \<and> c \<noteq> bsl \<and> 32 \<le> code_of c) s"

lemma jchars_plain: "plain s \<Longrightarrow> jchars (s @ dq # t) = Some (s, t)"
  by (induction s) (auto simp: plain_def)

lemma jvalue_quoted: "plain s \<Longrightarrow> jvalue d (quoted s @ t) = Some (JStr s, t)"
  by (simp add: quoted_def jvalue.simps jchars_plain)

lemma jmembers_cons:
  assumes "plain k" and "jvalue d (raw @ t) = Some (v, t)"
  shows "jmembers d (quoted k @ '':'' @ raw @ t) =
     (let m = (k, v, raw); r = skip_ws t in
      if starts (\<lambda>c. c = CHR ''}'') r then Some ([m], tl r)
      else if starts (\<lambda>c. c = CHR '','') r then map_option (apfst (Cons m)) (jmembers d (skip_ws (tl r)))
      else None)"
  using assms jvalue_skip_ws [OF assms(2)]
  by (subst jmembers.simps) (simp add: quoted_def jchars_plain skip_ws_def json_ws_def Let_def)

end
