(* ===== verification/Supervisor.thy ===== *)
theory Supervisor
  imports Go_Json
begin

text \<open>
  The supervisor of the MCP server (\<open>internal/supervisor/supervisor.go\<close>): it restarts the inner process, replays the
  \<open>initialize\<close> handshake to the new one, probes its liveness and filters its output.

  The record \<open>supervisor\<close> has the fields of the struct; \<open>world\<close> extends it with what the operations act on: the
  clock, the processes spawned so far (a process is its index), the bytes written to the client and the armed
  timers. Operations are functions of the state and of what the operating system answers (whether a write or a
  spawn succeeds, the time); goroutines are in theory \<open>Supervisor_Run\<close>. Durations and instants are nanoseconds.
  The nil \<open>cmd\<close> of test processes is not modelled.
\<close>

section \<open>Constants and message texts\<close>

definition probeIDPrefix :: string where
  "probeIDPrefix = ''__pincher_supervisor_probe_''"

definition initIDPrefix :: string where
  "initIDPrefix = ''__pincher_supervisor_init_''"

definition SupervisorStatusToolName :: string where
  "SupervisorStatusToolName = ''pincher.supervisor.status''"

definition defaultProbeTimeout :: int where "defaultProbeTimeout = 5000000000"
definition defaultMaxRestarts :: int where "defaultMaxRestarts = 5"
definition defaultRestartWindow :: int where "defaultRestartWindow = 60000000000"
definition defaultRespawnQuietWindow :: int where "defaultRespawnQuietWindow = 500000000"

definition default_to :: "int \<Rightarrow> int \<Rightarrow> int" where
  "default_to d x = (if x = 0 then d else x)"

text \<open>The verb \<open>%q\<close> on printable ASCII text.\<close>

definition fmt_q :: "string \<Rightarrow> string" where
  "fmt_q s = dq # concat (map (\<lambda>c. if c = dq \<or> c = bsl then [bsl, c] else [c]) s) @ [dq]"

definition rpc_head :: "string \<Rightarrow> string" where
  "rpc_head i = ''{'' @ quoted ''jsonrpc'' @ '':'' @ quoted ''2.0'' @ '','' @ quoted ''id'' @ '':'' @ fmt_q i @ '',''
     @ quoted ''method'' @ '':''"

definition probe_line :: "string \<Rightarrow> string" where
  "probe_line i = rpc_head i @ quoted ''tools/list'' @ '','' @ quoted ''params'' @ '':{}}'' @ [nl]"

definition init_replay_line :: "string \<Rightarrow> string \<Rightarrow> string" where
  "init_replay_line i params = rpc_head i @ quoted ''initialize'' @ '','' @ quoted ''params'' @ '':'' @ params @ ''}'' @ [nl]"

definition tools_list_changed :: string where
  "tools_list_changed = ''{'' @ quoted ''jsonrpc'' @ '':'' @ quoted ''2.0'' @ '','' @ quoted ''method'' @ '':''
     @ quoted ''notifications/tools/list_changed'' @ ''}'' @ [nl]"

section \<open>State\<close>

datatype sup_error =
    ErrInnerNil
  | ErrWrite
  | ErrSpawn string
  | ErrReplayInitialize
  | ErrReplayInitialized
  | ErrRespawn sup_error
  | ErrBreaker nat int
  | ErrReadStdin string
  | ErrContext

record probeState =
  ps_id :: string
  ps_sentAt :: int

record innerProc =
  pr_alive :: bool
  pr_stdin :: "string list"

record supervisor =
  ProbeTimeout :: int
  MaxRestarts :: int
  RestartWindow :: int
  RespawnQuietWindow :: int
  inner :: "nat option"
  initParams :: string
  initializedLine :: string
  initReplayCounter :: int
  respawnQuietUntil :: "int option"
  pendingProbe :: "probeState option"
  probeIDCounter :: int
  restartHistory :: "int list"
  Restarts :: int
  ProbesSent :: int
  ProbesAnswered :: int
  ProbesTimedOut :: int
  ToolsListChangedEmitted :: int
  ToolsListChangedEmitFailed :: int
  LastToolsListChangedEmitUnixNano :: int
  startedAt :: "int option"
  lastRestartReason :: string
  nextRestartReason :: string

record world = supervisor +
  clock :: int
  procs :: "innerProc list"
  Stdout :: "string list"
  timers :: "(probeState \<times> int) list"

definition fresh_proc :: innerProc where
  "fresh_proc = \<lparr>pr_alive = True, pr_stdin = []\<rparr>"

definition write_proc :: "nat \<Rightarrow> string \<Rightarrow> 'a world_scheme \<Rightarrow> 'a world_scheme" where
  "write_proc h line w = w\<lparr>procs := (procs w)[h := (procs w ! h)\<lparr>pr_stdin := pr_stdin (procs w ! h) @ [line]\<rparr>]\<rparr>"

definition kill_proc :: "nat \<Rightarrow> 'a world_scheme \<Rightarrow> 'a world_scheme" where
  "kill_proc h w = w\<lparr>procs := (procs w)[h := (procs w ! h)\<lparr>pr_alive := False\<rparr>]\<rparr>"

section \<open>Lines from the client\<close>

definition capture_head :: "string \<Rightarrow> (string \<times> string) option" where
  "capture_head line = Option.bind (unmarshal_members line) (\<lambda>ms.
     map_option (\<lambda>m. (m, raw_field ''params'' '''' ms)) (str_field ''method'' '''' ms))"

definition maybeCaptureInit :: "string \<Rightarrow> 'a world_scheme \<Rightarrow> 'a world_scheme" where
  "maybeCaptureInit line w =
     (case capture_head line of
        None \<Rightarrow> w
      | Some (method, params) \<Rightarrow>
          if method = ''initialize'' then w\<lparr>initParams := (if params = '''' then ''{}'' else params)\<rparr>
          else if method = ''notifications/initialized'' \<or> method = ''initialized'' then w\<lparr>initializedLine := line\<rparr>
          else w)"

text \<open>\<open>ok\<close> is whether the write to the pipe succeeds.\<close>

definition writeToInner :: "bool \<Rightarrow> string \<Rightarrow> 'a world_scheme \<Rightarrow> 'a world_scheme \<times> sup_error option" where
  "writeToInner ok line w =
     (case inner w of
        None \<Rightarrow> (w, Some ErrInnerNil)
      | Some h \<Rightarrow> if ok then (write_proc h line w, None) else (w, Some ErrWrite))"

section \<open>The status tool\<close>

record SupervisorStatus =
  st_Alive :: bool
  st_UptimeSec :: int
  st_Restarts :: int
  st_ProbesSent :: int
  st_ProbesAnswered :: int
  st_ProbesTimedOut :: int
  st_LastRestartReason :: string
  st_Emitted :: int
  st_EmitFailed :: int
  st_LastEmitAt :: string

text \<open>\<open>fmt\<close> is the rendering of an instant by \<open>time.Format(RFC3339Nano)\<close>.\<close>

definition Status :: "(int \<Rightarrow> string) \<Rightarrow> 'a world_scheme \<Rightarrow> SupervisorStatus" where
  "Status fmt w =
     \<lparr>st_Alive = (inner w \<noteq> None),
      st_UptimeSec = (case startedAt w of None \<Rightarrow> 0 | Some t \<Rightarrow> (clock w - t) div 1000000000),
      st_Restarts = Restarts w, st_ProbesSent = ProbesSent w, st_ProbesAnswered = ProbesAnswered w,
      st_ProbesTimedOut = ProbesTimedOut w, st_LastRestartReason = lastRestartReason w,
      st_Emitted = ToolsListChangedEmitted w, st_EmitFailed = ToolsListChangedEmitFailed w,
      st_LastEmitAt = (if LastToolsListChangedEmitUnixNano w > 0
                       then fmt (LastToolsListChangedEmitUnixNano w) else '''')\<rparr>"

definition json_member :: "string \<Rightarrow> string \<Rightarrow> string" where
  "json_member k v = nl # ''  '' @ quoted k @ '': '' @ v"

definition status_json :: "SupervisorStatus \<Rightarrow> string" where
  "status_json st = ''{'' @ str_join '',''
     ([json_member ''alive'' (if st_Alive st then ''true'' else ''false''),
       json_member ''uptime_sec'' (show_int (st_UptimeSec st)),
       json_member ''restarts'' (show_int (st_Restarts st)),
       json_member ''probes_sent'' (show_int (st_ProbesSent st)),
       json_member ''probes_answered'' (show_int (st_ProbesAnswered st)),
       json_member ''probes_timed_out'' (show_int (st_ProbesTimedOut st))]
      @ (if st_LastRestartReason st = '''' then []
         else [json_member ''last_restart_reason'' (json_quote (st_LastRestartReason st))])
      @ [json_member ''tools_list_changed_emitted'' (show_int (st_Emitted st))]
      @ (if st_EmitFailed st = 0 then []
         else [json_member ''tools_list_changed_emit_failed'' (show_int (st_EmitFailed st))])
      @ (if st_LastEmitAt st = '''' then []
         else [json_member ''last_tools_list_changed_emit_at'' (json_quote (st_LastEmitAt st))]))
     @ [nl] @ ''}''"

definition status_reply :: "string \<Rightarrow> string \<Rightarrow> string" where
  "status_reply rid text = ''{'' @ quoted ''id'' @ '':'' @ (if rid = '''' then ''null'' else compact False False rid)
     @ '','' @ quoted ''jsonrpc'' @ '':'' @ quoted ''2.0''
     @ '','' @ quoted ''result'' @ '':{'' @ quoted ''content'' @ '':[{'' @ quoted ''text'' @ '':'' @ json_quote text
     @ '','' @ quoted ''type'' @ '':'' @ quoted ''text'' @ ''}]}}'' @ [nl]"

text \<open>The nested struct \<open>params.name\<close>: every match of \<open>params\<close> is decoded into the same struct.\<close>

fun params_name :: "string \<Rightarrow> (string \<times> json \<times> string) list \<Rightarrow> string option" where
  "params_name cur [] = Some cur"
| "params_name cur ((k, v, raw) # ms) =
     (if key_matches ''params'' k then
        (case obj_members v of
           None \<Rightarrow> None
         | Some ps \<Rightarrow> Option.bind (str_field ''name'' cur ps) (\<lambda>n. params_name n ms))
      else params_name cur ms)"

definition status_call :: "string \<Rightarrow> string option" where
  "status_call line = Option.bind (unmarshal_members line) (\<lambda>ms.
     Option.bind (str_field ''method'' '''' ms) (\<lambda>m.
     Option.bind (params_name '''' ms) (\<lambda>n.
       if m = ''tools/call'' \<and> n = SupervisorStatusToolName then Some (raw_field ''id'' '''' ms) else None)))"

definition handleStatusToolCall :: "(int \<Rightarrow> string) \<Rightarrow> string \<Rightarrow> 'a world_scheme \<Rightarrow> bool \<times> 'a world_scheme" where
  "handleStatusToolCall fmt line w =
     (case status_call line of
        None \<Rightarrow> (False, w)
      | Some rid \<Rightarrow> (True, w\<lparr>Stdout := Stdout w @ [status_reply rid (status_json (Status fmt w))]\<rparr>))"

text \<open>One line of \<open>pumpClientToInner\<close>.\<close>

definition client_line :: "(int \<Rightarrow> string) \<Rightarrow> bool \<Rightarrow> string \<Rightarrow> 'a world_scheme \<Rightarrow> 'a world_scheme" where
  "client_line fmt ok line w =
     (let (handled, w1) = handleStatusToolCall fmt line (maybeCaptureInit line w)
      in if handled then w1 else fst (writeToInner ok line w1))"

section \<open>Lines from the inner process\<close>

datatype innerLineKind =
  innerLineForward | innerLineProbeResponse | innerLineInitReplayResponse | innerLineQuietWindowNotification

definition inner_head :: "string \<Rightarrow> (string \<times> string) option" where
  "inner_head line = Option.bind (unmarshal_members line) (\<lambda>ms.
     map_option (\<lambda>m. (raw_field ''id'' '''' ms, m)) (str_field ''method'' '''' ms))"

definition classifyInnerLine :: "string \<Rightarrow> 'a world_scheme \<Rightarrow> innerLineKind \<times> 'a world_scheme" where
  "classifyInnerLine line w =
     (case inner_head line of
        None \<Rightarrow> (innerLineForward, w)
      | Some (rid, method) \<Rightarrow>
          if rid = '''' \<and> method \<noteq> '''' then
            (case respawnQuietUntil w of
               Some t \<Rightarrow> (if clock w < t then innerLineQuietWindowNotification else innerLineForward, w)
             | None \<Rightarrow> (innerLineForward, w))
          else if rid = '''' then (innerLineForward, w)
          else (case unmarshal_string rid of
             None \<Rightarrow> (innerLineForward, w)
           | Some i \<Rightarrow>
               if has_prefix i probeIDPrefix then (innerLineProbeResponse, w\<lparr>pendingProbe := None\<rparr>)
               else if has_prefix i initIDPrefix then (innerLineInitReplayResponse, w)
               else (innerLineForward, w)))"

text \<open>One line of \<open>forwardInnerStdoutWithProbeFilter\<close>; errors of the write to the client are ignored.\<close>

definition forward_line :: "string \<Rightarrow> 'a world_scheme \<Rightarrow> 'a world_scheme" where
  "forward_line line w =
     (case classifyInnerLine line w of
        (innerLineProbeResponse, w1) \<Rightarrow> w1\<lparr>ProbesAnswered := ProbesAnswered w1 + 1\<rparr>
      | (innerLineInitReplayResponse, w1) \<Rightarrow> w1
      | (innerLineQuietWindowNotification, w1) \<Rightarrow> w1
      | (innerLineForward, w1) \<Rightarrow> w1\<lparr>Stdout := Stdout w1 @ [line]\<rparr>)"

section \<open>Liveness probes\<close>

definition probe_id :: "int \<Rightarrow> string" where
  "probe_id n = probeIDPrefix @ show_int n"

text \<open>
  \<open>sendProbe\<close> in two parts, since other goroutines can run between storing the probe and writing it: the first
  part gives the stored probe, or None when a probe is in flight; the second writes it and arms the timer. The
  timer carries the instant it is due.
\<close>

definition probe_begin :: "'a world_scheme \<Rightarrow> (probeState \<times> 'a world_scheme) option" where
  "probe_begin w =
     (if pendingProbe w \<noteq> None then None
      else let n = probeIDCounter w + 1; st = \<lparr>ps_id = probe_id n, ps_sentAt = clock w\<rparr>
        in Some (st, w\<lparr>probeIDCounter := n, pendingProbe := Some st\<rparr>))"

definition compare_and_clear :: "probeState \<Rightarrow> 'a world_scheme \<Rightarrow> bool \<times> 'a world_scheme" where
  "compare_and_clear st w =
     (if pendingProbe w = Some st then (True, w\<lparr>pendingProbe := None\<rparr>) else (False, w))"

definition probe_finish :: "bool \<Rightarrow> probeState \<Rightarrow> 'a world_scheme \<Rightarrow> 'a world_scheme" where
  "probe_finish ok st w =
     (case writeToInner ok (probe_line (ps_id st)) w of
        (w1, Some _) \<Rightarrow> snd (compare_and_clear st w1)
      | (w1, None) \<Rightarrow> w1\<lparr>ProbesSent := ProbesSent w1 + 1,
          timers := timers w1 @ [(st, clock w1 + default_to defaultProbeTimeout (ProbeTimeout w1))]\<rparr>)"

definition sendProbe :: "bool \<Rightarrow> 'a world_scheme \<Rightarrow> 'a world_scheme" where
  "sendProbe ok w =
     (case probe_begin w of None \<Rightarrow> w | Some (st, w1) \<Rightarrow> probe_finish ok st w1)"

definition killInner :: "'a world_scheme \<Rightarrow> 'a world_scheme" where
  "killInner w = (case inner w of None \<Rightarrow> w | Some h \<Rightarrow> kill_proc h w)"

definition probe_timeout_reason :: string where
  "probe_timeout_reason = ''probe timeout (inner unresponsive)''"

text \<open>The function that \<open>time.AfterFunc\<close> runs for the probe \<open>st\<close>.\<close>

definition probe_timeout :: "probeState \<Rightarrow> 'a world_scheme \<Rightarrow> 'a world_scheme" where
  "probe_timeout st w =
     (case compare_and_clear st w of
        (False, w1) \<Rightarrow> w1
      | (True, w1) \<Rightarrow>
          killInner (w1\<lparr>ProbesTimedOut := ProbesTimedOut w1 + 1, nextRestartReason := probe_timeout_reason\<rparr>))"

section \<open>Restarting\<close>

definition max_restarts :: "'a world_scheme \<Rightarrow> int" where
  "max_restarts w = default_to defaultMaxRestarts (MaxRestarts w)"

definition restart_window :: "'a world_scheme \<Rightarrow> int" where
  "restart_window w = default_to defaultRestartWindow (RestartWindow w)"

definition recordRestart :: "'a world_scheme \<Rightarrow> 'a world_scheme \<times> sup_error option" where
  "recordRestart w =
     (let cutoff = clock w - restart_window w;
          keep = filter (\<lambda>t. t > cutoff) (restartHistory w) @ [clock w]
      in (w\<lparr>restartHistory := keep\<rparr>,
          if int (length keep) > max_restarts w then Some (ErrBreaker (length keep) (restart_window w)) else None))"

text \<open>What the operating system answers during a respawn: the spawn and the three writes.\<close>

record respawn_env =
  re_spawn :: "string option"
  re_okInit :: bool
  re_okInitialized :: bool
  re_okNotify :: bool

definition init_id :: "int \<Rightarrow> string" where
  "init_id n = initIDPrefix @ show_int n"

definition replay_initialize :: "bool \<Rightarrow> nat \<Rightarrow> 'a world_scheme \<Rightarrow> 'a world_scheme \<times> sup_error option" where
  "replay_initialize ok h w =
     (if initParams w = '''' then (w, None)
      else let n = initReplayCounter w + 1; w1 = w\<lparr>initReplayCounter := n\<rparr>
        in if ok then (write_proc h (init_replay_line (init_id n) (initParams w)) w1, None)
           else (kill_proc h w1, Some ErrReplayInitialize))"

definition replay_initialized :: "bool \<Rightarrow> nat \<Rightarrow> 'a world_scheme \<Rightarrow> 'a world_scheme \<times> sup_error option" where
  "replay_initialized ok h w =
     (if initializedLine w = '''' then (w, None)
      else if ok then (write_proc h (initializedLine w) w, None)
      else (kill_proc h w, Some ErrReplayInitialized))"

definition notify_tools_changed :: "bool \<Rightarrow> 'a world_scheme \<Rightarrow> 'a world_scheme" where
  "notify_tools_changed ok w =
     (let w1 = w\<lparr>LastToolsListChangedEmitUnixNano := clock w\<rparr>
      in if ok then w1\<lparr>Stdout := Stdout w1 @ [tools_list_changed],
                      ToolsListChangedEmitted := ToolsListChangedEmitted w1 + 1\<rparr>
         else w1\<lparr>ToolsListChangedEmitFailed := ToolsListChangedEmitFailed w1 + 1\<rparr>)"

definition respawn :: "respawn_env \<Rightarrow> 'a world_scheme \<Rightarrow> 'a world_scheme \<times> sup_error option" where
  "respawn e w =
     (case re_spawn e of
        Some msg \<Rightarrow> (w, Some (ErrSpawn msg))
      | None \<Rightarrow>
          let h = length (procs w);
              w1 = w\<lparr>procs := procs w @ [fresh_proc],
                     respawnQuietUntil := Some (clock w + default_to defaultRespawnQuietWindow (RespawnQuietWindow w))\<rparr>
          in (case replay_initialize (re_okInit e) h w1 of
                (w2, Some err) \<Rightarrow> (w2, Some err)
              | (w2, None) \<Rightarrow>
                  (case replay_initialized (re_okInitialized e) h w2 of
                     (w3, Some err) \<Rightarrow> (w3, Some err)
                   | (w3, None) \<Rightarrow> (notify_tools_changed (re_okNotify e) (w3\<lparr>inner := Some h\<rparr>), None))))"

text \<open>The reason of a restart: the staged override, or the exit code.\<close>

definition take_reason :: "int \<Rightarrow> 'a world_scheme \<Rightarrow> 'a world_scheme" where
  "take_reason code w = w\<lparr>nextRestartReason := '''',
     lastRestartReason := (if nextRestartReason w = '''' then ''inner exited (code='' @ show_int code @ '')''
                           else nextRestartReason w)\<rparr>"

text \<open>The part of a \<open>pumpInnerToClient\<close> iteration that follows the exit of the inner process.\<close>

definition restart_inner :: "int \<Rightarrow> respawn_env \<Rightarrow> 'a world_scheme \<Rightarrow> 'a world_scheme \<times> sup_error option" where
  "restart_inner code e w =
     (case respawn e (take_reason code w) of
        (w1, Some err) \<Rightarrow> (w1, Some (ErrRespawn err))
      | (w1, None) \<Rightarrow> recordRestart (w1\<lparr>Restarts := Restarts w1 + 1\<rparr>))"

definition shutdownInner :: "'a world_scheme \<Rightarrow> 'a world_scheme" where
  "shutdownInner w = (case inner w of None \<Rightarrow> w | Some h \<Rightarrow> (kill_proc h w)\<lparr>inner := None\<rparr>)"

section \<open>The circuit breaker\<close>

text \<open>Restarts at the instants \<open>ts\<close>, until the breaker trips.\<close>

fun record_restarts :: "int list \<Rightarrow> 'a world_scheme \<Rightarrow> 'a world_scheme \<times> sup_error option" where
  "record_restarts [] w = (w, None)"
| "record_restarts (t # ts) w =
     (case recordRestart (w\<lparr>clock := t\<rparr>) of
        (w1, Some e) \<Rightarrow> (w1, Some e)
      | (w1, None) \<Rightarrow> record_restarts ts w1)"

lemma filter_after_length:
  fixes xs :: "int list"
  assumes "sorted xs"
  shows "m < length (filter (\<lambda>t. c < t) xs) \<longleftrightarrow> m < length xs \<and> c < xs ! (length xs - Suc m)"
  using assms
proof (induction xs)
  case (Cons x xs)
  show ?case
  proof (cases "c < x")
    case True
    then have "\<forall>t \<in> set (x # xs). c < t" using Cons.prems by auto
    moreover from this have "filter (\<lambda>t. c < t) (x # xs) = x # xs" by (simp add: filter_id_conv)
    moreover have "m < length (x # xs) \<Longrightarrow> (x # xs) ! (length (x # xs) - Suc m) \<in> set (x # xs)"
      by (rule nth_mem) simp
    ultimately show ?thesis by metis
  next
    case False
    then show ?thesis using Cons by (auto simp: nth_Cons' Suc_diff_Suc less_Suc_eq)
  qed
qed simp

lemma breaker_config [simp]:
  "max_restarts (w\<lparr>clock := t\<rparr>) = max_restarts w" "max_restarts (w\<lparr>restartHistory := h\<rparr>) = max_restarts w"
  "restart_window (w\<lparr>clock := t\<rparr>) = restart_window w" "restart_window (w\<lparr>restartHistory := h\<rparr>) = restart_window w"
  by (simp_all add: max_restarts_def restart_window_def)

lemma record_restarts_exact:
  assumes "sorted (past @ ts)" and "0 < restart_window w" and "0 \<le> max_restarts w"
    and "restartHistory w = filter (\<lambda>t. c < t) past"
    and "\<forall>t \<in> set ts. c \<le> t - restart_window w"
  shows "snd (record_restarts ts w) = None \<longleftrightarrow>
     (\<forall>j. length past \<le> j \<and> j < length (past @ ts) \<and> nat (max_restarts w) \<le> j \<longrightarrow>
        restart_window w \<le> (past @ ts) ! j - (past @ ts) ! (j - nat (max_restarts w)))"
  using assms
proof (induction ts arbitrary: past c w)
  case (Cons t ts)
  define W where "W = restart_window w"
  define m where "m = nat (max_restarts w)"
  let ?keep = "filter (\<lambda>x. t - W < x) (past @ [t])"
  have srt: "sorted (past @ [t])" using Cons.prems(1) by (simp add: sorted_append)
  have keep: "filter (\<lambda>x. t - W < x) (restartHistory w) @ [t] = ?keep"
  proof -
    have "filter (\<lambda>x. t - W < x) (filter (\<lambda>t. c < t) past) = filter (\<lambda>x. t - W < x) past"
      using Cons.prems(5) by (auto simp: W_def filter_filter intro!: filter_cong)
    then show ?thesis using Cons.prems(2,4) by (simp add: W_def)
  qed
  have len: "1 + int (length (filter (\<lambda>x. t - W < x) (restartHistory w))) = int (length ?keep)"
    using arg_cong [OF keep, of length] by simp
  define w1 where "w1 = w\<lparr>clock := t, restartHistory := ?keep\<rparr>"
  have rr: "recordRestart (w\<lparr>clock := t\<rparr>) = (w1, if int (length ?keep) > max_restarts w
        then Some (ErrBreaker (length ?keep) W) else None)"
    by (simp add: recordRestart_def w1_def Let_def keep [unfolded W_def] len [unfolded W_def] W_def del: filter_append)
  have trip: "int (length ?keep) > max_restarts w \<longleftrightarrow>
      m \<le> length past \<and> \<not> W \<le> (past @ t # ts) ! length past - (past @ t # ts) ! (length past - m)"
  proof -
    have "int (length ?keep) > max_restarts w \<longleftrightarrow> m < length ?keep"
      using Cons.prems(3) by (auto simp: m_def)
    also have "\<dots> \<longleftrightarrow> m < length (past @ [t]) \<and> t - W < (past @ [t]) ! (length (past @ [t]) - Suc m)"
      by (rule filter_after_length [OF srt])
    also have "\<dots> \<longleftrightarrow> m \<le> length past \<and> t - W < (past @ t # ts) ! (length past - m)"
      using append_assoc [of past "[t]" ts] by (auto simp: nth_append)
    finally show ?thesis by (auto simp: nth_append)
  qed
  have split: "(\<forall>j. length past \<le> j \<and> j < length (past @ t # ts) \<and> m \<le> j \<longrightarrow> P j) \<longleftrightarrow>
      (m \<le> length past \<longrightarrow> P (length past)) \<and>
      (\<forall>j. length (past @ [t]) \<le> j \<and> j < length ((past @ [t]) @ ts) \<and> m \<le> j \<longrightarrow> P j)" for P
    by (auto simp: le_Suc_eq) (metis Suc_leI le_neq_implies_less)
  have ih: "snd (record_restarts ts w1) = None \<longleftrightarrow>
     (\<forall>j. length (past @ [t]) \<le> j \<and> j < length ((past @ [t]) @ ts) \<and> m \<le> j \<longrightarrow>
        W \<le> ((past @ [t]) @ ts) ! j - ((past @ [t]) @ ts) ! (j - m))"
    using Cons.IH [of "past @ [t]" w1 "t - W"] Cons.prems(1,2,3)
    by (simp add: w1_def W_def m_def sorted_append)
  show ?case
    using rr trip ih split [of "\<lambda>j. W \<le> (past @ t # ts) ! j - (past @ t # ts) ! (j - m)"]
    by (auto simp: W_def [symmetric] m_def [symmetric] simp del: not_le)
qed simp

lemma plain_simps [simp]:
  "plain []" "plain (c # s) \<longleftrightarrow> c \<noteq> dq \<and> c \<noteq> bsl \<and> 32 \<le> code_of c \<and> plain s" "plain (s @ t) \<longleftrightarrow> plain s \<and> plain t"
  by (auto simp: plain_def)

lemma plain_digits: "list_all is_digit_char s \<Longrightarrow> plain s"
  by (induction s) (auto simp: is_digit_char_def code_of_def)

lemma plain_show_int: "plain (show_int n)"
  using plain_digits show_nat_digits by (auto simp: show_int_def code_of_def)

lemma plain_ids: "plain (init_id n)" "plain (probe_id n)"
  using plain_show_int by (auto simp: init_id_def probe_id_def initIDPrefix_def probeIDPrefix_def code_of_def)

lemma fmt_q_plain: "plain s \<Longrightarrow> fmt_q s = quoted s"
  by (induction s) (auto simp: fmt_q_def quoted_def)

lemma stop_rpc [simp]: "stop (CHR '','' # t)" "stop (CHR ''}'' # t)"
  by (simp_all add: stop_def)

lemma rpc_line_members:
  assumes "plain i" and "plain m" and "raw_of 9999 (k, v, p)"
  shows "unmarshal_members (rpc_head i @ quoted m @ '','' @ quoted ''params'' @ '':'' @ p @ ''}'' @ [nl]) =
     Some [(''jsonrpc'', JStr ''2.0'', quoted ''2.0''), (''id'', JStr i, quoted i), (''method'', JStr m, quoted m),
           (''params'', v, p)]"
proof -
  have p: "jvalue 9999 (p @ ''}'' @ [nl]) = Some (v, ''}'' @ [nl])" "p \<noteq> []"
    using assms(3) by (auto simp: raw_of_def)
  have lit: "plain ''jsonrpc''" "plain ''2.0''" "plain ''id''" "plain ''method''" "plain ''params''"
    by (simp_all add: code_of_def)
  note v = jvalue_quoted [where d = 9999]
  have ws: "skip_ws (quoted s @ t) = quoted s @ t" "skip_ws (CHR '','' # t) = CHR '','' # t"
      "skip_ws (CHR ''}'' # t) = CHR ''}'' # t" for s t
    by (simp_all add: quoted_def skip_ws_def json_ws_def)
  have st: "starts P (quoted s @ t) = P dq" for P s t by (simp add: quoted_def)
  have m4: "jmembers 9999 (quoted ''params'' @ '':'' @ p @ ''}'' @ [nl]) = Some ([(''params'', v, p)], [nl])"
    using jmembers_cons [OF lit(5) p(1)] by (simp add: ws)
  have m3: "jmembers 9999 (quoted ''method'' @ '':'' @ quoted m @ '','' @ quoted ''params'' @ '':'' @ p @ ''}'' @ [nl]) =
      Some ([(''method'', JStr m, quoted m), (''params'', v, p)], [nl])"
    using jmembers_cons [OF lit(4) v [OF assms(2)], of "'','' @ quoted ''params'' @ '':'' @ p @ ''}'' @ [nl]"] m4
    by (simp add: ws)
  have m2: "jmembers 9999 (quoted ''id'' @ '':'' @ quoted i @ '','' @ quoted ''method'' @ '':'' @ quoted m @ '',''
        @ quoted ''params'' @ '':'' @ p @ ''}'' @ [nl]) =
      Some ([(''id'', JStr i, quoted i), (''method'', JStr m, quoted m), (''params'', v, p)], [nl])"
    using jmembers_cons [OF lit(3) v [OF assms(1)], of "'','' @ quoted ''method'' @ '':'' @ quoted m @ '',''
        @ quoted ''params'' @ '':'' @ p @ ''}'' @ [nl]"] m3 by (simp add: ws)
  have m1: "jmembers 9999 (quoted ''jsonrpc'' @ '':'' @ quoted ''2.0'' @ '','' @ quoted ''id'' @ '':'' @ quoted i @ '',''
        @ quoted ''method'' @ '':'' @ quoted m @ '','' @ quoted ''params'' @ '':'' @ p @ ''}'' @ [nl]) =
      Some ([(''jsonrpc'', JStr ''2.0'', quoted ''2.0''), (''id'', JStr i, quoted i), (''method'', JStr m, quoted m),
        (''params'', v, p)], [nl])"
    using jmembers_cons [OF lit(1) v [OF lit(2)], of "'','' @ quoted ''id'' @ '':'' @ quoted i @ '',''
        @ quoted ''method'' @ '':'' @ quoted m @ '','' @ quoted ''params'' @ '':'' @ p @ ''}'' @ [nl]"] m2
    by (simp add: ws)
  have "jvalue 10000 (rpc_head i @ quoted m @ '','' @ quoted ''params'' @ '':'' @ p @ ''}'' @ [nl]) =
      Some (JObj [(''jsonrpc'', JStr ''2.0'', quoted ''2.0''), (''id'', JStr i, quoted i), (''method'', JStr m, quoted m),
        (''params'', v, p)], [nl])"
    using m1 by (subst jvalue.simps) (simp add: rpc_head_def fmt_q_plain [OF assms(1)] ws st Let_def)
  moreover have "skip_ws (rpc_head i @ t) = rpc_head i @ t" for t by (simp add: rpc_head_def skip_ws_def json_ws_def)
  ultimately show ?thesis
    by (simp add: unmarshal_members_def parse_json_def skip_ws_def json_ws_def)
qed

lemma unmarshal_quoted: "plain s \<Longrightarrow> unmarshal_string (quoted s) = Some s"
proof -
  assume s: "plain s"
  have "skip_ws (quoted s) = quoted s @ []" by (simp add: quoted_def skip_ws_def json_ws_def)
  then show ?thesis using jvalue_quoted [OF s, of 10000 "[]"]
    by (simp add: unmarshal_string_def parse_json_def skip_ws_def)
qed

lemma jvalue_empty_object: "jvalue 9999 (''{}'' @ t) = Some (JObj [], t)"
  by (subst jvalue.simps) (simp add: skip_ws_def json_ws_def)

text \<open>
  After the client has sent an \<open>initialize\<close> request with the parameters \<open>params\<close>, the line for a new process decodes
  to an \<open>initialize\<close> request with exactly those bytes as parameters (\<open>{}\<close> if there were none) and with an identifier of
  the supervisor.
\<close>

lemma replay_decodes:
  assumes "capture_head line = Some (''initialize'', params)"
  shows "\<exists>ms. unmarshal_members (init_replay_line (init_id n) (initParams (maybeCaptureInit line w))) = Some ms
    \<and> str_field ''method'' '''' ms = Some ''initialize''
    \<and> raw_field ''params'' '''' ms = (if params = '''' then ''{}'' else params)
    \<and> unmarshal_string (raw_field ''id'' '''' ms) = Some (init_id n)"
proof -
  let ?p = "if params = '''' then ''{}'' else params"
  obtain ms0 where m: "unmarshal_members line = Some ms0" "params = raw_field ''params'' '''' ms0"
    using assms by (auto simp: capture_head_def bind_eq_Some_conv)
  have "\<exists>k v. raw_of 9999 (k, v, ?p)"
    using raw_field_of [OF unmarshal_members_raw [OF m(1)], of "''params''" "''''"] jvalue_empty_object
    by (auto simp: m(2) [symmetric] raw_of_def)
  then obtain v where "raw_of 9999 (''params'', v, ?p)" by (auto simp: raw_of_def)
  from rpc_line_members [OF plain_ids(1) _ this, of "''initialize''" n]
  have "unmarshal_members (init_replay_line (init_id n) ?p) =
      Some [(''jsonrpc'', JStr ''2.0'', quoted ''2.0''), (''id'', JStr (init_id n), quoted (init_id n)),
        (''method'', JStr ''initialize'', quoted ''initialize''), (''params'', v, ?p)]"
    by (simp add: init_replay_line_def code_of_def)
  moreover have "initParams (maybeCaptureInit line w) = ?p"
    using assms by (simp add: maybeCaptureInit_def)
  ultimately show ?thesis
    by (simp add: key_matches_def to_lower_def lower_char_def is_upper_char_def code_of_def unmarshal_quoted plain_ids)
qed

definition idle_world :: world where
  "idle_world =
     \<lparr>ProbeTimeout = 0, MaxRestarts = 3, RestartWindow = 10, RespawnQuietWindow = 0,
      inner = None, initParams = '''', initializedLine = '''', initReplayCounter = 0, respawnQuietUntil = None,
      pendingProbe = None, probeIDCounter = 0, restartHistory = [], Restarts = 0, ProbesSent = 0, ProbesAnswered = 0,
      ProbesTimedOut = 0, ToolsListChangedEmitted = 0, ToolsListChangedEmitFailed = 0,
      LastToolsListChangedEmitUnixNano = 0, startedAt = None, lastRestartReason = '''', nextRestartReason = '''',
      clock = 0, procs = [], Stdout = [], timers = []\<rparr>"

text \<open>
  C8: The circuit breaker is exactly a sliding window. Restarts at the instants \<open>ts\<close> pass without an error if and only if
  no \<open>MaxRestarts + 1\<close> consecutive ones lie within less than the window, with the defaults for zero settings.
\<close>
theorem breaker_exact:
  assumes "sorted ts" and "0 < restart_window w" and "0 \<le> max_restarts w" and "restartHistory w = []"
  shows "snd (record_restarts ts w) = None \<longleftrightarrow>
    (\<forall>j < length ts. nat (max_restarts w) \<le> j \<longrightarrow>
       restart_window w \<le> ts ! j - ts ! (j - nat (max_restarts w)))"
proof -
  have "\<forall>t \<in> set ts. hd ts - restart_window w \<le> t - restart_window w"
    using assms(1) by (cases ts) auto
  then show ?thesis
    using record_restarts_exact [of "[]" ts w "hd ts - restart_window w"] assms by auto
qed

lemma breaker_exact_witness: "snd (record_restarts [0, 1, 2, 11] idle_world) = None"
proof -
  have "restart_window idle_world = 10" "max_restarts idle_world = 3" "restartHistory idle_world = []"
    by (simp_all add: idle_world_def restart_window_def max_restarts_def default_to_def)
  moreover have "\<forall>j < 4. 3 \<le> j \<longrightarrow> 10 \<le> [0, 1, 2, 11] ! j - [0, 1, 2, 11 :: int] ! (j - 3)"
    by (simp add: less_Suc_eq numeral_eq_Suc all_conj_distrib)
  ultimately show ?thesis using breaker_exact [of "[0, 1, 2, 11]" idle_world] by simp
qed

end
