(* ===== verification/Supervisor_Run.thy ===== *)
theory Supervisor_Run
  imports Supervisor
begin

text \<open>
  The goroutines of the supervisor as a step relation. \<open>Run\<close>, the two pumps and the probe loop each have a program
  counter; the inner processes, the client, the clock and the scheduler are the environment. A step is one
  critical section or one atomic access of the code, so every interleaving the locks allow is a run.
\<close>

section \<open>Program counters and steps\<close>

datatype pump_pc =
    PumpCheck
  | PumpPick
  | PumpForward nat
  | PumpReaped
  | PumpReason
  | PumpRespawn
  | PumpCount
  | PumpRecord
  | PumpDone "sup_error option"

datatype client_pc = ClientRead | ClientHave string | ClientDone "sup_error option"

datatype probe_pc = ProbeWait | ProbeStored probeState | ProbeExit

datatype run_pc =
    RunSelect
  | RunStopping "sup_error option"
  | RunCancelled "sup_error option"
  | RunDraining "sup_error option"
  | RunReturned "sup_error option"

record machine = world +
  pump :: pump_pc
  client :: client_pc
  prober :: probe_pc
  runner :: run_pc
  cancelled :: bool

text \<open>The state in which \<open>Run\<close> starts the goroutines: the first inner process is up.\<close>

definition started :: "int \<Rightarrow> int \<Rightarrow> int \<Rightarrow> int \<Rightarrow> int \<Rightarrow> machine" where
  "started timeout limit window quiet now =
     \<lparr>ProbeTimeout = timeout, MaxRestarts = limit, RestartWindow = window, RespawnQuietWindow = quiet,
      inner = Some 0, initParams = '''', initializedLine = '''', initReplayCounter = 0, respawnQuietUntil = None,
      pendingProbe = None, probeIDCounter = 0, restartHistory = [], Restarts = 0, ProbesSent = 0, ProbesAnswered = 0,
      ProbesTimedOut = 0, ToolsListChangedEmitted = 0, ToolsListChangedEmitFailed = 0,
      LastToolsListChangedEmitUnixNano = 0, startedAt = Some now, lastRestartReason = '''', nextRestartReason = '''',
      clock = now, procs = [fresh_proc], Stdout = [], timers = [],
      pump = PumpCheck, client = ClientRead, prober = ProbeWait, runner = RunSelect, cancelled = False\<rparr>"

inductive step :: "(int \<Rightarrow> string) \<Rightarrow> machine \<Rightarrow> machine \<Rightarrow> bool" for fmt where
  tick: "clock m \<le> t \<Longrightarrow> step fmt m (m\<lparr>clock := t\<rparr>)"
| proc_exit: "h < length (procs m) \<Longrightarrow> step fmt m (kill_proc h m)"
| parent_cancel: "step fmt m (m\<lparr>cancelled := True\<rparr>)"

| pump_cancelled: "pump m = PumpCheck \<Longrightarrow> cancelled m \<Longrightarrow> step fmt m (m\<lparr>pump := PumpDone None\<rparr>)"
| pump_check: "pump m = PumpCheck \<Longrightarrow> \<not> cancelled m \<Longrightarrow> step fmt m (m\<lparr>pump := PumpPick\<rparr>)"
| pump_no_inner: "pump m = PumpPick \<Longrightarrow> inner m = None \<Longrightarrow> step fmt m (m\<lparr>pump := PumpDone None\<rparr>)"
| pump_pick: "pump m = PumpPick \<Longrightarrow> inner m = Some h \<Longrightarrow> step fmt m (m\<lparr>pump := PumpForward h\<rparr>)"
| pump_line: "pump m = PumpForward h \<Longrightarrow> line \<noteq> '''' \<Longrightarrow> step fmt m (forward_line line m)"
| pump_eof: "pump m = PumpForward h \<Longrightarrow> \<not> pr_alive (procs m ! h) \<Longrightarrow> step fmt m (m\<lparr>pump := PumpReaped\<rparr>)"
| pump_reaped_cancelled: "pump m = PumpReaped \<Longrightarrow> cancelled m \<Longrightarrow> step fmt m (m\<lparr>pump := PumpDone None\<rparr>)"
| pump_reaped: "pump m = PumpReaped \<Longrightarrow> \<not> cancelled m \<Longrightarrow> step fmt m (m\<lparr>pump := PumpReason\<rparr>)"
| pump_reason: "pump m = PumpReason \<Longrightarrow> step fmt m ((take_reason code m)\<lparr>pump := PumpRespawn\<rparr>)"
| pump_respawn: "pump m = PumpRespawn \<Longrightarrow> respawn e m = (m1, None) \<Longrightarrow> step fmt m (m1\<lparr>pump := PumpCount\<rparr>)"
| pump_respawn_error: "pump m = PumpRespawn \<Longrightarrow> respawn e m = (m1, Some err) \<Longrightarrow>
     step fmt m (m1\<lparr>pump := PumpDone (Some (ErrRespawn err))\<rparr>)"
| pump_count: "pump m = PumpCount \<Longrightarrow> step fmt m (m\<lparr>Restarts := Restarts m + 1, pump := PumpRecord\<rparr>)"
| pump_record: "pump m = PumpRecord \<Longrightarrow> recordRestart m = (m1, None) \<Longrightarrow> step fmt m (m1\<lparr>pump := PumpCheck\<rparr>)"
| pump_tripped: "pump m = PumpRecord \<Longrightarrow> recordRestart m = (m1, Some err) \<Longrightarrow>
     step fmt m (m1\<lparr>pump := PumpDone (Some err)\<rparr>)"

| client_cancelled: "client m = ClientRead \<Longrightarrow> cancelled m \<Longrightarrow> step fmt m (m\<lparr>client := ClientDone None\<rparr>)"
| client_line: "client m = ClientRead \<Longrightarrow> line \<noteq> '''' \<Longrightarrow>
     step fmt m ((maybeCaptureInit line m)\<lparr>client := ClientHave line\<rparr>)"
| client_status: "client m = ClientHave line \<Longrightarrow> handleStatusToolCall fmt line m = (True, m1) \<Longrightarrow>
     step fmt m (m1\<lparr>client := ClientRead\<rparr>)"
| client_forward: "client m = ClientHave line \<Longrightarrow> handleStatusToolCall fmt line m = (False, m1) \<Longrightarrow>
     step fmt m ((fst (writeToInner ok line m1))\<lparr>client := ClientRead\<rparr>)"
| client_eof: "client m = ClientRead \<Longrightarrow> step fmt m (m\<lparr>client := ClientDone None\<rparr>)"
| client_error: "client m = ClientRead \<Longrightarrow> step fmt m (m\<lparr>client := ClientDone (Some (ErrReadStdin msg))\<rparr>)"

| probe_exit: "prober m = ProbeWait \<Longrightarrow> cancelled m \<Longrightarrow> step fmt m (m\<lparr>prober := ProbeExit\<rparr>)"
| probe_store: "prober m = ProbeWait \<Longrightarrow> probe_begin m = Some (st, m1) \<Longrightarrow>
     step fmt m (m1\<lparr>prober := ProbeStored st\<rparr>)"
| probe_send: "prober m = ProbeStored st \<Longrightarrow> step fmt m ((probe_finish ok st m)\<lparr>prober := ProbeWait\<rparr>)"
| timer_fires: "timers m = before @ (st, due) # after \<Longrightarrow> due \<le> clock m \<Longrightarrow>
     step fmt m (probe_timeout st (m\<lparr>timers := before @ after\<rparr>))"

| run_client: "runner m = RunSelect \<Longrightarrow> client m = ClientDone err \<Longrightarrow> step fmt m (m\<lparr>runner := RunStopping err\<rparr>)"
| run_pump: "runner m = RunSelect \<Longrightarrow> pump m = PumpDone err \<Longrightarrow> step fmt m (m\<lparr>runner := RunStopping err\<rparr>)"
| run_context: "runner m = RunSelect \<Longrightarrow> cancelled m \<Longrightarrow> step fmt m (m\<lparr>runner := RunStopping (Some ErrContext)\<rparr>)"
| run_cancel: "runner m = RunStopping err \<Longrightarrow> step fmt m (m\<lparr>cancelled := True, runner := RunCancelled err\<rparr>)"
| run_shutdown: "runner m = RunCancelled err \<Longrightarrow> step fmt m ((shutdownInner m)\<lparr>runner := RunDraining err\<rparr>)"
| run_drained: "runner m = RunDraining err \<Longrightarrow> client m = ClientDone ce \<Longrightarrow> pump m = PumpDone pe \<Longrightarrow>
     step fmt m (m\<lparr>runner := RunReturned err\<rparr>)"
| run_drain_timeout: "runner m = RunDraining err \<Longrightarrow> step fmt m (m\<lparr>runner := RunReturned err\<rparr>)"

inductive reach :: "(int \<Rightarrow> string) \<Rightarrow> machine \<Rightarrow> machine \<Rightarrow> bool" for fmt m0 where
  start: "reach fmt m0 m0"
| more: "reach fmt m0 m \<Longrightarrow> step fmt m m' \<Longrightarrow> reach fmt m0 m'"

section \<open>Invariants\<close>

lemmas op_defs = forward_line_def classifyInnerLine_def maybeCaptureInit_def handleStatusToolCall_def
  writeToInner_def write_proc_def kill_proc_def probe_begin_def probe_finish_def compare_and_clear_def
  probe_timeout_def killInner_def recordRestart_def replay_initialize_def replay_initialized_def
  notify_tools_changed_def respawn_def take_reason_def shutdownInner_def Let_def

lemmas op_splits = option.splits prod.splits if_splits innerLineKind.splits bool.splits

definition carries_sentinel :: "string \<Rightarrow> bool" where
  "carries_sentinel line =
     (case inner_head line of
        Some (rid, method) \<Rightarrow> rid \<noteq> '''' \<and>
          (case unmarshal_string rid of
             Some i \<Rightarrow> has_prefix i probeIDPrefix \<or> has_prefix i initIDPrefix
           | None \<Rightarrow> False)
      | None \<Rightarrow> False)"

definition client_clean :: "machine \<Rightarrow> bool" where
  "client_clean m \<longleftrightarrow> (\<forall>line \<in> set (Stdout m). line = tools_list_changed
     \<or> (\<exists>rid body. line = status_reply rid body) \<or> \<not> carries_sentinel line)"

lemma step_client_clean: "step fmt m m' \<Longrightarrow> client_clean m \<Longrightarrow> client_clean m'"
proof (induction rule: step.induct)
  case (pump_line m h line)
  then show ?case
    by (auto simp: client_clean_def carries_sentinel_def forward_line_def classifyInnerLine_def split: op_splits)
next
  case (client_status m line m1)
  then have "\<exists>rid body. Stdout m1 = Stdout m @ [status_reply rid body]"
    by (cases "status_call line") (auto simp: handleStatusToolCall_def, blast)
  then obtain rid body where "Stdout m1 = Stdout m @ [status_reply rid body]" by blast
  then have "Stdout (m1\<lparr>client := ClientRead\<rparr>) = Stdout m @ [status_reply rid body]" by simp
  then show ?case using client_status.prems by (auto simp: client_clean_def)
qed (auto simp: client_clean_def op_defs split: op_splits)

definition probe_inv :: "machine \<Rightarrow> bool" where
  "probe_inv m \<longleftrightarrow>
     (\<forall>st. pendingProbe m = Some st \<longrightarrow> st \<in> fst ` set (timers m) \<or> prober m = ProbeStored st) \<and>
     ProbesTimedOut m + int (length (timers m)) \<le> ProbesSent m \<and> 0 \<le> ProbesTimedOut m"

lemma step_probe_inv: "step fmt m m' \<Longrightarrow> probe_inv m \<Longrightarrow> probe_inv m'"
  by (induction rule: step.induct) (auto simp: probe_inv_def op_defs split: op_splits)

text \<open>The breaker is touched by \<open>recordRestart\<close> and the restart counter only.\<close>

definition breaker_view :: "'a world_scheme \<Rightarrow> int list \<times> int \<times> int \<times> int \<times> int" where
  "breaker_view w = (restartHistory w, clock w, Restarts w, MaxRestarts w, RestartWindow w)"

named_theorems frame \<open>fields an operation leaves alone\<close>

lemma breaker_view_ops [frame]:
  "breaker_view (forward_line line w) = breaker_view w"
  "breaker_view (maybeCaptureInit line w) = breaker_view w"
  "breaker_view (snd (handleStatusToolCall fmt line w)) = breaker_view w"
  "breaker_view (fst (writeToInner ok line w)) = breaker_view w"
  "breaker_view (kill_proc h w) = breaker_view w"
  "breaker_view (probe_finish ok st w) = breaker_view w"
  "breaker_view (probe_timeout st w) = breaker_view w"
  "breaker_view (fst (respawn e w)) = breaker_view w"
  "breaker_view (take_reason code w) = breaker_view w"
  "breaker_view (shutdownInner w) = breaker_view w"
  by (auto simp: breaker_view_def op_defs split: op_splits)

lemma breaker_view_updates [frame]:
  "breaker_view (m\<lparr>pump := p\<rparr>) = breaker_view m" "breaker_view (m\<lparr>client := c\<rparr>) = breaker_view m"
  "breaker_view (m\<lparr>prober := q\<rparr>) = breaker_view m" "breaker_view (m\<lparr>runner := r\<rparr>) = breaker_view m"
  "breaker_view (m\<lparr>cancelled := b\<rparr>) = breaker_view m" "breaker_view (m\<lparr>timers := ts\<rparr>) = breaker_view m"
  by (simp_all add: breaker_view_def)

lemma probe_begin_frame: "probe_begin w = Some (st, w1) \<Longrightarrow> breaker_view w1 = breaker_view w"
  by (auto simp: breaker_view_def probe_begin_def Let_def split: if_splits)

lemma pump_ops [frame]:
  "pump (forward_line line w) = pump w"
  "pump (maybeCaptureInit line w) = pump w"
  "pump (snd (handleStatusToolCall fmt line w)) = pump w"
  "pump (fst (writeToInner ok line w)) = pump w"
  "pump (kill_proc h w) = pump w"
  "pump (probe_finish ok st w) = pump w"
  "pump (probe_timeout st w) = pump w"
  "pump (shutdownInner w) = pump w"
  by (auto simp: op_defs split: op_splits)

lemma probe_begin_pump: "probe_begin w = Some (st, w1) \<Longrightarrow> pump w1 = pump w"
  by (auto simp: probe_begin_def Let_def split: if_splits)

definition breaker_ok :: "pump_pc \<Rightarrow> int list \<times> int \<times> int \<times> int \<times> int \<Rightarrow> bool" where
  "breaker_ok pc v = (case v of (hist, now, restarts, limit, window) \<Rightarrow>
     sorted hist \<and> (\<forall>t \<in> set hist. t \<le> now) \<and>
     int (length hist) + (if pc = PumpRecord then 1 else 0) \<le> restarts \<and>
     (if \<exists>n w. pc = PumpDone (Some (ErrBreaker n w)) then int (length hist) = default_to defaultMaxRestarts limit + 1
      else int (length hist) \<le> default_to defaultMaxRestarts limit))"

definition breaker_inv :: "machine \<Rightarrow> bool" where
  "breaker_inv m \<longleftrightarrow> breaker_ok (pump m) (breaker_view m)"

lemma breaker_record:
  assumes "recordRestart w = (w1, r)" and "breaker_ok PumpRecord (breaker_view w)"
    and "0 \<le> default_to defaultMaxRestarts (MaxRestarts w)"
  shows "breaker_ok (if r = None then PumpCheck else PumpDone r) (breaker_view w1)"
proof -
  define k where "k = filter (\<lambda>t. clock w - restart_window w < t) (restartHistory w)"
  have w1: "w1 = w\<lparr>restartHistory := k @ [clock w]\<rparr>"
    and r: "r = (if int (length (k @ [clock w])) > max_restarts w
      then Some (ErrBreaker (length (k @ [clock w])) (restart_window w)) else None)"
    using assms(1) by (auto simp: recordRestart_def Let_def k_def)
  have "length k \<le> length (restartHistory w)" "set k \<subseteq> set (restartHistory w)"
      "sorted (restartHistory w) \<Longrightarrow> sorted k"
    using sorted_filter [of id "restartHistory w"] by (auto simp: k_def)
  then show ?thesis
    using assms(2,3) by (auto simp: w1 r breaker_view_def breaker_ok_def sorted_append max_restarts_def)
qed

lemma step_breaker_inv:
  "step fmt m m' \<Longrightarrow> breaker_inv m \<Longrightarrow> 0 \<le> default_to defaultMaxRestarts (MaxRestarts m) \<Longrightarrow> breaker_inv m'"
proof (induction rule: step.induct)
  case (pump_record m m1)
  then show ?case using breaker_record [of m m1 None] by (simp add: breaker_inv_def frame)
next
  case (pump_tripped m m1 err)
  then show ?case using breaker_record [of m m1 "Some err"] by (simp add: breaker_inv_def frame)
next
  case (pump_respawn m e m1)
  then have "breaker_view m1 = breaker_view m" using breaker_view_ops(8) [of e m] by simp
  then show ?case using pump_respawn by (auto simp: breaker_inv_def frame breaker_ok_def split: prod.splits)
next
  case (pump_respawn_error m e m1 err)
  then have "breaker_view m1 = breaker_view m" using breaker_view_ops(8) [of e m] by simp
  then show ?case using pump_respawn_error by (auto simp: breaker_inv_def frame breaker_ok_def split: prod.splits)
next
  case (probe_store m st m1)
  then show ?case using probe_begin_frame [OF probe_store(2)] probe_begin_pump [OF probe_store(2)]
    by (simp add: breaker_inv_def frame)
next
  case (client_status m line m1)
  then have "breaker_view m1 = breaker_view m" "pump m1 = pump m"
    using breaker_view_ops(3) [of fmt line m] pump_ops(3) [of fmt line m] by simp_all
  then show ?case using client_status by (simp add: breaker_inv_def frame)
next
  case (client_forward m line m1 ok)
  then have "breaker_view m1 = breaker_view m" "pump m1 = pump m"
    using breaker_view_ops(3) [of fmt line m] pump_ops(3) [of fmt line m] by simp_all
  then show ?case using client_forward by (simp add: breaker_inv_def frame)
next
  case (tick m t)
  then show ?case by (force simp: breaker_inv_def breaker_view_def breaker_ok_def)
next
  case (pump_count m)
  then show ?case by (auto simp: breaker_inv_def breaker_view_def breaker_ok_def)
qed (auto simp: breaker_inv_def frame breaker_ok_def split: prod.splits)


section \<open>Consequences for every run\<close>

definition procs_inv :: "machine \<Rightarrow> bool" where
  "procs_inv m \<longleftrightarrow> (\<forall>h. inner m = Some h \<or> pump m = PumpForward h \<longrightarrow> h < length (procs m))"

lemma step_procs_inv: "step fmt m m' \<Longrightarrow> procs_inv m \<Longrightarrow> procs_inv m'"
  by (induction rule: step.induct) (auto simp: procs_inv_def op_defs split: op_splits)

lemma step_config: "step fmt m m' \<Longrightarrow> MaxRestarts m' = MaxRestarts m \<and> ProbeTimeout m' = ProbeTimeout m"
  by (induction rule: step.induct) (auto simp: op_defs split: op_splits)

lemma reach_inv:
  assumes "reach fmt m0 m" and "P m0" and "\<And>m m'. step fmt m m' \<Longrightarrow> P m \<Longrightarrow> P m'"
  shows "P m"
  using assms by (induction rule: reach.induct) auto

lemma reach_trans: "reach fmt m1 m2 \<Longrightarrow> reach fmt m0 m1 \<Longrightarrow> reach fmt m0 m2"
  by (induction rule: reach.induct) (auto intro: reach.more)

lemma reach_breaker_inv:
  assumes "reach fmt (started timeout limit window quiet now) m" and "0 \<le> default_to defaultMaxRestarts limit"
  shows "breaker_inv m \<and> MaxRestarts m = limit"
  using assms(1)
proof (rule reach_inv)
  show "breaker_inv (started timeout limit window quiet now) \<and> MaxRestarts (started timeout limit window quiet now) = limit"
    using assms(2) by (auto simp: breaker_inv_def breaker_ok_def breaker_view_def started_def)
qed (use assms(2) step_breaker_inv step_config in auto)

text \<open>
  C9: No line of an inner process that carries an identifier of the supervisor is written to the client, in
  any interleaving: every line the client sees is the tools notification, an answer of the status tool, or a line
  whose identifier is neither a probe's nor a replay's.
\<close>
theorem sentinels_never_reach_client:
  assumes "reach fmt (started timeout limit window quiet now) m" and "line \<in> set (Stdout m)"
  shows "line = tools_list_changed \<or> (\<exists>rid body. line = status_reply rid body) \<or> \<not> carries_sentinel line"
proof -
  have "client_clean m"
    by (rule reach_inv [OF assms(1)]) (use step_client_clean in \<open>auto simp: client_clean_def started_def\<close>)
  then show ?thesis using assms(2) by (simp add: client_clean_def)
qed

text \<open>
  A probe in flight always has its timer armed or is still being written, so probing cannot stall on a
  probe that nobody will give up; and the probes that timed out together with the armed timers are at most
  the probes sent.
\<close>
theorem pending_probe_is_armed:
  assumes "reach fmt (started timeout limit window quiet now) m"
  shows "(\<forall>st. pendingProbe m = Some st \<longrightarrow> (\<exists>due. (st, due) \<in> set (timers m)) \<or> prober m = ProbeStored st) \<and>
    ProbesTimedOut m + int (length (timers m)) \<le> ProbesSent m"
proof -
  have "probe_inv m"
    by (rule reach_inv [OF assms]) (use step_probe_inv in \<open>auto simp: probe_inv_def started_def\<close>)
  then show ?thesis by (force simp: probe_inv_def)
qed

text \<open>
  C12: The circuit breaker holds in every run: the recorded restarts are in order, never more than the limit
  plus one, at most the limit unless the pump has stopped with the breaker's error, and never more than the
  restarts counted.
\<close>
theorem breaker_bounds_restarts:
  assumes "reach fmt (started timeout limit window quiet now) m" and "0 \<le> default_to defaultMaxRestarts limit"
  shows "sorted (restartHistory m) \<and> int (length (restartHistory m)) \<le> Restarts m \<and>
    int (length (restartHistory m)) \<le> default_to defaultMaxRestarts limit + 1 \<and>
    (default_to defaultMaxRestarts limit < int (length (restartHistory m)) \<longrightarrow>
       (\<exists>n w. pump m = PumpDone (Some (ErrBreaker n w))))"
  using reach_breaker_inv [OF assms]
  by (auto simp: breaker_inv_def breaker_ok_def breaker_view_def split: if_splits)

section \<open>The handshake of a restarted process\<close>

text \<open>A step in which the client sends an \<open>initialize\<close> request, and the runs without one.\<close>

definition sends_initialize :: "machine \<Rightarrow> machine \<Rightarrow> bool" where
  "sends_initialize m m' \<longleftrightarrow> client m = ClientRead \<and>
     (\<exists>line params. capture_head line = Some (''initialize'', params) \<and>
        m' = (maybeCaptureInit line m)\<lparr>client := ClientHave line\<rparr>)"

inductive reach_keeping :: "(int \<Rightarrow> string) \<Rightarrow> machine \<Rightarrow> machine \<Rightarrow> bool" for fmt m0 where
  keep_start: "reach_keeping fmt m0 m0"
| keep_more: "reach_keeping fmt m0 m \<Longrightarrow> step fmt m m' \<Longrightarrow> \<not> sends_initialize m m' \<Longrightarrow> reach_keeping fmt m0 m'"

lemma step_initParams: "step fmt m m' \<Longrightarrow> \<not> sends_initialize m m' \<Longrightarrow> initParams m' = initParams m"
proof (induction rule: step.induct)
  case (client_line m line)
  then have "\<not> (\<exists>params. capture_head line = Some (''initialize'', params))" by (auto simp: sends_initialize_def)
  then show ?case by (auto simp: maybeCaptureInit_def split: option.split prod.split)
qed (auto simp: op_defs split: op_splits)

lemma reach_keeping_initParams: "reach_keeping fmt m0 m \<Longrightarrow> initParams m = initParams m0"
  by (induction rule: reach_keeping.induct) (auto dest: step_initParams)

lemma pump_respawn_inv:
  assumes "step fmt m m'" "pump m = PumpRespawn" "pump m' = PumpCount"
  obtains e m1 where "respawn e m = (m1, None)" "m' = m1\<lparr>pump := PumpCount\<rparr>"
  using assms
proof (cases rule: step.cases)
  case (pump_respawn e m1)
  then show ?thesis using that by blast
next
  case (client_status line m1)
  then show ?thesis using assms(2,3) pump_ops(3) [of fmt line m] by simp
next
  case (client_forward line m1 ok)
  then show ?thesis using assms(2,3) pump_ops(3) [of fmt line m] by (simp add: frame)
next
  case (probe_store st m1)
  then show ?thesis using assms(2,3) probe_begin_pump [of m st m1] by simp
qed (use assms(2,3) in \<open>simp_all add: frame\<close>)

lemma respawn_replays:
  assumes "respawn e w = (w1, None)" "initParams w \<noteq> ''''"
  shows "length (procs w1) = Suc (length (procs w)) \<and> inner w1 = Some (length (procs w)) \<and>
     procs w1 ! length (procs w) =
       \<lparr>pr_alive = True, pr_stdin = init_replay_line (init_id (initReplayCounter w + 1)) (initParams w) #
          (if initializedLine w = '''' then [] else [initializedLine w])\<rparr>"
  using assms by (auto simp: respawn_def replay_initialize_def replay_initialized_def notify_tools_changed_def
      write_proc_def fresh_proc_def Let_def split: option.splits prod.splits if_splits)

text \<open>
  C10: A restarted process is given the handshake of the client. From the moment the client has sent an
  \<open>initialize\<close> request with the parameters \<open>params\<close>, and until it sends another, whatever else happens, every respawn
  that succeeds makes a new live process the inner one, and that process has been written exactly this: a
  line that decodes to an \<open>initialize\<close> request with those bytes as parameters (\<open>{}\<close> if there were none) and an identifier
  of the supervisor, and after it the client's \<open>initialized\<close> line if there was one.
\<close>
theorem handshake_replay:
  assumes "capture_head line = Some (''initialize'', params)"
    and "reach_keeping fmt ((maybeCaptureInit line m0)\<lparr>client := ClientHave line\<rparr>) m"
    and "step fmt m m'" and "pump m = PumpRespawn" and "pump m' = PumpCount"
  shows "\<exists>replay ms. length (procs m') = Suc (length (procs m)) \<and> inner m' = Some (length (procs m)) \<and>
     procs m' ! length (procs m) = \<lparr>pr_alive = True,
       pr_stdin = replay # (if initializedLine m = '''' then [] else [initializedLine m])\<rparr> \<and>
     unmarshal_members replay = Some ms \<and> str_field ''method'' '''' ms = Some ''initialize'' \<and>
     raw_field ''params'' '''' ms = (if params = '''' then ''{}'' else params) \<and>
     unmarshal_string (raw_field ''id'' '''' ms) = Some (init_id (initReplayCounter m + 1))"
proof -
  obtain e m1 where m1: "respawn e m = (m1, None)" "m' = m1\<lparr>pump := PumpCount\<rparr>"
    by (rule pump_respawn_inv [OF assms(3-5)])
  have p: "initParams m = initParams (maybeCaptureInit line m0)"
    using reach_keeping_initParams [OF assms(2)] by simp
  then have "initParams m \<noteq> ''''" using assms(1) by (simp add: maybeCaptureInit_def)
  from respawn_replays [OF m1(1) this] show ?thesis
    using replay_decodes [OF assms(1), of "initReplayCounter m + 1" m0] unfolding p [symmetric] m1(2) by auto
qed

section \<open>A hung process\<close>

text \<open>
  The acts of inner processes: one exits by itself, or a line of one is forwarded. In a silent run there are none,
  so a process dies only when the supervisor kills it.
\<close>

definition inner_acts :: "machine \<Rightarrow> machine \<Rightarrow> bool" where
  "inner_acts m m' \<longleftrightarrow> (\<exists>h. m' = kill_proc h m) \<or> (\<exists>line. m' = forward_line line m)"

inductive silent_reach :: "(int \<Rightarrow> string) \<Rightarrow> machine \<Rightarrow> machine \<Rightarrow> bool" for fmt m0 where
  silent_start: "silent_reach fmt m0 m0"
| silent_more: "silent_reach fmt m0 m \<Longrightarrow> step fmt m m' \<Longrightarrow> \<not> inner_acts m m' \<Longrightarrow> silent_reach fmt m0 m'"

lemma forward_line_frame [frame]:
  "clock (forward_line line w) = clock w" "timers (forward_line line w) = timers w"
  "clock (kill_proc h w) = clock w" "timers (kill_proc h w) = timers w"
  by (auto simp: op_defs split: op_splits)

lemma not_inner_acts:
  "clock m' \<noteq> clock m \<or> timers m' \<noteq> timers m \<or> pump m' \<noteq> pump m \<Longrightarrow> \<not> inner_acts m m'"
  by (auto simp: inner_acts_def frame)

text \<open>A pump step of a silent run.\<close>

lemma silent_pump: "silent_reach fmt m0 m \<Longrightarrow> step fmt m m' \<Longrightarrow> pump m' \<noteq> pump m \<Longrightarrow> silent_reach fmt m0 m'"
  by (erule silent_more, assumption, rule not_inner_acts) simp

lemma respawn_all_ok:
  assumes "inner w = Some h" "h < length (procs w)"
  defines "w1 \<equiv> fst (respawn \<lparr>re_spawn = None, re_okInit = True, re_okInitialized = True, re_okNotify = True\<rparr> w)"
  shows "respawn \<lparr>re_spawn = None, re_okInit = True, re_okInitialized = True, re_okNotify = True\<rparr> w = (w1, None)"
    and "inner w1 = Some (length (procs w))" "pr_alive (procs w1 ! length (procs w))" "procs w1 ! h = procs w ! h"
    and "Restarts w1 = Restarts w" "lastRestartReason w1 = lastRestartReason w" "ProbesTimedOut w1 = ProbesTimedOut w"
    and "pendingProbe w1 = pendingProbe w"
  using assms(1,2) by (auto simp: w1_def respawn_def replay_initialize_def replay_initialized_def notify_tools_changed_def
      write_proc_def fresh_proc_def Let_def nth_append)

text \<open>
  C11: A hung process is replaced without its help. From every reachable state in which the context is not
  cancelled, the pump reads from the inner process and a written probe is in flight, the run can go on, while no process exits by itself and no line is
  read from one, to a state in which the timer of the probe has killed the process, a new live process is
  the inner one, the restart is counted with the probe timeout as its reason, and no probe is in flight.
\<close>
theorem hung_process_is_replaced:
  assumes r: "reach fmt (started timeout limit window quiet now) m"
    and pc: "pump m = PumpForward h" "inner m = Some h" "\<not> cancelled m"
    and pr: "pendingProbe m = Some st" "prober m = ProbeWait"
  shows "\<exists>m'. silent_reach fmt m m' \<and> pump m' = PumpRecord \<and> inner m' = Some (length (procs m)) \<and>
    pr_alive (procs m' ! length (procs m)) \<and> \<not> pr_alive (procs m' ! h) \<and>
    Restarts m' = Restarts m + 1 \<and> lastRestartReason m' = probe_timeout_reason \<and>
    ProbesTimedOut m' = ProbesTimedOut m + 1 \<and> pendingProbe m' = None"
proof -
  have "probe_inv m"
    by (rule reach_inv [OF r]) (use step_probe_inv in \<open>auto simp: probe_inv_def started_def\<close>)
  then obtain due where "(st, due) \<in> set (timers m)" using pr by (force simp: probe_inv_def)
  then obtain before after where t: "timers m = before @ (st, due) # after" by (meson split_list)
  have "procs_inv m"
    by (rule reach_inv [OF r]) (use step_procs_inv in \<open>auto simp: procs_inv_def started_def\<close>)
  then have h: "h < length (procs m)" using pc by (simp add: procs_inv_def)
  define m1 where "m1 = m\<lparr>clock := max (clock m + 1) due\<rparr>"
  define m2 where "m2 = probe_timeout st (m1\<lparr>timers := before @ after\<rparr>)"
  define m3 where "m3 = (take_reason 0 (m2\<lparr>pump := PumpReason\<rparr>))\<lparr>pump := PumpRespawn\<rparr>"
  have s1: "silent_reach fmt m m1"
    unfolding m1_def by (rule silent_more [OF silent_start step.tick not_inner_acts]) auto
  have "step fmt m1 m2" unfolding m2_def by (rule step.timer_fires [where due = due]) (simp_all add: m1_def t)
  moreover have "length (timers m2) \<noteq> length (timers m1)" using pc(2) by (simp add: m2_def m1_def t op_defs)
  ultimately have s2: "silent_reach fmt m m2" by (intro silent_more [OF s1] not_inner_acts) auto
  have m2: "pump m2 = PumpForward h" "\<not> pr_alive (procs m2 ! h)" "\<not> cancelled m2" "inner m2 = Some h"
      "nextRestartReason m2 = probe_timeout_reason" "ProbesTimedOut m2 = ProbesTimedOut m + 1"
      "pendingProbe m2 = None" "length (procs m2) = length (procs m)" "Restarts m2 = Restarts m"
    using pc pr h by (simp_all add: m2_def m1_def op_defs)
  have "silent_reach fmt m (m2\<lparr>pump := PumpReaped\<rparr>)"
    by (rule silent_pump [OF s2 step.pump_eof [OF m2(1,2)]]) (simp add: m2)
  then have "silent_reach fmt m (m2\<lparr>pump := PumpReason\<rparr>)"
    using silent_pump [OF _ step.pump_reaped [of "m2\<lparr>pump := PumpReaped\<rparr>"]] m2(3) by simp
  then have s3: "silent_reach fmt m m3" unfolding m3_def
    by (rule silent_pump) (rule step.pump_reason, simp_all)
  have m3: "inner m3 = Some h" "h < length (procs m3)" "pump m3 = PumpRespawn" "length (procs m3) = length (procs m)"
      "\<not> pr_alive (procs m3 ! h)" "Restarts m3 = Restarts m" "lastRestartReason m3 = probe_timeout_reason"
      "ProbesTimedOut m3 = ProbesTimedOut m + 1" "pendingProbe m3 = None"
    using m2 h by (simp_all add: m3_def take_reason_def probe_timeout_reason_def)
  define m4 where "m4 = fst (respawn \<lparr>re_spawn = None, re_okInit = True, re_okInitialized = True, re_okNotify = True\<rparr> m3)"
  note m4 = respawn_all_ok [OF m3(1,2), folded m4_def]
  have "silent_reach fmt m (m4\<lparr>pump := PumpCount\<rparr>)"
    by (rule silent_pump [OF s3 step.pump_respawn [OF m3(3) m4(1)]]) (simp add: m3)
  then have "silent_reach fmt m (m4\<lparr>Restarts := Restarts m4 + 1, pump := PumpRecord\<rparr>)"
    using silent_pump [OF _ step.pump_count [of "m4\<lparr>pump := PumpCount\<rparr>"]] by simp
  then show ?thesis using m3 m4
    by (intro exI [of _ "m4\<lparr>Restarts := Restarts m4 + 1, pump := PumpRecord\<rparr>"]) simp
qed

section \<open>Two races\<close>

text \<open>The run in which the first process exits before it has answered its probe.\<close>

definition sup0 :: machine where
  "sup0 = started 0 0 0 0 0"

definition probe1 :: probeState where
  "probe1 = \<lparr>ps_id = probe_id 1, ps_sentAt = 0\<rparr>"

definition sup_probed :: machine where
  "sup_probed = (probe_finish True probe1 (sup0\<lparr>probeIDCounter := 1, pendingProbe := Some probe1,
     prober := ProbeStored probe1\<rparr>))\<lparr>prober := ProbeWait\<rparr>"

definition sup_exited :: machine where
  "sup_exited = kill_proc 0 sup_probed"

lemma sup_probed_reach: "reach fmt sup0 sup_probed"
proof -
  let ?m1 = "sup0\<lparr>probeIDCounter := 1, pendingProbe := Some probe1, prober := ProbeStored probe1\<rparr>"
  have "reach fmt sup0 ?m1"
    by (rule reach.more [OF reach.start])
      (use step.probe_store [of sup0 probe1 "sup0\<lparr>probeIDCounter := 1, pendingProbe := Some probe1\<rparr>" fmt]
       in \<open>simp add: probe_begin_def sup0_def started_def probe1_def Let_def\<close>)
  then show ?thesis unfolding sup_probed_def by (rule reach.more) (rule step.probe_send, simp)
qed

lemma sup_exited_reach: "reach fmt sup0 (sup_exited\<lparr>pump := PumpReason\<rparr>)"
proof -
  have 3: "reach fmt sup0 sup_exited" unfolding sup_exited_def
    by (rule reach.more [OF sup_probed_reach])
      (rule step.proc_exit, simp add: op_defs sup_probed_def sup0_def started_def)
  have f: "pump sup_exited = PumpCheck" "\<not> cancelled sup_exited" "inner sup_exited = Some 0"
      "\<not> pr_alive (procs sup_exited ! 0)"
    by (simp_all add: sup_exited_def sup_probed_def op_defs sup0_def started_def)
  have "reach fmt sup0 (sup_exited\<lparr>pump := PumpPick\<rparr>)"
    by (rule reach.more [OF 3 step.pump_check]) (simp_all add: f)
  then have "reach fmt sup0 ((sup_exited\<lparr>pump := PumpPick\<rparr>)\<lparr>pump := PumpForward 0\<rparr>)"
    by (rule reach.more) (rule step.pump_pick, simp_all add: f)
  then have "reach fmt sup0 ((sup_exited\<lparr>pump := PumpForward 0\<rparr>)\<lparr>pump := PumpReaped\<rparr>)"
    by (intro reach.more [OF _ step.pump_eof [where h = 0]]) (simp_all add: f)
  then have "reach fmt sup0 ((sup_exited\<lparr>pump := PumpReaped\<rparr>)\<lparr>pump := PumpReason\<rparr>)"
    by (intro reach.more [OF _ step.pump_reaped]) (simp_all add: f)
  then show ?thesis by simp
qed


lemma respawn_pump:
  "respawn e (w\<lparr>pump := p\<rparr>) = (case respawn e w of (w1, r) \<Rightarrow> (w1\<lparr>pump := p\<rparr>, r))"
  by (auto simp: op_defs split: op_splits)

lemma recordRestart_pump:
  "recordRestart (w\<lparr>pump := p\<rparr>) = (case recordRestart w of (w1, r) \<Rightarrow> (w1\<lparr>pump := p\<rparr>, r))"
  by (simp add: recordRestart_def max_restarts_def restart_window_def Let_def)

text \<open>Undisturbed, the steps of the pump from the exit to the next iteration are \<open>restart_inner\<close>.\<close>

lemma restart_steps:
  assumes r: "reach fmt m0 m" and pc: "pump m = PumpReason" and ri: "restart_inner code e m = (m1, None)"
  shows "reach fmt m0 (m1\<lparr>pump := PumpCheck\<rparr>)"
proof -
  obtain b where b: "respawn e (take_reason code m) = (b, None)"
      and c: "recordRestart (b\<lparr>Restarts := Restarts b + 1\<rparr>) = (m1, None)"
    using ri by (auto simp: restart_inner_def split: prod.splits option.splits)
  have 1: "reach fmt m0 ((take_reason code m)\<lparr>pump := PumpRespawn\<rparr>)"
    by (rule reach.more [OF r step.pump_reason [OF pc]])
  have "respawn e ((take_reason code m)\<lparr>pump := PumpRespawn\<rparr>) = (b\<lparr>pump := PumpRespawn\<rparr>, None)"
    using b by (simp add: respawn_pump)
  then have "reach fmt m0 ((b\<lparr>pump := PumpRespawn\<rparr>)\<lparr>pump := PumpCount\<rparr>)"
    by (intro reach.more [OF 1 step.pump_respawn]) simp_all
  then have "reach fmt m0 ((b\<lparr>pump := PumpCount\<rparr>)\<lparr>Restarts := Restarts (b\<lparr>pump := PumpCount\<rparr>) + 1, pump := PumpRecord\<rparr>)"
    by (intro reach.more [OF _ step.pump_count]) simp_all
  then have 3: "reach fmt m0 ((b\<lparr>Restarts := Restarts b + 1\<rparr>)\<lparr>pump := PumpRecord\<rparr>)" by simp
  have "recordRestart ((b\<lparr>Restarts := Restarts b + 1\<rparr>)\<lparr>pump := PumpRecord\<rparr>) = (m1\<lparr>pump := PumpRecord\<rparr>, None)"
    unfolding recordRestart_pump c by simp
  then have "reach fmt m0 ((m1\<lparr>pump := PumpRecord\<rparr>)\<lparr>pump := PumpCheck\<rparr>)"
    by (intro reach.more [OF 3 step.pump_record]) simp_all
  then show ?thesis by simp
qed

definition all_ok :: respawn_env where
  "all_ok = \<lparr>re_spawn = None, re_okInit = True, re_okInitialized = True, re_okNotify = True\<rparr>"

lemmas restart_defs = restart_inner_def all_ok_def started_def op_defs restart_window_def max_restarts_def
  default_to_def defaultMaxRestarts_def

lemmas run_defs = restart_inner_def all_ok_def sup_exited_def sup_probed_def sup0_def started_def probe1_def op_defs
  restart_window_def max_restarts_def default_to_def defaultMaxRestarts_def

text \<open>
  C13: A restart does not clear the probe in flight, so its timer kills a healthy successor. A run with the default
  settings, in which the first process exits before it has answered its probe, reaches a state where the second process is alive
  and has been written nothing, no probe included, while the only probe ever sent, written to the first
  process, is still in flight and its timer is due; the firing of that timer is a step, and it kills the second process.
\<close>
theorem stale_probe_kills_new_process:
  "\<exists>m due m'. reach fmt sup0 m \<and> inner m = Some 1 \<and> procs m ! 1 = \<lparr>pr_alive = True, pr_stdin = []\<rparr> \<and>
     procs m ! 0 = \<lparr>pr_alive = False, pr_stdin = [probe_line (ps_id probe1)]\<rparr> \<and> ProbesSent m = 1 \<and>
     pendingProbe m = Some probe1 \<and> timers m = [(probe1, due)] \<and> due \<le> clock m \<and>
     m' = probe_timeout probe1 (m\<lparr>timers := []\<rparr>) \<and> step fmt m m' \<and>
     procs m' ! 1 = \<lparr>pr_alive = False, pr_stdin = []\<rparr>"
proof -
  let ?m = "sup_exited\<lparr>pump := PumpReason\<rparr>"
  define m1 where "m1 = fst (restart_inner 0 all_ok ?m)"
  have "restart_inner 0 all_ok ?m = (m1, None)"
    unfolding m1_def by (simp add: run_defs)
  then have 1: "reach fmt sup0 (m1\<lparr>pump := PumpCheck\<rparr>)"
    by (intro restart_steps [OF sup_exited_reach]) simp_all
  define m2 where "m2 = (m1\<lparr>pump := PumpCheck\<rparr>)\<lparr>clock := 5000000000\<rparr>"
  have 2: "reach fmt sup0 m2" unfolding m2_def
    by (rule reach.more [OF 1 step.tick]) (simp add: m1_def run_defs)
  have m2: "inner m2 = Some 1" "procs m2 ! 1 = \<lparr>pr_alive = True, pr_stdin = []\<rparr>"
      "procs m2 ! 0 = \<lparr>pr_alive = False, pr_stdin = [probe_line (ps_id probe1)]\<rparr>" "ProbesSent m2 = 1"
      "pendingProbe m2 = Some probe1" "timers m2 = [(probe1, 5000000000)]" "clock m2 = 5000000000" "1 < length (procs m2)"
    by (simp_all add: m2_def m1_def run_defs defaultProbeTimeout_def fresh_proc_def)
  have "step fmt m2 (probe_timeout probe1 (m2\<lparr>timers := [] @ []\<rparr>))"
    by (rule step.timer_fires [where due = 5000000000]) (simp_all add: m2)
  moreover have "procs (probe_timeout probe1 (m2\<lparr>timers := []\<rparr>)) ! 1 = \<lparr>pr_alive = False, pr_stdin = []\<rparr>"
    using m2 by (simp add: op_defs)
  ultimately show ?thesis using 2 m2
    by (intro exI [of _ m2] exI [of _ 5000000000] exI [of _ "probe_timeout probe1 (m2\<lparr>timers := []\<rparr>)"]) simp
qed

text \<open>
  \<open>Run\<close> can return and leave a process running: if the client disconnects after the pump has checked the context
  and before it respawns, the shutdown kills the old process only, and the pump then starts a new one
  and stops at its next check.
\<close>
theorem shutdown_leaks_process:
  "\<exists>m. reach fmt sup0 m \<and> runner m = RunReturned None \<and> pump m = PumpDone None \<and> client m = ClientDone None \<and>
     inner m = Some 1 \<and> pr_alive (procs m ! 1)"
proof -
  define m3 where "m3 = started 0 0 0 0 0\<lparr>inner := None, probeIDCounter := 1, pendingProbe := Some probe1,
      ProbesSent := 1, timers := [(probe1, defaultProbeTimeout)], pump := PumpReason, client := ClientDone None,
      cancelled := True, runner := RunDraining None,
      procs := [\<lparr>pr_alive = False, pr_stdin = [probe_line (ps_id probe1)]\<rparr>]\<rparr>"
  let ?m = "sup_exited\<lparr>pump := PumpReason\<rparr>"
  have c: "client ?m = ClientRead" "runner ?m = RunSelect" by (simp_all add: run_defs)
  have 1: "reach fmt sup0 (?m\<lparr>client := ClientDone None\<rparr>)"
    by (rule reach.more [OF sup_exited_reach step.client_eof]) (rule c)
  have 2: "reach fmt sup0 (?m\<lparr>client := ClientDone None, runner := RunStopping None\<rparr>)"
    by (rule reach.more [OF 1]) (use step.run_client [of "?m\<lparr>client := ClientDone None\<rparr>" None fmt] c in simp)
  have "reach fmt sup0 (?m\<lparr>client := ClientDone None, cancelled := True, runner := RunCancelled None\<rparr>)"
    by (rule reach.more [OF 2])
      (use step.run_cancel [of "?m\<lparr>client := ClientDone None, runner := RunStopping None\<rparr>" None fmt] in simp)
  then have "reach fmt sup0 ((shutdownInner (?m\<lparr>client := ClientDone None, cancelled := True, runner := RunCancelled None\<rparr>))
      \<lparr>runner := RunDraining None\<rparr>)"
    by (intro reach.more [OF _ step.run_shutdown]) simp_all
  then have 3: "reach fmt sup0 m3" by (simp add: m3_def run_defs fresh_proc_def)
  define m4 where "m4 = fst (restart_inner 0 all_ok m3)"
  have "restart_inner 0 all_ok m3 = (m4, None)" unfolding m4_def by (simp add: m3_def restart_defs)
  then have 4: "reach fmt sup0 (m4\<lparr>pump := PumpCheck\<rparr>)"
    by (intro restart_steps [OF 3]) (simp_all add: m3_def)
  have m4: "cancelled m4" "runner m4 = RunDraining None" "client m4 = ClientDone None" "inner m4 = Some 1"
      "pr_alive (procs m4 ! Suc 0)"
    by (simp_all add: m4_def m3_def restart_defs fresh_proc_def)
  have "reach fmt sup0 ((m4\<lparr>pump := PumpCheck\<rparr>)\<lparr>pump := PumpDone None\<rparr>)"
    by (rule reach.more [OF 4 step.pump_cancelled]) (simp_all add: m4)
  then have "reach fmt sup0 ((m4\<lparr>pump := PumpDone None\<rparr>)\<lparr>runner := RunReturned None\<rparr>)"
    by (intro reach.more [OF _ step.run_drained]) (simp_all add: m4)
  then show ?thesis
    by (intro exI [of _ "(m4\<lparr>pump := PumpDone None\<rparr>)\<lparr>runner := RunReturned None\<rparr>"]) (simp add: m4)
qed


lemma sentinels_never_reach_client_witness: "\<not> carries_sentinel ''x''"
proof -
  have f: "pump sup_probed = PumpCheck" "\<not> cancelled sup_probed" "inner sup_probed = Some 0"
    by (simp_all add: run_defs)
  have "reach (\<lambda>_. '''') sup0 (sup_probed\<lparr>pump := PumpPick\<rparr>)"
    by (rule reach.more [OF sup_probed_reach step.pump_check]) (simp_all add: f)
  then have "reach (\<lambda>_. '''') sup0 ((sup_probed\<lparr>pump := PumpPick\<rparr>)\<lparr>pump := PumpForward 0\<rparr>)"
    by (rule reach.more) (rule step.pump_pick, simp_all add: f)
  then have r: "reach (\<lambda>_. '''') sup0 (forward_line ''x'' (sup_probed\<lparr>pump := PumpForward 0\<rparr>))"
    by (intro reach.more [OF _ step.pump_line [where h = 0]]) simp_all
  have "inner_head ''x'' = None" by code_simp
  then have "''x'' \<in> set (Stdout (forward_line ''x'' (sup_probed\<lparr>pump := PumpForward 0\<rparr>)))"
    by (simp add: forward_line_def classifyInnerLine_def)
  then show ?thesis using sentinels_never_reach_client [OF r [unfolded sup0_def]]
    by (auto simp: tools_list_changed_def status_reply_def)
qed

lemma pending_probe_is_armed_witness: "\<exists>due. (probe1, due) \<in> set (timers sup_probed)"
proof -
  have "pendingProbe sup_probed = Some probe1" "prober sup_probed = ProbeWait" by (simp_all add: run_defs)
  then show ?thesis
    using pending_probe_is_armed [OF sup_probed_reach [of "\<lambda>_. ''''", unfolded sup0_def]] by auto
qed

lemma breaker_bounds_restarts_witness: "int (length (restartHistory sup_probed)) \<le> Restarts sup_probed"
  using breaker_bounds_restarts [OF sup_probed_reach [of "\<lambda>_. ''''", unfolded sup0_def]]
  by (simp add: default_to_def defaultMaxRestarts_def)

lemma hung_process_is_replaced_witness:
  "\<exists>m'. silent_reach (\<lambda>_. '''') (sup_probed\<lparr>pump := PumpForward 0\<rparr>) m' \<and> pump m' = PumpRecord \<and> inner m' = Some 1 \<and>
    pr_alive (procs m' ! 1) \<and> \<not> pr_alive (procs m' ! 0) \<and> Restarts m' = 1 \<and>
    lastRestartReason m' = probe_timeout_reason \<and> ProbesTimedOut m' = 1 \<and> pendingProbe m' = None"
proof -
  have f: "pump sup_probed = PumpCheck" "\<not> cancelled sup_probed" "inner sup_probed = Some 0"
      "pendingProbe sup_probed = Some probe1" "prober sup_probed = ProbeWait" "length (procs sup_probed) = 1"
      "Restarts sup_probed = 0" "ProbesTimedOut sup_probed = 0"
    by (simp_all add: run_defs)
  have "reach (\<lambda>_. '''') sup0 (sup_probed\<lparr>pump := PumpPick\<rparr>)"
    by (rule reach.more [OF sup_probed_reach step.pump_check]) (simp_all add: f)
  then have "reach (\<lambda>_. '''') sup0 ((sup_probed\<lparr>pump := PumpPick\<rparr>)\<lparr>pump := PumpForward 0\<rparr>)"
    by (rule reach.more) (rule step.pump_pick, simp_all add: f)
  then have r: "reach (\<lambda>_. '''') sup0 (sup_probed\<lparr>pump := PumpForward 0\<rparr>)" by simp
  show ?thesis
    using hung_process_is_replaced [OF r [unfolded sup0_def], of 0 probe1] by (simp add: f)
qed

text \<open>The run in which the client has sent an \<open>initialize\<close> request and the first process then exits.\<close>

definition init_line :: string where
  "init_line = ''{'' @ quoted ''id'' @ '':7, '' @ quoted ''method'' @ '':'' @ quoted ''initialize'' @ '', ''
     @ quoted ''params'' @ '': [1.5e3, {}]}''"

definition sup_init :: machine where
  "sup_init = (maybeCaptureInit init_line sup0)\<lparr>client := ClientHave init_line\<rparr>"

definition sup_restarting :: machine where
  "sup_restarting = (take_reason 0 (kill_proc 0 sup_init))\<lparr>pump := PumpRespawn\<rparr>"

lemma init_line_head: "capture_head init_line = Some (''initialize'', ''[1.5e3, {}]'')"
  by code_simp

lemma keep_have: "reach_keeping fmt m0 m \<Longrightarrow> step fmt m m' \<Longrightarrow> client m = ClientHave line \<Longrightarrow> reach_keeping fmt m0 m'"
  by (erule keep_more) (auto simp: sends_initialize_def)

lemma sup_restarting_reach: "reach_keeping fmt sup_init sup_restarting"
proof -
  define k where "k = kill_proc 0 sup_init"
  have k: "client k = ClientHave init_line" "pump k = PumpCheck" "\<not> cancelled k" "inner k = Some 0" "\<not> pr_alive (procs k ! 0)"
    by (simp_all add: k_def sup_init_def sup0_def started_def maybeCaptureInit_def init_line_head kill_proc_def)
  have "reach_keeping fmt sup_init k" unfolding k_def
    by (rule keep_have [OF keep_start step.proc_exit])
      (simp_all add: sup_init_def sup0_def started_def maybeCaptureInit_def init_line_head)
  then have "reach_keeping fmt sup_init (k\<lparr>pump := PumpPick\<rparr>)"
    by (rule keep_have [OF _ step.pump_check]) (simp_all add: k)
  then have "reach_keeping fmt sup_init ((k\<lparr>pump := PumpPick\<rparr>)\<lparr>pump := PumpForward 0\<rparr>)"
    by (rule keep_have [OF _ step.pump_pick]) (simp_all add: k)
  then have "reach_keeping fmt sup_init ((k\<lparr>pump := PumpForward 0\<rparr>)\<lparr>pump := PumpReaped\<rparr>)"
    by (intro keep_have [OF _ step.pump_eof [where h = 0]]) (simp_all add: k)
  then have "reach_keeping fmt sup_init ((k\<lparr>pump := PumpReaped\<rparr>)\<lparr>pump := PumpReason\<rparr>)"
    by (intro keep_have [OF _ step.pump_reaped]) (simp_all add: k)
  then have "reach_keeping fmt sup_init ((take_reason 0 (k\<lparr>pump := PumpReason\<rparr>))\<lparr>pump := PumpRespawn\<rparr>)"
    by (intro keep_have [OF _ step.pump_reason]) (simp_all add: k)
  moreover have "(take_reason c (w\<lparr>pump := p\<rparr>))\<lparr>pump := q\<rparr> = (take_reason c w)\<lparr>pump := q\<rparr>" for c p q and w :: machine
    by (simp add: take_reason_def)
  ultimately show ?thesis by (simp only: sup_restarting_def k_def)
qed

lemma handshake_replay_witness:
  "\<exists>replay ms. procs (fst (respawn all_ok sup_restarting)) ! 1 = \<lparr>pr_alive = True, pr_stdin = [replay]\<rparr> \<and>
     unmarshal_members replay = Some ms \<and> str_field ''method'' '''' ms = Some ''initialize'' \<and>
     raw_field ''params'' '''' ms = ''[1.5e3, {}]''"
proof -
  define m1 where "m1 = fst (respawn all_ok sup_restarting)"
  have f: "pump sup_restarting = PumpRespawn" "length (procs sup_restarting) = 1" "initializedLine sup_restarting = ''''"
      "inner sup_restarting = Some 0"
    by (simp_all add: sup_restarting_def sup_init_def sup0_def started_def maybeCaptureInit_def init_line_head
        kill_proc_def take_reason_def)
  have "respawn all_ok sup_restarting = (m1, None)"
    using respawn_all_ok(1) [OF f(4)] f(2) by (simp add: m1_def all_ok_def)
  then have s: "step (\<lambda>_. '''') sup_restarting (m1\<lparr>pump := PumpCount\<rparr>)" by (rule step.pump_respawn [OF f(1)])
  show ?thesis
    using handshake_replay [OF init_line_head sup_restarting_reach [unfolded sup_init_def] s f(1)] f(2,3)
    by (auto simp: m1_def)
qed

end
