(* ===== verification/Closure.thy ===== *)
theory Closure
  imports Pincher_Prelude
begin

text \<open>
  The materialized call-graph closure (\<open>internal/db/closure.go\<close>): \<open>BuildClosure\<close>, a breadth-first search from every
  source up to a depth, and the trace lookup that reads it.

  The database answers are arguments: the edges the SELECT returns and whether each statement succeeds. The
  table is a list of rows; a transaction replaces it on commit and leaves it on rollback. Go iterates over the
  sources in an unspecified order; the order of the association list stands for one.
\<close>

section \<open>Configuration\<close>

definition ClosureEnabled :: "string \<Rightarrow> bool" where
  "ClosureEnabled v \<longleftrightarrow> v = ''1'' \<or> v = ''true'' \<or> v = ''TRUE''"

definition defaultClosureDepth :: int where "defaultClosureDepth = 3"

definition ClosureMaxDepth :: "string \<Rightarrow> int" where
  "ClosureMaxDepth v =
     (if v = '''' then defaultClosureDepth
      else (case go_atoi v of
          None \<Rightarrow> defaultClosureDepth
        | Some n \<Rightarrow> if n < 1 then defaultClosureDepth else if n > 8 then 8 else n))"

section \<open>Rows, replies and errors\<close>

record closure_row =
  cr_project :: string
  cr_from :: string
  cr_to :: string
  cr_depth :: nat
  cr_kind :: string

datatype edges_reply = EdgesErr | EdgesScanErr | EdgesIterErr | EdgesOk "(string \<times> string \<times> string) list"

datatype closure_error =
    ErrMaxDepth int | ErrReadEdges | ErrScanEdge | ErrEdgeIter | ErrBegin | ErrDeletePrior
  | ErrPrepare | ErrInsert | ErrCloseStmt | ErrCommit

record closure_env =
  ce_edges :: edges_reply
  ce_begin :: bool
  ce_delete :: bool
  ce_prepare :: bool
  ce_insert :: "closure_row \<Rightarrow> bool"
  ce_close :: bool
  ce_commit :: bool

section \<open>The adjacency list\<close>

type_synonym adjacency = "(string \<times> (string \<times> string) list) list"

definition targets :: "adjacency \<Rightarrow> string \<Rightarrow> (string \<times> string) list" where
  "targets adj u = (case map_of adj u of None \<Rightarrow> [] | Some es \<Rightarrow> es)"

definition add_edge :: "adjacency \<Rightarrow> string \<times> string \<times> string \<Rightarrow> adjacency" where
  "add_edge adj e = (case e of (u, v, k) \<Rightarrow> AList.update u (targets adj u @ [(v, k)]) adj)"

definition adjacency_of :: "(string \<times> string \<times> string) list \<Rightarrow> adjacency" where
  "adjacency_of es = foldl add_edge [] es"

section \<open>The search\<close>

type_synonym bfs_state = "(string \<rightharpoonup> nat) \<times> (string \<times> string) list \<times> closure_row list"

text \<open>The loops over the edges of one node, over the frontier, over the levels, over the sources.\<close>

fun visit_edges ::
    "(closure_row \<Rightarrow> bool) \<Rightarrow> (string \<Rightarrow> nat \<Rightarrow> string \<Rightarrow> closure_row) \<Rightarrow> nat \<Rightarrow>
     (string \<times> string) list \<Rightarrow> bfs_state \<Rightarrow> closure_error + bfs_state" where
  "visit_edges ok row d [] st = Inr st"
| "visit_edges ok row d ((v, k) # es) (seen, nxt, rows) =
     (if seen v \<noteq> None then visit_edges ok row d es (seen, nxt, rows)
      else if ok (row v d k) then
        visit_edges ok row d es (seen(v \<mapsto> d), nxt @ [(v, k)], rows @ [row v d k])
      else Inl ErrInsert)"

fun visit_frontier ::
    "(closure_row \<Rightarrow> bool) \<Rightarrow> (string \<Rightarrow> nat \<Rightarrow> string \<Rightarrow> closure_row) \<Rightarrow> adjacency \<Rightarrow> nat \<Rightarrow>
     (string \<times> string) list \<Rightarrow> bfs_state \<Rightarrow> closure_error + bfs_state" where
  "visit_frontier ok row adj d [] st = Inr st"
| "visit_frontier ok row adj d ((u, k) # us) st =
     bind_res (visit_edges ok row d (targets adj u) st) (visit_frontier ok row adj d us)"

text \<open>\<open>n\<close> is the number of levels left, \<open>maxDepth - d + 1\<close>.\<close>

fun bfs_levels ::
    "(closure_row \<Rightarrow> bool) \<Rightarrow> (string \<Rightarrow> nat \<Rightarrow> string \<Rightarrow> closure_row) \<Rightarrow> adjacency \<Rightarrow> nat \<Rightarrow> nat \<Rightarrow>
     (string \<times> string) list \<Rightarrow> (string \<rightharpoonup> nat) \<Rightarrow> closure_row list \<Rightarrow> closure_error + closure_row list" where
  "bfs_levels ok row adj d 0 frontier seen rows = Inr rows"
| "bfs_levels ok row adj d (Suc n) frontier seen rows =
     (if frontier = [] then Inr rows
      else bind_res (visit_frontier ok row adj d frontier (seen, [], rows))
        (\<lambda>(seen', nxt, rows'). bfs_levels ok row adj (Suc d) n nxt seen' rows'))"

definition bfs_source ::
    "(closure_row \<Rightarrow> bool) \<Rightarrow> string \<Rightarrow> adjacency \<Rightarrow> nat \<Rightarrow> string \<Rightarrow> closure_row list \<Rightarrow>
     closure_error + closure_row list" where
  "bfs_source ok pid adj depth u rows =
     bfs_levels ok (\<lambda>v d k. \<lparr>cr_project = pid, cr_from = u, cr_to = v, cr_depth = d, cr_kind = k\<rparr>) adj 1 depth
       [(u, '''')] [u \<mapsto> 0] rows"

fun bfs_sources ::
    "(closure_row \<Rightarrow> bool) \<Rightarrow> string \<Rightarrow> adjacency \<Rightarrow> nat \<Rightarrow> string list \<Rightarrow> closure_row list \<Rightarrow>
     closure_error + closure_row list" where
  "bfs_sources ok pid adj depth [] rows = Inr rows"
| "bfs_sources ok pid adj depth (u # us) rows =
     bind_res (bfs_source ok pid adj depth u rows) (bfs_sources ok pid adj depth us)"

text \<open>\<open>INSERT OR IGNORE\<close> under the primary key (project, from, to).\<close>

definition insert_or_ignore :: "closure_row list \<Rightarrow> closure_row \<Rightarrow> closure_row list" where
  "insert_or_ignore table r =
     (if \<exists>x \<in> set table. cr_project x = cr_project r \<and> cr_from x = cr_from r \<and> cr_to x = cr_to r
      then table else table @ [r])"

definition BuildClosure ::
    "closure_env \<Rightarrow> string \<Rightarrow> int \<Rightarrow> closure_row list \<Rightarrow> closure_row list \<times> closure_error option" where
  "BuildClosure env pid maxDepth table =
     (if maxDepth < 1 then (table, Some (ErrMaxDepth maxDepth))
      else (case ce_edges env of
          EdgesErr \<Rightarrow> (table, Some ErrReadEdges)
        | EdgesScanErr \<Rightarrow> (table, Some ErrScanEdge)
        | EdgesIterErr \<Rightarrow> (table, Some ErrEdgeIter)
        | EdgesOk es \<Rightarrow>
            if \<not> ce_begin env then (table, Some ErrBegin)
            else if \<not> ce_delete env then (table, Some ErrDeletePrior)
            else if \<not> ce_prepare env then (table, Some ErrPrepare)
            else let adj = adjacency_of es in
              (case bfs_sources (ce_insert env) pid adj (nat maxDepth) (map fst adj) [] of
                 Inl e \<Rightarrow> (table, Some e)
               | Inr rows \<Rightarrow>
                   if \<not> ce_close env then (table, Some ErrCloseStmt)
                   else if \<not> ce_commit env then (table, Some ErrCommit)
                   else (foldl insert_or_ignore (filter (\<lambda>r. cr_project r \<noteq> pid) table) rows, None))))"

section \<open>The trace lookup\<close>

record trace_result =
  tr_SymbolID :: string
  tr_Depth :: nat
  tr_ViaKind :: string

definition trace_order :: "trace_result \<Rightarrow> trace_result \<Rightarrow> bool" where
  "trace_order a b \<longleftrightarrow> tr_Depth a < tr_Depth b \<or> (tr_Depth a = tr_Depth b \<and> tr_SymbolID a < tr_SymbolID b)"

text \<open>The two SELECT statements: rows of the start node up to the depth, ordered, at most 500.\<close>

definition select_outbound :: "closure_row list \<Rightarrow> string \<Rightarrow> string \<Rightarrow> int \<Rightarrow> trace_result list" where
  "select_outbound table pid start depth =
     take 500 (sort_stable trace_order (map (\<lambda>r. \<lparr>tr_SymbolID = cr_to r, tr_Depth = cr_depth r, tr_ViaKind = cr_kind r\<rparr>)
       (filter (\<lambda>r. cr_project r = pid \<and> cr_from r = start \<and> int (cr_depth r) \<le> depth) table)))"

definition select_inbound :: "closure_row list \<Rightarrow> string \<Rightarrow> string \<Rightarrow> int \<Rightarrow> trace_result list" where
  "select_inbound table pid start depth =
     take 500 (sort_stable trace_order (map (\<lambda>r. \<lparr>tr_SymbolID = cr_from r, tr_Depth = cr_depth r, tr_ViaKind = cr_kind r\<rparr>)
       (filter (\<lambda>r. cr_project r = pid \<and> cr_to r = start \<and> int (cr_depth r) \<le> depth) table)))"

text \<open>Each statement and the scan of its rows succeed or not; a failure drops what the other direction found.\<close>

datatype trace_error = TraceOutboundErr | TraceInboundErr

definition TraceViaClosure ::
    "bool \<Rightarrow> bool \<Rightarrow> closure_row list \<Rightarrow> string \<Rightarrow> string \<Rightarrow> string \<Rightarrow> int \<Rightarrow> trace_error + trace_result list" where
  "TraceViaClosure out_ok in_ok table pid start direction depth =
     bind_res
       (if direction = ''outbound'' \<or> direction = ''both''
        then if out_ok then Inr (select_outbound table pid start depth) else Inl TraceOutboundErr
        else Inr [])
       (\<lambda>out. if direction = ''inbound'' \<or> direction = ''both''
          then if in_ok then Inr (out @ select_inbound table pid start depth) else Inl TraceInboundErr
          else Inr out)"

text \<open>
  The merge of \<open>traceViaCTE\<close> (\<open>internal/db/db.go\<close>), which the lookup stands in for: one result per symbol, at its
  smallest depth.
\<close>

definition merge_result :: "(string \<times> trace_result) list \<Rightarrow> trace_result \<Rightarrow> (string \<times> trace_result) list" where
  "merge_result m r =
     (case map_of m (tr_SymbolID r) of
        Some x \<Rightarrow> if tr_Depth r < tr_Depth x then AList.update (tr_SymbolID r) r m else m
      | None \<Rightarrow> AList.update (tr_SymbolID r) r m)"

definition merge_results :: "trace_result list \<Rightarrow> trace_result list" where
  "merge_results rs = map snd (foldl merge_result [] rs)"

section \<open>Shortest distances\<close>

definition edge_rel :: "(string \<times> string \<times> string) list \<Rightarrow> (string \<times> string) set" where
  "edge_rel es = {(u, v). \<exists>k. (u, v, k) \<in> set es}"

text \<open>\<open>v\<close> is reached from \<open>u\<close> along \<open>n\<close> edges and not along fewer.\<close>

definition at_distance :: "(string \<times> string \<times> string) list \<Rightarrow> string \<Rightarrow> nat \<Rightarrow> string \<Rightarrow> bool" where
  "at_distance es u n v \<longleftrightarrow> (u, v) \<in> edge_rel es ^^ n \<and> (\<forall>m < n. (u, v) \<notin> edge_rel es ^^ m)"

lemma at_distance_0 [simp]: "at_distance es u 0 v \<longleftrightarrow> v = u"
  by (auto simp: at_distance_def)

lemma at_distance_unique: "at_distance es u n v \<Longrightarrow> at_distance es u m v \<Longrightarrow> n = m"
  by (meson at_distance_def linorder_neqE_nat)

lemma at_distance_least: "(u, v) \<in> edge_rel es ^^ n \<Longrightarrow> \<exists>m \<le> n. at_distance es u m v"
proof (induction n rule: less_induct)
  case (less n)
  show ?case
  proof (cases "\<exists>m < n. (u, v) \<in> edge_rel es ^^ m")
    case True
    then show ?thesis using less.IH by (meson le_trans less_imp_le)
  next
    case False
    then show ?thesis using less.prems by (auto simp: at_distance_def)
  qed
qed

lemma at_distance_Suc:
  assumes "at_distance es u (Suc n) v"
  shows "\<exists>w. at_distance es u n w \<and> (w, v) \<in> edge_rel es"
proof -
  obtain w where w: "(u, w) \<in> edge_rel es ^^ n" "(w, v) \<in> edge_rel es"
    using assms by (auto simp: at_distance_def)
  then obtain m where m: "m \<le> n" "at_distance es u m w" using at_distance_least by blast
  then have "(u, v) \<in> edge_rel es ^^ Suc m" using w(2) by (auto simp: at_distance_def)
  then have "m = n" using assms m(1) by (metis Suc_less_eq at_distance_def le_neq_implies_less)
  then show ?thesis using m w by blast
qed

lemma at_distance_down: "at_distance es u n v \<Longrightarrow> m \<le> n \<Longrightarrow> \<exists>w. at_distance es u m w"
proof (induction n arbitrary: v)
  case (Suc n)
  then show ?case using at_distance_Suc by (metis le_Suc_eq)
qed auto

text \<open>One more level: the successors of the vertices at distance \<open>n\<close> that were not reached before.\<close>

lemma at_distance_next:
  "at_distance es u (Suc n) v \<longleftrightarrow>
     (\<exists>w. at_distance es u n w \<and> (w, v) \<in> edge_rel es) \<and> (\<nexists>m. m < Suc n \<and> at_distance es u m v)"
proof
  assume a: "at_distance es u (Suc n) v"
  then show "(\<exists>w. at_distance es u n w \<and> (w, v) \<in> edge_rel es) \<and> (\<nexists>m. m < Suc n \<and> at_distance es u m v)"
    using at_distance_Suc at_distance_unique by blast
next
  assume a: "(\<exists>w. at_distance es u n w \<and> (w, v) \<in> edge_rel es) \<and> (\<nexists>m. m < Suc n \<and> at_distance es u m v)"
  then have "(u, v) \<in> edge_rel es ^^ Suc n" by (auto simp: at_distance_def)
  then show "at_distance es u (Suc n) v" using a at_distance_least by (metis le_imp_less_or_eq)
qed

section \<open>The search finds the shortest distances\<close>

text \<open>
  What a pass over a set of edges adds to the search state: new nodes, each once, with one row each.
\<close>

definition extends ::
    "(string \<Rightarrow> nat \<Rightarrow> string \<Rightarrow> closure_row) \<Rightarrow> nat \<Rightarrow> (string \<times> string) set \<Rightarrow> bfs_state \<Rightarrow> bfs_state \<Rightarrow> bool" where
  "extends row d edges st st' \<longleftrightarrow>
     (case (st, st') of ((seen, nxt, rows), (seen', nxt', rows')) \<Rightarrow>
       \<exists>new. nxt' = nxt @ new \<and> rows' = rows @ map (\<lambda>(v, k). row v d k) new \<and>
         seen' = (\<lambda>v. if v \<in> fst ` set new then Some d else seen v) \<and>
         fst ` set new = fst ` edges - dom seen \<and> set new \<subseteq> edges \<and> distinct (map fst new))"

text \<open>The rows found from the level \<open>d\<close> on: one per vertex at these distances, with the kind of an edge of a shortest path.\<close>

definition found ::
    "(string \<times> string \<times> string) list \<Rightarrow> string \<Rightarrow> nat \<Rightarrow> nat \<Rightarrow> (string \<times> string \<times> nat) list \<Rightarrow> bool" where
  "found es u d n news \<longleftrightarrow>
     (\<forall>v e. (\<exists>k. (v, k, e) \<in> set news) \<longleftrightarrow> at_distance es u e v \<and> d \<le> e \<and> e < d + n) \<and>
     (\<forall>v k e. (v, k, e) \<in> set news \<longrightarrow> (\<exists>w. (w, v, k) \<in> set es \<and> at_distance es u (e - 1) w)) \<and>
     distinct (map fst news)"

lemma found_iff: "found es u d n news \<Longrightarrow> (\<exists>k. (v, k, e) \<in> set news) \<longleftrightarrow> at_distance es u e v \<and> d \<le> e \<and> e < d + n"
  by (simp only: found_def)

lemma found_edge: "found es u d n news \<Longrightarrow> (v, k, e) \<in> set news \<Longrightarrow> \<exists>w. (w, v, k) \<in> set es \<and> at_distance es u (e - 1) w"
  unfolding found_def by blast

lemma found_distinct: "found es u d n news \<Longrightarrow> distinct (map fst news)"
  by (simp only: found_def)

text \<open>What the search needs of its adjacency list: the targets of a node are its outgoing edges.\<close>

locale search =
  fixes adj :: adjacency and es :: "(string \<times> string \<times> string) list"
  assumes targets_edges: "(v, k) \<in> set (targets adj u) \<longleftrightarrow> (u, v, k) \<in> set es"
begin

lemma extends_refl: "extends row d {} st st"
  by (cases st) (auto simp: extends_def)

lemma extends_trans:
  assumes "extends row d A st st1" and "extends row d B st1 st2"
  shows "extends row d (A \<union> B) st st2"
proof -
  obtain seen nxt rows seen1 nxt1 rows1 where s: "st = (seen, nxt, rows)" "st1 = (seen1, nxt1, rows1)"
    by (cases st; cases st1) auto
  obtain new where n: "nxt1 = nxt @ new" "rows1 = rows @ map (\<lambda>(v, k). row v d k) new"
      "seen1 = (\<lambda>v. if v \<in> fst ` set new then Some d else seen v)"
      "fst ` set new = fst ` A - dom seen" "set new \<subseteq> A" "distinct (map fst new)"
    using assms(1) by (auto simp: extends_def s)
  obtain seen2 new2 where m: "st2 = (seen2, nxt1 @ new2, rows1 @ map (\<lambda>(v, k). row v d k) new2)"
      "seen2 = (\<lambda>v. if v \<in> fst ` set new2 then Some d else seen1 v)"
      "fst ` set new2 = fst ` B - dom seen1" "set new2 \<subseteq> B" "distinct (map fst new2)"
    using assms(2) by (cases st2) (auto simp: extends_def s)
  have dom1: "dom seen1 = fst ` set new \<union> dom seen" by (auto simp: n(3) dom_def)
  have "fst ` set (new @ new2) = fst ` (A \<union> B) - dom seen"
    unfolding set_append image_Un m(3) dom1 n(4) by blast
  moreover have "distinct (map fst (new @ new2))" using n(6) m(3,5) dom1 by auto
  moreover have "seen2 = (\<lambda>v. if v \<in> fst ` set (new @ new2) then Some d else seen v)"
    unfolding m(2) n(3) by (simp add: image_Un fun_eq_iff)
  ultimately show ?thesis
    using n(1,2,5) m(1,4) by (auto simp: extends_def s intro!: exI [of _ "new @ new2"])
qed

lemma visit_edges_extends: "visit_edges ok row d edges st = Inr st' \<Longrightarrow> extends row d (set edges) st st'"
proof (induction ok row d edges st arbitrary: st' rule: visit_edges.induct)
  case (2 ok row d v k edges seen nxt rows)
  show ?case
  proof (cases "seen v")
    case (Some n)
    then have "extends row d {(v, k)} (seen, nxt, rows) (seen, nxt, rows)"
      by (auto simp: extends_def)
    then show ?thesis using 2 Some extends_trans [of row d "{(v, k)}"] by fastforce
  next
    case None
    then have "extends row d {(v, k)} (seen, nxt, rows) (seen(v \<mapsto> d), nxt @ [(v, k)], rows @ [row v d k])"
      by (auto simp: extends_def intro!: exI [of _ "[(v, k)]"])
    then show ?thesis using 2 None extends_trans [of row d "{(v, k)}"] by (fastforce split: if_splits)
  qed
qed (simp add: extends_refl)

lemma visit_frontier_extends:
  "visit_frontier ok row adj d us st = Inr st' \<Longrightarrow>
     extends row d (\<Union>u \<in> fst ` set us. set (targets adj u)) st st'"
proof (induction us arbitrary: st)
  case (Cons u us)
  obtain w k where u: "u = (w, k)" by (cases u)
  obtain st1 where "visit_edges ok row d (targets adj w) st = Inr st1" "visit_frontier ok row adj d us st1 = Inr st'"
    using Cons.prems by (auto simp: u)
  then show ?case
    using extends_trans [OF visit_edges_extends Cons.IH] by (fastforce simp: u)
qed (simp add: extends_refl)

lemma succs_edge_rel:
  "v \<in> fst ` (\<Union>u \<in> A. set (targets adj u)) \<longleftrightarrow> (\<exists>w. w \<in> A \<and> (w, v) \<in> edge_rel es)"
proof -
  have "v \<in> fst ` set (targets adj w) \<longleftrightarrow> (w, v) \<in> edge_rel es" for w
    by (auto simp: edge_rel_def targets_edges image_iff Bex_def)
  then show ?thesis unfolding image_UN by blast
qed

lemma bfs_levels_found:
  assumes "bfs_levels ok row adj d n frontier seen rows = Inr rows'" and "1 \<le> d"
    and "\<And>v. v \<in> fst ` set frontier \<longleftrightarrow> at_distance es u (d - 1) v"
    and "\<And>v. v \<in> dom seen \<longleftrightarrow> (\<exists>m < d. at_distance es u m v)"
  shows "\<exists>news. rows' = rows @ map (\<lambda>(v, k, e). row v e k) news \<and> found es u d n news"
  using assms
proof (induction n arbitrary: d frontier seen rows rows')
  case 0
  then show ?case by (auto simp: found_def intro!: exI [of _ "[]"])
next
  case (Suc n)
  show ?case
  proof (cases "frontier = []")
    case True
    then have "\<not> at_distance es u e v" if "d \<le> e" for e v
    proof -
      have "d - 1 \<le> e" using that by linarith
      then show ?thesis using at_distance_down [of es u e v "d - 1"] Suc.prems(3) True by auto
    qed
    then show ?thesis using True Suc.prems(1) by (auto simp: found_def intro!: exI [of _ "[]"])
  next
    case False
    then obtain seen' nxt rows1 where v: "visit_frontier ok row adj d frontier (seen, [], rows) = Inr (seen', nxt, rows1)"
        "bfs_levels ok row adj (Suc d) n nxt seen' rows1 = Inr rows'"
      using Suc.prems(1) by auto
    obtain new where n: "nxt = new" "rows1 = rows @ map (\<lambda>(v, k). row v d k) new"
        "seen' = (\<lambda>v. if v \<in> fst ` set new then Some d else seen v)"
        "fst ` set new = fst ` (\<Union>u \<in> fst ` set frontier. set (targets adj u)) - dom seen"
        "set new \<subseteq> (\<Union>u \<in> fst ` set frontier. set (targets adj u))" "distinct (map fst new)"
      using visit_frontier_extends [OF v(1)] by (auto simp: extends_def)
    have tos: "v \<in> fst ` (\<Union>u \<in> fst ` set frontier. set (targets adj u)) \<longleftrightarrow>
        (\<exists>w. at_distance es u (d - 1) w \<and> (w, v) \<in> edge_rel es)" for v
      unfolding succs_edge_rel Suc.prems(3) [symmetric] by blast
    have new: "v \<in> fst ` set new \<longleftrightarrow> at_distance es u d v" for v
      using at_distance_next [of es u "d - 1" v] Suc.prems(2,4) tos unfolding n(4) by auto
    have "dom seen' = fst ` set new \<union> dom seen" by (auto simp: n(3) dom_def)
    then have seen': "v \<in> dom seen' \<longleftrightarrow> (\<exists>m < Suc d. at_distance es u m v)" for v
      using new Suc.prems(4) by (auto simp: less_Suc_eq)
    have "\<exists>news. rows' = rows1 @ map (\<lambda>(v, k, e). row v e k) news \<and> found es u (Suc d) n news"
      using Suc.IH [OF v(2)] seen' new n(1) by simp
    then obtain news where m: "rows' = rows1 @ map (\<lambda>(v, k, e). row v e k) news" "found es u (Suc d) n news" by blast
    have "found es u d (Suc n) (map (\<lambda>(v, k). (v, k, d)) new @ news)"
      unfolding found_def
    proof (intro conjI allI impI)
      fix v e
      have "(\<exists>k. (v, k, e) \<in> set (map (\<lambda>(v, k). (v, k, d)) new)) \<longleftrightarrow> v \<in> fst ` set new \<and> e = d" by force
      moreover have "(\<exists>k. (v, k, e) \<in> set news) \<longleftrightarrow> at_distance es u e v \<and> Suc d \<le> e \<and> e < Suc d + n"
        by (rule found_iff [OF m(2)])
      ultimately show "(\<exists>k. (v, k, e) \<in> set (map (\<lambda>(v, k). (v, k, d)) new @ news)) \<longleftrightarrow>
          at_distance es u e v \<and> d \<le> e \<and> e < d + Suc n"
        unfolding set_append Un_iff new ex_disj_distrib by (cases "e = d") auto
    next
      have "\<exists>w. (w, v, k) \<in> set es \<and> at_distance es u (d - 1) w" if "(v, k) \<in> set new" for v k
        using that n(5) Suc.prems(3) targets_edges by blast
      then show "\<exists>w. (w, v, k) \<in> set es \<and> at_distance es u (e - 1) w"
        if "(v, k, e) \<in> set (map (\<lambda>(v, k). (v, k, d)) new @ news)" for v k e
        using that found_edge [OF m(2), of v k e] by (auto simp del: One_nat_def)
    next
      have "\<not> at_distance es u d v" if vn: "v \<in> fst ` set news" for v
      proof -
        obtain k e where "(v, k, e) \<in> set news" using vn by auto
        then have "at_distance es u e v" "Suc d \<le> e" using found_iff [OF m(2), of v e] by blast+
        then show ?thesis using at_distance_unique [of es u d v e] by auto
      qed
      then have "fst ` set new \<inter> fst ` set news = {}" using new by blast
      moreover have e: "map fst (map (\<lambda>(v, k). (v, k, d)) new) = map fst new" by (simp add: split_def comp_def)
      ultimately show "distinct (map fst (map (\<lambda>(v, k). (v, k, d)) new @ news))"
        using n(6) found_distinct [OF m(2)] unfolding map_append e distinct_append by simp
    qed
    then show ?thesis using m(1) n(2)
      by (intro exI [of _ "map (\<lambda>(v, k). (v, k, d)) new @ news"]) (simp add: split_def comp_def)
  qed
qed

end

lemma targets_add_edge: "targets (add_edge adj (u, v, k)) w = targets adj w @ (if w = u then [(v, k)] else [])"
  by (simp add: targets_def add_edge_def update_conv')

lemma targets_adjacency: "targets (adjacency_of es) u = map snd (filter (\<lambda>e. fst e = u) es)"
proof (induction es rule: rev_induct)
  case (snoc e es)
  obtain a v k where "e = (a, v, k)" by (cases e)
  then show ?case using snoc by (simp add: adjacency_of_def targets_add_edge)
qed (simp add: adjacency_of_def targets_def)

lemma adjacency_keys: "fst ` set (adjacency_of es) = fst ` set es" and adjacency_distinct: "distinct (map fst (adjacency_of es))"
proof (induction es rule: rev_induct)
  case (snoc e es)
  obtain a v k where e: "e = (a, v, k)" by (cases e)
  case 1
  then show ?case using snoc by (simp add: e adjacency_of_def add_edge_def dom_update)
  case 2
  then show ?case using snoc by (simp add: e adjacency_of_def add_edge_def distinct_update)
qed (simp_all add: adjacency_of_def)

interpretation closure_search: search "adjacency_of es" es for es
  by unfold_locales (auto simp: targets_adjacency image_iff Bex_def)

section \<open>The table after a build\<close>

text \<open>The rows the property asks for: of one source, and of a list of sources.\<close>

definition closure_rows_of ::
    "string \<Rightarrow> (string \<times> string \<times> string) list \<Rightarrow> nat \<Rightarrow> string set \<Rightarrow> closure_row list \<Rightarrow> bool" where
  "closure_rows_of pid es depth sources rows \<longleftrightarrow>
     (\<forall>u v d. (\<exists>k. \<lparr>cr_project = pid, cr_from = u, cr_to = v, cr_depth = d, cr_kind = k\<rparr> \<in> set rows) \<longleftrightarrow>
        u \<in> sources \<and> at_distance es u d v \<and> 1 \<le> d \<and> d \<le> depth) \<and>
     (\<forall>r \<in> set rows. cr_project r = pid \<and>
        (\<exists>w. (w, cr_to r, cr_kind r) \<in> set es \<and> at_distance es (cr_from r) (cr_depth r - 1) w)) \<and>
     distinct (map (\<lambda>r. (cr_from r, cr_to r)) rows)"

lemma rows_of_iff:
  "closure_rows_of pid es depth A rows \<Longrightarrow>
     (\<exists>k. \<lparr>cr_project = pid, cr_from = u, cr_to = v, cr_depth = d, cr_kind = k\<rparr> \<in> set rows) \<longleftrightarrow>
       u \<in> A \<and> at_distance es u d v \<and> 1 \<le> d \<and> d \<le> depth"
  by (simp only: closure_rows_of_def)

lemma rows_of_kind:
  "closure_rows_of pid es depth A rows \<Longrightarrow> \<forall>r \<in> set rows. cr_project r = pid \<and>
     (\<exists>w. (w, cr_to r, cr_kind r) \<in> set es \<and> at_distance es (cr_from r) (cr_depth r - 1) w)"
  unfolding closure_rows_of_def by (elim conjE) assumption

lemma rows_of_distinct: "closure_rows_of pid es depth A rows \<Longrightarrow> distinct (map (\<lambda>r. (cr_from r, cr_to r)) rows)"
  by (simp only: closure_rows_of_def)

lemma rows_of_row:
  assumes "closure_rows_of pid es depth A rows" and "r \<in> set rows"
  shows "cr_project r = pid \<and> cr_from r \<in> A \<and> at_distance es (cr_from r) (cr_depth r) (cr_to r) \<and>
     1 \<le> cr_depth r \<and> cr_depth r \<le> depth"
proof -
  have "cr_project r = pid" using rows_of_kind [OF assms(1)] assms(2) by blast
  then have "r = \<lparr>cr_project = pid, cr_from = cr_from r, cr_to = cr_to r, cr_depth = cr_depth r, cr_kind = cr_kind r\<rparr>"
    by (cases r) simp
  then have "\<exists>k. \<lparr>cr_project = pid, cr_from = cr_from r, cr_to = cr_to r, cr_depth = cr_depth r, cr_kind = k\<rparr> \<in> set rows"
    using assms(2) by metis
  then show ?thesis using rows_of_iff [OF assms(1)] \<open>cr_project r = pid\<close> by blast
qed

lemmas rows_of_from = rows_of_row [THEN conjunct2, THEN conjunct1]

lemma bfs_source_rows:
  assumes "bfs_source ok pid (adjacency_of es) depth u rows = Inr rows'"
  shows "\<exists>new. rows' = rows @ new \<and> closure_rows_of pid es depth {u} new"
proof -
  obtain news where n: "rows' = rows @ map (\<lambda>(v, k, e). \<lparr>cr_project = pid, cr_from = u, cr_to = v, cr_depth = e, cr_kind = k\<rparr>) news"
      "found es u 1 depth news"
    using closure_search.bfs_levels_found [OF assms [unfolded bfs_source_def], of u] by auto
  have "closure_rows_of pid es depth {u}
      (map (\<lambda>(v, k, e). \<lparr>cr_project = pid, cr_from = u, cr_to = v, cr_depth = e, cr_kind = k\<rparr>) news)"
    using n(2) unfolding found_def closure_rows_of_def
    by (auto simp: split_def comp_def image_iff Bex_def distinct_map inj_on_def)
  then show ?thesis using n(1) by blast
qed

lemma bfs_sources_rows:
  "bfs_sources ok pid (adjacency_of es) depth us rows = Inr rows' \<Longrightarrow> distinct us \<Longrightarrow>
     \<exists>new. rows' = rows @ new \<and> closure_rows_of pid es depth (set us) new"
proof (induction us arbitrary: rows)
  case Nil
  then show ?case by (auto simp: closure_rows_of_def)
next
  case (Cons u us)
  obtain rows1 where r: "bfs_source ok pid (adjacency_of es) depth u rows = Inr rows1"
      "bfs_sources ok pid (adjacency_of es) depth us rows1 = Inr rows'"
    using Cons.prems(1) by auto
  obtain new1 where n1: "rows1 = rows @ new1" "closure_rows_of pid es depth {u} new1"
    using bfs_source_rows [OF r(1)] by blast
  obtain new2 where n2: "rows' = rows1 @ new2" "closure_rows_of pid es depth (set us) new2"
    using Cons.IH [OF r(2)] Cons.prems(2) by auto
  have f: "cr_from r = u" if "r \<in> set new1" for r using rows_of_from [OF n1(2) that] by simp
  have g: "cr_from r \<in> set us" if "r \<in> set new2" for r using rows_of_from [OF n2(2) that] .
  have "closure_rows_of pid es depth (insert u (set us)) (new1 @ new2)"
    unfolding closure_rows_of_def
  proof (intro conjI allI)
    fix w v d
    show "(\<exists>k. \<lparr>cr_project = pid, cr_from = w, cr_to = v, cr_depth = d, cr_kind = k\<rparr> \<in> set (new1 @ new2)) \<longleftrightarrow>
        w \<in> insert u (set us) \<and> at_distance es w d v \<and> 1 \<le> d \<and> d \<le> depth"
      using rows_of_iff [OF n1(2), of w v d] rows_of_iff [OF n2(2), of w v d]
      unfolding set_append Un_iff ex_disj_distrib by auto
  next
    show "distinct (map (\<lambda>r. (cr_from r, cr_to r)) (new1 @ new2))"
      using rows_of_distinct [OF n1(2)] rows_of_distinct [OF n2(2)] f g Cons.prems(2) by fastforce
  next
    show "\<forall>r \<in> set (new1 @ new2). cr_project r = pid \<and>
        (\<exists>w. (w, cr_to r, cr_kind r) \<in> set es \<and> at_distance es (cr_from r) (cr_depth r - 1) w)"
      using rows_of_kind [OF n1(2)] rows_of_kind [OF n2(2)] unfolding set_append by blast
  qed
  then show ?case using n1(1) n2(1) by auto
qed

lemma insert_fresh_rows:
  assumes "distinct (map (\<lambda>r. (cr_from r, cr_to r)) rows)" and "\<forall>r \<in> set rows. cr_project r = pid"
    and "\<forall>x \<in> set table. cr_project x = pid \<longrightarrow> (cr_from x, cr_to x) \<notin> (\<lambda>r. (cr_from r, cr_to r)) ` set rows"
  shows "foldl insert_or_ignore table rows = table @ rows"
  using assms
proof (induction rows arbitrary: table)
  case (Cons r rows)
  have "insert_or_ignore table r = table @ [r]" using Cons.prems by (auto simp: insert_or_ignore_def)
  moreover have "foldl insert_or_ignore (table @ [r]) rows = (table @ [r]) @ rows"
    using Cons.prems by (intro Cons.IH) auto
  ultimately show ?case by simp
qed simp

lemma BuildClosure_rows:
  assumes "ce_edges env = EdgesOk es" and "BuildClosure env pid maxDepth table = (table', None)"
  shows "\<exists>rows. table' = filter (\<lambda>r. cr_project r \<noteq> pid) table @ rows \<and> 1 \<le> maxDepth \<and>
     closure_rows_of pid es (nat maxDepth) (fst ` set es) rows"
proof -
  let ?us = "map fst (adjacency_of es)"
  obtain rows where r: "bfs_sources (ce_insert env) pid (adjacency_of es) (nat maxDepth) ?us [] = Inr rows"
      "table' = foldl insert_or_ignore (filter (\<lambda>r. cr_project r \<noteq> pid) table) rows" "1 \<le> maxDepth"
    using assms by (auto simp: BuildClosure_def Let_def split: if_splits sum.splits)
  have c: "closure_rows_of pid es (nat maxDepth) (fst ` set es) rows"
    using bfs_sources_rows [OF r(1) adjacency_distinct] adjacency_keys by auto
  have "table' = filter (\<lambda>r. cr_project r \<noteq> pid) table @ rows"
    unfolding r(2) using rows_of_kind [OF c] by (intro insert_fresh_rows [OF rows_of_distinct [OF c]]) auto
  then show ?thesis using c r(3) by blast
qed

lemma reach_has_edge: "at_distance es u (Suc d) v \<Longrightarrow> u \<in> fst ` set es"
proof -
  assume "at_distance es u (Suc d) v"
  then obtain w where "(u, w) \<in> edge_rel es" by (auto simp only: at_distance_def dest!: relpow_Suc_D2)
  then show "u \<in> fst ` set es" by (force simp: edge_rel_def)
qed

text \<open>
  C37: A build that returns nil leaves exactly one row per pair of vertices at a shortest distance of 1 up to the
  depth, with that distance and the kind of the last edge of a shortest path, and the rows of the other projects
  as they were.
\<close>
theorem build_closure_exact:
  assumes "ce_edges env = EdgesOk es" and "BuildClosure env pid maxDepth table = (table', None)"
  shows "((\<exists>k. \<lparr>cr_project = pid, cr_from = u, cr_to = v, cr_depth = d, cr_kind = k\<rparr> \<in> set table') \<longleftrightarrow>
         at_distance es u d v \<and> 1 \<le> d \<and> int d \<le> maxDepth) \<and>
     (\<forall>k. \<lparr>cr_project = pid, cr_from = u, cr_to = v, cr_depth = d, cr_kind = k\<rparr> \<in> set table' \<longrightarrow>
         (\<exists>w. (w, v, k) \<in> set es \<and> at_distance es u (d - 1) w)) \<and>
     distinct (map (\<lambda>r. (cr_from r, cr_to r)) (filter (\<lambda>r. cr_project r = pid) table')) \<and>
     filter (\<lambda>r. cr_project r \<noteq> pid) table' = filter (\<lambda>r. cr_project r \<noteq> pid) table"
proof -
  obtain rows where r: "table' = filter (\<lambda>r. cr_project r \<noteq> pid) table @ rows" "1 \<le> maxDepth"
      "closure_rows_of pid es (nat maxDepth) (fst ` set es) rows"
    using BuildClosure_rows [OF assms] by blast
  note p = rows_of_kind [OF r(3)]
  have m: "x \<in> set table' \<longleftrightarrow> x \<in> set rows" if "cr_project x = pid" for x using that r(1) by auto
  have "d \<noteq> 0 \<Longrightarrow> at_distance es u d v \<Longrightarrow> u \<in> fst ` set es" using reach_has_edge [of es u "d - 1" v] by simp
  then have "(\<exists>k. \<lparr>cr_project = pid, cr_from = u, cr_to = v, cr_depth = d, cr_kind = k\<rparr> \<in> set table') \<longleftrightarrow>
       at_distance es u d v \<and> 1 \<le> d \<and> int d \<le> maxDepth"
    using rows_of_iff [OF r(3), of u v d] r(2) by (auto simp: m)
  moreover have "\<exists>w. (w, v, k) \<in> set es \<and> at_distance es u (d - 1) w"
    if "\<lparr>cr_project = pid, cr_from = u, cr_to = v, cr_depth = d, cr_kind = k\<rparr> \<in> set table'" for k
    using that p by (auto simp: m dest!: bspec)
  moreover have "filter (\<lambda>r. cr_project r = pid) rows = rows" "filter (\<lambda>r. cr_project r \<noteq> pid) rows = []"
    using p by (auto simp: filter_id_conv filter_empty_conv)
  ultimately show ?thesis using rows_of_distinct [OF r(3)] by (simp add: r(1))
qed

text \<open>The cycle a, b, a with a tail to c: the closure of depth 2.\<close>

definition cycle_env :: closure_env where
  "cycle_env = \<lparr>ce_edges = EdgesOk [(''a'', ''b'', ''CALLS''), (''b'', ''a'', ''CALLS''), (''b'', ''c'', ''CALLS'')],
     ce_begin = True, ce_delete = True, ce_prepare = True, ce_insert = (\<lambda>_. True), ce_close = True, ce_commit = True\<rparr>"

definition crow :: "string \<Rightarrow> string \<Rightarrow> nat \<Rightarrow> closure_row" where
  "crow u v d = \<lparr>cr_project = ''p'', cr_from = u, cr_to = v, cr_depth = d, cr_kind = ''CALLS''\<rparr>"

lemma cycle_build:
  "BuildClosure cycle_env ''p'' 2 [] = ([crow ''a'' ''b'' 1, crow ''a'' ''c'' 2, crow ''b'' ''a'' 1, crow ''b'' ''c'' 1], None)"
  by code_simp

theorem build_closure_exact_witness:
  "at_distance [(''a'', ''b'', ''CALLS''), (''b'', ''a'', ''CALLS''), (''b'', ''c'', ''CALLS'')] ''a'' 2 ''c''"
  using build_closure_exact [OF _ cycle_build, of _ "''a''" "''c''" 2]
  by (simp add: cycle_env_def crow_def)

section \<open>Errors\<close>

text \<open>
  With a positive depth and a database that accepts every statement the build returns nil; on any error the
  table is the one before the call.
\<close>

lemma visit_edges_ok: "(\<And>r. ok r) \<Longrightarrow> \<exists>st'. visit_edges ok row d edges st = Inr st'"
  by (induction ok row d edges st rule: visit_edges.induct) auto

lemma visit_frontier_ok: "(\<And>r. ok r) \<Longrightarrow> \<exists>st'. visit_frontier ok row adj d us st = Inr st'"
proof (induction us arbitrary: st)
  case (Cons u us)
  obtain st1 where "visit_edges ok row d (targets adj (fst u)) st = Inr st1"
    using visit_edges_ok [of ok] Cons.prems by blast
  moreover have "\<exists>st'. visit_frontier ok row adj d us st1 = Inr st'" using Cons by blast
  ultimately show ?case by (cases u) fastforce
next
  case Nil
  show ?case by (cases st) simp
qed

lemma bfs_levels_ok: "(\<And>r. ok r) \<Longrightarrow> \<exists>rows'. bfs_levels ok row adj d n frontier seen rows = Inr rows'"
proof (induction n arbitrary: d frontier seen rows)
  case (Suc n)
  then show ?case using visit_frontier_ok [of ok row adj d frontier "(seen, [], rows)"] by fastforce
qed simp

lemma bfs_sources_ok: "(\<And>r. ok r) \<Longrightarrow> \<exists>rows'. bfs_sources ok pid adj depth us rows = Inr rows'"
proof (induction us arbitrary: rows)
  case (Cons u us)
  then show ?case using bfs_levels_ok [of ok] unfolding bfs_sources.simps bfs_source_def by (metis bind_res.simps(2))
qed simp

lemma BuildClosure_error: "snd (BuildClosure env pid maxDepth table) \<noteq> None \<Longrightarrow> fst (BuildClosure env pid maxDepth table) = table"
  by (auto simp: BuildClosure_def Let_def split: if_splits edges_reply.splits sum.splits)

lemma BuildClosure_ok:
  assumes "1 \<le> maxDepth" and "ce_edges env = EdgesOk es" and "ce_begin env" "ce_delete env" "ce_prepare env"
    and "\<And>r. ce_insert env r" and "ce_close env" "ce_commit env"
  shows "snd (BuildClosure env pid maxDepth table) = None"
proof -
  obtain rows where "bfs_sources (ce_insert env) pid (adjacency_of es) (nat maxDepth) (map fst (adjacency_of es)) [] = Inr rows"
    using bfs_sources_ok [of "ce_insert env"] assms(6) by blast
  then show ?thesis using assms by (simp add: BuildClosure_def Let_def)
qed

section \<open>The trace lookup on a built table\<close>

lemma row_eta: "\<lparr>cr_project = cr_project r, cr_from = cr_from r, cr_to = cr_to r, cr_depth = cr_depth r, cr_kind = cr_kind r\<rparr> = r"
  by simp

lemma select_outbound_row:
  assumes "length table \<le> 500"
  shows "\<lparr>tr_SymbolID = v, tr_Depth = d, tr_ViaKind = k\<rparr> \<in> set (select_outbound table pid u depth) \<longleftrightarrow>
     \<lparr>cr_project = pid, cr_from = u, cr_to = v, cr_depth = d, cr_kind = k\<rparr> \<in> set table \<and> int d \<le> depth"
proof -
  have "length (filter P table) \<le> 500" for P using assms length_filter_le [of P table] by linarith
  then have "set (select_outbound table pid u depth) = (\<lambda>r. \<lparr>tr_SymbolID = cr_to r, tr_Depth = cr_depth r, tr_ViaKind = cr_kind r\<rparr>) `
      {r \<in> set table. cr_project r = pid \<and> cr_from r = u \<and> int (cr_depth r) \<le> depth}"
    by (simp add: select_outbound_def)
  then show ?thesis by (auto simp: row_eta intro!: rev_image_eqI)
qed

lemma select_inbound_row:
  assumes "length table \<le> 500"
  shows "\<lparr>tr_SymbolID = u, tr_Depth = d, tr_ViaKind = k\<rparr> \<in> set (select_inbound table pid v depth) \<longleftrightarrow>
     \<lparr>cr_project = pid, cr_from = u, cr_to = v, cr_depth = d, cr_kind = k\<rparr> \<in> set table \<and> int d \<le> depth"
proof -
  have "length (filter P table) \<le> 500" for P using assms length_filter_le [of P table] by linarith
  then have "set (select_inbound table pid v depth) = (\<lambda>r. \<lparr>tr_SymbolID = cr_from r, tr_Depth = cr_depth r, tr_ViaKind = cr_kind r\<rparr>) `
      {r \<in> set table. cr_project r = pid \<and> cr_to r = v \<and> int (cr_depth r) \<le> depth}"
    by (simp add: select_inbound_def)
  then show ?thesis by (auto simp: row_eta intro!: rev_image_eqI)
qed

text \<open>
  A lookup in one direction on a built table lists the vertices at a shortest distance between 1 and the smaller
  of the two depths, each with that distance.
\<close>
theorem trace_one_direction:
  assumes "ce_edges env = EdgesOk es" and "BuildClosure env pid maxDepth table = (table', None)" and "length table' \<le> 500"
    and "TraceViaClosure oks iks table' pid u ''outbound'' depth = Inr outs"
    and "TraceViaClosure oks iks table' pid u ''inbound'' depth = Inr ins"
  shows "((\<exists>k. \<lparr>tr_SymbolID = v, tr_Depth = d, tr_ViaKind = k\<rparr> \<in> set outs) \<longleftrightarrow>
         at_distance es u d v \<and> 1 \<le> d \<and> int d \<le> min maxDepth depth) \<and>
     ((\<exists>k. \<lparr>tr_SymbolID = v, tr_Depth = d, tr_ViaKind = k\<rparr> \<in> set ins) \<longleftrightarrow>
         at_distance es v d u \<and> 1 \<le> d \<and> int d \<le> min maxDepth depth)"
proof -
  obtain rows where r: "table' = filter (\<lambda>r. cr_project r \<noteq> pid) table @ rows" "1 \<le> maxDepth"
      "closure_rows_of pid es (nat maxDepth) (fst ` set es) rows"
    using BuildClosure_rows [OF assms(1,2)] by blast
  have row: "(\<exists>k. \<lparr>cr_project = pid, cr_from = a, cr_to = b, cr_depth = d, cr_kind = k\<rparr> \<in> set table') \<longleftrightarrow>
      at_distance es a d b \<and> 1 \<le> d \<and> int d \<le> maxDepth" for a b
    using rows_of_iff [OF r(3), of a b d] r(1,2) reach_has_edge [of es a "d - 1" b] by auto
  show ?thesis
    using row [of u v] row [of v u] select_outbound_row [OF assms(3)] select_inbound_row [OF assms(3)] assms(4,5)
    by (auto simp: TraceViaClosure_def split: if_splits)
qed

definition cycle_table :: "closure_row list" where
  "cycle_table = [crow ''a'' ''b'' 1, crow ''a'' ''c'' 2, crow ''b'' ''a'' 1, crow ''b'' ''c'' 1]"

definition hit :: "string \<Rightarrow> nat \<Rightarrow> trace_result" where
  "hit v d = \<lparr>tr_SymbolID = v, tr_Depth = d, tr_ViaKind = ''CALLS''\<rparr>"

lemma cycle_out: "TraceViaClosure True True cycle_table ''p'' ''a'' ''outbound'' 5 = Inr [hit ''b'' 1, hit ''c'' 2]"
  and cycle_in: "TraceViaClosure True True cycle_table ''p'' ''a'' ''inbound'' 5 = Inr [hit ''b'' 1]"
  and cycle_both: "TraceViaClosure True True cycle_table ''p'' ''a'' ''both'' 3 = Inr [hit ''b'' 1, hit ''c'' 2, hit ''b'' 1]"
  by code_simp+

theorem trace_one_direction_witness:
  "at_distance [(''a'', ''b'', ''CALLS''), (''b'', ''a'', ''CALLS''), (''b'', ''c'', ''CALLS'')] ''a'' 2 ''c''"
  using trace_one_direction [OF _ cycle_build [folded cycle_table_def] _ cycle_out cycle_in, of _ "''c''" 2]
  by (simp add: cycle_env_def cycle_table_def hit_def)

text \<open>
  The merge keeps one result per symbol, at its smallest depth.
\<close>

lemma merge_result_keys:
  assumes "distinct (map fst m)" and "\<forall>(s, x) \<in> set m. tr_SymbolID x = s"
  shows "distinct (map fst (merge_result m r)) \<and> (\<forall>(s, x) \<in> set (merge_result m r). tr_SymbolID x = s)"
proof -
  have u: "\<forall>(s, x) \<in> set (AList.update (tr_SymbolID r) r m). tr_SymbolID x = s"
    using assms(2) by (induction m) auto
  then show ?thesis using assms by (auto simp: merge_result_def distinct_update split: option.split)
qed

lemma merge_results_keys:
  "distinct (map fst m) \<and> (\<forall>(s, x) \<in> set m. tr_SymbolID x = s) \<Longrightarrow>
     distinct (map fst (foldl merge_result m rs)) \<and> (\<forall>(s, x) \<in> set (foldl merge_result m rs). tr_SymbolID x = s)"
proof (induction rs arbitrary: m)
  case (Cons r rs)
  then show ?case using merge_result_keys [of m r] by simp
qed simp

lemma merge_results_distinct: "distinct (map tr_SymbolID (merge_results rs))"
proof -
  have k: "distinct (map fst (foldl merge_result [] rs))" "\<forall>(s, x) \<in> set (foldl merge_result [] rs). tr_SymbolID x = s"
    using merge_results_keys [of "[]" rs] by auto
  have "map tr_SymbolID (map snd (foldl merge_result [] rs)) = map fst (foldl merge_result [] rs)"
    using k(2) by auto
  then show ?thesis using k(1) by (simp add: merge_results_def del: map_map)
qed

text \<open>
  In both directions a symbol that the start reaches and that reaches the start is listed twice, where the
  recursive query it replaces lists every symbol once.
\<close>
theorem trace_both_repeats:
  assumes "ce_edges env = EdgesOk es" and "BuildClosure env pid maxDepth table = (table', None)" and "length table' \<le> 500"
    and "at_distance es u d v" "at_distance es v e u" "1 \<le> d" "1 \<le> e" "int d \<le> min maxDepth depth" "int e \<le> min maxDepth depth"
    and "TraceViaClosure oks iks table' pid u ''both'' depth = Inr rs"
  shows "\<not> distinct (map tr_SymbolID rs) \<and> distinct (map tr_SymbolID (merge_results rs))"
proof -
  obtain rows where r: "table' = filter (\<lambda>r. cr_project r \<noteq> pid) table @ rows" "1 \<le> maxDepth"
      "closure_rows_of pid es (nat maxDepth) (fst ` set es) rows"
    using BuildClosure_rows [OF assms(1,2)] by blast
  have row: "\<exists>k. \<lparr>cr_project = pid, cr_from = a, cr_to = b, cr_depth = n, cr_kind = k\<rparr> \<in> set table'"
    if "at_distance es a n b" "1 \<le> n" "int n \<le> maxDepth" for a b n
    using rows_of_iff [OF r(3), of a b n] r(1,2) reach_has_edge [of es a "n - 1" b] that by auto
  obtain k1 k2 where "\<lparr>tr_SymbolID = v, tr_Depth = d, tr_ViaKind = k1\<rparr> \<in> set (select_outbound table' pid u depth)"
      "\<lparr>tr_SymbolID = v, tr_Depth = e, tr_ViaKind = k2\<rparr> \<in> set (select_inbound table' pid u depth)"
    using row [of u d v] row [of v e u] assms(4-9) select_outbound_row [OF assms(3)] select_inbound_row [OF assms(3)]
    by fastforce
  then have "v \<in> set (map tr_SymbolID (select_outbound table' pid u depth))"
      "v \<in> set (map tr_SymbolID (select_inbound table' pid u depth))"
    by (force simp: image_iff)+
  then have "\<not> distinct (map tr_SymbolID (select_outbound table' pid u depth) @ map tr_SymbolID (select_inbound table' pid u depth))"
    unfolding distinct_append by blast
  moreover have "rs = select_outbound table' pid u depth @ select_inbound table' pid u depth"
    using assms(10) by (simp add: TraceViaClosure_def split: if_splits)
  ultimately show ?thesis using merge_results_distinct by (simp only: map_append simp_thms)
qed

theorem trace_both_repeats_witness: "\<not> distinct (map tr_SymbolID [hit ''b'' 1, hit ''c'' 2, hit ''b'' 1])"
proof -
  have "at_distance [(''a'', ''b'', ''CALLS''), (''b'', ''a'', ''CALLS''), (''b'', ''c'', ''CALLS'')] ''a'' 1 ''b''"
    and "at_distance [(''a'', ''b'', ''CALLS''), (''b'', ''a'', ''CALLS''), (''b'', ''c'', ''CALLS'')] ''b'' 1 ''a''"
    by (auto simp: at_distance_def edge_rel_def)
  then show ?thesis
    using trace_both_repeats [OF _ cycle_build [folded cycle_table_def] _ _ _ _ _ _ _ cycle_both, of _ 1 "''b''" 1]
    by (simp add: cycle_env_def cycle_table_def)
qed

end
