(* ===== verification/Init_Merge.thy ===== *)
theory Init_Merge
  imports Pincher_Prelude
begin

text \<open>
  The policy block that \<open>pincher init\<close> keeps in an editor's rule file (\<open>internal/init/init.go\<close>, \<open>detect.go\<close>):
  line endings, the markers, the section detector, and the merge.

  The embedded policy text is an argument. \<open>marker_block\<close> is the interface the three marker-based writers share:
  two markers without line breaks and a block that starts with the one and ends with the first occurrence of
  the other.
\<close>

section \<open>Line endings\<close>

fun replace_crlf :: "string \<Rightarrow> string" where
  "replace_crlf [] = []"
| "replace_crlf [c] = [c]"
| "replace_crlf (c # d # cs) = (if c = cr \<and> d = nl then nl # replace_crlf cs else c # replace_crlf (d # cs))"

definition normalizeLF :: "string \<Rightarrow> string" where
  "normalizeLF s = replace_byte cr [nl] (replace_crlf s)"

definition restoreLineEndings :: "bool \<Rightarrow> string \<Rightarrow> string" where
  "restoreLineEndings crlf s = (if \<not> crlf then s else replace_byte nl [cr, nl] s)"

text \<open>\<open>strings.TrimRight\<close> and \<open>strings.TrimLeft\<close> with a line feed as cutset.\<close>

definition trim_right_nl :: "string \<Rightarrow> string" where
  "trim_right_nl s = rev (dropWhile (\<lambda>c. c = nl) (rev s))"

definition trim_left_nl :: "string \<Rightarrow> string" where
  "trim_left_nl s = dropWhile (\<lambda>c. c = nl) s"

text \<open>\<open>strings.SplitAfter\<close> with a line feed.\<close>

fun split_after_nl :: "string \<Rightarrow> string \<Rightarrow> string list" where
  "split_after_nl acc [] = [rev acc]"
| "split_after_nl acc (c # cs) = (if c = nl then rev (c # acc) # split_after_nl [] cs else split_after_nl (c # acc) cs)"

section \<open>Markers and the block\<close>

definition MarkerStart :: string where "MarkerStart = ''<!-- pincher:start -->''"

definition MarkerEnd :: string where "MarkerEnd = ''<!-- pincher:end -->''"

definition BlockHeader :: string where
  "BlockHeader = ''<!-- Managed by `pincher init`. Edit `pincher init` to change this block,'' @ [nl] @
     ''     or delete the markers below to opt out of future updates. -->'' @ [nl, nl]"

definition BuildPolicyBlock :: "string \<Rightarrow> string" where
  "BuildPolicyBlock policy = MarkerStart @ [nl] @ BlockHeader @ trim_right_nl policy @ [nl, nl] @ MarkerEnd"

definition HasMarkers :: "string \<Rightarrow> bool" where
  "HasMarkers content =
     (case (str_index content MarkerStart, str_index content MarkerEnd) of
        (Some i, Some j) \<Rightarrow> i < j
      | _ \<Rightarrow> False)"

section \<open>A hand-written policy section\<close>

definition MarkdownHeadingLevel :: "string \<Rightarrow> nat option" where
  "MarkdownHeadingLevel line =
     (let trimmed = dropWhile (\<lambda>c. c = sp) line;
          level = length (takeWhile (\<lambda>c. c = CHR ''#'') trimmed)
      in if level = 0 \<or> level > 6 then None
         else if level = length trimmed \<or> trimmed ! level \<noteq> sp then None
         else Some level)"

definition lineMentionsPincher :: "string \<Rightarrow> bool" where
  "lineMentionsPincher line = str_contains (to_lower line) ''pincher''"

text \<open>The loop over the lines: \<open>found\<close> is the start and level of the section being read, if any.\<close>

fun detect_loop :: "nat \<Rightarrow> (nat \<times> nat) option \<Rightarrow> string list \<Rightarrow> (nat \<times> nat) option" where
  "detect_loop pos found [] = map_option (\<lambda>(start, _). (start, pos)) found"
| "detect_loop pos found (line # lines) =
     (case (MarkdownHeadingLevel line, found) of
        (Some level, Some (start, headingLevel)) \<Rightarrow>
          if level \<le> headingLevel then Some (start, pos) else detect_loop (pos + length line) found lines
      | (Some level, None) \<Rightarrow>
          detect_loop (pos + length line) (if level \<le> 6 \<and> lineMentionsPincher line then Some (pos, level) else None) lines
      | (None, _) \<Rightarrow> detect_loop (pos + length line) found lines)"

definition DetectPincherPolicySection :: "string \<Rightarrow> (nat \<times> nat) option" where
  "DetectPincherPolicySection content = detect_loop 0 None (split_after_nl [] content)"

section \<open>The merge\<close>

datatype init_action = Wrote | Updated | Appended | ErrorAction | Skipped

text \<open>
  The block put between what precedes the start marker and what follows the end marker; \<open>tail\<close> closes the file
  when nothing follows.
\<close>

definition splice_block :: "string \<Rightarrow> string \<Rightarrow> string \<Rightarrow> string \<Rightarrow> string" where
  "splice_block block tail before after =
     (let before = trim_right_nl before; after = trim_left_nl after
      in before @ (if before \<noteq> [] then [nl, nl] else []) @ block @ (if after \<noteq> [] then [nl, nl] @ after else tail))"

definition replace_block :: "string \<Rightarrow> string \<Rightarrow> string \<Rightarrow> string \<Rightarrow> string \<Rightarrow> string option" where
  "replace_block startMark endMark block tail existing =
     (case (str_index existing startMark, str_index existing endMark) of
        (Some i, Some j) \<Rightarrow>
          if j > i then Some (splice_block block tail (take i existing) (drop (j + length endMark) existing)) else None
      | _ \<Rightarrow> None)"

definition append_block :: "string \<Rightarrow> string \<Rightarrow> string \<Rightarrow> string" where
  "append_block block tail existing = trim_right_nl existing @ [nl, nl] @ block @ tail"

definition wrap_section :: "string \<Rightarrow> string" where
  "wrap_section existing =
     (if HasMarkers existing then existing
      else (case DetectPincherPolicySection existing of
          Some (a, b) \<Rightarrow> take a existing @ MarkerStart @ [nl] @ drop a (take b existing) @ MarkerEnd @ drop b existing
        | None \<Rightarrow> existing))"

definition MergePolicyBlockBare :: "string \<Rightarrow> string \<Rightarrow> string \<times> init_action" where
  "MergePolicyBlockBare existing policy =
     (let block = normalizeLF (BuildPolicyBlock policy)
      in if existing = [] then (block @ [nl], Wrote)
         else let crlf = str_contains existing [cr, nl];
                  existing = wrap_section (normalizeLF existing)
           in (case replace_block MarkerStart MarkerEnd block [nl] existing of
                 Some u \<Rightarrow> (restoreLineEndings crlf u, Updated)
               | None \<Rightarrow> (restoreLineEndings crlf (append_block block [nl] existing), Appended)))"

definition claude_header :: string where
  "claude_header = ''# CLAUDE.md'' @ [nl, nl] @
     ''This file provides guidance to Claude Code (claude.ai/code) when working with this project.'' @ [nl, nl]"

definition MergePolicyBlock :: "string \<Rightarrow> string \<Rightarrow> string \<times> init_action" where
  "MergePolicyBlock existing policy =
     (if existing = [] then (claude_header @ fst (MergePolicyBlockBare existing policy), Wrote)
      else MergePolicyBlockBare existing policy)"

section \<open>Searching across line breaks\<close>

lemma has_prefix_nl: "nl \<notin> set p \<Longrightarrow> has_prefix (b @ nl # r) p \<longleftrightarrow> has_prefix b p"
  by (induction b p rule: has_prefix.induct) (auto simp: neq_Nil_conv elim: has_prefix.elims)

lemma index_after_nl:
  "nl \<notin> set p \<Longrightarrow> p \<noteq> [] \<Longrightarrow> \<not> str_contains b p \<Longrightarrow>
     str_index (b @ nl # r) p = map_option (\<lambda>i. i + length b + 1) (str_index r p)"
proof (induction b)
  case Nil
  then have "\<not> has_prefix (nl # r) p" using has_prefix_nl [of p "[]" r] by (auto elim: has_prefix.elims)
  then show ?case by (simp add: option.map_comp comp_def)
next
  case (Cons c b)
  then show ?case using has_prefix_nl [of p "c # b" r] by (simp add: option.map_comp comp_def)
qed

text \<open>A block of lines none of which contains the end marker, closed by it.\<close>

definition unlines :: "string list \<Rightarrow> string" where
  "unlines ls = concat (map (\<lambda>l. l @ [nl]) ls)"

lemma unlines_simps [simp]: "unlines [] = []" "unlines (l # ls) = l @ nl # unlines ls"
  by (simp_all add: unlines_def)

lemma lines_then_end:
  assumes "nl \<notin> set e" "e \<noteq> []" "str_index e e = Some 0"
  shows "list_all (\<lambda>l. \<not> str_contains l e) ls \<Longrightarrow> str_index (unlines ls @ e) e = Some (length (unlines ls))"
proof (induction ls)
  case (Cons l ls)
  then show ?case using index_after_nl [OF assms(1,2), of l "unlines ls @ e"] by simp
qed (simp add: assms(3))

lemma has_prefix_length: "has_prefix s p \<Longrightarrow> length p \<le> length s"
  by (auto simp: has_prefix_iff)

lemma has_prefix_append_iff: "length p \<le> length s \<Longrightarrow> has_prefix (s @ r) p \<longleftrightarrow> has_prefix s p"
  by (induction s p rule: has_prefix.induct) auto

lemma str_index_Some: "str_index s p = Some i \<Longrightarrow> s = take i s @ p @ drop (i + length p) s \<and> i + length p \<le> length s"
proof (induction s arbitrary: i)
  case (Cons c s)
  show ?case
  proof (cases "has_prefix (c # s) p")
    case True
    then have "i = 0" using Cons.prems by simp
    moreover obtain r where "c # s = p @ r" using True by (auto simp only: has_prefix_iff)
    ultimately show ?thesis by simp
  next
    case False
    then obtain k where "str_index s p = Some k" "i = Suc k" using Cons.prems by auto
    then show ?thesis using Cons.IH by simp
  qed
qed (auto split: if_splits)

lemma str_index_None: "str_index s p = None \<longleftrightarrow> \<not> str_contains s p"
  by (induction s) auto

lemma str_index_append: "str_index s p = Some i \<Longrightarrow> str_index (s @ r) p = Some i"
proof (induction s arbitrary: i)
  case Nil
  then have "p = []" by (simp split: if_splits)
  then show ?case using Nil by (cases r) auto
next
  case (Cons c s)
  have "length p \<le> length (c # s)" using str_index_Some [OF Cons.prems] by simp
  then have "has_prefix (c # s @ r) p \<longleftrightarrow> has_prefix (c # s) p" using has_prefix_append_iff [of p "c # s" r] by simp
  then show ?case using Cons by (auto split: if_splits)
qed

lemma str_index_take: "str_index s p = Some i \<Longrightarrow> p \<noteq> [] \<Longrightarrow> n \<le> i \<Longrightarrow> \<not> str_contains (take n s) p"
proof (induction s arbitrary: i n)
  case (Cons c s)
  show ?case
  proof (cases n)
    case 0
    then show ?thesis using Cons.prems by (cases p) auto
  next
    case (Suc m)
    then have "\<not> has_prefix (c # s) p" using Cons.prems by auto
    then have "\<not> has_prefix (c # take m s) p"
      using has_prefix_append_iff [of p "c # take m s" "drop m s"] has_prefix_length [of "c # take m s" p] by auto
    moreover obtain k where "str_index s p = Some k" "i = Suc k"
      using Cons.prems \<open>\<not> has_prefix (c # s) p\<close> by auto
    ultimately show ?thesis using Cons.IH [of k m] Cons.prems Suc by auto
  qed
qed (auto split: if_splits)

lemma contains_mono: "str_contains s p \<Longrightarrow> str_contains (a @ s @ b) p"
  unfolding str_contains_iff by (metis append.assoc)

section \<open>Trimming line feeds\<close>

lemma trim_right_nl_prefix: "\<exists>k. s = trim_right_nl s @ replicate k nl"
proof -
  let ?t = "takeWhile (\<lambda>c. c = nl) (rev s)"
  have "?t = replicate (length ?t) nl" by (auto intro!: replicate_eqI dest: set_takeWhileD)
  moreover have "s = trim_right_nl s @ rev ?t"
    by (metis rev_append rev_rev_ident takeWhile_dropWhile_id trim_right_nl_def)
  ultimately show ?thesis by (metis rev_replicate)
qed

lemma trim_right_nl_last: "trim_right_nl s = [] \<or> last (trim_right_nl s) \<noteq> nl"
proof -
  have "dropWhile (\<lambda>c. c = nl) (rev s) = [] \<or> hd (dropWhile (\<lambda>c. c = nl) (rev s)) \<noteq> nl"
    using hd_dropWhile [of "\<lambda>c. c = nl" "rev s"] by blast
  then show ?thesis by (auto simp: trim_right_nl_def last_rev)
qed

lemma trim_right_nl_snoc [simp]: "trim_right_nl (s @ [nl]) = trim_right_nl s"
  by (simp add: trim_right_nl_def)

lemma trim_right_nl_snoc2 [simp]: "trim_right_nl (s @ [nl, nl]) = trim_right_nl s"
  by (simp add: trim_right_nl_def)

lemma trim_right_nl_idem [simp]: "trim_right_nl (trim_right_nl s) = trim_right_nl s"
  by (simp add: trim_right_nl_def dropWhile_idem)

lemma trim_left_nl_idem [simp]: "trim_left_nl (trim_left_nl s) = trim_left_nl s"
  by (simp add: trim_left_nl_def dropWhile_idem)

lemma trim_left_nl_nl [simp]: "trim_left_nl (nl # s) = trim_left_nl s"
  by (simp add: trim_left_nl_def)

lemma trim_nl_Nil [simp]: "trim_left_nl [] = []" "trim_right_nl [] = []"
  by (simp_all add: trim_left_nl_def trim_right_nl_def)

lemma trim_right_no_contains: "\<not> str_contains s p \<Longrightarrow> \<not> str_contains (trim_right_nl s) p"
  using trim_right_nl_prefix [of s] contains_mono [of "trim_right_nl s" p "[]"] by (metis append_Nil)

section \<open>Replacing a block twice\<close>

locale marker_block =
  fixes startMark endMark :: string and content :: "'p \<Rightarrow> string" and ok :: "'p \<Rightarrow> bool" and tail :: string
  assumes nl_start: "nl \<notin> set startMark" "startMark \<noteq> []"
    and nl_end: "nl \<notin> set endMark" "endMark \<noteq> []"
    and block_start: "ok p \<Longrightarrow> str_index (content p) startMark = Some 0"
    and block_end: "ok p \<Longrightarrow> \<exists>j. 0 < j \<and> str_index (content p) endMark = Some j \<and> length (content p) = j + length endMark"
    and tail: "tail = [] \<or> tail = [nl]"
begin

text \<open>What the writer leaves before the block: trimmed, and free of markers.\<close>

lemma replace_clean:
  assumes "\<not> str_contains b startMark" "\<not> str_contains b endMark" and "b = [] \<or> last b \<noteq> nl" and "ok p"
  shows "replace_block startMark endMark (content p) tail (splice_block (content p) tail b a) = Some (splice_block (content p) tail b a)"
proof -
  let ?sep = "if b \<noteq> [] then [nl, nl] else []"
  let ?rest = "if trim_left_nl a \<noteq> [] then [nl, nl] @ trim_left_nl a else tail"
  obtain j where j: "0 < j" "str_index (content p) endMark = Some j" "length (content p) = j + length endMark" using block_end [OF assms(4)] by blast
  have tb: "trim_right_nl b = b"
    using assms(3) by (cases b rule: rev_cases) (auto simp: trim_right_nl_def)
  then have u: "splice_block (content p) tail b a = b @ ?sep @ content p @ ?rest" by (simp add: splice_block_def Let_def)
  have skip: "str_index (b @ ?sep @ content p @ ?rest) q = Some (i + length b + length ?sep)"
    if p: "str_index (content p) q = Some i" "nl \<notin> set q" "q \<noteq> []" "\<not> str_contains b q" for q i
  proof (cases "b = []")
    case False
    have "str_index (nl # content p @ ?rest) q = Some (i + 1)"
      using index_after_nl [OF p(2,3), of "[]" "content p @ ?rest"] str_index_append [OF p(1)] p(3) by simp
    then show ?thesis using index_after_nl [OF p(2-4), of "nl # content p @ ?rest"] False by simp
  qed (use str_index_append [OF p(1)] in simp)
  have s: "str_index (splice_block (content p) tail b a) startMark = Some (length b + length ?sep)"
    using skip [OF block_start [OF assms(4)] nl_start assms(1)] by (simp add: u)
  have e: "str_index (splice_block (content p) tail b a) endMark = Some (j + length b + length ?sep)"
    using skip [OF j(2) nl_end assms(2)] by (simp add: u)
  have "trim_right_nl (take (length b + length ?sep) (splice_block (content p) tail b a)) = b"
    using tb by (simp add: u)
  moreover have "trim_left_nl (drop (j + length b + length ?sep + length endMark) (splice_block (content p) tail b a)) = trim_left_nl a"
  proof -
    have "drop (j + length b + length ?sep + length endMark) (splice_block (content p) tail b a) = ?rest"
      using j(3) by (simp add: u)
    then show ?thesis using tail by auto
  qed
  ultimately have "splice_block (content p) tail (take (length b + length ?sep) (splice_block (content p) tail b a))
      (drop (j + length b + length ?sep + length endMark) (splice_block (content p) tail b a)) = splice_block (content p) tail b a"
    using tb by (simp add: splice_block_def Let_def)
  then show ?thesis using s e j(1) by (simp add: replace_block_def)
qed

lemma splice_trim: "splice_block (content p) tail (trim_right_nl b) a = splice_block (content p) tail b a"
  by (simp add: splice_block_def)

text \<open>A text whose block was replaced has its block replaced by itself.\<close>

lemma replace_idem:
  assumes "replace_block startMark endMark (content p) tail existing = Some u" and "ok p"
  shows "replace_block startMark endMark (content p) tail u = Some u"
proof -
  obtain i j where ij: "str_index existing startMark = Some i" "str_index existing endMark = Some j" "i < j"
      "u = splice_block (content p) tail (take i existing) (drop (j + length endMark) existing)"
    using assms(1) by (auto simp: replace_block_def split: option.splits if_splits)
  have "\<not> str_contains (take i existing) startMark" "\<not> str_contains (take i existing) endMark"
    using str_index_take [OF ij(1) nl_start(2)] str_index_take [OF ij(2) nl_end(2)] ij(3) by auto
  then show ?thesis
    using replace_clean [of "trim_right_nl (take i existing)"] trim_right_no_contains trim_right_nl_last assms(2)
    unfolding ij(4) splice_trim by blast
qed

text \<open>An appended block is replaced by itself when the text has no marker and is not only line feeds.\<close>

lemma append_then_replace:
  assumes "\<not> str_contains existing startMark" "\<not> str_contains existing endMark" and "trim_right_nl existing \<noteq> []" and "ok p"
  shows "replace_block startMark endMark (content p) tail (append_block (content p) tail existing) = Some (append_block (content p) tail existing)"
proof -
  have "append_block (content p) tail existing = splice_block (content p) tail (trim_right_nl existing) []"
    using assms(3) by (simp add: append_block_def splice_block_def Let_def)
  then show ?thesis
    using replace_clean [of "trim_right_nl existing" p "[]"] assms trim_right_no_contains trim_right_nl_last by metis
qed

text \<open>A fresh file too.\<close>

lemma fresh_then_replace: "ok p \<Longrightarrow> replace_block startMark endMark (content p) tail (content p @ tail) = Some (content p @ tail)"
  using replace_clean [of "[]" p "[]"] nl_start(2) nl_end(2) by (cases startMark; cases endMark) (auto simp: splice_block_def)

end

section \<open>Normalized text\<close>

lemma normalizeLF_simps [simp]:
  "normalizeLF [] = []" "normalizeLF [c] = [if c = cr then nl else c]"
  "normalizeLF (c # d # cs) = (if c = cr \<and> d = nl then nl # normalizeLF cs
     else (if c = cr then nl else c) # normalizeLF (d # cs))"
  by (simp_all add: normalizeLF_def replace_byte_def)

lemma normalizeLF_no_cr [simp]: "cr \<notin> set (normalizeLF s)"
  by (induction s rule: replace_crlf.induct) auto

lemma normalizeLF_id: "cr \<notin> set s \<Longrightarrow> normalizeLF s = s"
  by (induction s rule: replace_crlf.induct) auto

lemma normalizeLF_Nil_iff [simp]: "normalizeLF s = [] \<longleftrightarrow> s = []"
  by (cases s rule: replace_crlf.cases) auto

lemma normalizeLF_split: "normalizeLF (a @ nl # b) = normalizeLF (a @ [nl]) @ normalizeLF b"
proof (induction a rule: replace_crlf.induct)
  case 1
  then show ?case by (cases b) auto
next
  case (2 c)
  then show ?case by (cases b) auto
qed auto

lemma normalizeLF_line: "\<exists>y. normalizeLF (a @ [nl]) = y @ [nl]"
  by (induction a rule: replace_crlf.induct) auto

lemma replace_byte_Cons [simp]: "replace_byte c r (x # s) = (if x = c then r else [x]) @ replace_byte c r s"
  and replace_byte_Nil [simp]: "replace_byte c r [] = []"
  by (simp_all add: replace_byte_def)

lemma normalizeLF_restore: "cr \<notin> set s \<Longrightarrow> normalizeLF (restoreLineEndings b s) = s"
proof (cases b)
  case True
  have n: "normalizeLF (x # s) = x # normalizeLF s" if "x \<noteq> cr" for x s using that by (cases s) auto
  have "cr \<notin> set s \<Longrightarrow> normalizeLF (replace_byte nl [cr, nl] s) = s"
    by (induction s) (auto simp: n)
  then show "cr \<notin> set s \<Longrightarrow> ?thesis" using True by (simp add: restoreLineEndings_def)
qed (simp add: restoreLineEndings_def normalizeLF_id)

lemma restore_crlf: "cr \<notin> set s \<Longrightarrow> str_contains (restoreLineEndings b s) [cr, nl] \<longleftrightarrow> b \<and> nl \<in> set s"
proof (cases b)
  case False
  have "str_contains s [cr, nl] \<Longrightarrow> cr \<in> set s" by (auto simp: str_contains_iff)
  then show "cr \<notin> set s \<Longrightarrow> ?thesis" using False by (auto simp: restoreLineEndings_def)
next
  case True
  have "cr \<notin> set s \<Longrightarrow> str_contains (replace_byte nl [cr, nl] s) [cr, nl] \<longleftrightarrow> nl \<in> set s"
    by (induction s) (auto)
  then show "cr \<notin> set s \<Longrightarrow> ?thesis" using True by (simp add: restoreLineEndings_def)
qed

lemma normalizeLF_prefix:
  "nl \<notin> set p \<Longrightarrow> cr \<notin> set p \<Longrightarrow> has_prefix (normalizeLF s) p \<longleftrightarrow> has_prefix s p"
proof (induction s arbitrary: p rule: replace_crlf.induct)
  case (2 c)
  then show ?case by (cases p) auto
next
  case (3 c d cs)
  then show ?case by (cases p) auto
qed simp

lemma normalizeLF_contains:
  assumes "nl \<notin> set p" "cr \<notin> set p" "p \<noteq> []"
  shows "str_contains (normalizeLF s) p \<longleftrightarrow> str_contains s p"
proof (induction s rule: replace_crlf.induct)
  case (2 c)
  then show ?case using normalizeLF_prefix [OF assms(1,2), of "[c]"] assms(3) by auto
next
  case (3 c d cs)
  have h: "\<not> has_prefix (nl # t) p" "\<not> has_prefix (cr # t) p" for t using assms by (auto elim: has_prefix.elims)
  show ?case
    using 3 h normalizeLF_prefix [OF assms(1,2), of "c # d # cs"] by (auto split: if_splits)
qed simp

text \<open>The policy block of a policy that does not contain the end marker is a marker block.\<close>

lemma marker_chars:
  "nl \<notin> set MarkerStart" "MarkerStart \<noteq> []" "cr \<notin> set MarkerStart"
  "nl \<notin> set MarkerEnd" "MarkerEnd \<noteq> []" "cr \<notin> set MarkerEnd"
  by (simp_all add: MarkerStart_def MarkerEnd_def)

lemma contains_after_nl:
  assumes "nl \<notin> set p" "p \<noteq> []"
  shows "str_contains (b @ nl # r) p \<longleftrightarrow> str_contains b p \<or> str_contains r p"
proof (cases "str_contains b p")
  case True
  then show ?thesis using contains_mono [of b p "[]" "nl # r"] by simp
next
  case False
  then show ?thesis using index_after_nl [OF assms False, of r] str_index_None [of "b @ nl # r" p] str_index_None [of r p]
    by auto
qed

lemma contains_nl_nl:
  assumes "nl \<notin> set p" "p \<noteq> []"
  shows "str_contains (b @ [nl, nl]) p \<longleftrightarrow> str_contains b p"
  using contains_after_nl [OF assms, of b "[nl]"] contains_after_nl [OF assms, of "[]" "[]"] assms(2)
  by (cases p) auto

lemma header_no_end:
  "\<not> str_contains MarkerStart MarkerEnd" "str_contains (BlockHeader @ s) MarkerEnd \<longleftrightarrow> str_contains s MarkerEnd"
proof -
  have "BlockHeader @ s = ''<!-- Managed by `pincher init`. Edit `pincher init` to change this block,'' @ nl #
      ''     or delete the markers below to opt out of future updates. -->'' @ nl # [] @ nl # s" by (simp add: BlockHeader_def)
  moreover have "\<not> str_contains ''<!-- Managed by `pincher init`. Edit `pincher init` to change this block,'' MarkerEnd"
    "\<not> str_contains ''     or delete the markers below to opt out of future updates. -->'' MarkerEnd" "\<not> str_contains [] MarkerEnd"
    by code_simp+
  ultimately show "str_contains (BlockHeader @ s) MarkerEnd \<longleftrightarrow> str_contains s MarkerEnd"
    by (simp only: contains_after_nl [OF marker_chars(4,5)] simp_thms)
  show "\<not> str_contains MarkerStart MarkerEnd" by code_simp
qed

lemma no_end_in_nl: "\<not> str_contains [nl] MarkerEnd"
  by code_simp

lemma policy_block_end:
  assumes "\<not> str_contains policy MarkerEnd"
  shows "\<exists>j. 0 < j \<and> str_index (normalizeLF (BuildPolicyBlock policy)) MarkerEnd = Some j \<and>
     length (normalizeLF (BuildPolicyBlock policy)) = j + length MarkerEnd"
proof -
  let ?raw = "MarkerStart @ nl # BlockHeader @ trim_right_nl policy @ [nl]"
  have b: "normalizeLF (BuildPolicyBlock policy) = normalizeLF (?raw @ [nl]) @ MarkerEnd"
    using normalizeLF_split [of ?raw MarkerEnd] marker_chars
    by (simp add: BuildPolicyBlock_def normalizeLF_id)
  obtain y where y: "normalizeLF (?raw @ [nl]) = y @ [nl]" using normalizeLF_line by blast
  have "?raw @ [nl] = MarkerStart @ nl # BlockHeader @ (trim_right_nl policy @ [nl, nl])" by simp
  then have "\<not> str_contains (?raw @ [nl]) MarkerEnd"
    using trim_right_no_contains [OF assms] header_no_end no_end_in_nl
    by (simp only: contains_after_nl [OF marker_chars(4,5)] contains_nl_nl [OF marker_chars(4,5)] simp_thms)
  then have "\<not> str_contains (y @ [nl]) MarkerEnd"
    using normalizeLF_contains [OF marker_chars(4,6,5)] y by metis
  then have "\<not> str_contains y MarkerEnd" using contains_mono [of y MarkerEnd "[]" "[nl]"] by auto
  moreover have "str_index MarkerEnd MarkerEnd = Some 0" by (simp add: MarkerEnd_def)
  ultimately have "str_index (y @ nl # MarkerEnd) MarkerEnd = Some (length y + 1)"
    using index_after_nl [OF marker_chars(4,5)] by simp
  moreover have "normalizeLF (BuildPolicyBlock policy) = y @ nl # MarkerEnd" unfolding b y by simp
  ultimately show ?thesis by auto
qed

lemma policy_block_start: "str_index (normalizeLF (BuildPolicyBlock policy)) MarkerStart = Some 0"
proof -
  have "normalizeLF (BuildPolicyBlock policy) = MarkerStart @ normalizeLF (nl # BlockHeader @ trim_right_nl policy @ [nl, nl] @ MarkerEnd)"
    using normalizeLF_split [of MarkerStart "BlockHeader @ trim_right_nl policy @ [nl, nl] @ MarkerEnd"]
      normalizeLF_split [of "[]" "BlockHeader @ trim_right_nl policy @ [nl, nl] @ MarkerEnd"] marker_chars
    by (simp add: BuildPolicyBlock_def normalizeLF_id)
  moreover have "str_index MarkerStart MarkerStart = Some 0" by (simp add: MarkerStart_def)
  ultimately show ?thesis using str_index_append by metis
qed

interpretation policy_block: marker_block MarkerStart MarkerEnd "\<lambda>policy. normalizeLF (BuildPolicyBlock policy)"
    "\<lambda>policy. \<not> str_contains policy MarkerEnd" "[nl]"
  using marker_chars policy_block_start policy_block_end by unfold_locales auto

section \<open>Running init twice\<close>

lemma splice_set: "set (splice_block block tail before after) \<subseteq> set before \<union> set after \<union> set block \<union> set tail \<union> {nl}"
proof -
  have "set (trim_right_nl before) \<subseteq> set before" using set_dropWhileD [of _ "\<lambda>c. c = nl" "rev before"] by (auto simp: trim_right_nl_def)
  moreover have "set (trim_left_nl after) \<subseteq> set after" using set_dropWhileD [of _ "\<lambda>c. c = nl" after] by (auto simp: trim_left_nl_def)
  ultimately show ?thesis unfolding splice_block_def Let_def by (simp only: set_append list.set split: if_splits) blast
qed

lemma replace_no_cr:
  assumes "replace_block a b block [nl] s = Some u" and "cr \<notin> set s" "cr \<notin> set block"
  shows "cr \<notin> set u"
proof -
  obtain i j where u: "u = splice_block block [nl] (take i s) (drop j s)"
    using assms(1) by (auto simp: replace_block_def split: option.splits if_splits)
  have "set (take i s) \<subseteq> set s" "set (drop j s) \<subseteq> set s" by (rule set_take_subset, rule set_drop_subset)
  then show ?thesis using splice_set [of block "[nl]" "take i s" "drop j s"] assms(2,3) by (auto simp: u)
qed

lemma replace_has_nl: "replace_block a b block [nl] s = Some u \<Longrightarrow> u \<noteq> [] \<and> nl \<in> set u"
  by (auto simp: replace_block_def splice_block_def Let_def split: option.splits if_splits)

lemma replace_has_markers:
  "replace_block MarkerStart MarkerEnd block tail u = Some v \<Longrightarrow> HasMarkers u"
  by (auto simp: replace_block_def HasMarkers_def split: option.splits if_splits)

lemma restore_Nil [simp]: "restoreLineEndings b s = [] \<longleftrightarrow> s = []"
  by (cases s) (auto simp: restoreLineEndings_def)

text \<open>A text whose block is replaced by itself is left as it is by a second run, in its own line endings.\<close>

lemma merge_fixpoint:
  assumes "replace_block MarkerStart MarkerEnd (normalizeLF (BuildPolicyBlock policy)) [nl] u = Some u" and "cr \<notin> set u"
  shows "MergePolicyBlockBare (restoreLineEndings crlf u) policy = (restoreLineEndings crlf u, Updated)"
proof -
  have "wrap_section u = u" using replace_has_markers [OF assms(1)] by (simp add: wrap_section_def)
  then show ?thesis
    using assms normalizeLF_restore [OF assms(2)] restore_crlf [OF assms(2)] replace_has_nl [OF assms(1)]
    by (simp add: MergePolicyBlockBare_def)
qed

section \<open>The section the detector finds\<close>

text \<open>A heading that mentions pincher opens a section; a heading of its level or above closes it.\<close>

definition pincher_heading :: "string \<Rightarrow> bool" where
  "pincher_heading line \<longleftrightarrow> MarkdownHeadingLevel line \<noteq> None \<and> lineMentionsPincher line"

definition closes :: "nat \<Rightarrow> string \<Rightarrow> bool" where
  "closes lv line \<longleftrightarrow> (case MarkdownHeadingLevel line of None \<Rightarrow> False | Some l \<Rightarrow> l \<le> lv)"

lemma heading_level_le: "MarkdownHeadingLevel line = Some lv \<Longrightarrow> 1 \<le> lv \<and> lv \<le> 6"
  by (auto simp: MarkdownHeadingLevel_def Let_def Suc_le_eq split: if_splits)

lemma detect_loop_open:
  "detect_loop pos (Some (start, lv)) lines =
     Some (start, pos + length (concat (takeWhile (\<lambda>l. \<not> closes lv l) lines)))"
  by (induction lines arbitrary: pos) (auto simp: closes_def split: option.split)

lemma detect_loop_exact:
  "detect_loop pos None lines =
     (let pre = takeWhile (\<lambda>l. \<not> pincher_heading l) lines; rest = dropWhile (\<lambda>l. \<not> pincher_heading l) lines;
          start = pos + length (concat pre)
      in if rest = [] then None
         else Some (start, start + length (hd rest) +
           length (concat (takeWhile (\<lambda>l. \<not> closes (the (MarkdownHeadingLevel (hd rest))) l) (tl rest)))))"
proof (induction lines arbitrary: pos)
  case (Cons line lines)
  show ?case
    using Cons heading_level_le [of line]
    by (auto simp: Let_def pincher_heading_def detect_loop_open split: option.split)
qed simp

lemma concat_split_after: "concat (split_after_nl acc s) = rev acc @ s"
  by (induction acc s rule: split_after_nl.induct) auto

lemma split_after_ne: "split_after_nl acc s \<noteq> []"
  by (induction acc s rule: split_after_nl.induct) auto

lemma split_after_lines: "\<forall>l \<in> set (butlast (split_after_nl acc s)). l \<noteq> [] \<and> last l = nl"
proof (induction acc s rule: split_after_nl.induct)
  case (2 acc c cs)
  then show ?case using split_after_ne [of "[]" cs] by auto
qed simp

lemma DetectPincherPolicySection_exact:
  "DetectPincherPolicySection content =
     (let lines = split_after_nl [] content;
          pre = takeWhile (\<lambda>l. \<not> pincher_heading l) lines; rest = dropWhile (\<lambda>l. \<not> pincher_heading l) lines;
          start = length (concat pre)
      in if rest = [] then None
         else Some (start, start + length (hd rest) +
           length (concat (takeWhile (\<lambda>l. \<not> closes (the (MarkdownHeadingLevel (hd rest))) l) (tl rest)))))"
  by (simp add: DetectPincherPolicySection_def detect_loop_exact Let_def)

text \<open>The section starts at the beginning of a line.\<close>

lemma detect_line_start:
  assumes "DetectPincherPolicySection s = Some (a, b)"
  shows "take a s = [] \<or> last (take a s) = nl"
proof -
  let ?ls = "split_after_nl [] s"
  let ?pre = "takeWhile (\<lambda>l. \<not> pincher_heading l) ?ls"
  let ?rest = "dropWhile (\<lambda>l. \<not> pincher_heading l) ?ls"
  have r: "?rest \<noteq> []" "a = length (concat ?pre)"
    using assms by (auto simp: DetectPincherPolicySection_exact Let_def split: if_splits)
  have "s = concat ?pre @ concat ?rest"
    using concat_split_after [of "[]" s] by (metis append_Nil concat_append rev.simps(1) takeWhile_dropWhile_id)
  then have t: "take a s = concat ?pre" using r(2) by (metis append_eq_conv_conj)
  have "butlast ?ls = ?pre @ butlast ?rest" using r(1) by (metis butlast_append takeWhile_dropWhile_id)
  then have "l \<in> set ?pre \<Longrightarrow> l \<noteq> [] \<and> last l = nl" for l using split_after_lines [of "[]" s] by auto
  then show ?thesis unfolding t by (cases ?pre rule: rev_cases) auto
qed

text \<open>The wrapped text of a text without markers has its markers in order.\<close>

lemma wrap_section_markers:
  assumes "\<not> str_contains s MarkerStart" "\<not> str_contains s MarkerEnd"
  shows "wrap_section s = s \<or> (\<exists>u. replace_block MarkerStart MarkerEnd block [nl] (wrap_section s) = Some u)"
proof -
  have n: "\<not> HasMarkers s" using assms(1) by (auto simp: HasMarkers_def str_index_None [symmetric] split: option.split)
  show ?thesis
  proof (cases "DetectPincherPolicySection s")
    case (Some ab)
    obtain a b where ab: "ab = (a, b)" by (cases ab)
    let ?p = "take a s" and ?r = "MarkerStart @ [nl] @ drop a (take b s) @ MarkerEnd @ drop b s"
    have w: "wrap_section s = ?p @ ?r" using n Some ab by (simp add: wrap_section_def)
    have s0: "\<not> str_contains ?p MarkerStart" "\<not> str_contains ?p MarkerEnd"
      using assms contains_mono [of ?p _ "[]" "drop a s"] by auto
    have "str_index MarkerStart MarkerStart = Some 0" by (simp add: MarkerStart_def)
    then have r1: "str_index ?r MarkerStart = Some 0" by (rule str_index_append)
    have "\<not> has_prefix MarkerStart MarkerEnd" "length MarkerEnd \<le> length MarkerStart" by (simp_all add: MarkerStart_def MarkerEnd_def)
    then have "\<not> has_prefix ?r MarkerEnd" by (simp only: has_prefix_append_iff simp_thms)
    moreover have "str_contains ?r MarkerEnd" unfolding str_contains_iff by (metis append.assoc)
    then obtain j where j: "str_index ?r MarkerEnd = Some j" using str_index_None by (metis option.exhaust)
    ultimately have "0 < j" by (cases j) (use str_index_Some [OF j] in \<open>auto simp: has_prefix_iff\<close>)
    moreover have "str_index (?p @ ?r) MarkerStart = Some (length ?p) \<and> str_index (?p @ ?r) MarkerEnd = Some (length ?p + j)"
    proof (cases "?p = []")
      case False
      then obtain q where q: "?p = q @ [nl]" using detect_line_start [OF Some [unfolded ab]] by (metis append_butlast_last_id)
      then have "\<not> str_contains q MarkerStart" "\<not> str_contains q MarkerEnd" using s0 contains_mono [of q _ "[]" "[nl]"] by auto
      then show ?thesis
        using index_after_nl [OF marker_chars(1,2), of q ?r] index_after_nl [OF marker_chars(4,5), of q ?r] r1 j q by simp
    next
      case True
      then show ?thesis using r1 j by (simp only: append_Nil) simp
    qed
    ultimately show ?thesis by (simp add: w replace_block_def)
  qed (simp add: wrap_section_def n)
qed

lemma merge_twice:
  assumes "\<not> str_contains policy MarkerEnd"
    and "HasMarkers (normalizeLF existing) \<or> \<not> (str_contains existing MarkerStart \<or> str_contains existing MarkerEnd)"
    and "existing = [] \<or> trim_right_nl (normalizeLF existing) \<noteq> []"
  shows "MergePolicyBlockBare (fst (MergePolicyBlockBare existing policy)) policy = (fst (MergePolicyBlockBare existing policy), Updated)"
proof (cases "existing = []")
  case True
  have "cr \<notin> set (normalizeLF (BuildPolicyBlock policy) @ [nl])" by simp
  then show ?thesis
    using merge_fixpoint [OF policy_block.fresh_then_replace [OF assms(1)], of False] True
    by (simp add: MergePolicyBlockBare_def Let_def restoreLineEndings_def)
next
  case False
  let ?B = "normalizeLF (BuildPolicyBlock policy)" and ?s = "normalizeLF existing"
  let ?w = "wrap_section ?s"
  have "cr \<notin> set ?w"
    by (auto simp: wrap_section_def MarkerStart_def MarkerEnd_def dest!: in_set_takeD in_set_dropD split: option.split)
  show ?thesis
  proof (cases "replace_block MarkerStart MarkerEnd ?B [nl] ?w")
    case (Some u)
    have "cr \<notin> set u" using replace_no_cr [OF Some \<open>cr \<notin> set ?w\<close>] by simp
    then show ?thesis
      using merge_fixpoint [OF policy_block.replace_idem [OF Some assms(1)]] False Some
      by (simp add: MergePolicyBlockBare_def Let_def)
  next
    case None
    have "\<not> HasMarkers ?s"
      using None by (auto simp: wrap_section_def replace_block_def HasMarkers_def split: option.splits if_splits)
    then have e: "\<not> str_contains ?s MarkerStart" "\<not> str_contains ?s MarkerEnd"
      using assms(2) normalizeLF_contains marker_chars by blast+
    then have "?w = ?s" using wrap_section_markers [of ?s ?B] None by auto
    then have "replace_block MarkerStart MarkerEnd ?B [nl] (append_block ?B [nl] ?w) = Some (append_block ?B [nl] ?w)"
      using policy_block.append_then_replace [OF e _ assms(1)] assms(3) False by simp
    moreover have "cr \<notin> set (append_block ?B [nl] ?w)"
      using \<open>cr \<notin> set ?w\<close> by (auto simp: append_block_def trim_right_nl_def dest!: set_dropWhileD)
    ultimately show ?thesis using merge_fixpoint False None by (simp add: MergePolicyBlockBare_def Let_def)
  qed
qed

text \<open>
  C5: Running init twice is running it once: what the first run writes, the second leaves byte for byte, in the
  line endings of the file, for a file that has a marker pair or no marker at all and is not only line breaks.
\<close>
theorem merge_idempotent:
  assumes "\<not> str_contains policy MarkerEnd"
    and "HasMarkers (normalizeLF existing) \<or> \<not> (str_contains existing MarkerStart \<or> str_contains existing MarkerEnd)"
    and "existing = [] \<or> trim_right_nl (normalizeLF existing) \<noteq> []"
  shows "MergePolicyBlockBare (fst (MergePolicyBlockBare existing policy)) policy = (fst (MergePolicyBlockBare existing policy), Updated)"
  by (rule merge_twice [OF assms])

text \<open>A hand-rolled section is detected, wrapped and replaced; the second run changes nothing.\<close>

theorem merge_idempotent_witness:
  "MergePolicyBlockBare (fst (MergePolicyBlockBare (''# Pincher'' @ [cr, nl] @ ''old'' @ [cr, nl] @ ''# Rest'' @ [cr, nl]) ''new'')) ''new''
     = (fst (MergePolicyBlockBare (''# Pincher'' @ [cr, nl] @ ''old'' @ [cr, nl] @ ''# Rest'' @ [cr, nl]) ''new''), Updated)"
proof -
  let ?s = "''# Pincher'' @ [cr, nl] @ ''old'' @ [cr, nl] @ ''# Rest'' @ [cr, nl]"
  have "\<not> str_contains ''new'' MarkerEnd" by code_simp
  moreover have "\<not> str_contains ?s MarkerStart" "\<not> str_contains ?s MarkerEnd" by code_simp+
  moreover have "trim_right_nl (normalizeLF ?s) \<noteq> []" by code_simp
  ultimately show ?thesis by (intro merge_idempotent) blast+
qed

section \<open>A marker without its partner\<close>

lemma trim_right_index:
  assumes "str_index s p = Some i" "nl \<notin> set p" "p \<noteq> []"
  shows "str_index (trim_right_nl s) p = Some i"
proof -
  obtain k where k: "s = trim_right_nl s @ replicate k nl" using trim_right_nl_prefix by blast
  have "\<not> str_contains (replicate n nl) p" for n
  proof
    assume "str_contains (replicate n nl) p"
    then have "set p \<subseteq> set (replicate n nl)" by (auto simp: str_contains_iff)
    then show False using assms(2,3) by (cases p) (auto split: if_splits)
  qed
  moreover have "str_contains (trim_right_nl s @ replicate k nl) p"
    using assms(1) str_index_None k by (metis option.distinct(1))
  ultimately have "str_contains (trim_right_nl s) p"
    using contains_after_nl [OF assms(2,3), of "trim_right_nl s"] by (cases k) auto
  then obtain j where "str_index (trim_right_nl s) p = Some j" using str_index_None by (metis option.exhaust)
  then show ?thesis using k str_index_append assms(1) by (metis option.inject)
qed

text \<open>
  A start marker without an end marker costs text: the first run appends a block as documented, and the
  second takes the stray marker for the start of that block and drops everything between the two.
\<close>
theorem stray_start_loses_text:
  assumes "\<not> str_contains policy MarkerEnd" and "str_index existing MarkerStart = Some i" and "\<not> str_contains existing MarkerEnd"
    and "DetectPincherPolicySection existing = None" and "cr \<notin> set existing"
  shows "MergePolicyBlockBare existing policy = (append_block (normalizeLF (BuildPolicyBlock policy)) [nl] existing, Appended) \<and>
     MergePolicyBlockBare (fst (MergePolicyBlockBare existing policy)) policy =
       (splice_block (normalizeLF (BuildPolicyBlock policy)) [nl] (take i existing) [], Updated)"
proof -
  let ?B = "normalizeLF (BuildPolicyBlock policy)" and ?t = "trim_right_nl existing"
  let ?u = "append_block ?B [nl] existing"
  have nc: "\<not> str_contains existing [cr, nl]" using assms(5) by (auto simp: str_contains_iff)
  have "existing \<noteq> []" using assms(2) marker_chars(2) by (cases existing) (auto split: if_splits)
  moreover have nm: "str_index existing MarkerEnd = None" using assms(3) by (simp add: str_index_None)
  then have "wrap_section existing = existing" using assms(4) by (simp add: wrap_section_def split: option.split)
  moreover have "replace_block MarkerStart MarkerEnd ?B [nl] existing = None" using nm by (simp add: replace_block_def split: option.split)
  ultimately have one: "MergePolicyBlockBare existing policy = (?u, Appended)"
    using nc assms(5) by (simp add: MergePolicyBlockBare_def Let_def normalizeLF_id restoreLineEndings_def)
  obtain j where j: "str_index ?B MarkerEnd = Some j" "length ?B = j + length MarkerEnd"
    using policy_block_end [OF assms(1)] by blast
  have u: "?u = ?t @ nl # nl # ?B @ [nl]" by (simp add: append_block_def)
  have ts: "str_index ?t MarkerStart = Some i" by (rule trim_right_index [OF assms(2) marker_chars(1,2)])
  have us: "str_index ?u MarkerStart = Some i" unfolding u by (rule str_index_append [OF ts])
  have "str_index (nl # ?B @ [nl]) MarkerEnd = Some (j + 1)"
    using index_after_nl [OF marker_chars(4,5), of "[]" "?B @ [nl]"] str_index_append [OF j(1)] marker_chars(5) by simp
  then have ue: "str_index ?u MarkerEnd = Some (j + 1 + length ?t + 1)"
    unfolding u using index_after_nl [OF marker_chars(4,5) trim_right_no_contains [OF assms(3)], of "nl # ?B @ [nl]"] by simp
  have "0 < length MarkerStart" using marker_chars(2) by simp
  then have il: "i < length ?t" using str_index_Some [OF ts] by linarith
  have "take i ?u = take i existing"
    using il trim_right_nl_prefix [of existing] unfolding u by (metis less_imp_le_nat take_append append_Nil2 diff_is_0_eq take0)
  moreover have "drop (j + 1 + length ?t + 1 + length MarkerEnd) ?u = [nl]" unfolding u using j(2) by simp
  ultimately have "replace_block MarkerStart MarkerEnd ?B [nl] ?u = Some (splice_block ?B [nl] (take i existing) [nl])"
    using us ue il by (simp add: replace_block_def)
  moreover have "splice_block ?B [nl] (take i existing) [nl] = splice_block ?B [nl] (take i existing) []"
    by (simp add: splice_block_def)
  ultimately have r: "replace_block MarkerStart MarkerEnd ?B [nl] ?u = Some (splice_block ?B [nl] (take i existing) [])" by simp
  have "cr \<notin> set ?t" using assms(5) trim_right_nl_prefix [of existing] by (metis Un_iff set_append)
  then have cu: "cr \<notin> set ?u" unfolding u by simp
  then have "\<not> str_contains ?u [cr, nl]" by (auto simp: str_contains_iff)
  moreover have "wrap_section ?u = ?u" using replace_has_markers [OF r] by (simp add: wrap_section_def)
  ultimately have "MergePolicyBlockBare ?u policy = (splice_block ?B [nl] (take i existing) [], Updated)"
    using r cu u by (simp add: MergePolicyBlockBare_def Let_def normalizeLF_id restoreLineEndings_def)
  then show ?thesis using one by simp
qed

theorem stray_start_loses_text_witness:
  "fst (MergePolicyBlockBare (fst (MergePolicyBlockBare (''a'' @ MarkerStart @ ''mine'') ''new'')) ''new'')
     = ''a'' @ [nl, nl] @ BuildPolicyBlock ''new'' @ [nl]"
proof -
  let ?s = "''a'' @ MarkerStart @ ''mine''"
  have "\<not> str_contains ''new'' MarkerEnd" "str_index ?s MarkerStart = Some 1" "\<not> str_contains ?s MarkerEnd"
    "DetectPincherPolicySection ?s = None" by code_simp+
  moreover have "cr \<notin> set ?s" by (simp add: MarkerStart_def)
  ultimately have "fst (MergePolicyBlockBare (fst (MergePolicyBlockBare ?s ''new'')) ''new'') =
      splice_block (normalizeLF (BuildPolicyBlock ''new'')) [nl] (take 1 ?s) []"
    using stray_start_loses_text [THEN conjunct2] by (metis fst_conv)
  also have "\<dots> = ''a'' @ [nl, nl] @ BuildPolicyBlock ''new'' @ [nl]" by code_simp
  finally show ?thesis .
qed

text \<open>A stray end marker makes every run append one more block.\<close>

lemma stray_end_duplicates:
  "let r1 = MergePolicyBlockBare (''a'' @ MarkerEnd) ''new''; r2 = MergePolicyBlockBare (fst r1) ''new''
   in snd r1 = Appended \<and> snd r2 = Appended \<and> length (fst r1) + length MarkerStart < length (fst r2)"
  by code_simp

end
