(* ===== verification/Init_Targets.thy ===== *)
theory Init_Targets
  imports Init_Merge "HOL-Library.Finite_Map"
begin

text \<open>
  The rule files and server registrations \<open>pincher init\<close> writes (\<open>internal/init/targets.go\<close>, \<open>codex.go\<close>,
  \<open>vscode_mcp.go\<close>, \<open>antigravity_mcp.go\<close>), the plan of a target (\<open>init.go\<close>) and the MCP handler
  (\<open>internal/server/init.go\<close>).

  What the code reads of its surroundings is a record: the home directory, the environment, the path of the
  executable, the operating system, which paths exist, the text of the files, and the two directions of
  \<open>encoding/json\<close> for untyped values. A writer that runs into a Go panic returns None.
\<close>

section \<open>Paths\<close>

text \<open>\<open>path.Clean\<close> on the components between slashes; the stack is in reverse order.\<close>

definition clean_step :: "bool \<Rightarrow> string list \<Rightarrow> string \<Rightarrow> string list" where
  "clean_step rooted out c =
     (if c = '''' \<or> c = ''.'' then out
      else if c = ''..'' then
        (if out \<noteq> [] \<and> hd out \<noteq> ''..'' then tl out else if rooted then out else c # out)
      else c # out)"

definition is_rooted :: "string \<Rightarrow> bool" where
  "is_rooted p \<longleftrightarrow> p \<noteq> [] \<and> hd p = CHR ''/''"

definition path_comps :: "string \<Rightarrow> string list" where
  "path_comps p = rev (foldl (clean_step (is_rooted p)) [] (split_on (CHR ''/'') [] p))"

definition filepath_Clean :: "string \<Rightarrow> string" where
  "filepath_Clean p =
     (if p = [] then ''.''
      else let body = str_join ''/'' (path_comps p)
           in if is_rooted p then CHR ''/'' # body else if body = [] then ''.'' else body)"

definition filepath_Join :: "string list \<Rightarrow> string" where
  "filepath_Join elems =
     (case dropWhile (\<lambda>e. e = []) elems of [] \<Rightarrow> [] | es \<Rightarrow> filepath_Clean (str_join ''/'' es))"

definition filepath_Dir :: "string \<Rightarrow> string" where
  "filepath_Dir p = filepath_Clean (rev (dropWhile (\<lambda>c. c \<noteq> CHR ''/'') (rev p)))"

section \<open>The surroundings\<close>

datatype gval =
  GNull | GBool bool | GNum string | GStr string | GArr "gval list" | GObj "(string, gval) fmap"

record init_world =
  w_home :: "string option"
  w_env :: "string \<Rightarrow> string"
  w_exe :: "string option"
  w_goos :: string
  w_stat :: "string \<Rightarrow> bool"
  w_dec :: "string \<Rightarrow> gval option"
  w_enc :: "gval \<Rightarrow> string option"

datatype init_error =
    NoHome | NoGlobalVariant string | TargetRequired | UnknownTarget string | CannotMerge string string | WriterPanic string

text \<open>A nil map for JSON null; a value that is not an object does not decode into a map.\<close>

definition unmarshal_map :: "init_world \<Rightarrow> string \<Rightarrow> (string, gval) fmap option option" where
  "unmarshal_map w s = (case w_dec w s of
      Some (GObj m) \<Rightarrow> Some (Some m)
    | Some GNull \<Rightarrow> Some None
    | _ \<Rightarrow> None)"

definition obj_of :: "gval option \<Rightarrow> (string, gval) fmap" where
  "obj_of v = (case v of Some (GObj m) \<Rightarrow> m | _ \<Rightarrow> fmempty)"

definition marshal_indent :: "init_world \<Rightarrow> gval \<Rightarrow> string" where
  "marshal_indent w v = (case w_enc w v of Some s \<Rightarrow> s | None \<Rightarrow> [])"

section \<open>Rule files with front matter\<close>

definition em_dash :: string where "em_dash = [CHR 0xE2, CHR 0x80, CHR 0x94]"

definition cursorRuleFrontmatter :: string where
  "cursorRuleFrontmatter = ''---'' @ [nl] @ ''description: pincher MCP code-intelligence usage policy'' @ [nl] @
     ''globs:'' @ [nl] @ ''  - '' @ [dq] @ ''**/*'' @ [dq] @ [nl] @ ''alwaysApply: true'' @ [nl] @ ''---'' @ [nl, nl]"

definition cursorHookCheckEquivalent :: string where
  "cursorHookCheckEquivalent =
     ''# When to use pincher tools (Cursor PreToolUse hook equivalent)'' @ [nl, nl] @
     ''Cursor doesn't have Claude Code's runtime PreToolUse hook ([#627](https://github.com/kwad77/pincher/issues/627)), so the redirect is convention-based here. The contract below mirrors the hook's decision logic from [cmd/pinch/hook_check.go](https://github.com/kwad77/pincher/blob/master/cmd/pinch/hook_check.go).'' @
     [nl, nl] @ ''**Before any Read on a file in this repo:**'' @ [nl] @
     ''- If the path is indexed and the file is >4 KB and has >5 symbols, call `mcp__pincher__context id=<symbol_id> lite=true` instead '' @
     em_dash @ '' same retrieval, ~80% smaller payload.'' @ [nl] @
     ''- Get the symbol_id from `mcp__pincher__search query=<name>` first.'' @ [nl] @
     ''- Skip the redirect when: the file is a test/spec source (`*_test.go`, `*.spec.ts`, `*.test.jsx`, `tests/**`, etc), under 4 KB, has <5 symbols, or you've already passed an offset/limit.'' @
     [nl, nl] @ ''**Before any Grep on an identifier-shaped pattern:**'' @ [nl] @
     ''- If the pattern is a single camelCase / snake_case / dotted identifier, call `mcp__pincher__search query=<pattern>` '' @
     em_dash @ '' BM25 ranking + snippets beat unranked grep matches.'' @ [nl] @
     ''- Skip the redirect when: the pattern has regex metacharacters, is a phrase (contains a space), or no project is indexed yet.'' @
     [nl, nl] @
     ''Pincher's own hook redirects mid-flight on Claude Code installs ([#1635](https://github.com/kwad77/pincher/issues/1635) advisory when not installed); under Cursor the agent applies the same rules deliberately.'' @
     [nl, nl]"

definition windsurfRuleFrontmatter :: string where
  "windsurfRuleFrontmatter = ''---'' @ [nl] @ ''trigger: always_on'' @ [nl] @ ''---'' @ [nl, nl]"

definition SplitMDXFrontmatter :: "string \<Rightarrow> string \<times> string" where
  "SplitMDXFrontmatter content =
     (if \<not> has_prefix content (''---'' @ [nl]) \<and> \<not> has_prefix content (''---'' @ [cr, nl]) then ([], content)
      else
        let rest = (if has_prefix content (''---'' @ [cr, nl]) then drop 5 content else drop 4 content);
            close = (case str_index rest ([nl] @ ''---'' @ [nl]) of
                Some i \<Rightarrow> Some i
              | None \<Rightarrow> str_index rest ([nl] @ ''---'' @ [cr, nl]))
        in (case close of
              None \<Rightarrow> ([], content)
            | Some closeIdx \<Rightarrow>
                let e0 = length content - length rest + closeIdx + 5;
                    e1 = (if e0 > length content then length content else e0);
                    e2 = (if e1 < length content \<and> content ! e1 = nl then e1 + 1 else e1)
                in (take e2 content, drop e2 content)))"

definition cursorMDCWriter :: "string \<Rightarrow> string \<Rightarrow> string \<times> init_action" where
  "cursorMDCWriter existing policy =
     (if existing = [] then
        (cursorRuleFrontmatter @ cursorHookCheckEquivalent @ fst (MergePolicyBlockBare [] policy), Wrote)
      else
        let (frontmatter, body) = SplitMDXFrontmatter existing;
            (mergedBody, action) = MergePolicyBlockBare body policy
        in (frontmatter @ mergedBody, action))"

definition windsurfMDWriter :: "string \<Rightarrow> string \<Rightarrow> string \<times> init_action" where
  "windsurfMDWriter existing policy =
     (if existing = [] then (windsurfRuleFrontmatter @ fst (MergePolicyBlockBare [] policy), Wrote)
      else
        let (frontmatter, body) = SplitMDXFrontmatter existing;
            (mergedBody, action) = MergePolicyBlockBare body policy
        in (frontmatter @ mergedBody, action))"

section \<open>Continue: a block inside a JSON string\<close>

definition continueStart :: string where "continueStart = ''// pincher:start''"
definition continueEnd :: string where "continueEnd = ''// pincher:end''"

definition continue_block :: "string \<Rightarrow> string" where
  "continue_block policy = continueStart @ [nl] @
     ''// Managed by `pincher init --target=continue`. Edit `pincher init` to change this block.'' @ [nl] @
     trim_right_nl policy @ [nl] @ continueEnd"

definition mergeMessage :: "string \<Rightarrow> string \<Rightarrow> string \<times> init_action" where
  "mergeMessage policy prev =
     (let block = continue_block policy
      in if prev = [] then (block, Wrote)
         else (case replace_block continueStart continueEnd block [] prev of
             Some merged \<Rightarrow> (merged, Updated)
           | None \<Rightarrow> (append_block block [] prev, Appended)))"

definition continueJSONWriter :: "init_world \<Rightarrow> string \<Rightarrow> string \<Rightarrow> (string \<times> init_action) option" where
  "continueJSONWriter w existing policy =
     (if existing = [] then
        let (msg, action) = mergeMessage policy []
        in Some (marshal_indent w (GObj (fmupd ''systemMessage'' (GStr msg) fmempty)) @ [nl], action)
      else (case unmarshal_map w existing of
          None \<Rightarrow> Some (existing, ErrorAction)
        | Some None \<Rightarrow> None
        | Some (Some cfg) \<Rightarrow>
            let prev = (case fmlookup cfg ''systemMessage'' of Some (GStr s) \<Rightarrow> s | _ \<Rightarrow> []);
                (merged, action) = mergeMessage policy prev
            in (case w_enc w (GObj (fmupd ''systemMessage'' (GStr merged) cfg)) of
                  None \<Rightarrow> Some (existing, ErrorAction)
                | Some out \<Rightarrow> Some (out @ [nl], action))))"

section \<open>Codex: a block in a TOML file\<close>

definition codexMarkerStart :: string where
  "codexMarkerStart = ''# >>> pincher:start (managed by `pincher init --target=codex`) >>>''"

definition codexMarkerEnd :: string where "codexMarkerEnd = ''# <<< pincher:end <<<''"

text \<open>\<open>%q\<close>, on printable bytes.\<close>

definition go_quote :: "string \<Rightarrow> string" where
  "go_quote s = dq # concat (map (\<lambda>c. if c = dq \<or> c = bsl then [bsl, c]
       else if c = nl then bsl # ''n'' else if c = tab then bsl # ''t'' else if c = cr then bsl # ''r'' else [c]) s) @ [dq]"

definition codexPincherBinaryPath :: "init_world \<Rightarrow> string" where
  "codexPincherBinaryPath w = (case w_exe w of Some exe \<Rightarrow> exe | None \<Rightarrow> ''pincher'')"

text \<open>The data directory of one agent; the three copies in the sources differ in the last segment.\<close>

definition agent_data_dir :: "string \<Rightarrow> init_world \<Rightarrow> string" where
  "agent_data_dir seg w =
     (if w_goos w = ''windows'' \<and> w_env w ''APPDATA'' \<noteq> [] then filepath_Join [w_env w ''APPDATA'', ''pincherMCP'', seg]
      else (case w_home w of
          None \<Rightarrow> []
        | Some h \<Rightarrow>
            if w_goos w = ''darwin'' then filepath_Join [h, ''Library'', ''Application Support'', ''pincherMCP'', seg]
            else if w_env w ''XDG_DATA_HOME'' \<noteq> [] then filepath_Join [w_env w ''XDG_DATA_HOME'', ''pincherMCP'', seg]
            else filepath_Join [h, ''.local'', ''share'', ''pincherMCP'', seg]))"

definition codexPincherDataDir :: "init_world \<Rightarrow> string" where
  "codexPincherDataDir = agent_data_dir ''codex''"

definition buildCodexBlock :: "init_world \<Rightarrow> string" where
  "buildCodexBlock w = codexMarkerStart @ [nl] @
     ''# Re-run `pincher init --target=codex` to refresh this block.'' @ [nl] @
     ''# `command` uses the supervised wrapper so dropped MCP sessions'' @ [nl] @
     ''# auto-respawn without manual /mcp; PINCHER_DATA_DIR isolates'' @ [nl] @
     ''# Codex's pincher DB from other agent CLIs (Claude Code, etc.).'' @ [nl] @
     ''[mcp_servers.pincher]'' @ [nl] @
     ''command = '' @ go_quote (codexPincherBinaryPath w) @ [nl] @
     ''args = ['' @ [dq] @ ''supervised'' @ [dq] @ '']'' @ [nl] @ [nl] @
     ''[mcp_servers.pincher.env]'' @ [nl] @
     ''PINCHER_DATA_DIR = '' @ go_quote (codexPincherDataDir w) @ [nl] @
     ''PINCHER_AUTO_RESTART_ON_DRIFT = '' @ [dq] @ ''1'' @ [dq] @ [nl] @
     codexMarkerEnd"

definition writeCodexMCPConfig :: "init_world \<Rightarrow> string \<Rightarrow> string \<times> init_action" where
  "writeCodexMCPConfig w existing =
     (let block = buildCodexBlock w
      in if existing = [] then (block @ [nl], Wrote)
         else (case replace_block codexMarkerStart codexMarkerEnd block [nl] existing of
             Some u \<Rightarrow> (u, Updated)
           | None \<Rightarrow>
               if str_contains existing ''[mcp_servers.pincher]'' then (existing, Skipped)
               else (append_block block [nl] existing, Appended)))"

section \<open>Server registrations in JSON files\<close>

definition vscodePincherDataDir :: "init_world \<Rightarrow> string" where
  "vscodePincherDataDir = agent_data_dir ''vscode''"

definition antigravityMCPPincherDataDir :: "init_world \<Rightarrow> string" where
  "antigravityMCPPincherDataDir = agent_data_dir ''antigravity''"

definition vscodePincherBinaryPath :: "init_world \<Rightarrow> string" where
  "vscodePincherBinaryPath w = (case w_exe w of Some exe \<Rightarrow> exe | None \<Rightarrow> ''pincher'')"

definition antigravityMCPPincherBinaryPath :: "init_world \<Rightarrow> string" where
  "antigravityMCPPincherBinaryPath w = (case w_exe w of Some exe \<Rightarrow> exe | None \<Rightarrow> ''pincher'')"

definition pincher_entry :: "string \<Rightarrow> string \<Rightarrow> gval" where
  "pincher_entry binary dataDir = GObj (fmap_of_list
     [(''command'', GStr binary), (''args'', GArr [GStr ''supervised'']),
      (''env'', GObj (fmap_of_list [(''PINCHER_DATA_DIR'', GStr dataDir), (''PINCHER_AUTO_RESTART_ON_DRIFT'', GStr ''1'')]))])"

definition buildVSCodePincherEntry :: "init_world \<Rightarrow> gval" where
  "buildVSCodePincherEntry w = pincher_entry (vscodePincherBinaryPath w) (vscodePincherDataDir w)"

definition buildAntigravityMCPPincherEntry :: "init_world \<Rightarrow> gval" where
  "buildAntigravityMCPPincherEntry w = pincher_entry (antigravityMCPPincherBinaryPath w) (antigravityMCPPincherDataDir w)"

definition register_server ::
    "init_world \<Rightarrow> string \<Rightarrow> gval \<Rightarrow> string \<Rightarrow> string \<times> init_action" where
  "register_server w key entry existing =
     (if existing = [] then
        (marshal_indent w (GObj (fmupd key (GObj (fmupd ''pincher'' entry fmempty)) fmempty)) @ [nl], Wrote)
      else (case unmarshal_map w existing of
          None \<Rightarrow> (existing, ErrorAction)
        | Some d \<Rightarrow>
            let doc = (case d of Some m \<Rightarrow> m | None \<Rightarrow> fmempty);
                servers = obj_of (fmlookup doc key);
                hadPincher = (fmlookup servers ''pincher'' \<noteq> None);
                doc' = fmupd key (GObj (fmupd ''pincher'' entry servers)) doc
            in (marshal_indent w (GObj doc') @ [nl], if hadPincher then Updated else Appended)))"

definition writeVSCodeMCPConfig :: "init_world \<Rightarrow> string \<Rightarrow> string \<times> init_action" where
  "writeVSCodeMCPConfig w = register_server w ''servers'' (buildVSCodePincherEntry w)"

definition writeAntigravityMCPConfig :: "init_world \<Rightarrow> string \<Rightarrow> string \<times> init_action" where
  "writeAntigravityMCPConfig w = register_server w ''mcpServers'' (buildAntigravityMCPPincherEntry w)"

section \<open>The targets\<close>

record target =
  t_Name :: string
  t_SupportsGlobal :: bool
  t_AlwaysGlobal :: bool
  t_PathFn :: "init_world \<Rightarrow> string \<Rightarrow> bool \<Rightarrow> init_error + string"
  t_DetectFn :: "init_world \<Rightarrow> string \<Rightarrow> bool"
  t_WriteFn :: "init_world \<Rightarrow> string \<Rightarrow> string \<Rightarrow> (string \<times> init_action) option"

definition stat_in :: "init_world \<Rightarrow> string \<Rightarrow> string list \<Rightarrow> bool" where
  "stat_in w cwd elems = w_stat w (filepath_Join (cwd # elems))"

text \<open>Below the home directory when global is set, below the project otherwise.\<close>

definition home_or_project ::
    "string list \<Rightarrow> string list \<Rightarrow> init_world \<Rightarrow> string \<Rightarrow> bool \<Rightarrow> init_error + string" where
  "home_or_project global_elems elems w cwd global =
     (if global then (case w_home w of None \<Rightarrow> Inl NoHome | Some home \<Rightarrow> Inr (filepath_Join (home # global_elems)))
      else Inr (filepath_Join (cwd # elems)))"

definition project_only ::
    "string \<Rightarrow> string list \<Rightarrow> init_world \<Rightarrow> string \<Rightarrow> bool \<Rightarrow> init_error + string" where
  "project_only name elems w cwd global =
     (if global then Inl (NoGlobalVariant name) else Inr (filepath_Join (cwd # elems)))"

definition always :: "(string \<Rightarrow> string \<Rightarrow> string \<times> init_action) \<Rightarrow> init_world \<Rightarrow> string \<Rightarrow> string \<Rightarrow> (string \<times> init_action) option" where
  "always f w existing policy = Some (f existing policy)"

definition ResolveCLAUDEPath :: "init_world \<Rightarrow> string \<Rightarrow> bool \<Rightarrow> init_error + string" where
  "ResolveCLAUDEPath = home_or_project [''.claude'', ''CLAUDE.md''] [''CLAUDE.md'']"

definition ClaudeTarget :: target where
  "ClaudeTarget = \<lparr>t_Name = ''claude'', t_SupportsGlobal = True, t_AlwaysGlobal = False, t_PathFn = ResolveCLAUDEPath,
     t_DetectFn = (\<lambda>w cwd. stat_in w cwd [''CLAUDE.md'']), t_WriteFn = always MergePolicyBlock\<rparr>"

definition CursorTarget :: target where
  "CursorTarget = \<lparr>t_Name = ''cursor'', t_SupportsGlobal = False, t_AlwaysGlobal = False,
     t_PathFn = project_only ''cursor'' [''.cursor'', ''rules'', ''pincher.mdc''],
     t_DetectFn = (\<lambda>w cwd. stat_in w cwd [''.cursor'']), t_WriteFn = always cursorMDCWriter\<rparr>"

definition CursorLegacyTarget :: target where
  "CursorLegacyTarget = \<lparr>t_Name = ''cursor-legacy'', t_SupportsGlobal = False, t_AlwaysGlobal = False,
     t_PathFn = project_only ''cursor-legacy'' [''.cursorrules''],
     t_DetectFn = (\<lambda>w cwd. stat_in w cwd [''.cursorrules'']), t_WriteFn = always MergePolicyBlockBare\<rparr>"

definition WindsurfTarget :: target where
  "WindsurfTarget = \<lparr>t_Name = ''windsurf'', t_SupportsGlobal = False, t_AlwaysGlobal = False,
     t_PathFn = project_only ''windsurf'' [''.windsurf'', ''rules'', ''pincher.md''],
     t_DetectFn = (\<lambda>w cwd. stat_in w cwd [''.windsurf'']), t_WriteFn = always windsurfMDWriter\<rparr>"

definition AiderTarget :: target where
  "AiderTarget = \<lparr>t_Name = ''aider'', t_SupportsGlobal = False, t_AlwaysGlobal = False,
     t_PathFn = project_only ''aider'' [''CONVENTIONS.md''],
     t_DetectFn = (\<lambda>w cwd. stat_in w cwd [''CONVENTIONS.md''] \<or> stat_in w cwd [''.aider.conf.yml'']),
     t_WriteFn = always MergePolicyBlockBare\<rparr>"

definition ZedTarget :: target where
  "ZedTarget = \<lparr>t_Name = ''zed'', t_SupportsGlobal = True, t_AlwaysGlobal = False,
     t_PathFn = home_or_project [''.config'', ''zed'', ''.rules''] [''.rules''],
     t_DetectFn = (\<lambda>w cwd. stat_in w cwd [''.zed''] \<or> stat_in w cwd [''.rules'']),
     t_WriteFn = always MergePolicyBlockBare\<rparr>"

definition GeminiTarget :: target where
  "GeminiTarget = \<lparr>t_Name = ''gemini'', t_SupportsGlobal = True, t_AlwaysGlobal = False,
     t_PathFn = home_or_project [''.gemini'', ''GEMINI.md''] [''GEMINI.md''],
     t_DetectFn = (\<lambda>w cwd. stat_in w cwd [''GEMINI.md''] \<or> stat_in w cwd [''.gemini'']),
     t_WriteFn = always MergePolicyBlock\<rparr>"

definition WarpTarget :: target where
  "WarpTarget = \<lparr>t_Name = ''warp'', t_SupportsGlobal = True, t_AlwaysGlobal = False,
     t_PathFn = home_or_project [''.warp'', ''WARP.md''] [''WARP.md''],
     t_DetectFn = (\<lambda>w cwd. stat_in w cwd [''WARP.md''] \<or> stat_in w cwd [''.warp'']),
     t_WriteFn = always MergePolicyBlock\<rparr>"

definition VSCodeTarget :: target where
  "VSCodeTarget = \<lparr>t_Name = ''vscode'', t_SupportsGlobal = False, t_AlwaysGlobal = False,
     t_PathFn = project_only ''vscode'' [''.github'', ''copilot-instructions.md''],
     t_DetectFn = (\<lambda>w cwd. stat_in w cwd [filepath_Join [''.github'', ''copilot-instructions.md'']] \<or>
       stat_in w cwd [''.vscode''] \<or> stat_in w cwd [filepath_Join [''.github'', ''instructions'']]),
     t_WriteFn = always MergePolicyBlock\<rparr>"

definition VSCodeMCPTarget :: target where
  "VSCodeMCPTarget = \<lparr>t_Name = ''vscode-mcp'', t_SupportsGlobal = False, t_AlwaysGlobal = False,
     t_PathFn = project_only ''vscode-mcp'' [''.vscode'', ''mcp.json''],
     t_DetectFn = (\<lambda>w cwd. stat_in w cwd [''.vscode'']),
     t_WriteFn = (\<lambda>w existing policy. Some (writeVSCodeMCPConfig w existing))\<rparr>"

definition ContinueTarget :: target where
  "ContinueTarget = \<lparr>t_Name = ''continue'', t_SupportsGlobal = False, t_AlwaysGlobal = True,
     t_PathFn = (\<lambda>w cwd global. case w_home w of None \<Rightarrow> Inl NoHome
       | Some home \<Rightarrow> Inr (filepath_Join [home, ''.continue'', ''config.json''])),
     t_DetectFn = (\<lambda>w cwd. case w_home w of None \<Rightarrow> False | Some home \<Rightarrow> stat_in w home [''.continue'']),
     t_WriteFn = continueJSONWriter\<rparr>"

definition ResolveCodexConfigPath :: "init_world \<Rightarrow> string \<Rightarrow> bool \<Rightarrow> init_error + string" where
  "ResolveCodexConfigPath w cwd global =
     (if w_env w ''CODEX_HOME'' \<noteq> [] then Inr (filepath_Join [w_env w ''CODEX_HOME'', ''config.toml''])
      else (case w_home w of None \<Rightarrow> Inl NoHome
        | Some h \<Rightarrow> Inr (filepath_Join [filepath_Join [h, ''.codex''], ''config.toml''])))"

definition detectCodex :: "init_world \<Rightarrow> string \<Rightarrow> bool" where
  "detectCodex w cwd =
     (case ResolveCodexConfigPath w cwd True of Inl _ \<Rightarrow> False | Inr path \<Rightarrow> w_stat w (filepath_Dir path))"

definition CodexTarget :: target where
  "CodexTarget = \<lparr>t_Name = ''codex'', t_SupportsGlobal = False, t_AlwaysGlobal = True,
     t_PathFn = ResolveCodexConfigPath, t_DetectFn = detectCodex,
     t_WriteFn = (\<lambda>w existing policy. Some (writeCodexMCPConfig w existing))\<rparr>"

definition JetBrainsTarget :: target where
  "JetBrainsTarget = \<lparr>t_Name = ''jetbrains'', t_SupportsGlobal = False, t_AlwaysGlobal = False,
     t_PathFn = project_only ''jetbrains'' [''.junie'', ''guidelines.md''],
     t_DetectFn = (\<lambda>w cwd. stat_in w cwd [''.idea'']), t_WriteFn = always MergePolicyBlockBare\<rparr>"

definition AntigravityTarget :: target where
  "AntigravityTarget = \<lparr>t_Name = ''antigravity'', t_SupportsGlobal = False, t_AlwaysGlobal = False,
     t_PathFn = project_only ''antigravity'' [''.agents'', ''rules'', ''pincher.md''],
     t_DetectFn = (\<lambda>w cwd. stat_in w cwd [''.agents'']), t_WriteFn = always MergePolicyBlockBare\<rparr>"

definition ResolveAntigravityMCPConfigPath :: "init_world \<Rightarrow> string \<Rightarrow> bool \<Rightarrow> init_error + string" where
  "ResolveAntigravityMCPConfigPath w cwd global =
     (case w_home w of None \<Rightarrow> Inl NoHome
      | Some h \<Rightarrow> Inr (filepath_Join [h, ''.gemini'', ''antigravity'', ''mcp_config.json'']))"

definition detectAntigravityMCP :: "init_world \<Rightarrow> string \<Rightarrow> bool" where
  "detectAntigravityMCP w cwd = (case w_home w of None \<Rightarrow> False | Some h \<Rightarrow> stat_in w h [''.gemini'', ''antigravity''])"

definition AntigravityMCPTarget :: target where
  "AntigravityMCPTarget = \<lparr>t_Name = ''antigravity-mcp'', t_SupportsGlobal = False, t_AlwaysGlobal = True,
     t_PathFn = ResolveAntigravityMCPConfigPath, t_DetectFn = detectAntigravityMCP,
     t_WriteFn = (\<lambda>w existing policy. Some (writeAntigravityMCPConfig w existing))\<rparr>"

definition AllTargets :: "target list" where
  "AllTargets = [ClaudeTarget, CursorTarget, CursorLegacyTarget, WindsurfTarget, AiderTarget, ContinueTarget, CodexTarget,
     ZedTarget, GeminiTarget, WarpTarget, VSCodeTarget, VSCodeMCPTarget, JetBrainsTarget, AntigravityTarget,
     AntigravityMCPTarget]"

definition FindTarget :: "string \<Rightarrow> target option" where
  "FindTarget name = find (\<lambda>t. t_Name t = name) AllTargets"

definition TargetNames :: "string list" where
  "TargetNames = map t_Name AllTargets @ [''detect'', ''all'']"

definition DetectTargets :: "init_world \<Rightarrow> string \<Rightarrow> target list" where
  "DetectTargets w cwd =
     (let hits = filter (\<lambda>t. t_DetectFn t w cwd) AllTargets in if hits = [] then [ClaudeTarget] else hits)"

definition ResolveTargets :: "init_world \<Rightarrow> string \<Rightarrow> string \<Rightarrow> init_error + target list" where
  "ResolveTargets w name cwd =
     (if name = '''' then Inl TargetRequired
      else if name = ''detect'' then Inr (DetectTargets w cwd)
      else if name = ''all'' then Inr AllTargets
      else (case FindTarget name of None \<Rightarrow> Inl (UnknownTarget name) | Some t \<Rightarrow> Inr [t]))"

section \<open>The plan of a target\<close>

record target_plan =
  pl_Target :: string
  pl_Path :: string
  pl_Existing :: string
  pl_Updated :: string
  pl_Action :: init_action
  pl_BytesIn :: nat
  pl_BytesOut :: nat

text \<open>The files: a path without a file, or one that cannot be read, is read as the empty text.\<close>

type_synonym files = "string \<rightharpoonup> string"

definition ReadFileIfExists :: "files \<Rightarrow> string \<Rightarrow> string" where
  "ReadFileIfExists fs path = (case fs path of None \<Rightarrow> [] | Some s \<Rightarrow> s)"

definition Plan :: "init_world \<Rightarrow> string \<Rightarrow> files \<Rightarrow> target \<Rightarrow> string \<Rightarrow> bool \<Rightarrow> init_error + target_plan" where
  "Plan w policy fs t cwd global =
     (let useGlobal = (if t_AlwaysGlobal t then True else if \<not> t_SupportsGlobal t then False else global)
      in bind_res (t_PathFn t w cwd useGlobal) (\<lambda>path.
        let existing = ReadFileIfExists fs path
        in (case t_WriteFn t w existing policy of
              None \<Rightarrow> Inl (WriterPanic (t_Name t))
            | Some (updated, action) \<Rightarrow>
                if action = ErrorAction then Inl (CannotMerge (t_Name t) path)
                else Inr \<lparr>pl_Target = t_Name t, pl_Path = path, pl_Existing = existing, pl_Updated = updated,
                  pl_Action = action, pl_BytesIn = length existing, pl_BytesOut = length updated\<rparr>)))"

end
