(* ===== verification/Init_Handler.thy ===== *)
theory Init_Handler
  imports Init_Targets
begin

text \<open>
  The \<open>init\<close> tool of the MCP server (\<open>internal/server/init.go\<close>) on top of the plans, and where it writes.
\<close>

section \<open>Clean paths\<close>

definition good_comp :: "string \<Rightarrow> bool" where
  "good_comp c \<longleftrightarrow> c \<noteq> [] \<and> c \<noteq> ''.'' \<and> c \<noteq> ''..'' \<and> CHR ''/'' \<notin> set c"

definition abs_path :: "string list \<Rightarrow> string" where
  "abs_path cs = CHR ''/'' # str_join ''/'' cs"

lemma clean_good: "\<forall>c \<in> set cs. good_comp c \<Longrightarrow> foldl (clean_step r) out cs = rev cs @ out"
  by (induction cs arbitrary: out) (auto simp: clean_step_def good_comp_def)

lemma path_comps_abs:
  assumes "\<forall>c \<in> set cs. good_comp c"
  shows "path_comps (abs_path cs) = cs"
proof (cases "cs = []")
  case False
  then have "split_on (CHR ''/'') [] (str_join ''/'' cs) = cs" using assms split_on_join by (simp add: good_comp_def)
  then show ?thesis using clean_good [OF assms] by (simp add: path_comps_def abs_path_def is_rooted_def clean_step_def)
qed (simp add: path_comps_def abs_path_def is_rooted_def clean_step_def)

lemma Clean_abs: "\<forall>c \<in> set cs. good_comp c \<Longrightarrow> filepath_Clean (abs_path cs) = abs_path cs"
  using path_comps_abs [of cs] by (simp add: filepath_Clean_def) (simp add: abs_path_def is_rooted_def)

text \<open>The components of a rooted path are good: no dot segment is left.\<close>

lemma clean_step_good:
  assumes "\<forall>c \<in> set out. good_comp c" "CHR ''/'' \<notin> set c"
  shows "\<forall>c \<in> set (clean_step True out c). good_comp c"
  using assms by (cases out) (auto simp: clean_step_def good_comp_def)

lemma clean_steps_good:
  "\<forall>c \<in> set out. good_comp c \<Longrightarrow> \<forall>c \<in> set cs. CHR ''/'' \<notin> set c \<Longrightarrow> \<forall>c \<in> set (foldl (clean_step True) out cs). good_comp c"
proof (induction cs arbitrary: out)
  case (Cons c cs)
  then show ?case using clean_step_good [of out c] by simp
qed simp

lemma path_comps_good: "is_rooted p \<Longrightarrow> \<forall>c \<in> set (path_comps p). good_comp c"
  using clean_steps_good [of "[]" "split_on (CHR ''/'') [] p"] split_on_no_sep [of _ "CHR ''/''" "[]" p]
  by (auto simp: path_comps_def)

lemma Clean_rooted: "is_rooted p \<Longrightarrow> filepath_Clean p = abs_path (path_comps p)"
  by (auto simp: filepath_Clean_def abs_path_def is_rooted_def)

lemma str_join_append: "as \<noteq> [] \<Longrightarrow> bs \<noteq> [] \<Longrightarrow> str_join sep (as @ bs) = str_join sep as @ sep @ str_join sep bs"
proof (induction sep as rule: str_join.induct)
  case (2 sep x)
  then show ?case by (cases bs) auto
qed auto

lemma clean_skip_empty: "foldl (clean_step r) out ([] # cs) = foldl (clean_step r) out cs"
  by (simp add: clean_step_def)

text \<open>Joining good components to a clean absolute path appends them.\<close>

lemma Join_abs:
  assumes "\<forall>c \<in> set cs. good_comp c" "\<forall>c \<in> set es. good_comp c" "es \<noteq> []"
  shows "filepath_Join (abs_path cs # es) = abs_path (cs @ es)"
proof -
  have j: "str_join ''/'' (abs_path cs # es) = abs_path cs @ ''/'' @ str_join ''/'' es" using assms(3) by (cases es) auto
  have "filepath_Join (abs_path cs # es) = filepath_Clean (str_join ''/'' (abs_path cs # es))"
    by (simp add: filepath_Join_def abs_path_def)
  also have "\<dots> = abs_path (cs @ es)"
  proof (cases "cs = []")
    case False
    then have "str_join ''/'' (abs_path cs # es) = abs_path (cs @ es)"
      using str_join_append [OF False assms(3)] j by (simp add: abs_path_def)
    moreover have "\<forall>c \<in> set (cs @ es). good_comp c" using assms(1,2) by auto
    ultimately show ?thesis using Clean_abs [of "cs @ es"] by metis
  next
    case True
    have "split_on (CHR ''/'') [] (str_join ''/'' es) = es" using assms(2,3) split_on_join by (simp add: good_comp_def)
    then have "path_comps (CHR ''/'' # CHR ''/'' # str_join ''/'' es) = es"
      using clean_good [OF assms(2)] by (simp add: path_comps_def is_rooted_def clean_step_def)
    then show ?thesis using True j by (simp add: filepath_Clean_def is_rooted_def abs_path_def)
  qed
  finally show ?thesis .
qed

section \<open>Absolute and relative paths\<close>

definition filepath_Abs :: "string option \<Rightarrow> string \<Rightarrow> string option" where
  "filepath_Abs wd p =
     (if is_rooted p then Some (filepath_Clean p)
      else (case wd of None \<Rightarrow> None | Some d \<Rightarrow> Some (filepath_Join [d, p])))"

fun strip_common :: "'a list \<Rightarrow> 'a list \<Rightarrow> 'a list \<times> 'a list" where
  "strip_common (x # xs) (y # ys) = (if x = y then strip_common xs ys else (x # xs, y # ys))"
| "strip_common xs ys = (xs, ys)"

definition filepath_Rel :: "string \<Rightarrow> string \<Rightarrow> string option" where
  "filepath_Rel base targ =
     (if filepath_Clean base = filepath_Clean targ then Some ''.''
      else if is_rooted base \<noteq> is_rooted targ then None
      else (case strip_common (path_comps base) (path_comps targ) of (bs, ts) \<Rightarrow>
        if bs \<noteq> [] \<and> hd bs = ''..'' then None
        else Some (str_join ''/'' (replicate (length bs) ''..'' @ ts))))"

lemma strip_common_append: "strip_common xs (xs @ ys) = ([], ys)"
  by (induction xs) (cases ys, auto)

section \<open>The handler\<close>

definition PresentTenseAction :: "string \<Rightarrow> string" where
  "PresentTenseAction action =
     (if action = ''wrote'' then ''write'' else if action = ''updated'' then ''update''
      else if action = ''appended'' then ''append'' else action)"

fun action_text :: "init_action \<Rightarrow> string" where
  "action_text Wrote = ''wrote''"
| "action_text Updated = ''updated''"
| "action_text Appended = ''appended''"
| "action_text ErrorAction = ''error''"
| "action_text Skipped = ''skipped (existing un-managed [mcp_servers.pincher])''"

definition diffPreview :: "string \<Rightarrow> string" where
  "diffPreview updated =
     (if length updated \<le> 800 then updated
      else take 800 updated @ [nl] @ [CHR 0xE2, CHR 0x80, CHR 0xA6] @ ''[truncated]'' @ [CHR 0xE2, CHR 0x80, CHR 0xA6])"

text \<open>An entry of the results: a target left out, a failed plan, a path outside, a write that failed, or the outcome.\<close>

datatype init_entry =
    EntrySkippedGlobal string
  | EntryPlanError string init_error
  | EntryEscape string string
  | EntryWriteError string string string nat nat
  | EntryDone string string string string nat nat

datatype init_response =
    InitNoProject
  | InitBadPath
  | InitContinueRejected string
  | InitBadTarget init_error string
  | InitResults "init_entry list" bool "string option"

record init_args =
  ia_target :: string
  ia_write :: bool
  ia_project :: string

definition init_target ::
    "init_world \<Rightarrow> string \<Rightarrow> (string \<Rightarrow> bool) \<Rightarrow> bool \<Rightarrow> string \<Rightarrow> target \<Rightarrow> files \<Rightarrow> init_entry \<times> files" where
  "init_target w policy can_write do_write root t fs =
     (if t_AlwaysGlobal t then (EntrySkippedGlobal (t_Name t), fs)
      else (case Plan w policy fs t root False of
          Inl e \<Rightarrow> (EntryPlanError (t_Name t) e, fs)
        | Inr plan \<Rightarrow>
            (case filepath_Rel root (pl_Path plan) of
               None \<Rightarrow> (EntryEscape (t_Name t) (pl_Path plan), fs)
             | Some rel \<Rightarrow>
                 if has_prefix rel ''..'' then (EntryEscape (t_Name t) (pl_Path plan), fs)
                 else
                   let action = (if pl_Existing plan = pl_Updated plan then ''unchanged''
                         else if \<not> do_write then ''would_'' @ PresentTenseAction (action_text (pl_Action plan))
                         else action_text (pl_Action plan));
                       done = EntryDone (t_Name t) (pl_Path plan) action (diffPreview (pl_Updated plan))
                         (pl_BytesIn plan) (pl_BytesOut plan)
                   in if do_write \<and> action \<noteq> ''unchanged'' then
                        if can_write (pl_Path plan) then (done, fs(pl_Path plan \<mapsto> pl_Updated plan))
                        else (EntryWriteError (t_Name t) (pl_Path plan) (diffPreview (pl_Updated plan))
                          (pl_BytesIn plan) (pl_BytesOut plan), fs)
                      else (done, fs))))"

fun init_loop ::
    "init_world \<Rightarrow> string \<Rightarrow> (string \<Rightarrow> bool) \<Rightarrow> bool \<Rightarrow> string \<Rightarrow> target list \<Rightarrow> files \<Rightarrow> init_entry list \<times> files" where
  "init_loop w policy can_write do_write root [] fs = ([], fs)"
| "init_loop w policy can_write do_write root (t # ts) fs =
     (let (e, fs1) = init_target w policy can_write do_write root t fs;
          (es, fs2) = init_loop w policy can_write do_write root ts fs1
      in (e # es, fs2))"

definition handleInit ::
    "init_world \<Rightarrow> string \<Rightarrow> (string \<Rightarrow> bool) \<Rightarrow> string option \<Rightarrow> string option \<Rightarrow> string \<Rightarrow> init_args \<Rightarrow> files \<Rightarrow>
     init_response \<times> files" where
  "handleInit w policy can_write wd live sessionRoot args fs =
     (let target = (if ia_target args = '''' then ''detect'' else ia_target args);
          projectPath = (if ia_project args = '''' then sessionRoot else ia_project args)
      in if projectPath = '''' then (InitNoProject, fs)
         else (case filepath_Abs wd projectPath of
             None \<Rightarrow> (InitBadPath, fs)
           | Some root \<Rightarrow>
               if target = ''continue'' then (InitContinueRejected root, fs)
               else (case ResolveTargets w target root of
                   Inl e \<Rightarrow> (InitBadTarget e root, fs)
                 | Inr targets \<Rightarrow>
                     let (results, fs') = init_loop w policy can_write (ia_write args) root targets fs
                     in (InitResults results (\<not> ia_write args) live, fs'))))"

section \<open>Where the tool writes\<close>

text \<open>The file of every target that is not global, below the project.\<close>

definition project_files :: "(string \<times> string list) list" where
  "project_files =
     [(''claude'', [''CLAUDE.md'']), (''cursor'', [''.cursor'', ''rules'', ''pincher.mdc'']),
      (''cursor-legacy'', [''.cursorrules'']), (''windsurf'', [''.windsurf'', ''rules'', ''pincher.md'']),
      (''aider'', [''CONVENTIONS.md'']), (''zed'', [''.rules'']), (''gemini'', [''GEMINI.md'']), (''warp'', [''WARP.md'']),
      (''vscode'', [''.github'', ''copilot-instructions.md'']), (''vscode-mcp'', [''.vscode'', ''mcp.json'']),
      (''jetbrains'', [''.junie'', ''guidelines.md'']), (''antigravity'', [''.agents'', ''rules'', ''pincher.md''])]"

lemmas target_defs = ClaudeTarget_def CursorTarget_def CursorLegacyTarget_def WindsurfTarget_def AiderTarget_def
  ContinueTarget_def CodexTarget_def ZedTarget_def GeminiTarget_def WarpTarget_def VSCodeTarget_def VSCodeMCPTarget_def
  JetBrainsTarget_def AntigravityTarget_def AntigravityMCPTarget_def

lemma project_files_good: "list_all (\<lambda>(n, es). list_all good_comp es \<and> es \<noteq> [] \<and> \<not> has_prefix (str_join ''/'' es) ''..'') project_files"
  and project_files_distinct: "distinct (map snd project_files) \<and> distinct (map fst project_files)"
  by code_simp+

lemma target_path:
  assumes "t \<in> set AllTargets" "\<not> t_AlwaysGlobal t"
  shows "\<exists>es. (t_Name t, es) \<in> set project_files \<and> (\<forall>w cwd. t_PathFn t w cwd False = Inr (filepath_Join (cwd # es)))"
  using assms unfolding AllTargets_def
  by (auto simp: target_defs project_files_def project_only_def home_or_project_def ResolveCLAUDEPath_def)

lemma Plan_path:
  assumes "t \<in> set AllTargets" "\<not> t_AlwaysGlobal t" "Plan w policy fs t (abs_path cs) False = Inr plan"
    and "\<forall>c \<in> set cs. good_comp c"
  shows "\<exists>es. (t_Name t, es) \<in> set project_files \<and> pl_Path plan = abs_path (cs @ es) \<and>
     filepath_Rel (abs_path cs) (pl_Path plan) = Some (str_join ''/'' es) \<and> \<not> has_prefix (str_join ''/'' es) ''..''"
proof -
  obtain es where es: "(t_Name t, es) \<in> set project_files" "\<And>w cwd. t_PathFn t w cwd False = Inr (filepath_Join (cwd # es))"
    using target_path [OF assms(1,2)] by blast
  have g: "\<forall>c \<in> set es. good_comp c" "es \<noteq> []" "\<not> has_prefix (str_join ''/'' es) ''..''"
    using project_files_good es(1) by (auto simp: list_all_iff)
  have p: "pl_Path plan = abs_path (cs @ es)"
    using assms(2,3) es(2) Join_abs [OF assms(4) g(1,2)] by (auto simp: Plan_def Let_def split: if_splits option.splits)
  have gc: "\<forall>c \<in> set (cs @ es). good_comp c" using assms(4) g(1) by auto
  have c: "path_comps (abs_path cs) = cs" "path_comps (abs_path (cs @ es)) = cs @ es"
    using path_comps_abs [OF assms(4)] path_comps_abs [OF gc] by blast+
  moreover have "abs_path cs \<noteq> abs_path (cs @ es)" using c g(2) by (metis append_self_conv)
  moreover have "filepath_Clean (abs_path cs) = abs_path cs" "filepath_Clean (abs_path (cs @ es)) = abs_path (cs @ es)"
    using Clean_abs [OF assms(4)] Clean_abs [OF gc] by blast+
  moreover have "is_rooted (abs_path cs)" "is_rooted (abs_path (cs @ es))" by (simp_all add: abs_path_def is_rooted_def)
  ultimately have "filepath_Rel (abs_path cs) (pl_Path plan) = Some (str_join ''/'' es)"
    by (simp add: filepath_Rel_def p strip_common_append)
  then show ?thesis using es(1) p g(3) by blast
qed

text \<open>What one target, and the loop over the targets, may do to the files.\<close>

definition project_path :: "string list \<Rightarrow> string \<Rightarrow> bool" where
  "project_path cs q \<longleftrightarrow> (\<exists>n es. (n, es) \<in> set project_files \<and> q = abs_path (cs @ es))"

definition confined :: "bool \<Rightarrow> string list \<Rightarrow> files \<Rightarrow> files \<Rightarrow> bool" where
  "confined do_write cs fs fs' \<longleftrightarrow>
     (\<forall>q. fs' q \<noteq> fs q \<longrightarrow> do_write \<and> project_path cs q)"

definition is_escape :: "init_entry \<Rightarrow> bool" where
  "is_escape e \<longleftrightarrow> (case e of EntryEscape _ _ \<Rightarrow> True | _ \<Rightarrow> False)"

lemma init_target_confined:
  assumes "t \<in> set AllTargets" "\<forall>c \<in> set cs. good_comp c" and "init_target w policy cw dw (abs_path cs) t fs = (e, fs')"
  shows "confined dw cs fs fs' \<and> \<not> is_escape e"
proof (cases "t_AlwaysGlobal t")
  case True
  then show ?thesis using assms(3) by (auto simp: init_target_def confined_def is_escape_def)
next
  case False
  show ?thesis
  proof (cases "Plan w policy fs t (abs_path cs) False")
    case (Inl er)
    then show ?thesis using assms(3) False by (auto simp: init_target_def confined_def is_escape_def)
  next
    case (Inr plan)
    obtain es where "(t_Name t, es) \<in> set project_files" "pl_Path plan = abs_path (cs @ es)"
        "filepath_Rel (abs_path cs) (pl_Path plan) = Some (str_join ''/'' es)" "\<not> has_prefix (str_join ''/'' es) ''..''"
      using Plan_path [OF assms(1) False Inr assms(2)] by blast
    moreover from this have "project_path cs (abs_path (cs @ es))" by (auto simp: project_path_def)
    ultimately show ?thesis
      using assms(3) False Inr by (auto simp: init_target_def confined_def is_escape_def Let_def split: if_splits)
  qed
qed

lemma confined_trans: "confined dw cs fs fs1 \<Longrightarrow> confined dw cs fs1 fs2 \<Longrightarrow> confined dw cs fs fs2"
  unfolding confined_def by metis

lemma init_loop_confined:
  "set ts \<subseteq> set AllTargets \<Longrightarrow> \<forall>c \<in> set cs. good_comp c \<Longrightarrow> init_loop w policy cw dw (abs_path cs) ts fs = (es, fs') \<Longrightarrow>
     confined dw cs fs fs' \<and> list_all (\<lambda>e. \<not> is_escape e) es"
proof (induction ts arbitrary: fs es)
  case (Cons t ts)
  obtain e fs1 es1 where "init_target w policy cw dw (abs_path cs) t fs = (e, fs1)"
      "init_loop w policy cw dw (abs_path cs) ts fs1 = (es1, fs')" "es = e # es1"
    using Cons.prems(3) by (auto split: prod.splits)
  then show ?case using init_target_confined [of t cs] Cons confined_trans by fastforce
qed (simp add: confined_def)

lemma ResolveTargets_known: "ResolveTargets w name cwd = Inr ts \<Longrightarrow> set ts \<subseteq> set AllTargets"
proof -
  assume a: "ResolveTargets w name cwd = Inr ts"
  have "ClaudeTarget \<in> set AllTargets" by (simp add: AllTargets_def)
  moreover have "FindTarget name = Some t \<Longrightarrow> t \<in> set AllTargets" for t
    by (auto simp: FindTarget_def find_Some_iff)
  ultimately show ?thesis
    using a by (auto simp: ResolveTargets_def DetectTargets_def Let_def split: if_splits option.splits)
qed

lemma Abs_clean:
  assumes "filepath_Abs wd p = Some root" and "\<And>d. wd = Some d \<Longrightarrow> is_rooted d"
  shows "\<exists>cs. root = abs_path cs \<and> (\<forall>c \<in> set cs. good_comp c)"
proof (cases "is_rooted p")
  case True
  then show ?thesis using assms(1) Clean_rooted path_comps_good by (auto simp: filepath_Abs_def)
next
  case False
  then obtain d where d: "wd = Some d" "root = filepath_Join [d, p]" using assms(1) by (auto simp: filepath_Abs_def split: option.splits)
  have "is_rooted d" using assms(2) d(1) by blast
  then have "d \<noteq> []" "is_rooted (str_join ''/'' [d, p])" by (auto simp: is_rooted_def)
  then show ?thesis
    using d(2) Clean_rooted [of "str_join ''/'' [d, p]"] path_comps_good [of "str_join ''/'' [d, p]"]
    by (auto simp: filepath_Join_def)
qed

text \<open>
  C6: The MCP tool writes only with write set, only below the project root, and only the rule file of a project
  target; the path-escape gate never fires for a built-in target.
\<close>
theorem mcp_init_confined:
  assumes "handleInit w policy can_write wd live sessionRoot args fs = (resp, fs')" and "\<And>d. wd = Some d \<Longrightarrow> is_rooted d"
  shows "(fs' q \<noteq> fs q \<longrightarrow> ia_write args \<and> (\<exists>root cs.
       filepath_Abs wd (if ia_project args = '''' then sessionRoot else ia_project args) = Some root \<and>
       root = abs_path cs \<and> list_all good_comp cs \<and> project_path cs q)) \<and>
     (\<forall>results dry live'. resp = InitResults results dry live' \<longrightarrow> list_all (\<lambda>e. \<not> is_escape e) results)"
proof (cases "\<exists>results dry live'. resp = InitResults results dry live'")
  case False
  then have "fs' = fs"
    using assms(1) by (auto simp: handleInit_def Let_def split: if_splits option.splits sum.splits prod.splits)
  then show ?thesis using False by simp
next
  case True
  then obtain results dry live' where r: "resp = InitResults results dry live'" by blast
  let ?p = "if ia_project args = '''' then sessionRoot else ia_project args"
  obtain root ts where t: "filepath_Abs wd ?p = Some root" "\<exists>n. ResolveTargets w n root = Inr ts"
      "init_loop w policy can_write (ia_write args) root ts fs = (results, fs')"
    using assms(1) r by (auto simp: handleInit_def Let_def split: if_splits option.splits sum.splits prod.splits)
  obtain cs where cs: "root = abs_path cs" "\<forall>c \<in> set cs. good_comp c" using Abs_clean [OF t(1) assms(2)] by blast
  have "confined (ia_write args) cs fs fs' \<and> list_all (\<lambda>e. \<not> is_escape e) results"
    using init_loop_confined [OF _ cs(2) t(3) [unfolded cs(1)]] t(2) ResolveTargets_known by blast
  then show ?thesis using r t(1) cs by (auto simp: confined_def list_all_iff)
qed

definition demo_world :: init_world where
  "demo_world = \<lparr>w_home = None, w_env = (\<lambda>_. []), w_exe = None, w_goos = ''linux'', w_stat = (\<lambda>_. False),
     w_dec = (\<lambda>_. None), w_enc = (\<lambda>_. None)\<rparr>"

theorem mcp_init_confined_witness:
  "snd (handleInit demo_world ''new'' (\<lambda>_. True) None None [] \<lparr>ia_target = ''warp'', ia_write = True, ia_project = ''/p/./q''\<rparr> Map.empty)
     ''/p/q/WARP.md'' \<noteq> None \<and>
   (\<exists>root cs. filepath_Abs None ''/p/./q'' = Some root \<and> root = abs_path cs \<and> list_all good_comp cs \<and> project_path cs ''/p/q/WARP.md'')"
proof -
  let ?args = "\<lparr>ia_target = ''warp'', ia_write = True, ia_project = ''/p/./q''\<rparr>"
  obtain resp fs' where h: "handleInit demo_world ''new'' (\<lambda>_. True) None None [] ?args Map.empty = (resp, fs')" by (cases "handleInit demo_world ''new'' (\<lambda>_. True) None None [] ?args Map.empty")
  have "snd (handleInit demo_world ''new'' (\<lambda>_. True) None None [] ?args Map.empty) ''/p/q/WARP.md'' \<noteq> None" by code_simp
  moreover from this have "fs' ''/p/q/WARP.md'' \<noteq> Map.empty ''/p/q/WARP.md''" by (simp add: h)
  ultimately show ?thesis using mcp_init_confined [OF h, of "''/p/q/WARP.md''"] by simp
qed

end
