(* ===== verification/Init_Writers.thy ===== *)
theory Init_Writers
  imports Init_Targets
begin

text \<open>
  What the writers of the targets keep: front matter, the other servers of a registration file, the rest of a
  configuration. The Codex and Continue writers interpret the interface \<open>marker_block\<close> of the policy block.
\<close>

section \<open>Front matter\<close>

lemma SplitMDXFrontmatter_partition: "fst (SplitMDXFrontmatter content) @ snd (SplitMDXFrontmatter content) = content"
  by (simp add: SplitMDXFrontmatter_def Let_def split: option.split)

text \<open>Content that opens with front matter closed by a line-feed delimiter: the front matter and the offset it ends at.\<close>

definition lf_frontmatter :: "string \<Rightarrow> string \<Rightarrow> string \<Rightarrow> bool" where
  "lf_frontmatter content fm body \<longleftrightarrow>
     (\<exists>i. has_prefix content (''---'' @ [nl]) \<and> str_index (drop 4 content) ([nl] @ ''---'' @ [nl]) = Some i) \<and>
     SplitMDXFrontmatter content = (fm, body)"

lemma lf_frontmatter_split:
  assumes "has_prefix content (''---'' @ [nl])" and "str_index (drop 4 content) ([nl] @ ''---'' @ [nl]) = Some i"
  shows "SplitMDXFrontmatter content =
     (let e = (if i + 9 < length content \<and> content ! (i + 9) = nl then i + 10 else i + 9) in (take e content, drop e content)) \<and>
     i + 9 \<le> length content"
proof -
  have l: "4 \<le> length content" using has_prefix_length [OF assms(1)] by simp
  have "\<not> has_prefix content (''---'' @ [cr, nl])" using assms(1) by (auto simp: has_prefix_iff)
  moreover have "i + 9 \<le> length content" using str_index_Some [OF assms(2), THEN conjunct2] l by simp
  ultimately show ?thesis using assms l by (auto simp: SplitMDXFrontmatter_def Let_def add.commute [of 9 i] add.commute [of 10 i])
qed

lemma str_index_take_Some: "str_index s p = Some i \<Longrightarrow> i + length p \<le> n \<Longrightarrow> str_index (take n s) p = Some i"
proof -
  assume a: "str_index s p = Some i" "i + length p \<le> n"
  have s: "s = take i s @ p @ drop (i + length p) s" "length (take i s) = i" using str_index_Some [OF a(1)] by auto
  have "take n (take i s @ p @ drop (i + length p) s) = take i s @ p @ take (n - i - length p) (drop (i + length p) s)"
    using s(2) a(2) by (simp only: take_append) simp
  then have "take n s = take i s @ p @ take (n - i - length p) (drop (i + length p) s)" using s(1) by simp
  then have "str_contains (take n s) p" unfolding str_contains_iff by blast
  then obtain j where "str_index (take n s) p = Some j" using str_index_None by (metis option.exhaust)
  then show ?thesis using str_index_append [of "take n s" p j "drop n s"] a(1) by simp
qed

text \<open>The front matter is found again whatever body follows it.\<close>

lemma lf_frontmatter_again:
  assumes "lf_frontmatter content fm body" and "body' = [] \<or> hd body' \<noteq> nl \<or> (\<exists>x. fm = x @ [nl, nl])"
  shows "lf_frontmatter (fm @ body') fm body'"
proof -
  obtain i where i: "has_prefix content (''---'' @ [nl])" "str_index (drop 4 content) ([nl] @ ''---'' @ [nl]) = Some i"
    using assms(1) by (auto simp: lf_frontmatter_def)
  note sp = lf_frontmatter_split [OF i]
  let ?e = "if i + 9 < length content \<and> content ! (i + 9) = nl then i + 10 else i + 9"
  have fm: "fm = take ?e content" using assms(1) sp by (auto simp: lf_frontmatter_def Let_def)
  have el: "?e \<le> length content" "i + 9 \<le> ?e" using sp by auto
  then have lf: "length fm = ?e" unfolding fm by simp
  have ix: "str_index (drop 4 fm) ([nl] @ ''---'' @ [nl]) = Some i"
    using str_index_take_Some [OF i(2), of "?e - 4"] el(2) unfolding fm drop_take by simp
  have "content = fm @ drop ?e content" unfolding fm by simp
  then have "has_prefix (fm @ drop ?e content) (''---'' @ [nl])" using i(1) by simp
  then have "has_prefix fm (''---'' @ [nl])" using has_prefix_append_iff [of "''---'' @ [nl]" fm] lf el(2) by simp
  then have p: "has_prefix (fm @ body') (''---'' @ [nl])" by (auto simp: has_prefix_iff)
  have d: "str_index (drop 4 (fm @ body')) ([nl] @ ''---'' @ [nl]) = Some i"
    using str_index_append [OF ix, of body'] lf el(2) by simp
  note sp' = lf_frontmatter_split [OF p d]
  have "(if i + 9 < length (fm @ body') \<and> (fm @ body') ! (i + 9) = nl then i + 10 else i + 9) = ?e"
  proof (cases "i + 9 < length content \<and> content ! (i + 9) = nl")
    case True
    then have "length fm = i + 10" "fm ! (i + 9) = nl" using lf unfolding fm by auto
    then show ?thesis using True by (simp add: nth_append)
  next
    case False
    then have l9: "length fm = i + 9" using lf by simp
    have "drop 4 fm = take i (drop 4 fm) @ ([nl] @ ''---'' @ [nl]) @ drop (i + 5) (drop 4 fm)" using str_index_Some [OF ix] by simp
    moreover have "drop (i + 5) (drop 4 fm) = []" using l9 by simp
    ultimately have "\<exists>y. fm = y @ ''-'' @ [nl]" by (metis append.assoc append_take_drop_id append_Cons append_Nil append_Nil2)
    then have "\<not> (\<exists>x. fm = x @ [nl, nl])" by auto
    then have "body' = [] \<or> hd body' \<noteq> nl" using assms(2) by blast
    then have "\<not> (i + 9 < length (fm @ body') \<and> (fm @ body') ! (i + 9) = nl)"
      using l9 by (cases body') (auto simp: nth_append)
    then show ?thesis using False by (simp only: if_False)
  qed
  then have "SplitMDXFrontmatter (fm @ body') = (take ?e (fm @ body'), drop ?e (fm @ body'))"
    using sp' by (simp only: Let_def)
  then have "SplitMDXFrontmatter (fm @ body') = (fm, body')" using lf by simp
  then show ?thesis using p d by (auto simp: lf_frontmatter_def)
qed

text \<open>
  On a rule file whose front matter ends with a blank line, the Cursor and Windsurf writers keep the front
  matter byte for byte, merge the body, and change nothing on a second run.
\<close>
theorem front_matter_kept:
  assumes "\<not> str_contains policy MarkerEnd"
    and "lf_frontmatter existing fm body" and "\<exists>x. fm = x @ [nl, nl]"
    and "HasMarkers (normalizeLF body) \<or> \<not> (str_contains body MarkerStart \<or> str_contains body MarkerEnd)"
    and "body = [] \<or> trim_right_nl (normalizeLF body) \<noteq> []"
  shows "let u = fm @ fst (MergePolicyBlockBare body policy) in
     fst (cursorMDCWriter existing policy) = u \<and> fst (windsurfMDWriter existing policy) = u \<and>
     cursorMDCWriter u policy = (u, Updated) \<and> windsurfMDWriter u policy = (u, Updated)"
proof -
  let ?m = "fst (MergePolicyBlockBare body policy)"
  have "existing \<noteq> []" "SplitMDXFrontmatter existing = (fm, body)" using assms(2) by (auto simp: lf_frontmatter_def)
  moreover have "SplitMDXFrontmatter (fm @ ?m) = (fm, ?m)"
    using lf_frontmatter_again [OF assms(2)] assms(3) by (simp add: lf_frontmatter_def)
  moreover have "MergePolicyBlockBare ?m policy = (?m, Updated)" by (rule merge_twice [OF assms(1,4,5)])
  moreover have "fm \<noteq> []" using assms(3) by auto
  ultimately show ?thesis by (simp add: cursorMDCWriter_def windsurfMDWriter_def Let_def split: prod.split)
qed

definition demo_rule :: string where
  "demo_rule = ''---'' @ [nl] @ ''trigger: always_on'' @ [nl] @ ''---'' @ [nl, nl] @ ''mine'' @ [nl]"

theorem front_matter_kept_witness:
  "cursorMDCWriter (''---'' @ [nl] @ ''trigger: always_on'' @ [nl] @ ''---'' @ [nl, nl] @ fst (MergePolicyBlockBare (''mine'' @ [nl]) ''new'')) ''new''
     = (''---'' @ [nl] @ ''trigger: always_on'' @ [nl] @ ''---'' @ [nl, nl] @ fst (MergePolicyBlockBare (''mine'' @ [nl]) ''new''), Updated)"
proof -
  let ?fm = "''---'' @ [nl] @ ''trigger: always_on'' @ [nl] @ ''---'' @ [nl, nl]"
  have "has_prefix demo_rule (''---'' @ [nl])" "str_index (drop 4 demo_rule) ([nl] @ ''---'' @ [nl]) = Some 18"
    "SplitMDXFrontmatter demo_rule = (?fm, ''mine'' @ [nl])" by code_simp+
  then have "lf_frontmatter demo_rule ?fm (''mine'' @ [nl])" unfolding lf_frontmatter_def by blast
  moreover have "\<not> str_contains ''new'' MarkerEnd" "\<not> (str_contains (''mine'' @ [nl]) MarkerStart \<or> str_contains (''mine'' @ [nl]) MarkerEnd)"
    "trim_right_nl (normalizeLF (''mine'' @ [nl])) \<noteq> []" by code_simp+
  moreover have "\<exists>x. ?fm = x @ [nl, nl]" by (rule exI [of _ "''---'' @ [nl] @ ''trigger: always_on'' @ [nl] @ ''---''"]) simp
  ultimately show ?thesis using front_matter_kept [of "''new''" demo_rule ?fm "''mine'' @ [nl]"] by (simp add: Let_def)
qed

section \<open>Continue\<close>

lemma continue_chars: "nl \<notin> set continueStart" "continueStart \<noteq> []" "nl \<notin> set continueEnd" "continueEnd \<noteq> []"
    "str_index continueStart continueStart = Some 0" "str_index continueEnd continueEnd = Some 0"
  by (simp_all add: continueStart_def continueEnd_def)

definition continue_header :: string where
  "continue_header = ''// Managed by `pincher init --target=continue`. Edit `pincher init` to change this block.''"

lemma continue_header_clean: "\<not> str_contains continueStart continueEnd" "\<not> str_contains continue_header continueEnd"
  by code_simp+

lemma continue_block_lines: "continue_block policy = unlines [continueStart, continue_header, trim_right_nl policy] @ continueEnd"
  by (simp add: continue_block_def continue_header_def)

interpretation continue_msg: marker_block continueStart continueEnd continue_block "\<lambda>policy. \<not> str_contains policy continueEnd" "[]"
proof
  fix policy
  show "str_index (continue_block policy) continueStart = Some 0"
    unfolding continue_block_lines unlines_simps by (metis append.assoc str_index_append continue_chars(5))
  assume "\<not> str_contains policy continueEnd"
  then have "list_all (\<lambda>l. \<not> str_contains l continueEnd) [continueStart, continue_header, trim_right_nl policy]"
    using continue_header_clean trim_right_no_contains by simp
  then have "str_index (continue_block policy) continueEnd = Some (length (unlines [continueStart, continue_header, trim_right_nl policy]))"
    using lines_then_end [OF continue_chars(3,4,6)] unfolding continue_block_lines by blast
  then show "\<exists>j. 0 < j \<and> str_index (continue_block policy) continueEnd = Some j \<and> length (continue_block policy) = j + length continueEnd"
    by (auto simp: continue_block_lines)
qed (use continue_chars in auto)

lemma mergeMessage_twice:
  assumes "\<not> str_contains policy continueEnd"
    and "prev = [] \<or> replace_block continueStart continueEnd (continue_block policy) [] prev \<noteq> None \<or>
      (\<not> str_contains prev continueStart \<and> \<not> str_contains prev continueEnd \<and> trim_right_nl prev \<noteq> [])"
  shows "mergeMessage policy (fst (mergeMessage policy prev)) = (fst (mergeMessage policy prev), Updated)"
proof -
  let ?B = "continue_block policy"
  have fix1: "mergeMessage policy u = (u, Updated)" if "replace_block continueStart continueEnd ?B [] u = Some u" for u
  proof -
    have "u \<noteq> []" using that continue_chars(2) by (auto simp: replace_block_def split: option.splits if_splits)
    then show ?thesis using that by (simp add: mergeMessage_def)
  qed
  consider "prev = []" | u where "prev \<noteq> []" "replace_block continueStart continueEnd ?B [] prev = Some u"
    | "prev \<noteq> []" "replace_block continueStart continueEnd ?B [] prev = None" by fastforce
  then show ?thesis
  proof cases
    case 1
    then show ?thesis using fix1 [of ?B] continue_msg.fresh_then_replace [OF assms(1)] by (simp add: mergeMessage_def)
  next
    case 2
    then show ?thesis using fix1 [OF continue_msg.replace_idem [OF 2(2) assms(1)]] by (simp add: mergeMessage_def)
  next
    case 3
    then have "\<not> str_contains prev continueStart" "\<not> str_contains prev continueEnd" "trim_right_nl prev \<noteq> []" using assms(2) by auto
    then show ?thesis
      using 3 fix1 continue_msg.append_then_replace [of prev policy] assms(1) by (simp add: mergeMessage_def)
  qed
qed

section \<open>Codex\<close>

lemma codex_chars: "nl \<notin> set codexMarkerStart" "codexMarkerStart \<noteq> []" "nl \<notin> set codexMarkerEnd" "codexMarkerEnd \<noteq> []"
    "str_index codexMarkerStart codexMarkerStart = Some 0" "str_index codexMarkerEnd codexMarkerEnd = Some 0"
  by (simp_all add: codexMarkerStart_def codexMarkerEnd_def)

definition codex_lines :: "init_world \<Rightarrow> string list" where
  "codex_lines w =
     [''# Re-run `pincher init --target=codex` to refresh this block.'',
      ''# `command` uses the supervised wrapper so dropped MCP sessions'',
      ''# auto-respawn without manual /mcp; PINCHER_DATA_DIR isolates'',
      ''# Codex's pincher DB from other agent CLIs (Claude Code, etc.).'',
      ''[mcp_servers.pincher]'', ''command = '' @ go_quote (codexPincherBinaryPath w),
      ''args = ['' @ [dq] @ ''supervised'' @ [dq] @ '']'', [], ''[mcp_servers.pincher.env]'',
      ''PINCHER_DATA_DIR = '' @ go_quote (codexPincherDataDir w),
      ''PINCHER_AUTO_RESTART_ON_DRIFT = '' @ [dq] @ ''1'' @ [dq]]"

lemma buildCodexBlock_lines: "buildCodexBlock w = unlines (codexMarkerStart # codex_lines w) @ codexMarkerEnd"
  by (simp add: buildCodexBlock_def codex_lines_def)

text \<open>The paths of the surroundings do not spell the end marker.\<close>

definition codex_paths_ok :: "init_world \<Rightarrow> bool" where
  "codex_paths_ok w \<longleftrightarrow>
     \<not> str_contains (''command = '' @ go_quote (codexPincherBinaryPath w)) codexMarkerEnd \<and>
     \<not> str_contains (''PINCHER_DATA_DIR = '' @ go_quote (codexPincherDataDir w)) codexMarkerEnd"

lemma codex_lines_clean: "codex_paths_ok w \<Longrightarrow> list_all (\<lambda>l. \<not> str_contains l codexMarkerEnd) (codexMarkerStart # codex_lines w)"
proof -
  assume "codex_paths_ok w"
  moreover have "list_all (\<lambda>l. \<not> str_contains l codexMarkerEnd)
     [codexMarkerStart, ''# Re-run `pincher init --target=codex` to refresh this block.'',
      ''# `command` uses the supervised wrapper so dropped MCP sessions'',
      ''# auto-respawn without manual /mcp; PINCHER_DATA_DIR isolates'',
      ''# Codex's pincher DB from other agent CLIs (Claude Code, etc.).'',
      ''[mcp_servers.pincher]'', ''args = ['' @ [dq] @ ''supervised'' @ [dq] @ '']'', [], ''[mcp_servers.pincher.env]'',
      ''PINCHER_AUTO_RESTART_ON_DRIFT = '' @ [dq] @ ''1'' @ [dq]]" by code_simp
  ultimately show ?thesis unfolding codex_lines_def codex_paths_ok_def list.pred_inject by (elim conjE) (intro conjI TrueI; assumption)
qed

interpretation codex_cfg: marker_block codexMarkerStart codexMarkerEnd buildCodexBlock codex_paths_ok "[nl]"
proof
  fix w
  show "str_index (buildCodexBlock w) codexMarkerStart = Some 0"
    unfolding buildCodexBlock_lines unlines_simps by (metis append.assoc str_index_append codex_chars(5))
  assume "codex_paths_ok w"
  then have "str_index (buildCodexBlock w) codexMarkerEnd = Some (length (unlines (codexMarkerStart # codex_lines w)))"
    using lines_then_end [OF codex_chars(3,4,6)] codex_lines_clean unfolding buildCodexBlock_lines by blast
  moreover have "0 < length (unlines (codexMarkerStart # codex_lines w))" by simp
  ultimately show "\<exists>j. 0 < j \<and> str_index (buildCodexBlock w) codexMarkerEnd = Some j \<and> length (buildCodexBlock w) = j + length codexMarkerEnd"
    unfolding buildCodexBlock_lines length_append by blast
qed (use codex_chars in auto)

text \<open>
  The Codex writer: a file that registers pincher outside the markers is left as it is; any other file it
  writes contains the current block, and a second run changes nothing unless the file had a stray marker.
\<close>
theorem codex_rerun:
  assumes "codex_paths_ok w"
    and "str_contains existing codexMarkerStart \<and> replace_block codexMarkerStart codexMarkerEnd (buildCodexBlock w) [nl] existing \<noteq> None \<or>
      \<not> str_contains existing codexMarkerStart \<and> \<not> str_contains existing codexMarkerEnd"
    and "existing = [] \<or> trim_right_nl existing \<noteq> []"
  shows "fst (writeCodexMCPConfig w (fst (writeCodexMCPConfig w existing))) = fst (writeCodexMCPConfig w existing) \<and>
     (snd (writeCodexMCPConfig w existing) = Skipped \<longleftrightarrow>
        existing \<noteq> [] \<and> \<not> str_contains existing codexMarkerStart \<and> str_contains existing ''[mcp_servers.pincher]'') \<and>
     (snd (writeCodexMCPConfig w existing) = Skipped \<longrightarrow> fst (writeCodexMCPConfig w existing) = existing) \<and>
     (snd (writeCodexMCPConfig w existing) \<noteq> Skipped \<longrightarrow> str_contains (fst (writeCodexMCPConfig w existing)) (buildCodexBlock w))"
proof -
  let ?B = "buildCodexBlock w" and ?r = "replace_block codexMarkerStart codexMarkerEnd (buildCodexBlock w) [nl]"
  have fix1: "writeCodexMCPConfig w u = (u, Updated)" if "?r u = Some u" for u
  proof -
    have "u \<noteq> []" using that codex_chars(2) by (auto simp: replace_block_def split: option.splits if_splits)
    then show ?thesis using that by (simp add: writeCodexMCPConfig_def Let_def)
  qed
  have mem: "str_contains (a @ ?B @ b) ?B" for a b unfolding str_contains_iff by blast
  consider "existing = []" | u where "existing \<noteq> []" "?r existing = Some u" | "existing \<noteq> []" "?r existing = None" by fastforce
  then show ?thesis
  proof cases
    case 1
    then show ?thesis
      using fix1 codex_cfg.fresh_then_replace [OF assms(1)] mem [of "[]" "[nl]"] by (simp add: writeCodexMCPConfig_def Let_def)
  next
    case 2
    have s: "str_contains existing codexMarkerStart"
      using 2(2) str_index_None [of existing codexMarkerStart] by (auto simp: replace_block_def split: option.splits)
    have "\<exists>a b. u = splice_block ?B [nl] a b" using 2(2) by (auto simp: replace_block_def split: option.splits if_splits)
    then obtain a b where "u = a @ ?B @ b" unfolding splice_block_def Let_def by (metis append.assoc)
    then show ?thesis
      using fix1 [OF codex_cfg.replace_idem [OF 2(2) assms(1)]] 2 s mem by (simp add: writeCodexMCPConfig_def Let_def)
  next
    case 3
    then have n: "\<not> str_contains existing codexMarkerStart" "\<not> str_contains existing codexMarkerEnd" using assms(2) by auto
    let ?u = "append_block ?B [nl] existing"
    have f: "writeCodexMCPConfig w ?u = (?u, Updated)"
      using 3 assms(3) by (intro fix1 codex_cfg.append_then_replace [OF n _ assms(1)]) auto
    have w1: "writeCodexMCPConfig w existing =
        (if str_contains existing ''[mcp_servers.pincher]'' then (existing, Skipped) else (?u, Appended))"
      using 3 by (simp add: writeCodexMCPConfig_def Let_def)
    have "?u = (trim_right_nl existing @ [nl, nl]) @ ?B @ [nl]" by (simp add: append_block_def)
    then have m: "str_contains ?u ?B" using mem by metis
    show ?thesis using 3(1) n(1) w1 f m by (cases "str_contains existing ''[mcp_servers.pincher]''") simp_all
  qed
qed

theorem codex_rerun_witness:
  "let w = \<lparr>w_home = Some ''/h'', w_env = (\<lambda>_. []), w_exe = None, w_goos = ''linux'', w_stat = (\<lambda>_. False), w_dec = (\<lambda>_. None), w_enc = (\<lambda>_. None)\<rparr>;
       u = fst (writeCodexMCPConfig w (''model = 1'' @ [nl]))
   in fst (writeCodexMCPConfig w u) = u"
proof -
  let ?w = "\<lparr>w_home = Some ''/h'', w_env = (\<lambda>_. []), w_exe = None, w_goos = ''linux'', w_stat = (\<lambda>_. False), w_dec = (\<lambda>_. None), w_enc = (\<lambda>_. None)\<rparr> :: init_world"
  have "codex_paths_ok ?w" "\<not> str_contains (''model = 1'' @ [nl]) codexMarkerStart" "\<not> str_contains (''model = 1'' @ [nl]) codexMarkerEnd"
    "trim_right_nl (''model = 1'' @ [nl]) \<noteq> []" by code_simp+
  then show ?thesis using codex_rerun [of ?w "''model = 1'' @ [nl]"] by (simp add: Let_def)
qed

section \<open>Configuration files in JSON\<close>

text \<open>
  C7: Registering the server in a JSON file keeps everything else: every other key of the document and every
  other server, with the entry of pincher set; and a second run writes the same text again.
\<close>
theorem register_keeps_others:
  assumes "existing \<noteq> []" and "unmarshal_map w existing = Some d" and "doc = (case d of Some m \<Rightarrow> m | None \<Rightarrow> fmempty)"
    and "doc' = fmupd key (GObj (fmupd ''pincher'' entry (obj_of (fmlookup doc key)))) doc"
    and "w_enc w (GObj doc') = Some s" and "w_dec w (s @ [nl]) = Some (GObj doc')"
  shows "unmarshal_map w (fst (register_server w key entry existing)) = Some (Some doc') \<and>
     (\<forall>k. k \<noteq> key \<longrightarrow> fmlookup doc' k = fmlookup doc k) \<and>
     (\<forall>n. n \<noteq> ''pincher'' \<longrightarrow> fmlookup (obj_of (fmlookup doc' key)) n = fmlookup (obj_of (fmlookup doc key)) n) \<and>
     fmlookup (obj_of (fmlookup doc' key)) ''pincher'' = Some entry \<and>
     register_server w key entry (fst (register_server w key entry existing)) = (fst (register_server w key entry existing), Updated)"
proof -
  have r: "fst (register_server w key entry existing) = s @ [nl]"
    using assms by (simp add: register_server_def Let_def marshal_indent_def)
  have d: "unmarshal_map w (s @ [nl]) = Some (Some doc')" using assms(6) by (simp add: unmarshal_map_def)
  have "fmupd key (GObj (fmupd ''pincher'' entry (obj_of (fmlookup doc' key)))) doc' = doc'"
    using assms(4) by (simp add: obj_of_def)
  then have again: "register_server w key entry (s @ [nl]) = (s @ [nl], Updated)"
    using assms(4,5) d by (simp add: register_server_def Let_def marshal_indent_def obj_of_def)
  show ?thesis using assms(4) by (simp add: r d again obj_of_def)
qed

definition json_world :: init_world where
  "json_world = \<lparr>w_home = None, w_env = (\<lambda>_. []), w_exe = None, w_goos = ''linux'', w_stat = (\<lambda>_. False),
     w_dec = (\<lambda>s. if s = ''{}'' then Some (GObj fmempty) else if s = ''null'' then Some GNull
       else Some (GObj (fmupd ''servers'' (GObj (fmupd ''pincher'' (GStr ''x'') fmempty)) fmempty))),
     w_enc = (\<lambda>_. Some ''the only document'')\<rparr>"

theorem register_keeps_others_witness:
  "register_server json_world ''servers'' (GStr ''x'') (''the only document'' @ [nl]) = (''the only document'' @ [nl], Updated)"
proof -
  have "fst (register_server json_world ''servers'' (GStr ''x'') ''{}'') = ''the only document'' @ [nl]"
    by (simp add: register_server_def json_world_def unmarshal_map_def marshal_indent_def Let_def)
  then show ?thesis
    using register_keeps_others [of "''{}''" json_world "Some fmempty" fmempty _ "''servers''" "GStr ''x''" "''the only document''"]
    by (simp add: json_world_def unmarshal_map_def obj_of_def)
qed

text \<open>
  A Continue configuration whose whole text is the JSON value null makes the writer assign to a nil map,
  which panics; the VS Code and Antigravity writers take it for an empty document.
\<close>
theorem continue_null_panics:
  assumes "w_dec w existing = Some GNull" and "existing \<noteq> []"
  shows "continueJSONWriter w existing policy = None \<and>
     Plan w policy (\<lambda>_. Some existing) ContinueTarget cwd global \<noteq> Inr plan \<and>
     snd (writeVSCodeMCPConfig w existing) = Appended \<and> snd (writeAntigravityMCPConfig w existing) = Appended"
  using assms
  by (auto simp: continueJSONWriter_def unmarshal_map_def Plan_def ContinueTarget_def Let_def ReadFileIfExists_def
      writeVSCodeMCPConfig_def writeAntigravityMCPConfig_def register_server_def obj_of_def split: option.splits)

theorem continue_null_panics_witness:
  "continueJSONWriter json_world ''null'' ''new'' = None \<and> snd (writeVSCodeMCPConfig json_world ''null'') = Appended"
  using continue_null_panics [of json_world "''null''" "''new''"] by (simp add: json_world_def)

end
