(* ===== verification/Resolve_Names.thy ===== *)
theory Resolve_Names
  imports Pincher_Prelude
begin

text \<open>
  What the resolve passes of the indexer share (\<open>internal/index/indexer.go\<close>, \<open>internal/ast/python_resolve.go\<close>):
  symbols, deferred edges and resolved edges, the filters on candidate symbols, and the names a Python import
  can denote.

  An empty string is Go's ``not found''. Paths use slashes and case mapping is ASCII.
\<close>

section \<open>Symbols and edges\<close>

text \<open>
  A symbol with all its columns; the text columns that may be NULL are read as the empty string, and written as NULL
  when empty. \<open>'f\<close> is the type of a confidence, a float64.
\<close>

record 'f symbol =
  s_ID :: string
  s_ProjectID :: string
  s_FilePath :: string
  s_Name :: string
  s_QualifiedName :: string
  s_Kind :: string
  s_Language :: string
  s_StartByte :: int
  s_EndByte :: int
  s_StartLine :: int
  s_EndLine :: int
  s_Signature :: string
  s_ReturnType :: string
  s_Docstring :: string
  s_Parent :: string
  s_Complexity :: int
  s_IsExported :: bool
  s_IsTest :: bool
  s_IsEntryPoint :: bool
  s_FileHash :: string
  s_ExtractionConfidence :: 'f
  s_Branch :: string

text \<open>A deferred edge, and an edge. \<open>g_Properties\<close> is the JSON text of the properties, empty for none.\<close>

record 'f pending_edge =
  e_FromQN :: string
  e_ToName :: string
  e_Kind :: string
  e_FromFile :: string
  e_Confidence :: 'f
  e_ReceiverType :: string
  e_BaseType :: string

record 'f resolved_edge =
  g_ProjectID :: string
  g_FromID :: string
  g_ToID :: string
  g_Kind :: string
  g_Confidence :: 'f
  g_Properties :: string
  g_Source :: string
  g_Branch :: string

text \<open>
  What the passes read of the database: symbols by qualified name, symbols by name with a limit,
  and the rows of struct_fields. A query that fails is None.
\<close>

record 'f sym_store =
  st_by_qn :: "string \<Rightarrow> 'f symbol list option"
  st_by_name :: "string \<Rightarrow> nat \<Rightarrow> 'f symbol list option"
  st_fields :: "(string \<times> string \<times> string) list option"

definition lookup_syms :: "'f sym_store \<Rightarrow> string \<Rightarrow> 'f symbol list" where
  "lookup_syms st qn = (case st_by_qn st qn of None \<Rightarrow> [] | Some syms \<Rightarrow> syms)"

definition MakeSymbolID :: "string \<Rightarrow> string \<Rightarrow> string \<Rightarrow> string" where
  "MakeSymbolID filePath qualifiedName kind = filePath @ ''::'' @ qualifiedName @ ''#'' @ kind"

section \<open>The canonical candidate\<close>

text \<open>The smallest ID in byte order, for a list that is not empty.\<close>

definition pickCanonical :: "'f symbol list \<Rightarrow> string" where
  "pickCanonical syms =
     foldl (\<lambda>canonical s. if s_ID s < canonical then s_ID s else canonical) (s_ID (hd syms)) (tl syms)"

lemma pickCanonical_Min: "syms \<noteq> [] \<Longrightarrow> pickCanonical syms = Min (s_ID ` set syms)"
proof -
  have f: "foldl (\<lambda>c s. if s_ID s < c then s_ID s else c) x ss = Min (insert x (s_ID ` set ss))" for x ss
  proof (induction ss arbitrary: x)
    case (Cons s ss)
    have "Min (insert (if s_ID s < x then s_ID s else x) (s_ID ` set ss)) = Min (insert x (insert (s_ID s) (s_ID ` set ss)))"
      by (cases "ss = []") (auto simp: min_def not_less)
    then show ?case using Cons by simp
  qed simp
  assume "syms \<noteq> []"
  then show ?thesis by (cases syms) (simp_all add: pickCanonical_def f)
qed

text \<open>The canonical candidate is one of the list, and does not depend on the order of the rows.\<close>

lemma pickCanonical_in: "syms \<noteq> [] \<Longrightarrow> pickCanonical syms \<in> s_ID ` set syms"
  using Min_in [of "s_ID ` set syms"] by (simp add: pickCanonical_Min)

lemma pickCanonical_cong: "set xs = set ys \<Longrightarrow> xs \<noteq> [] \<Longrightarrow> pickCanonical xs = pickCanonical ys"
  by (metis pickCanonical_Min set_empty)

section \<open>Candidates that are no call targets\<close>

definition stdlib_receivers :: "string list" where
  "stdlib_receivers =
     [''strings'', ''bytes'', ''time'', ''os'', ''fmt'', ''io'', ''ioutil'', ''errors'', ''context'', ''sync'',
      ''atomic'', ''filepath'', ''path'', ''exec'', ''url'', ''http'', ''regexp'', ''sort'', ''strconv'', ''math'',
      ''rand'', ''log'', ''slog'', ''ast'', ''token'', ''reflect'', ''runtime'', ''unsafe'', ''unicode'', ''utf8'',
      ''utf16'', ''binary'', ''hex'', ''base64'', ''csv'', ''xml'', ''html'', ''template'', ''tls'', ''syscall'',
      ''encoding'', ''hash'', ''crypto'', ''sha256'', ''sha1'', ''md5'', ''rsa'', ''tar'', ''zip'', ''gzip'',
      ''flate'', ''bufio'', ''bits'', ''big'', ''cmplx'', ''list'', ''ring'', ''heap'', ''container'', ''image'',
      ''color'', ''draw'', ''jpeg'', ''png'', ''gif'', ''mime'', ''multipart'', ''smtp'', ''mail'', ''net'',
      ''tcp'', ''udp'', ''ip'', ''rpc'', ''jsonrpc'', ''signal'', ''user'', ''build'', ''cgo'', ''format'',
      ''parser'', ''printer'', ''scanner'', ''types'', ''constant'', ''doc'', ''importer'', ''plugin'',
      ''tabwriter'', ''text'', ''elliptic'', ''ecdsa'', ''ed25519'', ''x509'', ''pem'', ''subtle'', ''sql'',
      ''driver'', ''expvar'', ''trace'', ''pprof'']"

definition isStdlibReceiver :: "string \<Rightarrow> bool" where
  "isStdlibReceiver name \<longleftrightarrow> name \<in> set stdlib_receivers"

text \<open>\<open>polymorphicMethodNamesByLanguage\<close>, one list per language.\<close>

definition polymorphicMethodNames :: "string \<Rightarrow> string list option" where
  "polymorphicMethodNames language =
     (if language = ''Go'' then Some
     [''String'', ''Error'', ''GoString'', ''Read'', ''Write'', ''Close'', ''Seek'', ''ReadAt'', ''WriteAt'',
      ''ReadFrom'', ''WriteTo'', ''ReadByte'', ''WriteByte'', ''ReadString'', ''WriteString'', ''ReadRune'',
      ''WriteRune'', ''UnreadByte'', ''UnreadRune'', ''Lock'', ''Unlock'', ''RLock'', ''RUnlock'', ''TryLock'',
      ''Len'', ''Less'', ''Swap'', ''ServeHTTP'', ''MarshalJSON'', ''UnmarshalJSON'', ''MarshalText'',
      ''UnmarshalText'', ''MarshalBinary'', ''UnmarshalBinary'', ''MarshalYAML'', ''UnmarshalYAML'', ''Format'',
      ''Scan'', ''Now'', ''Add'', ''Sub'', ''Before'', ''After'', ''Equal'', ''Deadline'', ''Done'', ''Err'',
      ''Value'', ''Is'', ''As'', ''Unwrap'', ''Run'']
      else if language = ''TypeScript'' then Some
     [''toString'', ''valueOf'', ''hasOwnProperty'', ''isPrototypeOf'', ''propertyIsEnumerable'',
      ''toLocaleString'', ''then'', ''catch'', ''finally'', ''next'', ''return'', ''throw'', ''size'', ''length'',
      ''clear'', ''delete'', ''has'', ''get'', ''set'', ''add'', ''remove'', ''forEach'', ''map'', ''filter'',
      ''reduce'', ''push'', ''pop'', ''shift'', ''unshift'', ''message'', ''name'', ''stack'',
      ''addEventListener'', ''removeEventListener'', ''dispatchEvent'', ''emit'', ''on'', ''off'', ''once'',
      ''render'', ''constructor'', ''destroy'', ''connectedCallback'', ''disconnectedCallback'',
      ''attributeChangedCallback'']
      else if language = ''Python'' then Some
     [''__init__'', ''__del__'', ''__repr__'', ''__str__'', ''__bytes__'', ''__format__'', ''__hash__'',
      ''__bool__'', ''__dir__'', ''__lt__'', ''__le__'', ''__eq__'', ''__ne__'', ''__gt__'', ''__ge__'',
      ''__getattr__'', ''__getattribute__'', ''__setattr__'', ''__delattr__'', ''__len__'', ''__getitem__'',
      ''__setitem__'', ''__delitem__'', ''__contains__'', ''__iter__'', ''__next__'', ''__reversed__'',
      ''__call__'', ''__enter__'', ''__exit__'', ''__aenter__'', ''__aexit__'', ''__aiter__'', ''__anext__'',
      ''__await__'', ''__add__'', ''__sub__'', ''__mul__'', ''__truediv__'', ''__floordiv__'', ''__mod__'',
      ''__pow__'', ''__neg__'', ''__pos__'', ''__abs__'', ''close'', ''read'', ''write'', ''flush'', ''send'',
      ''recv'']
      else None)"

definition isPolymorphicMethodName :: "string \<Rightarrow> string \<Rightarrow> bool" where
  "isPolymorphicMethodName name language =
     (case polymorphicMethodNames language of None \<Rightarrow> False | Some names \<Rightarrow> name \<in> set names)"

definition isPolymorphicInterfaceMethodName :: "string \<Rightarrow> bool" where
  "isPolymorphicInterfaceMethodName name = isPolymorphicMethodName name ''Go''"

definition slash_path :: "string \<Rightarrow> string" where
  "slash_path p = replace_byte bsl ''/'' p"

definition isFixturePath :: "string \<Rightarrow> bool" where
  "isFixturePath filePath =
     (let low = to_lower (slash_path filePath)
      in list_ex (str_contains low) [''/testdata/'', ''/test-fixtures/'', ''/test_fixtures/'', ''/__fixtures__/'', ''/fixtures/''] \<or>
         list_ex (has_prefix low) [''testdata/'', ''test-fixtures/'', ''test_fixtures/'', ''__fixtures__/'', ''fixtures/''])"

definition preferNonFixtureSyms :: "'f symbol list \<Rightarrow> 'f symbol list" where
  "preferNonFixtureSyms syms =
     (let out = filter (\<lambda>s. \<not> isFixturePath (s_FilePath s)) syms in if out = [] then syms else out)"

definition excludeMethodSyms :: "'f symbol list \<Rightarrow> 'f symbol list" where
  "excludeMethodSyms syms = filter (\<lambda>s. s_Kind s \<noteq> ''Method'') syms"

definition non_code_kinds :: "string list" where
  "non_code_kinds = [''Setting'', ''Section'', ''Document'', ''Resource'', ''Output'', ''Local'', ''Provider'', ''Block'', ''DataSource'']"

definition excludeNonCodeSyms :: "'f symbol list \<Rightarrow> 'f symbol list" where
  "excludeNonCodeSyms syms = filter (\<lambda>s. s_Kind s \<notin> set non_code_kinds) syms"

text \<open>The only method of that name, outside fixtures; no match when there are several.\<close>

fun only_method :: "string \<Rightarrow> 'f symbol list \<Rightarrow> string" where
  "only_method only [] = only"
| "only_method only (s # ss) =
     (if s_Kind s \<noteq> ''Method'' then only_method only ss
      else if only \<noteq> '''' then '''' else only_method (s_ID s) ss)"

definition resolveMethodByName :: "'f sym_store \<Rightarrow> string \<Rightarrow> string" where
  "resolveMethodByName st name =
     (case st_by_name st name 16 of None \<Rightarrow> '''' | Some syms \<Rightarrow> only_method '''' (preferNonFixtureSyms syms))"

section \<open>Build-tag siblings\<close>

definition splitFile :: "string \<Rightarrow> string \<times> string" where
  "splitFile p =
     (let base = rev (takeWhile (\<lambda>c. c \<noteq> CHR ''/'' \<and> c \<noteq> bsl) (rev p))
      in if base = p then ([], p) else (take (length p - length base - 1) p, base))"

definition platform_suffixes :: "string list" where
  "platform_suffixes =
     [''_aix'', ''_android'', ''_darwin'', ''_dragonfly'', ''_freebsd'', ''_hurd'', ''_illumos'', ''_ios'',
      ''_js'', ''_linux'', ''_nacl'', ''_netbsd'', ''_openbsd'', ''_plan9'', ''_solaris'', ''_unix'', ''_wasip1'',
      ''_windows'', ''_zos'', ''_386'', ''_amd64'', ''_amd64p32'', ''_arm'', ''_arm64'', ''_armbe'', ''_arm64be'',
      ''_loong64'', ''_mips'', ''_mips64'', ''_mips64le'', ''_mips64p32'', ''_mips64p32le'', ''_mipsle'', ''_ppc'',
      ''_ppc64'', ''_ppc64le'', ''_riscv'', ''_riscv64'', ''_s390'', ''_s390x'', ''_sparc'', ''_sparc64'',
      ''_wasm'']"

definition stripPlatformSuffix :: "string \<Rightarrow> string" where
  "stripPlatformSuffix name =
     (if \<not> has_suffix name ''.go'' then []
      else let stem = take (length name - 3) name
           in (case find (has_suffix stem) platform_suffixes of None \<Rightarrow> [] | Some s \<Rightarrow> trim_suffix stem s))"

definition isBuildTagSibling :: "string \<Rightarrow> string \<Rightarrow> bool" where
  "isBuildTagSibling a b =
     (if a = [] \<or> b = [] \<or> a = b then False
      else let (aDir, aFile) = splitFile a; (bDir, bFile) = splitFile b
           in aDir = bDir \<and> stripPlatformSuffix aFile \<noteq> [] \<and> stripPlatformSuffix aFile = stripPlatformSuffix bFile)"

definition fileOfID :: "'f symbol list \<Rightarrow> string \<Rightarrow> string" where
  "fileOfID syms i = (case find (\<lambda>s. s_ID s = i) syms of None \<Rightarrow> [] | Some s \<Rightarrow> s_FilePath s)"

definition siblingsForCanonical :: "'f symbol list \<Rightarrow> string \<Rightarrow> string list" where
  "siblingsForCanonical syms canonical =
     map s_ID (filter (\<lambda>s. s_ID s \<noteq> canonical \<and> isBuildTagSibling (s_FilePath s) (fileOfID syms canonical)) syms)"

section \<open>Source files and Python names\<close>

definition isPythonFile :: "string \<Rightarrow> bool" where
  "isPythonFile path \<longleftrightarrow> has_suffix path ''.py'' \<or> has_suffix path ''.pyw''"

definition isJSorTSFile :: "string \<Rightarrow> bool" where
  "isJSorTSFile path \<longleftrightarrow> list_ex (has_suffix path) [''.ts'', ''.tsx'', ''.js'', ''.jsx'', ''.mjs'', ''.cjs'']"

text \<open>\<open>filepath.ToSlash(filepath.Dir(p))\<close> of a clean relative path.\<close>

definition dir_of :: "string \<Rightarrow> string" where
  "dir_of p =
     (case last_index (CHR ''/'') p of None \<Rightarrow> ''.'' | Some i \<Rightarrow> if i = 0 then ''/'' else take i p)"

definition resolveRelativeImport :: "string \<Rightarrow> string \<Rightarrow> string option" where
  "resolveRelativeImport toName fromFile =
     (let level = length (takeWhile (\<lambda>c. c = CHR ''.'') toName);
          rest = drop level toName;
          dir = (if dir_of fromFile = ''.'' then [] else dir_of fromFile);
          parts = (if dir = [] then [] else split_on (CHR ''/'') [] dir);
          pops = level - 1
      in if pops > length parts then None
         else let dotted = str_join ''.'' (take (length parts - pops) parts)
           in if dotted = [] \<and> rest = [] then None
              else if dotted = [] then Some rest
              else if rest = [] then Some dotted
              else Some (dotted @ ''.'' @ rest))"

definition PythonImportCandidates :: "string \<Rightarrow> string \<Rightarrow> string list \<Rightarrow> string list" where
  "PythonImportCandidates toName fromFile sourceRoots =
     (if toName = [] then []
      else if hd toName = CHR ''.'' then (case resolveRelativeImport toName fromFile of None \<Rightarrow> [] | Some c \<Rightarrow> [c])
      else toName # map (\<lambda>root. replace_byte (CHR ''/'') ''.'' root @ ''.'' @ toName) (filter (\<lambda>root. root \<noteq> []) sourceRoots))"

section \<open>Facts about the candidates\<close>

lemma excludeNonCode_subset: "set (excludeNonCodeSyms syms) \<subseteq> set syms" "set (excludeMethodSyms syms) \<subseteq> set syms"
    "set (preferNonFixtureSyms syms) \<subseteq> set syms"
  by (auto simp: excludeNonCodeSyms_def excludeMethodSyms_def preferNonFixtureSyms_def Let_def)

lemma only_method_some: "only_method only ss \<noteq> '''' \<Longrightarrow>
    only_method only ss = only \<or> (\<exists>s \<in> set ss. s_Kind s = ''Method'' \<and> s_ID s = only_method only ss)"
  by (induction only ss rule: only_method.induct) (auto split: if_splits)

lemma resolveMethodByName_method:
  assumes "resolveMethodByName st name \<noteq> ''''"
  shows "\<exists>syms. st_by_name st name 16 = Some syms \<and> (\<exists>s \<in> set syms. s_Kind s = ''Method'' \<and> s_ID s = resolveMethodByName st name)"
proof -
  obtain syms where s: "st_by_name st name 16 = Some syms" using assms by (auto simp: resolveMethodByName_def split: option.splits)
  then have r: "resolveMethodByName st name = only_method '''' (preferNonFixtureSyms syms)" by (simp add: resolveMethodByName_def)
  then obtain x where "x \<in> set (preferNonFixtureSyms syms)" "s_Kind x = ''Method''" "s_ID x = resolveMethodByName st name"
    using only_method_some [of "''''" "preferNonFixtureSyms syms"] assms by auto
  then show ?thesis using s excludeNonCode_subset(3) by blast
qed

text \<open>Siblings are symbols of the list with another ID.\<close>

lemma siblings_in: "x \<in> set (siblingsForCanonical syms c) \<Longrightarrow> x \<in> s_ID ` set syms \<and> x \<noteq> c"
  by (auto simp: siblingsForCanonical_def)

lemma isBuildTagSibling_sym: "isBuildTagSibling a b = isBuildTagSibling b a"
  by (auto simp: isBuildTagSibling_def split: prod.splits)

end
