(* ===== verification/Store_Tables.thy ===== *)
theory Store_Tables
  imports Resolve_Names Closure
begin

text \<open>
  The tables of the database the store keeps (\<open>internal/db/db.go\<close>), as lists in rowid order, and the SQL statements the
  code runs on them. The schema's primary keys and unique constraints are the key functions; a foreign key is checked
  at the end of the statement that could break it, as SQLite does with \<open>foreign_keys(ON)\<close>.

  A statement that violates a constraint returns \<open>Inl\<close>; \<open>withTx\<close> then rolls the whole transaction back, so an
  operation that fails returns no new state.
\<close>

section \<open>Statements on one table\<close>

definition delete_where :: "('r \<Rightarrow> bool) \<Rightarrow> 'r list \<Rightarrow> 'r list" where
  "delete_where P t = filter (\<lambda>r. \<not> P r) t"

definition update_where :: "('r \<Rightarrow> bool) \<Rightarrow> ('r \<Rightarrow> 'r) \<Rightarrow> 'r list \<Rightarrow> 'r list" where
  "update_where P f t = map (\<lambda>r. if P r then f r else r) t"

definition insert_ignore :: "('r \<Rightarrow> 'k) \<Rightarrow> 'r \<Rightarrow> 'r list \<Rightarrow> 'r list" where
  "insert_ignore key r t = (if key r \<in> key ` set t then t else t @ [r])"

definition insert_replace :: "('r \<Rightarrow> 'k) \<Rightarrow> 'r \<Rightarrow> 'r list \<Rightarrow> 'r list" where
  "insert_replace key r t = delete_where (\<lambda>x. key x = key r) t @ [r]"

text \<open>\<open>INSERT ... ON CONFLICT DO UPDATE\<close>: \<open>upd old new\<close> is the row the update leaves.\<close>

definition insert_update :: "('r \<Rightarrow> 'k) \<Rightarrow> ('r \<Rightarrow> 'r \<Rightarrow> 'r) \<Rightarrow> 'r \<Rightarrow> 'r list \<Rightarrow> 'r list" where
  "insert_update key upd r t =
     (if key r \<in> key ` set t then update_where (\<lambda>x. key x = key r) (\<lambda>x. upd x r) t else t @ [r])"

text \<open>\<open>LIMIT n\<close>; a negative limit is none.\<close>

definition sql_limit :: "int \<Rightarrow> 'r list \<Rightarrow> 'r list" where
  "sql_limit n t = (if n < 0 then t else take (nat n) t)"

text \<open>What a unique constraint promises: no two rows have one key, whatever statement ran.\<close>

locale keyed =
  fixes key :: "'r \<Rightarrow> 'k"
begin

definition unique_rows :: "'r list \<Rightarrow> bool" where
  "unique_rows t \<longleftrightarrow> distinct (map key t)"

lemma unique_delete: "unique_rows t \<Longrightarrow> unique_rows (delete_where P t)"
  by (simp add: unique_rows_def delete_where_def distinct_map_filter)

lemma unique_ignore: "unique_rows t \<Longrightarrow> unique_rows (insert_ignore key r t)"
  by (auto simp: unique_rows_def insert_ignore_def)

lemma unique_replace: "unique_rows t \<Longrightarrow> unique_rows (insert_replace key r t)"
  using unique_delete [of t] by (auto simp: unique_rows_def insert_replace_def delete_where_def)

lemma unique_update:
  assumes "unique_rows t" and "\<And>x. key (f x) = key x"
  shows "unique_rows (update_where P f t)"
proof -
  have "map key (update_where P f t) = map key t" using assms(2) by (simp add: update_where_def)
  then show ?thesis using assms(1) by (simp add: unique_rows_def)
qed

lemma unique_upsert:
  assumes "unique_rows t" and "\<And>x. key (upd x r) = key x"
  shows "unique_rows (insert_update key upd r t)"
  using assms unique_update [OF assms(1), of "\<lambda>x. upd x r"] by (auto simp: insert_update_def unique_rows_def)

lemma unique_fold:
  assumes "unique_rows t" and "\<And>x u. unique_rows u \<Longrightarrow> unique_rows (f x u)"
  shows "unique_rows (fold f xs t)"
  using assms by (induction xs arbitrary: t) auto

end

text \<open>What the statements leave in the table.\<close>

lemma set_delete_where [simp]: "set (delete_where P t) = {r \<in> set t. \<not> P r}"
  by (auto simp: delete_where_def)

lemma set_insert_replace: "set (insert_replace key r t) = insert r {x \<in> set t. key x \<noteq> key r}"
  by (auto simp: insert_replace_def)

lemma set_insert_ignore: "set (insert_ignore key r t) = (if key r \<in> key ` set t then set t else insert r (set t))"
  by (simp add: insert_ignore_def)

lemma filter_delete_where: "(\<And>r. r \<in> set t \<Longrightarrow> Q r \<Longrightarrow> \<not> P r) \<Longrightarrow> filter Q (delete_where P t) = filter Q t"
  by (induction t) (auto simp: delete_where_def)

lemma filter_insert_ignore: "\<not> Q r \<Longrightarrow> filter Q (insert_ignore key r t) = filter Q t"
  by (simp add: insert_ignore_def)

lemma filter_insert_replace:
  "\<not> Q r \<Longrightarrow> (\<And>x. x \<in> set t \<Longrightarrow> Q x \<Longrightarrow> key x \<noteq> key r) \<Longrightarrow> filter Q (insert_replace key r t) = filter Q t"
  by (auto simp: insert_replace_def intro: filter_delete_where)

lemma filter_insert_update:
  assumes "\<not> Q r" and "\<And>x. x \<in> set t \<Longrightarrow> key x = key r \<Longrightarrow> \<not> Q x \<and> \<not> Q (upd x r)"
  shows "filter Q (insert_update key upd r t) = filter Q t"
proof -
  have "filter Q (update_where (\<lambda>x. key x = key r) (\<lambda>x. upd x r) t) = filter Q t"
    using assms(2) by (induction t) (auto simp: update_where_def)
  then show ?thesis using assms(1) by (simp add: insert_update_def)
qed

lemma filter_update_where:
  assumes "\<And>x. x \<in> set t \<Longrightarrow> P x \<Longrightarrow> \<not> Q x \<and> \<not> Q (f x)"
  shows "filter Q (update_where P f t) = filter Q t"
  using assms by (induction t) (auto simp: update_where_def)

lemma filter_fold:
  assumes "\<And>x u. x \<in> set xs \<Longrightarrow> filter Q (f x u) = filter Q u"
  shows "filter Q (fold f xs t) = filter Q t"
  using assms by (induction xs arbitrary: t) auto

section \<open>Rows\<close>

text \<open>A project. \<open>None\<close> is NULL: the two columns were added by later migrations.\<close>

record project_row =
  j_ID :: string
  j_Path :: string
  j_Name :: string
  j_IndexedAt :: int
  j_FileCount :: int
  j_SymCount :: int
  j_EdgeCount :: int
  j_Schema :: "int option"
  j_Binary :: "string option"
  j_Branch :: string

record 'f pending_row = "'f pending_edge" +
  e_ProjectID :: string

record file_row =
  f_ProjectID :: string
  f_Path :: string
  f_Hash :: string
  f_IndexedAt :: int

record adr_row =
  a_ProjectID :: string
  a_Key :: string
  a_Value :: string
  a_UpdatedAt :: int

record struct_field =
  sf_ProjectID :: string
  sf_StructID :: string
  sf_FieldName :: string
  sf_FieldType :: string

record interface_method =
  im_ProjectID :: string
  im_InterfaceID :: string
  im_MethodName :: string

record symbol_move =
  mv_OldID :: string
  mv_NewID :: string
  mv_ProjectID :: string
  mv_MovedAt :: int

record extraction_failure =
  x_ProjectID :: string
  x_FilePath :: string
  x_Language :: string
  x_Reason :: string
  x_Details :: string
  x_FirstSeen :: int
  x_LastSeen :: int
  x_Binary :: string

record slow_query =
  q_Tool :: string
  q_ProjectID :: "string option"
  q_DurationMS :: int
  q_Arguments :: string
  q_OccurredAt :: int

section \<open>The database\<close>

record 'f store =
  t_projects :: "project_row list"
  t_symbols :: "'f symbol list"
  t_edges :: "'f resolved_edge list"
  t_files :: "file_row list"
  t_adrs :: "adr_row list"
  t_failures :: "extraction_failure list"
  t_closure :: "closure_row list"
  t_pending :: "'f pending_row list"
  t_fields :: "struct_field list"
  t_methods :: "interface_method list"
  t_moves :: "symbol_move list"
  t_slow :: "slow_query list"

datatype sql_error = ForeignKeyViolation | UniqueViolation

definition symbol_key :: "'f symbol \<Rightarrow> string \<times> string" where
  "symbol_key s = (s_ProjectID s, s_ID s)"

definition edge_uniq :: "'f resolved_edge \<Rightarrow> string \<times> string \<times> string \<times> string" where
  "edge_uniq g = (g_ProjectID g, g_FromID g, g_ToID g, g_Kind g)"

definition pending_key :: "'f pending_row \<Rightarrow> string \<times> string \<times> string \<times> string \<times> string" where
  "pending_key e = (e_ProjectID e, e_FromFile e, e_Kind e, e_FromQN e, e_ToName e)"

definition file_key :: "file_row \<Rightarrow> string \<times> string" where
  "file_key r = (f_ProjectID r, f_Path r)"

definition adr_key :: "adr_row \<Rightarrow> string \<times> string" where
  "adr_key r = (a_ProjectID r, a_Key r)"

definition field_key :: "struct_field \<Rightarrow> string \<times> string \<times> string" where
  "field_key r = (sf_ProjectID r, sf_StructID r, sf_FieldName r)"

definition method_key :: "interface_method \<Rightarrow> string \<times> string \<times> string" where
  "method_key r = (im_ProjectID r, im_InterfaceID r, im_MethodName r)"

definition move_key :: "symbol_move \<Rightarrow> string \<times> string" where
  "move_key r = (mv_OldID r, mv_ProjectID r)"

definition failure_key :: "extraction_failure \<Rightarrow> string \<times> string \<times> string" where
  "failure_key r = (x_ProjectID r, x_FilePath r, x_Reason r)"

definition has_project :: "'f store \<Rightarrow> string \<Rightarrow> bool" where
  "has_project st i \<longleftrightarrow> i \<in> j_ID ` set (t_projects st)"

text \<open>The tables whose \<open>project_id\<close> references \<open>projects\<close>.\<close>

definition project_referenced :: "'f store \<Rightarrow> string \<Rightarrow> bool" where
  "project_referenced st i \<longleftrightarrow>
     i \<in> s_ProjectID ` set (t_symbols st) \<or> i \<in> g_ProjectID ` set (t_edges st) \<or>
     i \<in> x_ProjectID ` set (t_failures st) \<or> i \<in> cr_project ` set (t_closure st)"

interpretation projects: keyed j_ID .
interpretation symbols: keyed symbol_key .
interpretation edges: keyed edge_uniq .
interpretation pending: keyed pending_key .
interpretation file_hashes: keyed file_key .
interpretation adrs: keyed adr_key .
interpretation fields: keyed field_key .
interpretation methods: keyed method_key .
interpretation moves: keyed move_key .
interpretation failures: keyed failure_key .

definition foreign_keys_ok :: "'f store \<Rightarrow> bool" where
  "foreign_keys_ok st \<longleftrightarrow>
     s_ProjectID ` set (t_symbols st) \<subseteq> j_ID ` set (t_projects st) \<and> g_ProjectID ` set (t_edges st) \<subseteq> j_ID ` set (t_projects st) \<and>
     x_ProjectID ` set (t_failures st) \<subseteq> j_ID ` set (t_projects st) \<and> cr_project ` set (t_closure st) \<subseteq> j_ID ` set (t_projects st)"

lemma foreign_keys_okD: "foreign_keys_ok st \<Longrightarrow> project_referenced st i \<Longrightarrow> has_project st i"
  unfolding foreign_keys_ok_def project_referenced_def has_project_def by (elim conjE disjE; erule (1) subsetD)

text \<open>The constraints of the schema.\<close>

definition schema_ok :: "'f store \<Rightarrow> bool" where
  "schema_ok st \<longleftrightarrow>
     projects.unique_rows (t_projects st) \<and> symbols.unique_rows (t_symbols st) \<and> edges.unique_rows (t_edges st) \<and>
     file_hashes.unique_rows (t_files st) \<and> adrs.unique_rows (t_adrs st) \<and> failures.unique_rows (t_failures st) \<and>
     pending.unique_rows (t_pending st) \<and> fields.unique_rows (t_fields st) \<and> methods.unique_rows (t_methods st) \<and>
     moves.unique_rows (t_moves st) \<and> foreign_keys_ok st"

lemma schema_okD:
  assumes "schema_ok st"
  shows "projects.unique_rows (t_projects st)" and "symbols.unique_rows (t_symbols st)" and "edges.unique_rows (t_edges st)"
    and "file_hashes.unique_rows (t_files st)" and "adrs.unique_rows (t_adrs st)" and "failures.unique_rows (t_failures st)"
    and "pending.unique_rows (t_pending st)" and "fields.unique_rows (t_fields st)" and "methods.unique_rows (t_methods st)"
    and "moves.unique_rows (t_moves st)" and "foreign_keys_ok st"
  using assms by (auto simp: schema_ok_def)

end
