(* ===== verification/Store_Symbols.thy ===== *)
theory Store_Symbols
  imports Store_Tables
begin

text \<open>
  The operations of the store on symbols, edges, deferred edges, struct fields, interface methods and symbol moves
  (\<open>internal/db/db.go\<close>), with what they keep: the constraints of the schema, and the rows of other projects.
\<close>

section \<open>Symbols\<close>

text \<open>One row of \<open>BulkUpsertSymbols\<close>; \<open>zero\<close> and \<open>one\<close> are the floats 0 and 1. The foreign key is checked per row.\<close>

definition default_confidence :: "'f \<Rightarrow> 'f \<Rightarrow> 'f symbol \<Rightarrow> 'f symbol" where
  "default_confidence zero one s = (if s_ExtractionConfidence s = zero then s\<lparr>s_ExtractionConfidence := one\<rparr> else s)"

definition upsert_symbol :: "'f \<Rightarrow> 'f \<Rightarrow> 'f symbol \<Rightarrow> 'f store \<Rightarrow> 'f store" where
  "upsert_symbol zero one s st = st\<lparr>t_symbols := insert_replace symbol_key (default_confidence zero one s) (t_symbols st)\<rparr>"

definition BulkUpsertSymbols :: "'f \<Rightarrow> 'f \<Rightarrow> 'f symbol list \<Rightarrow> 'f store \<Rightarrow> sql_error + 'f store" where
  "BulkUpsertSymbols zero one syms st =
     (if \<exists>s \<in> set syms. \<not> has_project st (s_ProjectID s) then Inl ForeignKeyViolation
      else Inr (fold (upsert_symbol zero one) syms st))"

definition ids_of_file :: "'f store \<Rightarrow> string \<Rightarrow> string \<Rightarrow> string set" where
  "ids_of_file st projectID filePath = s_ID ` {s \<in> set (t_symbols st). s_ProjectID s = projectID \<and> s_FilePath s = filePath}"

definition delete_fields_of :: "string \<Rightarrow> string \<Rightarrow> 'f store \<Rightarrow> 'f store" where
  "delete_fields_of projectID filePath st =
     st\<lparr>t_fields := delete_where (\<lambda>r. sf_ProjectID r = projectID \<and> sf_StructID r \<in> ids_of_file st projectID filePath) (t_fields st)\<rparr>"

definition delete_methods_of :: "string \<Rightarrow> string \<Rightarrow> 'f store \<Rightarrow> 'f store" where
  "delete_methods_of projectID filePath st =
     st\<lparr>t_methods := delete_where (\<lambda>r. im_ProjectID r = projectID \<and> im_InterfaceID r \<in> ids_of_file st projectID filePath) (t_methods st)\<rparr>"

definition DeleteSymbolsForFile :: "string \<Rightarrow> string \<Rightarrow> 'f store \<Rightarrow> 'f store" where
  "DeleteSymbolsForFile projectID filePath st =
     (let ids = ids_of_file st projectID filePath;
          st1 = st\<lparr>t_edges := delete_where (\<lambda>g. g_FromID g \<in> ids \<or> g_ToID g \<in> ids) (t_edges st)\<rparr>;
          st2 = delete_fields_of projectID filePath st1;
          st3 = delete_methods_of projectID filePath st2
      in st3\<lparr>t_symbols := delete_where (\<lambda>s. s_ProjectID s = projectID \<and> s_FilePath s = filePath) (t_symbols st3)\<rparr>)"

definition GetSymbol :: "string \<Rightarrow> 'f store \<Rightarrow> 'f symbol option" where
  "GetSymbol i st = find (\<lambda>s. s_ID s = i) (t_symbols st)"

text \<open>The outer option is the error for an empty project.\<close>

definition GetSymbolScoped :: "string \<Rightarrow> string \<Rightarrow> 'f store \<Rightarrow> 'f symbol option option" where
  "GetSymbolScoped projectID i st =
     (if projectID = '''' then None else Some (find (\<lambda>s. s_ID s = i \<and> s_ProjectID s = projectID) (t_symbols st)))"

definition GetSymbolsByIDs :: "string \<Rightarrow> string list \<Rightarrow> 'f store \<Rightarrow> string \<rightharpoonup> 'f symbol" where
  "GetSymbolsByIDs projectID ids st =
     (if ids = [] then Map.empty
      else map_of (rev (map (\<lambda>s. (s_ID s, s))
        (filter (\<lambda>s. s_ID s \<in> set ids \<and> (projectID \<noteq> '''' \<longrightarrow> s_ProjectID s = projectID)) (t_symbols st)))))"

definition GetSymbolsByName :: "string \<Rightarrow> string \<Rightarrow> int \<Rightarrow> 'f store \<Rightarrow> 'f symbol list" where
  "GetSymbolsByName projectID name limit st =
     sql_limit limit (filter (\<lambda>s. s_ProjectID s = projectID \<and> s_Name s = name) (t_symbols st))"

definition GetSymbolsByQN :: "string \<Rightarrow> string \<Rightarrow> 'f store \<Rightarrow> 'f symbol list" where
  "GetSymbolsByQN projectID qn st = filter (\<lambda>s. s_ProjectID s = projectID \<and> s_QualifiedName s = qn) (t_symbols st)"

text \<open>The map from a qualified name to its rows, each list by ID.\<close>

definition LoadAllSymbolsByQN :: "string \<Rightarrow> 'f store \<Rightarrow> string \<rightharpoonup> 'f symbol list" where
  "LoadAllSymbolsByQN projectID st =
     (let syms = sort_stable (\<lambda>a b. s_QualifiedName a < s_QualifiedName b \<or> s_QualifiedName a = s_QualifiedName b \<and> s_ID a < s_ID b)
            (filter (\<lambda>s. s_ProjectID s = projectID) (t_symbols st))
      in fold (\<lambda>s m. m(s_QualifiedName s \<mapsto> (case m (s_QualifiedName s) of None \<Rightarrow> [] | Some l \<Rightarrow> l) @ [s])) syms Map.empty)"

definition GetSymbolsForFile :: "string \<Rightarrow> string \<Rightarrow> 'f store \<Rightarrow> 'f symbol list" where
  "GetSymbolsForFile projectID filePath st =
     sort_stable (\<lambda>a b. s_StartByte a < s_StartByte b)
       (filter (\<lambda>s. s_ProjectID s = projectID \<and> s_FilePath s = filePath) (t_symbols st))"

text \<open>
  \<open>GetDeadCode\<close>; \<open>le\<close> compares confidences.
\<close>

definition is_dead :: "('f \<Rightarrow> 'f \<Rightarrow> bool) \<Rightarrow> string \<Rightarrow> string list \<Rightarrow> string \<Rightarrow> 'f \<Rightarrow> 'f store \<Rightarrow> 'f symbol \<Rightarrow> bool" where
  "is_dead le projectID kinds language minConfidence st s \<longleftrightarrow>
     s_ProjectID s = projectID \<and> \<not> s_IsExported s \<and> \<not> s_IsEntryPoint s \<and> \<not> s_IsTest s \<and>
     le minConfidence (s_ExtractionConfidence s) \<and> s_Kind s \<in> set kinds \<and>
     \<not> (\<exists>g \<in> set (t_edges st). g_ProjectID g = s_ProjectID s \<and> g_ToID g = s_ID s) \<and>
     \<not> (s_Kind s = ''Method'' \<and> (\<exists>m \<in> set (t_methods st). im_ProjectID m = s_ProjectID s \<and> im_MethodName m = s_Name s)) \<and>
     \<not> (s_Language s = ''Go'' \<and> s_Name s = ''init'') \<and> (language \<noteq> '''' \<longrightarrow> s_Language s = language)"

definition GetDeadCode :: "('f \<Rightarrow> 'f \<Rightarrow> bool) \<Rightarrow> string \<Rightarrow> string list \<Rightarrow> string \<Rightarrow> 'f \<Rightarrow> int \<Rightarrow> 'f store \<Rightarrow> 'f symbol list" where
  "GetDeadCode le projectID kinds language minConfidence limit st =
     (let limit = (if limit \<le> 0 then 100 else limit); kinds = (if kinds = [] then [''Function'', ''Method''] else kinds)
      in sql_limit limit (sort_stable (\<lambda>a b. s_FilePath a < s_FilePath b \<or> s_FilePath a = s_FilePath b \<and> s_StartLine a < s_StartLine b)
        (filter (is_dead le projectID kinds language minConfidence st) (t_symbols st))))"

definition in_degree :: "string \<Rightarrow> 'f store \<Rightarrow> string \<Rightarrow> nat" where
  "in_degree projectID st i = length (filter (\<lambda>g. g_ProjectID g = projectID \<and> g_ToID g = i) (t_edges st))"

definition GetHotspots :: "string \<Rightarrow> int \<Rightarrow> 'f store \<Rightarrow> 'f symbol list" where
  "GetHotspots projectID limit st =
     sql_limit limit (sort_stable (\<lambda>a b. in_degree projectID st (s_ID a) > in_degree projectID st (s_ID b))
       (filter (\<lambda>s. s_ProjectID s = projectID \<and> in_degree projectID st (s_ID s) > 0) (t_symbols st)))"

section \<open>Edges\<close>

definition with_source :: "'f resolved_edge \<Rightarrow> 'f resolved_edge" where
  "with_source g = (if g_Source g = '''' then g\<lparr>g_Source := ''per_file''\<rparr> else g)"

text \<open>A foreign key is not checked for a row that is ignored.\<close>

fun insertEdgesTx :: "'f resolved_edge list \<Rightarrow> 'f store \<Rightarrow> sql_error + 'f store" where
  "insertEdgesTx [] st = Inr st"
| "insertEdgesTx (g # gs) st =
     (if edge_uniq g \<in> edge_uniq ` set (t_edges st) then insertEdgesTx gs st
      else if \<not> has_project st (g_ProjectID g) then Inl ForeignKeyViolation
      else insertEdgesTx gs (st\<lparr>t_edges := t_edges st @ [with_source g]\<rparr>))"

definition BulkUpsertEdges :: "'f resolved_edge list \<Rightarrow> 'f store \<Rightarrow> sql_error + 'f store" where
  "BulkUpsertEdges gs st = (if gs = [] then Inr st else insertEdgesTx gs st)"

definition ids_of_files :: "'f store \<Rightarrow> string \<Rightarrow> string list \<Rightarrow> string set" where
  "ids_of_files st projectID files = s_ID ` {s \<in> set (t_symbols st). s_ProjectID s = projectID \<and> s_FilePath s \<in> set files}"

definition delete_scoped :: "string \<Rightarrow> string \<Rightarrow> string \<Rightarrow> string list \<Rightarrow> 'f store \<Rightarrow> 'f store" where
  "delete_scoped projectID kind source files st =
     st\<lparr>t_edges := delete_where (\<lambda>g. g_ProjectID g = projectID \<and> g_Kind g = kind \<and> g_Source g = source \<and>
        g_FromID g \<in> ids_of_files st projectID files) (t_edges st)\<rparr>"

definition DeleteEdgesByKindAndSource :: "string \<Rightarrow> string \<Rightarrow> string \<Rightarrow> 'f store \<Rightarrow> 'f store" where
  "DeleteEdgesByKindAndSource projectID kind source st =
     st\<lparr>t_edges := delete_where (\<lambda>g. g_ProjectID g = projectID \<and> g_Kind g = kind \<and> g_Source g = source) (t_edges st)\<rparr>"

definition DeleteEdgesByKindAndSourceForSourceFiles :: "string \<Rightarrow> string \<Rightarrow> string \<Rightarrow> string list \<Rightarrow> 'f store \<Rightarrow> 'f store" where
  "DeleteEdgesByKindAndSourceForSourceFiles projectID kind source files st =
     (if files = [] then st else delete_scoped projectID kind source files st)"

definition DeleteResolvePassEdgesByKindForSourceFiles :: "string \<Rightarrow> string \<Rightarrow> string list \<Rightarrow> 'f store \<Rightarrow> 'f store" where
  "DeleteResolvePassEdgesByKindForSourceFiles projectID kind files st =
     DeleteEdgesByKindAndSourceForSourceFiles projectID kind ''resolve_pass'' files st"

definition ReplaceEdgesByKindSource ::
    "string \<Rightarrow> string \<Rightarrow> string \<Rightarrow> string list \<Rightarrow> 'f resolved_edge list \<Rightarrow> 'f store \<Rightarrow> sql_error + 'f store" where
  "ReplaceEdgesByKindSource projectID kind source scopeFiles gs st =
     insertEdgesTx gs (if scopeFiles \<noteq> [] then delete_scoped projectID kind source scopeFiles st
       else DeleteEdgesByKindAndSource projectID kind source st)"

text \<open>The query does not select the source and the branch of an edge, so the rows come back without them.\<close>

definition scan_edge :: "'f resolved_edge \<Rightarrow> 'f resolved_edge" where
  "scan_edge g = g\<lparr>g_Source := '''', g_Branch := ''''\<rparr>"

definition queryEdges :: "('f resolved_edge \<Rightarrow> string) \<Rightarrow> string \<Rightarrow> string list \<Rightarrow> 'f store \<Rightarrow> 'f resolved_edge list" where
  "queryEdges col i kinds st = map scan_edge (filter (\<lambda>g. col g = i \<and> (kinds \<noteq> [] \<longrightarrow> g_Kind g \<in> set kinds)) (t_edges st))"

definition EdgesFrom :: "string \<Rightarrow> string list \<Rightarrow> 'f store \<Rightarrow> 'f resolved_edge list" where
  "EdgesFrom i kinds st = queryEdges g_FromID i kinds st"

definition EdgesTo :: "string \<Rightarrow> string list \<Rightarrow> 'f store \<Rightarrow> 'f resolved_edge list" where
  "EdgesTo i kinds st = queryEdges g_ToID i kinds st"

definition FilesWithEdgesToFile :: "string \<Rightarrow> string \<Rightarrow> 'f store \<Rightarrow> string list" where
  "FilesWithEdgesToFile projectID target st =
     remdups (concat (map (\<lambda>g. [s_FilePath a. a \<leftarrow> t_symbols st, b \<leftarrow> t_symbols st,
         g_FromID g = s_ID a \<and> g_ProjectID g = s_ProjectID a \<and> g_ToID g = s_ID b \<and> g_ProjectID g = s_ProjectID b \<and>
         g_ProjectID g = projectID \<and> s_FilePath b = target \<and> s_FilePath a \<noteq> s_FilePath b])
       (t_edges st)))"

section \<open>Deferred edges, fields, interface methods\<close>

definition put_pending :: "string \<Rightarrow> string \<Rightarrow> 'f pending_edge list \<Rightarrow> 'f store \<Rightarrow> 'f store" where
  "put_pending projectID fromFile es st =
     st\<lparr>t_pending := fold (\<lambda>e. insert_ignore pending_key (pending_edge.extend (e\<lparr>e_FromFile := fromFile\<rparr>) (pending_row.fields projectID))) es
        (delete_where (\<lambda>r. e_ProjectID r = projectID \<and> e_FromFile r = fromFile) (t_pending st))\<rparr>"

definition ReplacePendingEdgesForFile :: "string \<Rightarrow> string \<Rightarrow> 'f pending_edge list \<Rightarrow> 'f store \<Rightarrow> 'f store" where
  "ReplacePendingEdgesForFile projectID fromFile es st = put_pending projectID fromFile es st"

definition DeletePendingEdgesForFile :: "string \<Rightarrow> string \<Rightarrow> 'f store \<Rightarrow> 'f store" where
  "DeletePendingEdgesForFile projectID fromFile st =
     st\<lparr>t_pending := delete_where (\<lambda>r. e_ProjectID r = projectID \<and> e_FromFile r = fromFile) (t_pending st)\<rparr>"

definition LoadPendingEdges :: "string \<Rightarrow> string \<Rightarrow> 'f store \<Rightarrow> 'f pending_row list" where
  "LoadPendingEdges projectID kind st = filter (\<lambda>r. e_ProjectID r = projectID \<and> e_Kind r = kind) (t_pending st)"

definition LoadPendingEdgesByKindAndFiles :: "string \<Rightarrow> string \<Rightarrow> string list \<Rightarrow> 'f store \<Rightarrow> 'f pending_row list" where
  "LoadPendingEdgesByKindAndFiles projectID kind files st =
     (if files = [] then []
      else filter (\<lambda>r. e_ProjectID r = projectID \<and> e_Kind r = kind \<and> e_FromFile r \<in> set files) (t_pending st))"

definition put_fields :: "string \<Rightarrow> string \<Rightarrow> struct_field list \<Rightarrow> 'f store \<Rightarrow> 'f store" where
  "put_fields projectID filePath rows st =
     (let st1 = delete_fields_of projectID filePath st
      in st1\<lparr>t_fields := fold (\<lambda>r. insert_replace field_key (r\<lparr>sf_ProjectID := projectID\<rparr>)) rows (t_fields st1)\<rparr>)"

definition ReplaceStructFieldsForFile :: "string \<Rightarrow> string \<Rightarrow> struct_field list \<Rightarrow> 'f store \<Rightarrow> 'f store" where
  "ReplaceStructFieldsForFile projectID filePath rows st = put_fields projectID filePath rows st"

definition LoadStructFields :: "string \<Rightarrow> 'f store \<Rightarrow> struct_field list" where
  "LoadStructFields projectID st = filter (\<lambda>r. sf_ProjectID r = projectID) (t_fields st)"

definition put_methods :: "string \<Rightarrow> string \<Rightarrow> interface_method list \<Rightarrow> 'f store \<Rightarrow> 'f store" where
  "put_methods projectID filePath rows st =
     (let st1 = delete_methods_of projectID filePath st
      in st1\<lparr>t_methods := fold (\<lambda>r. insert_replace method_key (r\<lparr>im_ProjectID := projectID\<rparr>)) rows (t_methods st1)\<rparr>)"

definition ReplaceInterfaceMethodsForFile :: "string \<Rightarrow> string \<Rightarrow> interface_method list \<Rightarrow> 'f store \<Rightarrow> 'f store" where
  "ReplaceInterfaceMethodsForFile projectID filePath rows st = put_methods projectID filePath rows st"

definition LoadInterfaceMethods :: "string \<Rightarrow> 'f store \<Rightarrow> interface_method list" where
  "LoadInterfaceMethods projectID st = filter (\<lambda>r. im_ProjectID r = projectID) (t_methods st)"

section \<open>File hashes and the commit of one file\<close>

definition SetFileHash :: "string \<Rightarrow> string \<Rightarrow> string \<Rightarrow> int \<Rightarrow> 'f store \<Rightarrow> 'f store" where
  "SetFileHash projectID path hash now st =
     st\<lparr>t_files := insert_replace file_key \<lparr>f_ProjectID = projectID, f_Path = path, f_Hash = hash, f_IndexedAt = now\<rparr> (t_files st)\<rparr>"

definition GetFileHash :: "string \<Rightarrow> string \<Rightarrow> 'f store \<Rightarrow> string" where
  "GetFileHash projectID path st =
     (case find (\<lambda>r. f_ProjectID r = projectID \<and> f_Path r = path) (t_files st) of None \<Rightarrow> '''' | Some r \<Rightarrow> f_Hash r)"

definition DeleteFileHash :: "string \<Rightarrow> string \<Rightarrow> 'f store \<Rightarrow> 'f store" where
  "DeleteFileHash projectID path st =
     st\<lparr>t_files := delete_where (\<lambda>r. f_ProjectID r = projectID \<and> f_Path r = path) (t_files st)\<rparr>"

definition ClearFileHashesByLanguage :: "string \<Rightarrow> string list \<Rightarrow> 'f store \<Rightarrow> nat \<times> 'f store" where
  "ClearFileHashesByLanguage projectID languages st =
     (if languages = [] then (0, st)
      else let hit = (\<lambda>r. f_ProjectID r = projectID \<and> f_Path r \<in> s_FilePath ` {s \<in> set (t_symbols st). s_ProjectID s = projectID \<and> s_Language s \<in> set languages})
        in (length (filter hit (t_files st)), st\<lparr>t_files := delete_where hit (t_files st)\<rparr>))"

definition ListFilesForProject :: "string \<Rightarrow> 'f store \<Rightarrow> string list" where
  "ListFilesForProject projectID st = map f_Path (filter (\<lambda>r. f_ProjectID r = projectID) (t_files st))"

definition ListFilesWithHashesForProject :: "string \<Rightarrow> 'f store \<Rightarrow> (string \<times> string) list" where
  "ListFilesWithHashesForProject projectID st =
     map (\<lambda>r. (f_Path r, f_Hash r)) (sort_stable (\<lambda>a b. f_Path a < f_Path b) (filter (\<lambda>r. f_ProjectID r = projectID) (t_files st)))"

definition ListSymbolFilePaths :: "string \<Rightarrow> 'f store \<Rightarrow> string list" where
  "ListSymbolFilePaths projectID st = remdups (map s_FilePath (filter (\<lambda>s. s_ProjectID s = projectID) (t_symbols st)))"

definition SymbolCountsByFile :: "string \<Rightarrow> 'f store \<Rightarrow> string \<rightharpoonup> nat" where
  "SymbolCountsByFile projectID st p =
     (let n = length (filter (\<lambda>s. s_ProjectID s = projectID \<and> s_FilePath s = p) (t_symbols st)) in if n = 0 then None else Some n)"

record 'f file_commit =
  fc_ProjectID :: string
  fc_FilePath :: string
  fc_FileHash :: string
  fc_PendingEdges :: "'f pending_edge list"
  fc_StructFields :: "struct_field list"
  fc_InterfaceMethods :: "interface_method list"

definition CommitFileExtraction :: "'f file_commit \<Rightarrow> int \<Rightarrow> 'f store \<Rightarrow> 'f store" where
  "CommitFileExtraction c now st =
     (let st1 = put_pending (fc_ProjectID c) (fc_FilePath c) (fc_PendingEdges c) st;
          st2 = put_fields (fc_ProjectID c) (fc_FilePath c) (fc_StructFields c) st1;
          st3 = put_methods (fc_ProjectID c) (fc_FilePath c) (fc_InterfaceMethods c) st2
      in SetFileHash (fc_ProjectID c) (fc_FilePath c) (fc_FileHash c) now st3)"

section \<open>Symbol moves\<close>

definition move_update :: "symbol_move \<Rightarrow> symbol_move \<Rightarrow> symbol_move" where
  "move_update x r = x\<lparr>mv_NewID := mv_NewID r, mv_MovedAt := mv_MovedAt r\<rparr>"

definition RecordSymbolMove :: "string \<Rightarrow> string \<Rightarrow> string \<Rightarrow> int \<Rightarrow> 'f store \<Rightarrow> 'f store" where
  "RecordSymbolMove projectID oldID newID now st =
     st\<lparr>t_moves := insert_update move_key move_update
        \<lparr>mv_OldID = oldID, mv_NewID = newID, mv_ProjectID = projectID, mv_MovedAt = now\<rparr> (t_moves st)\<rparr>"

definition ResolveStaleID :: "string \<Rightarrow> string \<Rightarrow> 'f store \<Rightarrow> string option" where
  "ResolveStaleID projectID oldID st = map_option mv_NewID (find (\<lambda>r. mv_OldID r = oldID \<and> mv_ProjectID r = projectID) (t_moves st))"

definition detect_move :: "string \<Rightarrow> int \<Rightarrow> 'f symbol \<Rightarrow> 'f store \<Rightarrow> 'f store" where
  "detect_move projectID now s st =
     (case find (\<lambda>x. s_ProjectID x = projectID \<and> s_QualifiedName x = s_QualifiedName s \<and> s_Kind x = s_Kind s \<and> s_ID x \<noteq> s_ID s) (t_symbols st) of
        None \<Rightarrow> st
      | Some x \<Rightarrow> RecordSymbolMove projectID (s_ID x) (s_ID s) now st)"

definition DetectAndRecordMoves :: "string \<Rightarrow> 'f symbol list \<Rightarrow> int \<Rightarrow> 'f store \<Rightarrow> 'f store" where
  "DetectAndRecordMoves projectID newSyms now st = fold (detect_move projectID now) newSyms st"

end
