(* ===== verification/Store_Projects.thy ===== *)
theory Store_Projects
  imports Store_Symbols
begin

text \<open>
  The operations of the store on projects (\<open>internal/db/db.go\<close>): binary versions, the two upserts, deletion, the merge of
  rows that name one directory, decision records, extraction failures and slow queries.

  \<open>schema_now\<close> is the number of the schema this binary knows, \<open>canon\<close> is \<open>CanonicalProjectPath\<close>, which asks the file
  system, and \<open>now\<close> the clock.
\<close>

section \<open>Binary versions\<close>

text \<open>Major, minor, patch and commits of a version such as 0.58.0-44-g91e9c0f.\<close>

definition parse_commits :: "string \<Rightarrow> int option" where
  "parse_commits rest = go_atoi (case str_index rest ''-'' of None \<Rightarrow> rest | Some d \<Rightarrow> if d > 0 then take d rest else rest)"

definition split_dots3 :: "string \<Rightarrow> string list" where
  "split_dots3 s =
     (case split_on (CHR ''.'') [] s of
        a # b # c # ds \<Rightarrow> [a, b, str_join ''.'' (c # ds)]
      | parts \<Rightarrow> parts)"

definition parseBinaryVersion :: "string \<Rightarrow> (int \<times> int \<times> int \<times> int) option" where
  "parseBinaryVersion s =
     (let v = trim_prefix s ''v'';
          (core, commits) = (case str_index v ''-'' of None \<Rightarrow> (v, Some 0) | Some d \<Rightarrow> (take d v, parse_commits (drop (d + 1) v)))
      in (case commits of
            None \<Rightarrow> None
          | Some c \<Rightarrow> (case split_dots3 core of
                [p0, p1, p2] \<Rightarrow> (case (go_atoi p0, go_atoi p1, go_atoi p2) of
                    (Some a, Some b, Some d) \<Rightarrow> Some (a, b, d, c)
                  | _ \<Rightarrow> None)
              | _ \<Rightarrow> None)))"

definition compare_lex :: "'a::linorder \<Rightarrow> 'a \<Rightarrow> int" where
  "compare_lex x y = (if x < y then -1 else if x > y then 1 else 0)"

definition compare_quad :: "int \<times> int \<times> int \<times> int \<Rightarrow> int \<times> int \<times> int \<times> int \<Rightarrow> int" where
  "compare_quad x y =
     (case (x, y) of ((a0, a1, a2, a3), (b0, b1, b2, b3)) \<Rightarrow>
        if a0 < b0 then -1 else if a0 > b0 then 1
        else if a1 < b1 then -1 else if a1 > b1 then 1
        else if a2 < b2 then -1 else if a2 > b2 then 1
        else if a3 < b3 then -1 else if a3 > b3 then 1
        else 0)"

definition CompareBinaryVersion :: "string \<Rightarrow> string \<Rightarrow> int" where
  "CompareBinaryVersion a b =
     (if a = b then 0
      else if a = ''dev'' then -1
      else if b = ''dev'' then 1
      else (case (parseBinaryVersion a, parseBinaryVersion b) of
          (Some x, Some y) \<Rightarrow> compare_quad x y
        | _ \<Rightarrow> compare_lex a b))"

section \<open>Upserts\<close>

definition stored_binary :: "string \<Rightarrow> 'f store \<Rightarrow> string" where
  "stored_binary i st =
     (case find (\<lambda>p. j_ID p = i) (t_projects st) of
        None \<Rightarrow> '''' | Some p \<Rightarrow> (case j_Binary p of None \<Rightarrow> '''' | Some v \<Rightarrow> v))"

text \<open>SQL comparison with NULL is not true, and the scalar MAX of NULL is NULL.\<close>

definition sql_ge :: "int \<Rightarrow> int option \<Rightarrow> bool" where
  "sql_ge n x = (case x of None \<Rightarrow> False | Some m \<Rightarrow> n \<ge> m)"

definition sql_max :: "int option \<Rightarrow> int \<Rightarrow> int option" where
  "sql_max x n = map_option (\<lambda>m. max m n) x"

definition coalesce0 :: "int option \<Rightarrow> int option" where
  "coalesce0 x = Some (case x of None \<Rightarrow> 0 | Some m \<Rightarrow> m)"

definition project_update :: "project_row \<Rightarrow> project_row \<Rightarrow> project_row" where
  "project_update x r =
     x\<lparr>j_Path := j_Path r, j_Name := j_Name r, j_IndexedAt := j_IndexedAt r, j_FileCount := j_FileCount r,
       j_SymCount := j_SymCount r, j_EdgeCount := j_EdgeCount r,
       j_Binary := (if sql_ge (the (j_Schema r)) (j_Schema x) then j_Binary r else j_Binary x),
       j_Schema := sql_max (j_Schema x) (the (j_Schema r)), j_Branch := j_Branch r\<rparr>"

definition UpsertProject :: "int \<Rightarrow> project_row \<Rightarrow> 'f store \<Rightarrow> 'f store" where
  "UpsertProject schema_now p st =
     (let bv = (case j_Binary p of None \<Rightarrow> '''' | Some v \<Rightarrow> v);
          old = stored_binary (j_ID p) st;
          write = (if bv \<noteq> '''' \<and> old \<noteq> '''' \<and> CompareBinaryVersion bv old < 0 then old else bv)
      in st\<lparr>t_projects := insert_update j_ID project_update (p\<lparr>j_Schema := Some schema_now, j_Binary := Some write\<rparr>) (t_projects st)\<rparr>)"

definition meta_update :: "project_row \<Rightarrow> project_row \<Rightarrow> project_row" where
  "meta_update x r =
     x\<lparr>j_Path := j_Path r, j_Name := j_Name r, j_IndexedAt := j_IndexedAt r,
       j_Binary := (if sql_ge (the (j_Schema r)) (coalesce0 (j_Schema x)) then j_Binary r else j_Binary x),
       j_Schema := sql_max (coalesce0 (j_Schema x)) (the (j_Schema r)), j_Branch := j_Branch r\<rparr>"

definition UpsertProjectMeta :: "int \<Rightarrow> project_row \<Rightarrow> 'f store \<Rightarrow> 'f store" where
  "UpsertProjectMeta schema_now p st =
     (let bv = (case j_Binary p of None \<Rightarrow> '''' | Some v \<Rightarrow> v);
          old = stored_binary (j_ID p) st;
          write = (if old \<noteq> '''' \<and> CompareBinaryVersion bv old < 0 then old else bv)
      in st\<lparr>t_projects := insert_update j_ID meta_update
            (p\<lparr>j_FileCount := 0, j_SymCount := 0, j_EdgeCount := 0, j_Schema := Some schema_now, j_Binary := Some write\<rparr>) (t_projects st)\<rparr>)"

definition UpdateProjectCounts :: "string \<Rightarrow> int \<Rightarrow> int \<Rightarrow> int \<Rightarrow> 'f store \<Rightarrow> 'f store" where
  "UpdateProjectCounts projectID files syms edges st =
     st\<lparr>t_projects := update_where (\<lambda>p. j_ID p = projectID)
        (\<lambda>p. p\<lparr>j_FileCount := files, j_SymCount := syms, j_EdgeCount := edges\<rparr>) (t_projects st)\<rparr>"

definition ListProjects :: "'f store \<Rightarrow> project_row list" where
  "ListProjects st = sort_stable (\<lambda>a b. j_Name a < j_Name b) (t_projects st)"

definition GetProject :: "string \<Rightarrow> 'f store \<Rightarrow> project_row option" where
  "GetProject i st = find (\<lambda>p. j_ID p = i) (t_projects st)"

section \<open>Deletion\<close>

definition delete_project_rows :: "string \<Rightarrow> 'f store \<Rightarrow> 'f store" where
  "delete_project_rows i st =
     st\<lparr>t_edges := delete_where (\<lambda>r. g_ProjectID r = i) (t_edges st),
        t_symbols := delete_where (\<lambda>r. s_ProjectID r = i) (t_symbols st),
        t_files := delete_where (\<lambda>r. f_ProjectID r = i) (t_files st),
        t_adrs := delete_where (\<lambda>r. a_ProjectID r = i) (t_adrs st),
        t_failures := delete_where (\<lambda>r. x_ProjectID r = i) (t_failures st),
        t_closure := delete_where (\<lambda>r. cr_project r = i) (t_closure st),
        t_pending := delete_where (\<lambda>r. e_ProjectID r = i) (t_pending st),
        t_fields := delete_where (\<lambda>r. sf_ProjectID r = i) (t_fields st),
        t_methods := delete_where (\<lambda>r. im_ProjectID r = i) (t_methods st),
        t_moves := delete_where (\<lambda>r. mv_ProjectID r = i) (t_moves st),
        t_slow := delete_where (\<lambda>r. q_ProjectID r = Some i) (t_slow st)\<rparr>"

text \<open>\<open>DELETE FROM projects WHERE id=?\<close> with its foreign-key check.\<close>

definition delete_project_row :: "string \<Rightarrow> 'f store \<Rightarrow> sql_error + 'f store" where
  "delete_project_row i st =
     (if has_project st i \<and> project_referenced st i then Inl ForeignKeyViolation
      else Inr (st\<lparr>t_projects := delete_where (\<lambda>p. j_ID p = i) (t_projects st)\<rparr>))"

definition DeleteProject :: "string \<Rightarrow> 'f store \<Rightarrow> sql_error + 'f store" where
  "DeleteProject i st = delete_project_row i (delete_project_rows i st)"

text \<open>The projects deleted before an error stay deleted: each deletion is a transaction of its own.\<close>

fun delete_projects :: "string list \<Rightarrow> 'f store \<Rightarrow> (sql_error option \<times> 'f store)" where
  "delete_projects [] st = (None, st)"
| "delete_projects (i # is) st =
     (case DeleteProject i st of Inl e \<Rightarrow> (Some e, st) | Inr st1 \<Rightarrow> delete_projects is st1)"

definition DeleteEmptyProjects :: "'f store \<Rightarrow> nat \<times> sql_error option \<times> 'f store" where
  "DeleteEmptyProjects st =
     (let ids = map j_ID (filter (\<lambda>p. j_SymCount p = 0 \<and> j_EdgeCount p = 0) (t_projects st))
      in (case delete_projects ids st of (Some e, st1) \<Rightarrow> (0, Some e, st1) | (None, st1) \<Rightarrow> (length ids, None, st1)))"

section \<open>Merging the rows of one directory\<close>

text \<open>
  One table of \<open>mergeProjectInto\<close>: the loser's rows move to the winner unless the winner has a row of that key; the rest
  is deleted. \<open>proj\<close> reads and \<open>setp\<close> writes the project of a row, \<open>key\<close> is the rest of its unique key.
\<close>

definition move_rows :: "('r \<Rightarrow> string) \<Rightarrow> (string \<Rightarrow> 'r \<Rightarrow> 'r) \<Rightarrow> ('r \<Rightarrow> 'k) \<Rightarrow> string \<Rightarrow> string \<Rightarrow> 'r list \<Rightarrow> 'r list" where
  "move_rows proj setp key loser winner t =
     delete_where (\<lambda>r. proj r = loser)
       (update_where (\<lambda>r. proj r = loser \<and> \<not> (\<exists>w \<in> set t. proj w = winner \<and> key w = key r)) (setp winner) t)"

definition merge_rows :: "string \<Rightarrow> string \<Rightarrow> 'f store \<Rightarrow> 'f store" where
  "merge_rows loser winner st =
     st\<lparr>t_symbols := move_rows s_ProjectID (\<lambda>i r. r\<lparr>s_ProjectID := i\<rparr>) s_ID loser winner (t_symbols st),
        t_edges := move_rows g_ProjectID (\<lambda>i r. r\<lparr>g_ProjectID := i\<rparr>) (\<lambda>g. (g_FromID g, g_ToID g, g_Kind g)) loser winner (t_edges st),
        t_failures := move_rows x_ProjectID (\<lambda>i r. r\<lparr>x_ProjectID := i\<rparr>) (\<lambda>r. (x_FilePath r, x_Reason r)) loser winner (t_failures st),
        t_files := move_rows f_ProjectID (\<lambda>i r. r\<lparr>f_ProjectID := i\<rparr>) f_Path loser winner (t_files st),
        t_adrs := move_rows a_ProjectID (\<lambda>i r. r\<lparr>a_ProjectID := i\<rparr>) a_Key loser winner (t_adrs st),
        t_moves := move_rows mv_ProjectID (\<lambda>i r. r\<lparr>mv_ProjectID := i\<rparr>) mv_OldID loser winner (t_moves st),
        t_slow := update_where (\<lambda>r. q_ProjectID r = Some loser) (\<lambda>r. r\<lparr>q_ProjectID := Some winner\<rparr>) (t_slow st)\<rparr>"

text \<open>The statements run one by one, so the rows have moved when the last one fails.\<close>

definition mergeProjectInto :: "string \<Rightarrow> string \<Rightarrow> 'f store \<Rightarrow> sql_error option \<times> 'f store" where
  "mergeProjectInto loser winner st =
     (case delete_project_row loser (merge_rows loser winner st) of
        Inl e \<Rightarrow> (Some e, merge_rows loser winner st)
      | Inr st1 \<Rightarrow> (None, st1))"

text \<open>
  One \<open>UPDATE\<close> of \<open>renameProjectID\<close>: it fails when a row of the new project already has the key. Foreign keys are off.
\<close>

definition rename_rows :: "('r \<Rightarrow> string) \<Rightarrow> (string \<Rightarrow> 'r \<Rightarrow> 'r) \<Rightarrow> ('r \<Rightarrow> 'k) \<Rightarrow> string \<Rightarrow> string \<Rightarrow> 'r list \<Rightarrow> 'r list option" where
  "rename_rows proj setp key from to t =
     (if from \<noteq> to \<and> (\<exists>r \<in> set t. proj r = from \<and> (\<exists>w \<in> set t. proj w = to \<and> key w = key r)) then None
      else Some (update_where (\<lambda>r. proj r = from) (setp to) t))"

text \<open>Statements that run one by one until one fails.\<close>

fun run_statements :: "('f store \<Rightarrow> 'f store option) list \<Rightarrow> 'f store \<Rightarrow> sql_error option \<times> 'f store" where
  "run_statements [] st = (None, st)"
| "run_statements (q # qs) st = (case q st of None \<Rightarrow> (Some UniqueViolation, st) | Some st1 \<Rightarrow> run_statements qs st1)"

definition renameProjectID :: "string \<Rightarrow> string \<Rightarrow> 'f store \<Rightarrow> sql_error option \<times> 'f store" where
  "renameProjectID from to =
     run_statements
       [\<lambda>st. map_option (\<lambda>t. st\<lparr>t_projects := t\<rparr>) (rename_rows j_ID (\<lambda>i r. r\<lparr>j_ID := i\<rparr>) (\<lambda>r. ()) from to (t_projects st)),
        \<lambda>st. map_option (\<lambda>t. st\<lparr>t_symbols := t\<rparr>) (rename_rows s_ProjectID (\<lambda>i r. r\<lparr>s_ProjectID := i\<rparr>) s_ID from to (t_symbols st)),
        \<lambda>st. map_option (\<lambda>t. st\<lparr>t_edges := t\<rparr>) (rename_rows g_ProjectID (\<lambda>i r. r\<lparr>g_ProjectID := i\<rparr>)
               (\<lambda>g. (g_FromID g, g_ToID g, g_Kind g)) from to (t_edges st)),
        \<lambda>st. map_option (\<lambda>t. st\<lparr>t_failures := t\<rparr>) (rename_rows x_ProjectID (\<lambda>i r. r\<lparr>x_ProjectID := i\<rparr>)
               (\<lambda>r. (x_FilePath r, x_Reason r)) from to (t_failures st)),
        \<lambda>st. map_option (\<lambda>t. st\<lparr>t_files := t\<rparr>) (rename_rows f_ProjectID (\<lambda>i r. r\<lparr>f_ProjectID := i\<rparr>) f_Path from to (t_files st)),
        \<lambda>st. map_option (\<lambda>t. st\<lparr>t_adrs := t\<rparr>) (rename_rows a_ProjectID (\<lambda>i r. r\<lparr>a_ProjectID := i\<rparr>) a_Key from to (t_adrs st)),
        \<lambda>st. map_option (\<lambda>t. st\<lparr>t_moves := t\<rparr>) (rename_rows mv_ProjectID (\<lambda>i r. r\<lparr>mv_ProjectID := i\<rparr>) mv_OldID from to (t_moves st)),
        \<lambda>st. Some (st\<lparr>t_slow := update_where (\<lambda>r. q_ProjectID r = Some from) (\<lambda>r. r\<lparr>q_ProjectID := Some to\<rparr>) (t_slow st)\<rparr>)]"

definition recomputeProjectCounts :: "string \<Rightarrow> 'f store \<Rightarrow> 'f store" where
  "recomputeProjectCounts projectID st =
     UpdateProjectCounts projectID
       (int (length (filter (\<lambda>r. f_ProjectID r = projectID) (t_files st))))
       (int (length (filter (\<lambda>r. s_ProjectID r = projectID) (t_symbols st))))
       (int (length (filter (\<lambda>r. g_ProjectID r = projectID) (t_edges st)))) st"

text \<open>The winner of a group: the row whose ID is canonical, else the one with most symbols, and of those the latest.\<close>

definition better_row :: "project_row \<Rightarrow> project_row \<Rightarrow> project_row" where
  "better_row w m = (if j_SymCount m > j_SymCount w \<or> j_SymCount m = j_SymCount w \<and> j_IndexedAt m > j_IndexedAt w then m else w)"

definition pick_winner :: "string \<Rightarrow> project_row list \<Rightarrow> project_row" where
  "pick_winner canonID members =
     (case find (\<lambda>m. j_ID m = canonID) members of Some w \<Rightarrow> w | None \<Rightarrow> foldl better_row (hd members) members)"

fun merge_losers :: "string \<Rightarrow> string list \<Rightarrow> 'f store \<Rightarrow> sql_error option \<times> 'f store" where
  "merge_losers winner [] st = (None, st)"
| "merge_losers winner (l # ls) st =
     (case mergeProjectInto l winner st of (Some e, st1) \<Rightarrow> (Some e, st1) | (None, st1) \<Rightarrow> merge_losers winner ls st1)"

definition dedup_group :: "string \<Rightarrow> project_row list \<Rightarrow> 'f store \<Rightarrow> sql_error option \<times> 'f store" where
  "dedup_group canonID members st =
     (if length members \<le> 1 then (None, st)
      else let w = j_ID (pick_winner canonID members)
        in (case merge_losers w (filter (\<lambda>i. i \<noteq> w) (map j_ID members)) st of
              (Some e, st1) \<Rightarrow> (Some e, st1)
            | (None, st1) \<Rightarrow>
                (case (if w \<noteq> canonID then renameProjectID w canonID st1 else (None, st1)) of
                    (Some e, st2) \<Rightarrow> (Some e, st2)
                  | (None, st2) \<Rightarrow> (None, recomputeProjectCounts canonID st2))))"

fun dedup_groups :: "(string \<times> project_row list) list \<Rightarrow> 'f store \<Rightarrow> sql_error option \<times> 'f store" where
  "dedup_groups [] st = (None, st)"
| "dedup_groups ((c, ms) # gs) st =
     (case dedup_group c ms st of (Some e, st1) \<Rightarrow> (Some e, st1) | (None, st1) \<Rightarrow> dedup_groups gs st1)"

definition dedupProjectsByCanonicalPath :: "(string \<Rightarrow> string) \<Rightarrow> 'f store \<Rightarrow> sql_error option \<times> 'f store" where
  "dedupProjectsByCanonicalPath canon st =
     dedup_groups (map (\<lambda>c. (c, filter (\<lambda>p. canon (j_Path p) = c) (t_projects st)))
       (remdups (map (\<lambda>p. canon (j_Path p)) (t_projects st)))) st"

section \<open>Decision records, failures, slow queries\<close>

definition SetADR :: "string \<Rightarrow> string \<Rightarrow> string \<Rightarrow> int \<Rightarrow> 'f store \<Rightarrow> 'f store" where
  "SetADR projectID k v now st =
     st\<lparr>t_adrs := insert_replace adr_key \<lparr>a_ProjectID = projectID, a_Key = k, a_Value = v, a_UpdatedAt = now\<rparr> (t_adrs st)\<rparr>"

definition GetADR :: "string \<Rightarrow> string \<Rightarrow> 'f store \<Rightarrow> string option" where
  "GetADR projectID k st = map_option a_Value (find (\<lambda>r. a_ProjectID r = projectID \<and> a_Key r = k) (t_adrs st))"

definition ListADRs :: "string \<Rightarrow> 'f store \<Rightarrow> string \<rightharpoonup> string" where
  "ListADRs projectID st = map_of (map (\<lambda>r. (a_Key r, a_Value r)) (filter (\<lambda>r. a_ProjectID r = projectID) (t_adrs st)))"

definition DeleteADR :: "string \<Rightarrow> string \<Rightarrow> 'f store \<Rightarrow> nat \<times> 'f store" where
  "DeleteADR projectID k st =
     (length (filter (\<lambda>r. a_ProjectID r = projectID \<and> a_Key r = k) (t_adrs st)),
      st\<lparr>t_adrs := delete_where (\<lambda>r. a_ProjectID r = projectID \<and> a_Key r = k) (t_adrs st)\<rparr>)"

definition extractionFailureDetailsCap :: nat where "extractionFailureDetailsCap = 1024"

text \<open>The three bytes of the ellipsis, then the mark.\<close>

definition truncated_mark :: string where
  "truncated_mark = [CHR 0xE2, CHR 0x80, CHR 0xA6] @ ''[truncated]''"

definition failure_update :: "extraction_failure \<Rightarrow> extraction_failure \<Rightarrow> extraction_failure" where
  "failure_update x r = x\<lparr>x_Details := x_Details r, x_LastSeen := x_LastSeen r, x_Binary := x_Binary r\<rparr>"

definition RecordExtractionFailureWithBinary ::
    "string \<Rightarrow> string \<Rightarrow> string \<Rightarrow> string \<Rightarrow> string \<Rightarrow> string \<Rightarrow> int \<Rightarrow> 'f store \<Rightarrow> sql_error + 'f store" where
  "RecordExtractionFailureWithBinary projectID filePath language reason details binaryVersion now st =
     (let det = (if length details > extractionFailureDetailsCap then take extractionFailureDetailsCap details @ truncated_mark else details);
          r = \<lparr>x_ProjectID = projectID, x_FilePath = filePath, x_Language = language, x_Reason = reason, x_Details = det,
               x_FirstSeen = now, x_LastSeen = now, x_Binary = binaryVersion\<rparr>
      in if failure_key r \<notin> failure_key ` set (t_failures st) \<and> \<not> has_project st projectID then Inl ForeignKeyViolation
         else Inr (st\<lparr>t_failures := insert_update failure_key failure_update r (t_failures st)\<rparr>))"

definition RecordExtractionFailure ::
    "string \<Rightarrow> string \<Rightarrow> string \<Rightarrow> string \<Rightarrow> string \<Rightarrow> int \<Rightarrow> 'f store \<Rightarrow> sql_error + 'f store" where
  "RecordExtractionFailure projectID filePath language reason details now st =
     RecordExtractionFailureWithBinary projectID filePath language reason details '''' now st"

definition PruneExtractionFailuresForFile :: "string \<Rightarrow> string \<Rightarrow> string list \<Rightarrow> 'f store \<Rightarrow> 'f store" where
  "PruneExtractionFailuresForFile projectID filePath keepReasons st =
     st\<lparr>t_failures := delete_where (\<lambda>r. x_ProjectID r = projectID \<and> x_FilePath r = filePath \<and> x_Reason r \<notin> set keepReasons) (t_failures st)\<rparr>"

definition PruneStaleExtractionFailures :: "'f store \<Rightarrow> nat \<times> 'f store" where
  "PruneStaleExtractionFailures st =
     (let stale = (\<lambda>r. \<exists>p \<in> set (t_projects st). j_ID p = x_ProjectID r \<and> x_LastSeen r < j_IndexedAt p)
      in (length (filter stale (t_failures st)), st\<lparr>t_failures := delete_where stale (t_failures st)\<rparr>))"

definition ClearExtractionFailures :: "string \<Rightarrow> 'f store \<Rightarrow> 'f store" where
  "ClearExtractionFailures projectID st = st\<lparr>t_failures := delete_where (\<lambda>r. x_ProjectID r = projectID) (t_failures st)\<rparr>"

text \<open>A limit that is not positive is none.\<close>

definition pos_limit :: "int \<Rightarrow> 'r list \<Rightarrow> 'r list" where
  "pos_limit n t = (if n > 0 then take (nat n) t else t)"

definition ListExtractionFailures :: "string \<Rightarrow> int \<Rightarrow> 'f store \<Rightarrow> extraction_failure list" where
  "ListExtractionFailures projectID limit st =
     pos_limit limit (sort_stable (\<lambda>a b. x_LastSeen a > x_LastSeen b) (filter (\<lambda>r. x_ProjectID r = projectID) (t_failures st)))"

definition ListRecentExtractionFailuresAcrossProjects :: "int \<Rightarrow> int \<Rightarrow> 'f store \<Rightarrow> extraction_failure list" where
  "ListRecentExtractionFailuresAcrossProjects cutoff limit st =
     pos_limit limit (sort_stable (\<lambda>a b. x_LastSeen a > x_LastSeen b) (filter (\<lambda>r. x_LastSeen r \<ge> cutoff) (t_failures st)))"

definition CountRecentExtractionFailuresAcrossProjects :: "int \<Rightarrow> 'f store \<Rightarrow> nat" where
  "CountRecentExtractionFailuresAcrossProjects cutoff st = length (filter (\<lambda>r. x_LastSeen r \<ge> cutoff) (t_failures st))"

definition ExtractionFailureCountsByReason :: "string \<Rightarrow> 'f store \<Rightarrow> string \<rightharpoonup> nat" where
  "ExtractionFailureCountsByReason projectID st reason =
     (let n = length (filter (\<lambda>r. x_ProjectID r = projectID \<and> x_Reason r = reason) (t_failures st)) in if n = 0 then None else Some n)"

definition RecordSlowQuery :: "string \<Rightarrow> string \<Rightarrow> int \<Rightarrow> string \<Rightarrow> int \<Rightarrow> 'f store \<Rightarrow> 'f store" where
  "RecordSlowQuery tool projectID durationMS arguments now st =
     st\<lparr>t_slow := t_slow st @ [\<lparr>q_Tool = tool, q_ProjectID = (if projectID = '''' then None else Some projectID),
        q_DurationMS = durationMS, q_Arguments = arguments, q_OccurredAt = now\<rparr>]\<rparr>"

text \<open>The latest first; of one second the last inserted first.\<close>

definition ListSlowQueries :: "int \<Rightarrow> 'f store \<Rightarrow> slow_query list" where
  "ListSlowQueries limit st = pos_limit limit (sort_stable (\<lambda>a b. q_OccurredAt a > q_OccurredAt b) (rev (t_slow st)))"

end
