(* ===== verification/Store_Correct.thy ===== *)
theory Store_Correct
  imports Store_Projects
begin

text \<open>
  What the operations of the store keep: the constraints of the schema, the rows of other projects, the meaning of an
  atomic replacement; and the places where they do not.
\<close>

section \<open>The constraints of the schema\<close>

lemma image_subset_or: "(\<And>s. s \<in> T \<Longrightarrow> f s \<in> f ` S \<or> f s \<in> A) \<Longrightarrow> f ` S \<subseteq> A \<Longrightarrow> f ` T \<subseteq> A"
  by blast

lemma foreign_keys_parts:
  assumes "schema_ok st"
  shows "s_ProjectID ` set (t_symbols st) \<subseteq> j_ID ` set (t_projects st)" and "g_ProjectID ` set (t_edges st) \<subseteq> j_ID ` set (t_projects st)"
    and "x_ProjectID ` set (t_failures st) \<subseteq> j_ID ` set (t_projects st)" and "cr_project ` set (t_closure st) \<subseteq> j_ID ` set (t_projects st)"
  using schema_okD(11) [OF assms] by (simp_all add: foreign_keys_ok_def)

named_theorems schema_upd \<open>an update of one table keeps the schema\<close>

lemma schema_symbols [schema_upd]:
  assumes "schema_ok st" and "symbols.unique_rows t" and "\<And>s. s \<in> set t \<Longrightarrow> s \<in> set (t_symbols st) \<or> has_project st (s_ProjectID s)"
  shows "schema_ok (st\<lparr>t_symbols := t\<rparr>)"
proof -
  have "s_ProjectID ` set t \<subseteq> j_ID ` set (t_projects st)"
    by (rule image_subset_or [OF _ foreign_keys_parts(1) [OF assms(1)]]) (use assms(3) in \<open>auto simp: has_project_def\<close>)
  then show ?thesis using assms(1,2) foreign_keys_parts [OF assms(1)] by (simp add: schema_ok_def foreign_keys_ok_def)
qed

lemma schema_edges [schema_upd]:
  assumes "schema_ok st" and "edges.unique_rows t" and "\<And>g. g \<in> set t \<Longrightarrow> g \<in> set (t_edges st) \<or> has_project st (g_ProjectID g)"
  shows "schema_ok (st\<lparr>t_edges := t\<rparr>)"
proof -
  have "g_ProjectID ` set t \<subseteq> j_ID ` set (t_projects st)"
    by (rule image_subset_or [OF _ foreign_keys_parts(2) [OF assms(1)]]) (use assms(3) in \<open>auto simp: has_project_def\<close>)
  then show ?thesis using assms(1,2) foreign_keys_parts [OF assms(1)] by (simp add: schema_ok_def foreign_keys_ok_def)
qed

lemma schema_failures [schema_upd]:
  assumes "schema_ok st" and "failures.unique_rows t"
    and "\<And>g. g \<in> set t \<Longrightarrow> x_ProjectID g \<in> x_ProjectID ` set (t_failures st) \<or> has_project st (x_ProjectID g)"
  shows "schema_ok (st\<lparr>t_failures := t\<rparr>)"
proof -
  have "x_ProjectID ` set t \<subseteq> j_ID ` set (t_projects st)"
    by (rule image_subset_or [OF _ foreign_keys_parts(3) [OF assms(1)]]) (use assms(3) in \<open>auto simp: has_project_def\<close>)
  then show ?thesis using assms(1,2) foreign_keys_parts [OF assms(1)] by (simp add: schema_ok_def foreign_keys_ok_def)
qed

lemma schema_projects [schema_upd]:
  assumes "schema_ok st" and "projects.unique_rows t" and "j_ID ` set (t_projects st) \<subseteq> j_ID ` set t"
  shows "schema_ok (st\<lparr>t_projects := t\<rparr>)"
proof -
  have "foreign_keys_ok (st\<lparr>t_projects := t\<rparr>)"
    using foreign_keys_parts [OF assms(1)] assms(3) by (simp add: foreign_keys_ok_def subset_trans [OF _ assms(3)])
  then show ?thesis using assms(1,2) by (simp add: schema_ok_def)
qed

lemma schema_free [schema_upd]:
  assumes "schema_ok st"
  shows "file_hashes.unique_rows tf \<Longrightarrow> schema_ok (st\<lparr>t_files := tf\<rparr>)" and "adrs.unique_rows ta \<Longrightarrow> schema_ok (st\<lparr>t_adrs := ta\<rparr>)"
    and "pending.unique_rows tp \<Longrightarrow> schema_ok (st\<lparr>t_pending := tp\<rparr>)" and "fields.unique_rows ts \<Longrightarrow> schema_ok (st\<lparr>t_fields := ts\<rparr>)"
    and "methods.unique_rows tm \<Longrightarrow> schema_ok (st\<lparr>t_methods := tm\<rparr>)" and "moves.unique_rows tv \<Longrightarrow> schema_ok (st\<lparr>t_moves := tv\<rparr>)"
    and "schema_ok (st\<lparr>t_slow := tq\<rparr>)"
  using assms by (simp_all add: schema_ok_def foreign_keys_ok_def)

lemma default_confidence_key [simp]: "symbol_key (default_confidence zr on s) = symbol_key s" "s_ProjectID (default_confidence zr on s) = s_ProjectID s"
  "s_ID (default_confidence zr on s) = s_ID s"
  by (simp_all add: default_confidence_def symbol_key_def)

lemma upsert_symbols_schema:
  assumes "schema_ok st" and "\<forall>s \<in> set syms. has_project st (s_ProjectID s)"
  shows "schema_ok (fold (upsert_symbol zr on) syms st)"
  using assms
proof (induction syms arbitrary: st)
  case (Cons s syms)
  have "schema_ok (upsert_symbol zr on s st)" unfolding upsert_symbol_def
    using Cons.prems schema_okD(2) [OF Cons.prems(1)]
    by (intro schema_symbols symbols.unique_replace) (auto simp: set_insert_replace)
  moreover have "has_project (upsert_symbol zr on s st) i = has_project st i" for i
    by (simp add: has_project_def upsert_symbol_def)
  ultimately show ?case using Cons by simp
qed simp

lemma delete_fields_schema: "schema_ok st \<Longrightarrow> schema_ok (delete_fields_of p f st)"
  unfolding delete_fields_of_def by (intro schema_upd fields.unique_delete schema_okD)

lemma delete_methods_schema: "schema_ok st \<Longrightarrow> schema_ok (delete_methods_of p f st)"
  unfolding delete_methods_of_def by (intro schema_upd methods.unique_delete schema_okD)

lemma delete_edges_schema: "schema_ok st \<Longrightarrow> schema_ok (st\<lparr>t_edges := delete_where P (t_edges st)\<rparr>)"
  by (intro schema_upd edges.unique_delete schema_okD) auto

lemma delete_symbols_schema: "schema_ok st \<Longrightarrow> schema_ok (st\<lparr>t_symbols := delete_where P (t_symbols st)\<rparr>)"
  by (intro schema_upd symbols.unique_delete schema_okD) auto

lemma DeleteSymbolsForFile_schema: "schema_ok st \<Longrightarrow> schema_ok (DeleteSymbolsForFile p f st)"
  unfolding DeleteSymbolsForFile_def Let_def
  by (intro delete_symbols_schema delete_methods_schema delete_fields_schema delete_edges_schema)

lemma with_source_key [simp]: "edge_uniq (with_source g) = edge_uniq g" "g_ProjectID (with_source g) = g_ProjectID g"
  "g_FromID (with_source g) = g_FromID g" "g_ToID (with_source g) = g_ToID g" "g_Kind (with_source g) = g_Kind g"
  by (simp_all add: with_source_def edge_uniq_def)

lemma insertEdgesTx_schema: "schema_ok st \<Longrightarrow> insertEdgesTx gs st = Inr st1 \<Longrightarrow> schema_ok st1"
proof (induction gs arbitrary: st)
  case (Cons g gs)
  show ?case
  proof (cases "edge_uniq g \<in> edge_uniq ` set (t_edges st)")
    case True
    then show ?thesis using Cons by simp
  next
    case False
    then have p: "has_project st (g_ProjectID g)" using Cons.prems(2) by (auto split: if_splits)
    have "edges.unique_rows (t_edges st @ [with_source g])"
      using edges.unique_ignore [OF schema_okD(3) [OF Cons.prems(1)], of "with_source g"] False by (simp add: insert_ignore_def)
    then have "schema_ok (st\<lparr>t_edges := t_edges st @ [with_source g]\<rparr>)"
      using Cons.prems(1) p by (intro schema_edges) auto
    then show ?thesis using Cons.IH Cons.prems(2) False p by simp
  qed
qed simp

lemma ReplaceEdges_schema: "schema_ok st \<Longrightarrow> ReplaceEdgesByKindSource p k s fs gs st = Inr st1 \<Longrightarrow> schema_ok st1"
  unfolding ReplaceEdgesByKindSource_def delete_scoped_def DeleteEdgesByKindAndSource_def
  by (erule insertEdgesTx_schema [rotated]) (simp add: delete_edges_schema)

lemma put_pending_schema:
  assumes "schema_ok st"
  shows "schema_ok (put_pending p f es st)"
  unfolding put_pending_def using assms
  by (intro schema_free pending.unique_fold pending.unique_ignore pending.unique_delete schema_okD)

lemma put_fields_schema:
  assumes "schema_ok st"
  shows "schema_ok (put_fields p f rows st)"
  unfolding put_fields_def Let_def using delete_fields_schema [OF assms]
  by (intro schema_free fields.unique_fold fields.unique_replace schema_okD)

lemma put_methods_schema:
  assumes "schema_ok st"
  shows "schema_ok (put_methods p f rows st)"
  unfolding put_methods_def Let_def using delete_methods_schema [OF assms]
  by (intro schema_free methods.unique_fold methods.unique_replace schema_okD)

lemma SetFileHash_schema: "schema_ok st \<Longrightarrow> schema_ok (SetFileHash p f h now st)"
  unfolding SetFileHash_def by (intro schema_free file_hashes.unique_replace schema_okD)

lemma CommitFileExtraction_schema: "schema_ok st \<Longrightarrow> schema_ok (CommitFileExtraction c now st)"
  unfolding CommitFileExtraction_def Let_def
  by (intro SetFileHash_schema put_methods_schema put_fields_schema put_pending_schema)

lemma RecordSymbolMove_schema: "schema_ok st \<Longrightarrow> schema_ok (RecordSymbolMove p old new now st)"
  unfolding RecordSymbolMove_def
  by (intro schema_free moves.unique_upsert schema_okD) (simp_all add: move_update_def move_key_def)

lemma DetectMoves_schema: "schema_ok st \<Longrightarrow> schema_ok (DetectAndRecordMoves p syms now st)"
  unfolding DetectAndRecordMoves_def
  by (induction syms arbitrary: st) (auto simp: detect_move_def RecordSymbolMove_schema split: option.split)

lemma insert_update_ids:
  assumes "\<And>x. j_ID (upd x r) = j_ID x"
  shows "j_ID ` set t \<subseteq> j_ID ` set (insert_update j_ID upd r t)"
proof -
  have "map j_ID (update_where (\<lambda>x. j_ID x = j_ID r) (\<lambda>x. upd x r) t) = map j_ID t" using assms by (simp add: update_where_def)
  then have "j_ID ` set (update_where (\<lambda>x. j_ID x = j_ID r) (\<lambda>x. upd x r) t) = j_ID ` set t" by (metis set_map)
  then show ?thesis by (auto simp: insert_update_def)
qed

lemma UpsertProject_schema: "schema_ok st \<Longrightarrow> schema_ok (UpsertProject n p st)"
  unfolding UpsertProject_def Let_def
  by (intro schema_projects projects.unique_upsert schema_okD insert_update_ids) (simp_all add: project_update_def)

lemma UpsertProjectMeta_schema: "schema_ok st \<Longrightarrow> schema_ok (UpsertProjectMeta n p st)"
  unfolding UpsertProjectMeta_def Let_def
  by (intro schema_projects projects.unique_upsert schema_okD insert_update_ids) (simp_all add: meta_update_def)

lemma RecordFailure_schema:
  assumes "schema_ok st" and "RecordExtractionFailureWithBinary p f l r d b now st = Inr st1"
  shows "schema_ok st1"
proof -
  let ?row = "\<lparr>x_ProjectID = p, x_FilePath = f, x_Language = l, x_Reason = r,
    x_Details = (if length d > extractionFailureDetailsCap then take extractionFailureDetailsCap d @ truncated_mark else d),
    x_FirstSeen = now, x_LastSeen = now, x_Binary = b\<rparr>"
  have st1: "st1 = st\<lparr>t_failures := insert_update failure_key failure_update ?row (t_failures st)\<rparr>"
    and fk: "failure_key ?row \<in> failure_key ` set (t_failures st) \<or> has_project st p"
    using assms(2) by (auto simp: RecordExtractionFailureWithBinary_def Let_def split: if_splits)
  show ?thesis unfolding st1
  proof (rule schema_failures [OF assms(1)])
    show "failures.unique_rows (insert_update failure_key failure_update ?row (t_failures st))"
      by (rule failures.unique_upsert [OF schema_okD(6) [OF assms(1)]]) (simp add: failure_update_def failure_key_def)
    fix g assume "g \<in> set (insert_update failure_key failure_update ?row (t_failures st))"
    then show "x_ProjectID g \<in> x_ProjectID ` set (t_failures st) \<or> has_project st (x_ProjectID g)"
      using fk by (auto simp: insert_update_def update_where_def failure_update_def failure_key_def split: if_splits)
  qed
qed

lemma image_filter_subset: "f ` set t \<subseteq> A \<Longrightarrow> f ` {r \<in> set t. P r} \<subseteq> A"
  by blast

lemma delete_project_rows_schema:
  assumes "schema_ok st"
  shows "schema_ok (delete_project_rows i st)"
proof -
  have "foreign_keys_ok (delete_project_rows i st)" using schema_okD(11) [OF assms]
    unfolding foreign_keys_ok_def delete_project_rows_def by (simp add: image_filter_subset)
  then show ?thesis using schema_okD(1-10) [OF assms]
    by (simp add: schema_ok_def delete_project_rows_def file_hashes.unique_delete adrs.unique_delete symbols.unique_delete edges.unique_delete
        failures.unique_delete pending.unique_delete fields.unique_delete methods.unique_delete moves.unique_delete)
qed

lemma delete_project_rows_free: "\<not> project_referenced (delete_project_rows i st) i"
  by (auto simp: project_referenced_def delete_project_rows_def)

lemma DeleteProject_eq: "DeleteProject i st = Inr ((delete_project_rows i st)\<lparr>t_projects := delete_where (\<lambda>p. j_ID p = i) (t_projects st)\<rparr>)"
  using delete_project_rows_free [of i st] by (simp add: DeleteProject_def delete_project_row_def delete_project_rows_def)

lemma DeleteProject_schema:
  assumes "schema_ok st" and "DeleteProject i st = Inr st1"
  shows "schema_ok st1"
proof -
  let ?d = "delete_project_rows i st" and ?ps = "delete_where (\<lambda>p. j_ID p = i) (t_projects st)"
  have d: "schema_ok ?d" "t_projects ?d = t_projects st"
    using delete_project_rows_schema [OF assms(1)] by (simp_all add: delete_project_rows_def)
  have "j_ID ` set ?ps = j_ID ` set (t_projects st) - {i}" by auto
  then have "foreign_keys_ok (?d\<lparr>t_projects := ?ps\<rparr>)"
    using schema_okD(11) [OF d(1)] delete_project_rows_free [of i st] d(2)
    unfolding foreign_keys_ok_def project_referenced_def by (simp add: subset_Diff_insert)
  then have "schema_ok (?d\<lparr>t_projects := ?ps\<rparr>)"
    using schema_okD(1-10) [OF d(1)] projects.unique_delete [OF schema_okD(1) [OF assms(1)]] by (simp add: schema_ok_def)
  then show ?thesis using assms(2) by (simp add: DeleteProject_eq)
qed

lemma move_rows_unique:
  assumes d: "distinct (map (\<lambda>r. (proj r, key r)) t)" and s: "\<And>i r. proj (setp i r) = i" "\<And>i r. key (setp i r) = key r"
  shows "distinct (map (\<lambda>r. (proj r, key r)) (move_rows proj setp key loser winner t))"
proof -
  define moved where "moved = (\<lambda>r. proj r = loser \<and> \<not> (\<exists>w \<in> set t. proj w = winner \<and> key w = key r))"
  define h where "h = (\<lambda>r. if moved r then setp winner r else r)"
  have m: "move_rows proj setp key loser winner t = map h (filter (\<lambda>r. proj (h r) \<noteq> loser) t)"
    by (simp add: move_rows_def delete_where_def update_where_def filter_map comp_def h_def moved_def)
  have inj: "inj_on (\<lambda>r. (proj r, key r)) (set t)" "distinct t" using d by (simp_all add: distinct_map)
  have "inj_on (\<lambda>r. (proj (h r), key (h r))) {r \<in> set t. proj (h r) \<noteq> loser}"
  proof (rule inj_onI, clarify)
    fix r u assume r: "r \<in> set t" "proj (h r) \<noteq> loser" and u: "u \<in> set t" "proj (h u) \<noteq> loser"
      and e: "proj (h r) = proj (h u)" "key (h r) = key (h u)"
    have k: "key r = key u" using e(2) by (auto simp: h_def s split: if_splits)
    have "moved r = moved u" using e(1) r u k by (auto simp: h_def s moved_def split: if_splits)
    then have "proj r = proj u" using e(1) by (auto simp: h_def moved_def split: if_splits)
    then show "r = u" using inj(1) r(1) u(1) k by (auto dest: inj_onD)
  qed
  then show ?thesis using inj(2) unfolding m by (simp add: distinct_map comp_def inj_on_def)
qed

lemma move_rows_subset: "r \<in> set (move_rows proj setp key loser winner t) \<Longrightarrow> r \<in> set t \<or> (\<exists>u \<in> set t. r = setp winner u)"
  by (auto simp: move_rows_def update_where_def split: if_splits)

lemma move_rows_gone: "(\<And>i r. proj (setp i r) = i) \<Longrightarrow> r \<in> set (move_rows proj setp key loser winner t) \<Longrightarrow> proj r \<noteq> loser"
  by (auto simp: move_rows_def)

lemma merge_rows_schema:
  assumes "schema_ok st" and "has_project st winner"
  shows "schema_ok (merge_rows loser winner st)"
proof -
  have s: "symbols.unique_rows (move_rows s_ProjectID (\<lambda>i r. r\<lparr>s_ProjectID := i\<rparr>) s_ID loser winner (t_symbols st))"
    unfolding keyed.unique_rows_def symbol_key_def [abs_def]
    by (rule move_rows_unique [OF schema_okD(2) [OF assms(1), unfolded keyed.unique_rows_def symbol_key_def [abs_def]]]) simp_all
  have g: "edges.unique_rows (move_rows g_ProjectID (\<lambda>i r. r\<lparr>g_ProjectID := i\<rparr>) (\<lambda>g. (g_FromID g, g_ToID g, g_Kind g)) loser winner (t_edges st))"
    unfolding keyed.unique_rows_def edge_uniq_def [abs_def]
    by (rule move_rows_unique [OF schema_okD(3) [OF assms(1), unfolded keyed.unique_rows_def edge_uniq_def [abs_def]]]) simp_all
  have x: "failures.unique_rows (move_rows x_ProjectID (\<lambda>i r. r\<lparr>x_ProjectID := i\<rparr>) (\<lambda>r. (x_FilePath r, x_Reason r)) loser winner (t_failures st))"
    unfolding keyed.unique_rows_def failure_key_def [abs_def]
    by (rule move_rows_unique [OF schema_okD(6) [OF assms(1), unfolded keyed.unique_rows_def failure_key_def [abs_def]]]) simp_all
  have f: "file_hashes.unique_rows (move_rows f_ProjectID (\<lambda>i r. r\<lparr>f_ProjectID := i\<rparr>) f_Path loser winner (t_files st))"
    unfolding keyed.unique_rows_def file_key_def [abs_def]
    by (rule move_rows_unique [OF schema_okD(4) [OF assms(1), unfolded keyed.unique_rows_def file_key_def [abs_def]]]) simp_all
  have a: "adrs.unique_rows (move_rows a_ProjectID (\<lambda>i r. r\<lparr>a_ProjectID := i\<rparr>) a_Key loser winner (t_adrs st))"
    unfolding keyed.unique_rows_def adr_key_def [abs_def]
    by (rule move_rows_unique [OF schema_okD(5) [OF assms(1), unfolded keyed.unique_rows_def adr_key_def [abs_def]]]) simp_all
  have v: "moves.unique_rows (move_rows mv_ProjectID (\<lambda>i r. r\<lparr>mv_ProjectID := i\<rparr>) mv_OldID loser winner (t_moves st))"
  proof -
    have swap: "distinct (map move_key t) = distinct (map (\<lambda>r. (mv_ProjectID r, mv_OldID r)) t)" for t
      by (auto simp: distinct_map inj_on_def move_key_def)
    show ?thesis unfolding moves.unique_rows_def swap
      by (rule move_rows_unique) (use schema_okD(10) [OF assms(1)] in \<open>simp_all add: moves.unique_rows_def swap\<close>)
  qed
  have fk: "foreign_keys_ok (merge_rows loser winner st)"
    using foreign_keys_parts [OF assms(1)] assms(2)
    by (auto simp: foreign_keys_ok_def merge_rows_def has_project_def dest!: move_rows_subset)
  show ?thesis using s g x f a v fk schema_okD(1-10) [OF assms(1)] by (simp add: schema_ok_def merge_rows_def)
qed

lemma mergeProjectInto_schema:
  assumes "schema_ok st" and "has_project st winner" and "mergeProjectInto loser winner st = (e, st1)"
  shows "schema_ok st1"
proof -
  let ?m = "merge_rows loser winner st"
  have m: "schema_ok ?m" using merge_rows_schema [OF assms(1,2)] .
  show ?thesis
  proof (cases "has_project ?m loser \<and> project_referenced ?m loser")
    case True
    then show ?thesis using assms(3) m by (simp add: mergeProjectInto_def delete_project_row_def)
  next
    case False
    have "j_ID ` set (delete_where (\<lambda>p. j_ID p = loser) (t_projects ?m)) = j_ID ` set (t_projects ?m) - {loser}" by auto
    moreover have "\<not> project_referenced ?m loser" using False foreign_keys_okD [OF schema_okD(11) [OF m]] by blast
    ultimately have "foreign_keys_ok (?m\<lparr>t_projects := delete_where (\<lambda>p. j_ID p = loser) (t_projects ?m)\<rparr>)"
      using schema_okD(11) [OF m] unfolding foreign_keys_ok_def project_referenced_def by (simp add: subset_Diff_insert)
    then have "schema_ok (?m\<lparr>t_projects := delete_where (\<lambda>p. j_ID p = loser) (t_projects ?m)\<rparr>)"
      using schema_okD(1-10) [OF m] projects.unique_delete [OF schema_okD(1) [OF m]] by (simp add: schema_ok_def)
    then show ?thesis using False assms(3) by (auto simp: mergeProjectInto_def delete_project_row_def split: if_splits)
  qed
qed

section \<open>Runs of the store\<close>

text \<open>
  A step that works for one project: its argument rows carry that project. A failing operation leaves the store as it
  was, so it is no step. \<open>zr\<close> and \<open>on\<close> are the floats 0 and 1, \<open>n\<close> the schema of the binary.
\<close>

inductive project_step :: "'f \<Rightarrow> 'f \<Rightarrow> int \<Rightarrow> string \<Rightarrow> 'f store \<Rightarrow> 'f store \<Rightarrow> bool" for zr on n p where
  upsert_symbols: "\<forall>s \<in> set syms. s_ProjectID s = p \<Longrightarrow> BulkUpsertSymbols zr on syms st = Inr st1 \<Longrightarrow> project_step zr on n p st st1"
| upsert_edges: "\<forall>g \<in> set gs. g_ProjectID g = p \<Longrightarrow> BulkUpsertEdges gs st = Inr st1 \<Longrightarrow> project_step zr on n p st st1"
| replace_edges: "\<forall>g \<in> set gs. g_ProjectID g = p \<Longrightarrow> ReplaceEdgesByKindSource p kind source files gs st = Inr st1 \<Longrightarrow> project_step zr on n p st st1"
| delete_edges: "project_step zr on n p st (DeleteEdgesByKindAndSource p kind source st)"
| delete_scoped: "project_step zr on n p st (DeleteEdgesByKindAndSourceForSourceFiles p kind source files st)"
| replace_pending: "project_step zr on n p st (ReplacePendingEdgesForFile p f es st)"
| delete_pending: "project_step zr on n p st (DeletePendingEdgesForFile p f st)"
| replace_fields: "project_step zr on n p st (ReplaceStructFieldsForFile p f flds st)"
| replace_methods: "project_step zr on n p st (ReplaceInterfaceMethodsForFile p f ms st)"
| set_hash: "project_step zr on n p st (SetFileHash p f h now st)"
| delete_hash: "project_step zr on n p st (DeleteFileHash p f st)"
| clear_hashes: "project_step zr on n p st (snd (ClearFileHashesByLanguage p langs st))"
| commit_file: "fc_ProjectID c = p \<Longrightarrow> project_step zr on n p st (CommitFileExtraction c now st)"
| record_move: "project_step zr on n p st (RecordSymbolMove p old new now st)"
| detect_moves: "project_step zr on n p st (DetectAndRecordMoves p syms now st)"
| upsert_project: "j_ID row = p \<Longrightarrow> project_step zr on n p st (UpsertProject n row st)"
| upsert_meta: "j_ID row = p \<Longrightarrow> project_step zr on n p st (UpsertProjectMeta n row st)"
| update_counts: "project_step zr on n p st (UpdateProjectCounts p nf ns ne st)"
| recompute_counts: "project_step zr on n p st (recomputeProjectCounts p st)"
| delete_project: "DeleteProject p st = Inr st1 \<Longrightarrow> project_step zr on n p st st1"
| set_adr: "project_step zr on n p st (SetADR p k v now st)"
| delete_adr: "project_step zr on n p st (snd (DeleteADR p k st))"
| record_failure: "RecordExtractionFailureWithBinary p f l r d b now st = Inr st1 \<Longrightarrow> project_step zr on n p st st1"
| prune_failures: "project_step zr on n p st (PruneExtractionFailuresForFile p f keep st)"
| clear_failures: "project_step zr on n p st (ClearExtractionFailures p st)"
| record_slow: "p \<noteq> '''' \<Longrightarrow> project_step zr on n p st (RecordSlowQuery tool p ms args now st)"

inductive store_step :: "'f \<Rightarrow> 'f \<Rightarrow> int \<Rightarrow> 'f store \<Rightarrow> 'f store \<Rightarrow> bool" for zr on n where
  for_project: "project_step zr on n p st st1 \<Longrightarrow> store_step zr on n st st1"
| delete_file: "store_step zr on n st (DeleteSymbolsForFile p f st)"
| prune_stale: "store_step zr on n st (snd (PruneStaleExtractionFailures st))"
| delete_empty: "DeleteEmptyProjects st = (c, e, st1) \<Longrightarrow> store_step zr on n st st1"
| merge_project: "has_project st w \<Longrightarrow> mergeProjectInto l w st = (e, st1) \<Longrightarrow> store_step zr on n st st1"

definition empty_store :: "'f store" where
  "empty_store = \<lparr>t_projects = [], t_symbols = [], t_edges = [], t_files = [], t_adrs = [], t_failures = [], t_closure = [],
     t_pending = [], t_fields = [], t_methods = [], t_moves = [], t_slow = []\<rparr>"

lemma delete_free_schema:
  assumes "schema_ok st"
  shows "schema_ok (st\<lparr>t_files := delete_where P (t_files st)\<rparr>)" and "schema_ok (st\<lparr>t_adrs := delete_where Q (t_adrs st)\<rparr>)"
    and "schema_ok (st\<lparr>t_pending := delete_where R (t_pending st)\<rparr>)"
    and "schema_ok (st\<lparr>t_failures := delete_where S (t_failures st)\<rparr>)"
proof -
  show "schema_ok (st\<lparr>t_failures := delete_where S (t_failures st)\<rparr>)"
    by (rule schema_failures [OF assms failures.unique_delete [OF schema_okD(6) [OF assms]]]) auto
qed (use schema_okD [OF assms] in \<open>simp_all add: schema_free [OF assms] file_hashes.unique_delete adrs.unique_delete pending.unique_delete\<close>)

named_theorems op_schema \<open>an operation keeps the schema\<close>

lemmas [op_schema] = put_pending_schema put_fields_schema put_methods_schema SetFileHash_schema CommitFileExtraction_schema
  RecordSymbolMove_schema DetectMoves_schema UpsertProject_schema UpsertProjectMeta_schema DeleteSymbolsForFile_schema

lemma update_counts_schema [op_schema]: "schema_ok st \<Longrightarrow> schema_ok (UpdateProjectCounts p nf ns ne st)"
proof -
  assume st: "schema_ok st"
  let ?t = "update_where (\<lambda>p'. j_ID p' = p) (\<lambda>p. p\<lparr>j_FileCount := nf, j_SymCount := ns, j_EdgeCount := ne\<rparr>) (t_projects st)"
  have "map j_ID ?t = map j_ID (t_projects st)" by (simp add: update_where_def)
  then have "j_ID ` set ?t = j_ID ` set (t_projects st)" by (metis set_map)
  then show ?thesis unfolding UpdateProjectCounts_def
    by (intro schema_projects [OF st] projects.unique_update schema_okD(1) [OF st]) simp_all
qed

lemma small_ops_schema [op_schema]:
  assumes "schema_ok st"
  shows "schema_ok (DeleteEdgesByKindAndSource p kind source st)" and "schema_ok (DeleteEdgesByKindAndSourceForSourceFiles p kind source files st)"
    and "schema_ok (ReplacePendingEdgesForFile p f es st)" and "schema_ok (DeletePendingEdgesForFile p f st)"
    and "schema_ok (ReplaceStructFieldsForFile p f flds st)" and "schema_ok (ReplaceInterfaceMethodsForFile p f ms st)"
    and "schema_ok (DeleteFileHash p f st)" and "schema_ok (snd (ClearFileHashesByLanguage p langs st))"
    and "schema_ok (recomputeProjectCounts p st)" and "schema_ok (snd (DeleteADR p k st))"
    and "schema_ok (PruneExtractionFailuresForFile p f keep st)" and "schema_ok (ClearExtractionFailures p st)"
    and "schema_ok (RecordSlowQuery tool p tm args now st)" and "schema_ok (snd (PruneStaleExtractionFailures st))"
  using assms delete_free_schema [OF assms]
  by (simp_all add: DeleteEdgesByKindAndSource_def delete_edges_schema DeleteEdgesByKindAndSourceForSourceFiles_def delete_scoped_def
      ReplacePendingEdgesForFile_def put_pending_schema DeletePendingEdgesForFile_def ReplaceStructFieldsForFile_def put_fields_schema
      ReplaceInterfaceMethodsForFile_def put_methods_schema DeleteFileHash_def ClearFileHashesByLanguage_def Let_def recomputeProjectCounts_def
      update_counts_schema DeleteADR_def PruneExtractionFailuresForFile_def ClearExtractionFailures_def RecordSlowQuery_def
      schema_free PruneStaleExtractionFailures_def)

lemma SetADR_schema [op_schema]: "schema_ok st \<Longrightarrow> schema_ok (SetADR p k v now st)"
  unfolding SetADR_def by (intro schema_free adrs.unique_replace schema_okD)

lemma delete_projects_schema: "schema_ok st \<Longrightarrow> delete_projects is st = (e, st1) \<Longrightarrow> schema_ok st1"
proof (induction "is" arbitrary: st)
  case (Cons i "is")
  then show ?case using DeleteProject_schema [of st i] by (auto simp: DeleteProject_eq)
qed simp

lemma project_step_schema: "project_step zr on n p st st1 \<Longrightarrow> schema_ok st \<Longrightarrow> schema_ok st1"
proof (induction rule: project_step.induct)
  case (upsert_symbols syms st st1)
  then show ?case using upsert_symbols_schema [of st syms zr on] by (auto simp: BulkUpsertSymbols_def split: if_splits)
next
  case (upsert_edges gs st st1)
  then show ?case using insertEdgesTx_schema by (auto simp: BulkUpsertEdges_def split: if_splits)
next
  case (replace_edges gs kind source files st st1)
  then show ?case by (blast intro: ReplaceEdges_schema)
next
  case (delete_project st st1)
  then show ?case by (blast intro: DeleteProject_schema)
next
  case (record_failure f l r d b now st st1)
  then show ?case by (blast intro: RecordFailure_schema)
qed (erule op_schema)+

lemma store_step_schema: "store_step zr on n st st1 \<Longrightarrow> schema_ok st \<Longrightarrow> schema_ok st1"
proof (induction rule: store_step.induct)
  case (for_project p st st1)
  then show ?case by (rule project_step_schema)
next
  case (delete_empty st c e st1)
  then show ?case using delete_projects_schema [of st] by (auto simp: DeleteEmptyProjects_def Let_def split: prod.splits option.splits)
next
  case (merge_project st w l e st1)
  then show ?case by (blast intro: mergeProjectInto_schema)
qed (erule op_schema)+

text \<open>
  The schema constraints, which the statements themselves enforce, hold in every state that the listed operations and
  merges reach from an empty database. The build of the closure and the renaming with foreign keys switched off are not among them.
\<close>
theorem store_keeps_schema:
  assumes "(store_step zr on n)\<^sup>*\<^sup>* empty_store st"
  shows "schema_ok st"
  using assms
proof induction
  case base
  show ?case by (simp add: schema_ok_def foreign_keys_ok_def empty_store_def keyed.unique_rows_def)
next
  case (step st st1)
  show ?case by (rule store_step_schema [OF step(2,3)])
qed

text \<open>Rows to run the store on: a project, and a function of a project.\<close>

definition demo_project :: "string \<Rightarrow> string \<Rightarrow> string \<Rightarrow> project_row" where
  "demo_project i path version = \<lparr>j_ID = i, j_Path = path, j_Name = i, j_IndexedAt = 1, j_FileCount = 0, j_SymCount = 0, j_EdgeCount = 0,
     j_Schema = None, j_Binary = Some version, j_Branch = ''main''\<rparr>"

definition demo_symbol :: "string \<Rightarrow> string \<Rightarrow> string \<Rightarrow> nat symbol" where
  "demo_symbol p path name = \<lparr>s_ID = MakeSymbolID path name ''Function'', s_ProjectID = p, s_FilePath = path, s_Name = name,
     s_QualifiedName = name, s_Kind = ''Function'', s_Language = ''Go'', s_StartByte = 0, s_EndByte = 9, s_StartLine = 1, s_EndLine = 2,
     s_Signature = '''', s_ReturnType = '''', s_Docstring = '''', s_Parent = '''', s_Complexity = 1, s_IsExported = False,
     s_IsTest = False, s_IsEntryPoint = False, s_FileHash = '''', s_ExtractionConfidence = 1, s_Branch = ''''\<rparr>"

definition demo_edge :: "string \<Rightarrow> nat symbol \<Rightarrow> nat symbol \<Rightarrow> nat resolved_edge" where
  "demo_edge p s t = \<lparr>g_ProjectID = p, g_FromID = s_ID s, g_ToID = s_ID t, g_Kind = ''CALLS'', g_Confidence = 1, g_Properties = '''',
     g_Source = '''', g_Branch = ''''\<rparr>"

text \<open>A project \<open>i\<close> with two functions of \<open>a.go\<close>, the first of which calls the second.\<close>

definition demo_fill :: "string \<Rightarrow> nat store \<Rightarrow> nat store" where
  "demo_fill i st =
     (let s = demo_symbol i ''a.go'' ''f''; t = demo_symbol i ''a.go'' ''g'';
          st1 = UpsertProjectMeta 26 (demo_project i (''/'' @ i) ''0.9.0'') st;
          st2 = fold (upsert_symbol 0 1) [s, t] st1
      in st2\<lparr>t_edges := t_edges st2 @ [with_source (demo_edge i s t)]\<rparr>)"

lemma run_three: "R a b \<Longrightarrow> R b c \<Longrightarrow> R c d \<Longrightarrow> R\<^sup>*\<^sup>* a d"
  by (rule rtranclp.rtrancl_into_rtrancl [OF rtranclp.rtrancl_into_rtrancl [OF r_into_rtranclp]])

lemma demo_fill_rows: "length (t_symbols (demo_fill ''q'' empty_store)) = 2"
  by (simp add: demo_fill_def Let_def upsert_symbol_def UpsertProjectMeta_def empty_store_def demo_symbol_def insert_replace_def
      delete_where_def symbol_key_def MakeSymbolID_def default_confidence_def)

theorem store_keeps_schema_witness:
  "schema_ok (demo_fill ''q'' empty_store) \<and> length (t_symbols (demo_fill ''q'' empty_store)) = 2"
proof -
  let ?s = "demo_symbol ''q'' ''a.go'' ''f''" and ?t = "demo_symbol ''q'' ''a.go'' ''g''"
  let ?st1 = "UpsertProjectMeta 26 (demo_project ''q'' ''/q'' ''0.9.0'') empty_store"
  let ?st2 = "fold (upsert_symbol 0 1) [?s, ?t] ?st1"
  have 1: "store_step 0 1 26 (empty_store :: nat store) ?st1"
    by (rule store_step.for_project, rule project_step.upsert_meta [of _ "''q''"]) (simp add: demo_project_def)
  have p: "has_project ?st1 ''q''"
    by (simp add: has_project_def UpsertProjectMeta_def Let_def demo_project_def empty_store_def insert_update_def)
  have 2: "store_step 0 1 26 ?st1 ?st2"
    by (rule store_step.for_project, rule project_step.upsert_symbols [of "[?s, ?t]" "''q''"])
      (use p in \<open>simp_all add: BulkUpsertSymbols_def demo_symbol_def\<close>)
  have "BulkUpsertEdges [demo_edge ''q'' ?s ?t] ?st2 = Inr (demo_fill ''q'' empty_store)"
    using p by (simp add: BulkUpsertEdges_def demo_fill_def Let_def upsert_symbol_def has_project_def UpsertProjectMeta_def
        empty_store_def demo_edge_def)
  then have 3: "store_step 0 1 26 ?st2 (demo_fill ''q'' empty_store)"
    by (rule store_step.for_project [OF project_step.upsert_edges [of "[demo_edge ''q'' ?s ?t]" "''q''"], rotated]) (simp add: demo_edge_def)
  have "(store_step 0 1 26)\<^sup>*\<^sup>* empty_store (demo_fill ''q'' empty_store)"
    by (rule run_three [of "store_step 0 1 26", OF 1 2 3])
  from store_keeps_schema [OF this] demo_fill_rows show ?thesis by (rule conjI)
qed

section \<open>The rows of other projects\<close>

text \<open>Every table holds the same rows of project \<open>q\<close>, in the same order.\<close>

definition same_rows :: "string \<Rightarrow> 'f store \<Rightarrow> 'f store \<Rightarrow> bool" where
  "same_rows q st st1 \<longleftrightarrow>
     filter (\<lambda>r. j_ID r = q) (t_projects st1) = filter (\<lambda>r. j_ID r = q) (t_projects st) \<and>
     filter (\<lambda>r. s_ProjectID r = q) (t_symbols st1) = filter (\<lambda>r. s_ProjectID r = q) (t_symbols st) \<and>
     filter (\<lambda>r. g_ProjectID r = q) (t_edges st1) = filter (\<lambda>r. g_ProjectID r = q) (t_edges st) \<and>
     filter (\<lambda>r. f_ProjectID r = q) (t_files st1) = filter (\<lambda>r. f_ProjectID r = q) (t_files st) \<and>
     filter (\<lambda>r. a_ProjectID r = q) (t_adrs st1) = filter (\<lambda>r. a_ProjectID r = q) (t_adrs st) \<and>
     filter (\<lambda>r. x_ProjectID r = q) (t_failures st1) = filter (\<lambda>r. x_ProjectID r = q) (t_failures st) \<and>
     filter (\<lambda>r. cr_project r = q) (t_closure st1) = filter (\<lambda>r. cr_project r = q) (t_closure st) \<and>
     filter (\<lambda>r. e_ProjectID r = q) (t_pending st1) = filter (\<lambda>r. e_ProjectID r = q) (t_pending st) \<and>
     filter (\<lambda>r. sf_ProjectID r = q) (t_fields st1) = filter (\<lambda>r. sf_ProjectID r = q) (t_fields st) \<and>
     filter (\<lambda>r. im_ProjectID r = q) (t_methods st1) = filter (\<lambda>r. im_ProjectID r = q) (t_methods st) \<and>
     filter (\<lambda>r. mv_ProjectID r = q) (t_moves st1) = filter (\<lambda>r. mv_ProjectID r = q) (t_moves st) \<and>
     filter (\<lambda>r. q_ProjectID r = Some q) (t_slow st1) = filter (\<lambda>r. q_ProjectID r = Some q) (t_slow st)"

lemma filter_delete_other [simp]:
  "p \<noteq> q \<Longrightarrow> filter (\<lambda>r. proj r = q) (delete_where (\<lambda>r. proj r = p \<and> P r) t) = filter (\<lambda>r. proj r = q) t"
  "p \<noteq> q \<Longrightarrow> filter (\<lambda>r. proj r = q) (delete_where (\<lambda>r. proj r = p) t) = filter (\<lambda>r. proj r = q) t"
  by (auto intro: filter_delete_where)

lemma same_rows_refl: "same_rows q st st"
  by (simp add: same_rows_def)

lemma same_rows_trans: "same_rows q st st1 \<Longrightarrow> same_rows q st1 st2 \<Longrightarrow> same_rows q st st2"
  by (simp add: same_rows_def)

lemma same_rows_slow: "same_rows q st (st\<lparr>t_slow := tq\<rparr>) \<longleftrightarrow> filter (\<lambda>r. q_ProjectID r = Some q) tq = filter (\<lambda>r. q_ProjectID r = Some q) (t_slow st)"
  by (simp add: same_rows_def)

lemma same_rows_symbols: "filter (\<lambda>r. s_ProjectID r = q) t = filter (\<lambda>r. s_ProjectID r = q) (t_symbols st) \<Longrightarrow> same_rows q st (st\<lparr>t_symbols := t\<rparr>)"
  by (simp add: same_rows_def)

lemma same_rows_edges: "filter (\<lambda>r. g_ProjectID r = q) t = filter (\<lambda>r. g_ProjectID r = q) (t_edges st) \<Longrightarrow> same_rows q st (st\<lparr>t_edges := t\<rparr>)"
  by (simp add: same_rows_def)

lemma upsert_symbols_frame: "\<forall>s \<in> set syms. s_ProjectID s = p \<Longrightarrow> p \<noteq> q \<Longrightarrow> same_rows q st (fold (upsert_symbol zr on) syms st)"
proof (induction syms arbitrary: st)
  case (Cons s syms)
  have "same_rows q st (upsert_symbol zr on s st)" unfolding upsert_symbol_def using Cons.prems
    by (intro same_rows_symbols filter_insert_replace) (auto simp: symbol_key_def default_confidence_def split: if_splits)
  then show ?case using Cons.IH [of "upsert_symbol zr on s st"] Cons.prems by (auto intro: same_rows_trans)
qed (simp add: same_rows_refl)

lemma insertEdgesTx_frame:
  "\<forall>g \<in> set gs. g_ProjectID g = p \<Longrightarrow> p \<noteq> q \<Longrightarrow> insertEdgesTx gs st = Inr st1 \<Longrightarrow> same_rows q st st1"
proof (induction gs arbitrary: st)
  case (Cons g gs)
  have "same_rows q st (st\<lparr>t_edges := t_edges st @ [with_source g]\<rparr>)"
    using Cons.prems(1,2) by (intro same_rows_edges) simp
  then show ?case using Cons by (auto split: if_splits intro: same_rows_trans)
qed (simp add: same_rows_refl)

lemma delete_edges_frame: "(\<And>g. P g \<Longrightarrow> g_ProjectID g = p) \<Longrightarrow> p \<noteq> q \<Longrightarrow> same_rows q st (st\<lparr>t_edges := delete_where P (t_edges st)\<rparr>)"
  by (intro same_rows_edges filter_delete_where) auto

lemma ReplaceEdges_frame:
  assumes "\<forall>g \<in> set gs. g_ProjectID g = p" and "p \<noteq> q" and "ReplaceEdgesByKindSource p kind source files gs st = Inr st1"
  shows "same_rows q st st1"
proof (cases "files = []")
  case True
  have "same_rows q st (DeleteEdgesByKindAndSource p kind source st)"
    unfolding DeleteEdgesByKindAndSource_def by (rule delete_edges_frame [OF _ assms(2)]) simp
  then show ?thesis using insertEdgesTx_frame [OF assms(1,2)] assms(3) True
    by (auto simp: ReplaceEdgesByKindSource_def intro: same_rows_trans)
next
  case False
  have "same_rows q st (delete_scoped p kind source files st)"
    unfolding delete_scoped_def by (rule delete_edges_frame [OF _ assms(2)]) simp
  then show ?thesis using insertEdgesTx_frame [OF assms(1,2)] assms(3) False
    by (auto simp: ReplaceEdgesByKindSource_def intro: same_rows_trans)
qed

named_theorems op_frame \<open>an operation for one project keeps the rows of another\<close>

lemma put_pending_frame [op_frame]: "p \<noteq> q \<Longrightarrow> same_rows q st (put_pending p f es st)"
proof -
  assume pq: "p \<noteq> q"
  have "filter (\<lambda>r. e_ProjectID r = q) (fold (\<lambda>e. insert_ignore pending_key (pending_edge.extend (e\<lparr>e_FromFile := f\<rparr>) (pending_row.fields p))) es t)
      = filter (\<lambda>r. e_ProjectID r = q) t" for t :: "'a pending_row list"
    by (rule filter_fold, rule filter_insert_ignore) (use pq in \<open>simp add: pending_edge.defs pending_row.defs\<close>)
  then show ?thesis using pq by (simp add: same_rows_def put_pending_def)
qed

lemma put_fields_frame [op_frame]: "p \<noteq> q \<Longrightarrow> same_rows q st (put_fields p f rows st)"
proof -
  assume pq: "p \<noteq> q"
  have "filter (\<lambda>r. sf_ProjectID r = q) (fold (\<lambda>r. insert_replace field_key (r\<lparr>sf_ProjectID := p\<rparr>)) rows t) = filter (\<lambda>r. sf_ProjectID r = q) t" for t
    by (rule filter_fold, rule filter_insert_replace) (use pq in \<open>auto simp: field_key_def\<close>)
  then show ?thesis using pq by (simp add: same_rows_def put_fields_def delete_fields_of_def Let_def)
qed

lemma put_methods_frame [op_frame]: "p \<noteq> q \<Longrightarrow> same_rows q st (put_methods p f rows st)"
proof -
  assume pq: "p \<noteq> q"
  have "filter (\<lambda>r. im_ProjectID r = q) (fold (\<lambda>r. insert_replace method_key (r\<lparr>im_ProjectID := p\<rparr>)) rows t) = filter (\<lambda>r. im_ProjectID r = q) t" for t
    by (rule filter_fold, rule filter_insert_replace) (use pq in \<open>auto simp: method_key_def\<close>)
  then show ?thesis using pq by (simp add: same_rows_def put_methods_def delete_methods_of_def Let_def)
qed

lemma SetFileHash_frame [op_frame]: "p \<noteq> q \<Longrightarrow> same_rows q st (SetFileHash p f h now st)"
  by (auto simp: same_rows_def SetFileHash_def file_key_def intro!: filter_insert_replace)

lemma SetADR_frame [op_frame]: "p \<noteq> q \<Longrightarrow> same_rows q st (SetADR p k v now st)"
  by (auto simp: same_rows_def SetADR_def adr_key_def intro!: filter_insert_replace)

lemma RecordSymbolMove_frame [op_frame]: "p \<noteq> q \<Longrightarrow> same_rows q st (RecordSymbolMove p old new now st)"
  by (auto simp: same_rows_def RecordSymbolMove_def move_key_def move_update_def intro!: filter_insert_update)

lemma DetectMoves_frame [op_frame]: "p \<noteq> q \<Longrightarrow> same_rows q st (DetectAndRecordMoves p syms now st)"
proof (induction syms arbitrary: st)
  case (Cons s syms)
  have "same_rows q st (detect_move p now s st)"
    by (simp add: detect_move_def same_rows_refl RecordSymbolMove_frame [OF Cons.prems] split: option.split)
  then show ?case using Cons by (auto simp: DetectAndRecordMoves_def intro: same_rows_trans)
qed (simp add: DetectAndRecordMoves_def same_rows_refl)

lemma UpsertProject_frame [op_frame]: "j_ID row \<noteq> q \<Longrightarrow> same_rows q st (UpsertProject n row st)"
  by (auto simp: same_rows_def UpsertProject_def Let_def project_update_def intro!: filter_insert_update)

lemma UpsertProjectMeta_frame [op_frame]: "j_ID row \<noteq> q \<Longrightarrow> same_rows q st (UpsertProjectMeta n row st)"
  by (auto simp: same_rows_def UpsertProjectMeta_def Let_def meta_update_def intro!: filter_insert_update)

lemma UpdateProjectCounts_frame [op_frame]: "p \<noteq> q \<Longrightarrow> same_rows q st (UpdateProjectCounts p nf ns ne st)"
  by (auto simp: same_rows_def UpdateProjectCounts_def intro!: filter_update_where)

lemma RecordFailure_frame:
  "p \<noteq> q \<Longrightarrow> RecordExtractionFailureWithBinary p f l r d b now st = Inr st1 \<Longrightarrow> same_rows q st st1"
  by (auto simp: same_rows_def RecordExtractionFailureWithBinary_def Let_def failure_key_def failure_update_def split: if_splits
      intro!: filter_insert_update)

lemma DeleteProject_frame: "p \<noteq> q \<Longrightarrow> DeleteProject p st = Inr st1 \<Longrightarrow> same_rows q st st1"
  by (auto simp: DeleteProject_eq same_rows_def delete_project_rows_def)

lemma small_ops_frame [op_frame]:
  assumes "p \<noteq> q"
  shows "same_rows q st (DeleteEdgesByKindAndSource p kind source st)" and "same_rows q st (DeleteEdgesByKindAndSourceForSourceFiles p kind source files st)"
    and "same_rows q st (DeletePendingEdgesForFile p f st)" and "same_rows q st (DeleteFileHash p f st)"
    and "same_rows q st (snd (ClearFileHashesByLanguage p langs st))" and "same_rows q st (snd (DeleteADR p k st))"
    and "same_rows q st (PruneExtractionFailuresForFile p f keep st)" and "same_rows q st (ClearExtractionFailures p st)"
  using assms
  by (simp_all add: same_rows_def DeleteEdgesByKindAndSource_def DeleteEdgesByKindAndSourceForSourceFiles_def delete_scoped_def
      DeletePendingEdgesForFile_def DeleteFileHash_def ClearFileHashesByLanguage_def Let_def DeleteADR_def
      PruneExtractionFailuresForFile_def ClearExtractionFailures_def)

lemma RecordSlowQuery_frame: "p \<noteq> '''' \<Longrightarrow> p \<noteq> q \<Longrightarrow> same_rows q st (RecordSlowQuery tool p tm args now st)"
  by (simp add: RecordSlowQuery_def same_rows_slow)

lemma CommitFileExtraction_frame:
  assumes "fc_ProjectID c \<noteq> q"
  shows "same_rows q st (CommitFileExtraction c now st)"
  unfolding CommitFileExtraction_def Let_def
  by (rule same_rows_trans [OF same_rows_trans [OF same_rows_trans]]) (rule op_frame, rule assms)+

text \<open>
  C15: Projects are isolated. An operation that works for one project leaves every row of every other project as it was,
  in all twelve tables and in their order: rows of the two projects that have the same symbol IDs, paths or keys
  included. Removing the symbols of a file is not one of these operations.
\<close>
theorem projects_isolated:
  assumes "project_step zr on n p st st1" and "p \<noteq> q"
  shows "same_rows q st st1"
  using assms
proof (induction rule: project_step.induct)
  case (upsert_symbols syms st st1)
  then show ?case using upsert_symbols_frame [of syms p q st zr on] by (auto simp: BulkUpsertSymbols_def split: if_splits)
next
  case (upsert_edges gs st st1)
  then show ?case using insertEdgesTx_frame [of gs p q st st1] by (auto simp: BulkUpsertEdges_def same_rows_refl split: if_splits)
next
  case (replace_edges gs kind source files st st1)
  then show ?case by (blast intro: ReplaceEdges_frame)
next
  case (delete_project st st1)
  then show ?case by (blast intro: DeleteProject_frame)
next
  case (record_failure f l r d b now st st1)
  then show ?case by (blast intro: RecordFailure_frame)
qed (auto simp: ReplacePendingEdgesForFile_def ReplaceStructFieldsForFile_def ReplaceInterfaceMethodsForFile_def recomputeProjectCounts_def
    intro: op_frame CommitFileExtraction_frame RecordSlowQuery_frame)

theorem projects_isolated_witness:
  "same_rows ''q'' (demo_fill ''q'' empty_store) (SetFileHash ''p'' ''a.go'' ''h'' 5 (demo_fill ''q'' empty_store)) \<and>
   length (filter (\<lambda>s. s_ProjectID s = ''q'') (t_symbols (demo_fill ''q'' empty_store))) = 2"
  using projects_isolated [OF project_step.set_hash, of "''p''" "''q''" "demo_fill ''q'' empty_store" "''a.go''" "''h''" 5]
  by (simp add: demo_fill_def Let_def upsert_symbol_def UpsertProjectMeta_def empty_store_def demo_symbol_def insert_replace_def
      delete_where_def symbol_key_def MakeSymbolID_def default_confidence_def)

end
