(* ===== verification/Store_Behaviour.thy ===== *)
theory Store_Behaviour
  imports Store_Correct
begin

text \<open>
  The behaviour of the operations that callers rely on: the atomic replacement of edges, the commit of a file, deletion
  of a project, the guard on versions; and where the store does not keep its word: removing the symbols of a file that
  another project also has, merging projects, following moved symbols.
\<close>

section \<open>Lists of keyed rows\<close>

lemma fold_insert_replace:
  "fold (\<lambda>x. insert_replace key (f x)) xs t = filter (\<lambda>r. key r \<notin> (key \<circ> f) ` set xs) t @ fold (\<lambda>x. insert_replace key (f x)) xs []"
proof (induction xs arbitrary: t)
  case (Cons x xs)
  have "fold (\<lambda>x. insert_replace key (f x)) xs (insert_replace key (f x) t)
      = filter (\<lambda>r. key r \<notin> (key \<circ> f) ` set xs) (filter (\<lambda>r. key r \<noteq> key (f x)) t @ [f x]) @ fold (\<lambda>x. insert_replace key (f x)) xs []"
    by (subst Cons.IH) (simp add: insert_replace_def delete_where_def)
  moreover have "fold (\<lambda>x. insert_replace key (f x)) xs (insert_replace key (f x) [])
      = filter (\<lambda>r. key r \<notin> (key \<circ> f) ` set xs) [f x] @ fold (\<lambda>x. insert_replace key (f x)) xs []"
    by (subst Cons.IH) (simp add: insert_replace_def delete_where_def)
  ultimately show ?case by (simp add: conj_commute)
qed simp

lemma keys_fold_insert_replace: "key ` set (fold (\<lambda>x. insert_replace key (f x)) xs []) = (key \<circ> f) ` set xs"
proof (induction xs rule: rev_induct)
  case (snoc x xs)
  have "key ` {y \<in> S. key y \<noteq> k} = key ` S - {k}" for S k by auto
  then show ?case using snoc by (simp add: set_insert_replace)
qed simp

lemma set_fold_insert_replace: "set (fold (\<lambda>x. insert_replace key (f x)) xs []) \<subseteq> f ` set xs"
  by (induction xs rule: rev_induct) (auto simp: set_insert_replace)

text \<open>Deleting some rows and putting a list of rows is repeatable.\<close>

lemma replace_rows_repeat:
  defines "put \<equiv> (\<lambda>key f xs P t. fold (\<lambda>x. insert_replace key (f x)) xs (delete_where P t))"
  shows "put key f xs P (put key f xs P t) = put key f xs P t"
proof -
  let ?K = "(key \<circ> f) ` set xs" and ?R = "fold (\<lambda>x. insert_replace key (f x)) xs []"
  have p: "put key f xs P u = filter (\<lambda>r. key r \<notin> ?K) (filter (\<lambda>r. \<not> P r) u) @ ?R" for u
    unfolding put_def by (subst fold_insert_replace) (simp add: delete_where_def)
  have "filter (\<lambda>r. key r \<notin> ?K) (filter (\<lambda>r. \<not> P r) ?R) = []"
    using keys_fold_insert_replace [of key f xs] by (auto simp: filter_empty_conv)
  then show ?thesis unfolding p by (auto intro: filter_cong)
qed

lemma ignore_rows_repeat:
  assumes "\<And>x. P (f x)"
  shows "delete_where P (fold (\<lambda>x. insert_ignore key (f x)) xs (delete_where P t)) = delete_where P t"
proof -
  have "filter (\<lambda>r. \<not> P r) (fold (\<lambda>x. insert_ignore key (f x)) xs u) = filter (\<lambda>r. \<not> P r) u" for u
    by (rule filter_fold, rule filter_insert_ignore) (simp add: assms)
  then show ?thesis by (simp add: delete_where_def)
qed

section \<open>The commit of a file\<close>

lemma put_pending_repeat: "put_pending p f es (put_pending p f es st) = put_pending p f es st"
  by (simp add: put_pending_def ignore_rows_repeat pending_edge.defs pending_row.defs)

lemma put_fields_repeat: "put_fields p f rows (put_fields p f rows st) = put_fields p f rows st"
  using replace_rows_repeat [of field_key "\<lambda>r. r\<lparr>sf_ProjectID := p\<rparr>" rows
      "\<lambda>r. sf_ProjectID r = p \<and> sf_StructID r \<in> ids_of_file st p f" "t_fields st"]
  by (simp add: put_fields_def delete_fields_of_def Let_def ids_of_file_def)

lemma put_methods_repeat: "put_methods p f rows (put_methods p f rows st) = put_methods p f rows st"
  using replace_rows_repeat [of method_key "\<lambda>r. r\<lparr>im_ProjectID := p\<rparr>" rows
      "\<lambda>r. im_ProjectID r = p \<and> im_InterfaceID r \<in> ids_of_file st p f" "t_methods st"]
  by (simp add: put_methods_def delete_methods_of_def Let_def ids_of_file_def)

lemma SetFileHash_repeat: "SetFileHash p f h now (SetFileHash p f h now st) = SetFileHash p f h now st"
  by (simp add: SetFileHash_def insert_replace_def delete_where_def)

lemma put_commute:
  "put_fields p f fs (put_pending p g es st) = put_pending p g es (put_fields p f fs st)"
  "put_methods p f ms (put_pending p g es st) = put_pending p g es (put_methods p f ms st)"
  "put_methods p f ms (put_fields p g fs st) = put_fields p g fs (put_methods p f ms st)"
  "put_fields p f fs (SetFileHash p g h now st) = SetFileHash p g h now (put_fields p f fs st)"
  "put_methods p f ms (SetFileHash p g h now st) = SetFileHash p g h now (put_methods p f ms st)"
  "put_pending p f es (SetFileHash p g h now st) = SetFileHash p g h now (put_pending p f es st)"
  by (simp_all add: put_pending_def put_fields_def put_methods_def SetFileHash_def delete_fields_of_def delete_methods_of_def Let_def ids_of_file_def)

lemma commit_repeat: "CommitFileExtraction c now (CommitFileExtraction c now st) = CommitFileExtraction c now st"
  by (simp add: CommitFileExtraction_def Let_def put_commute put_pending_repeat put_fields_repeat put_methods_repeat SetFileHash_repeat)

lemma keys_fold_insert_ignore: "key ` set (fold (\<lambda>x. insert_ignore key (f x)) xs t) = key ` set t \<union> (key \<circ> f) ` set xs"
  by (induction xs rule: rev_induct) (auto simp: set_insert_ignore)

lemma GetFileHash_set: "GetFileHash p f (SetFileHash p f h now st) = h"
proof -
  have "find P (filter (\<lambda>r. \<not> P r) t @ [r]) = (if P r then Some r else None)" for P and t :: "file_row list" and r
    by (induction t) auto
  from this [of "\<lambda>r. f_ProjectID r = p \<and> f_Path r = f" "t_files st"]
  show ?thesis by (simp add: GetFileHash_def SetFileHash_def insert_replace_def delete_where_def file_key_def)
qed

lemma put_pending_keys:
  "pending_key ` {r \<in> set (t_pending (put_pending p f es st)). e_ProjectID r = p \<and> e_FromFile r = f} =
   (\<lambda>e. (p, f, e_Kind e, e_FromQN e, e_ToName e)) ` set es"
proof -
  let ?g = "\<lambda>e. pending_edge.extend (e\<lparr>e_FromFile := f\<rparr>) (pending_row.fields p)"
  let ?new = "fold (\<lambda>e. insert_ignore pending_key (?g e)) es (delete_where (\<lambda>r. e_ProjectID r = p \<and> e_FromFile r = f) (t_pending st))"
  have k: "pending_key \<circ> ?g = (\<lambda>e. (p, f, e_Kind e, e_FromQN e, e_ToName e))"
    by (rule ext) (simp add: pending_key_def pending_edge.defs pending_row.defs)
  have "pending_key ` {r \<in> set ?new. e_ProjectID r = p \<and> e_FromFile r = f}
      = {x \<in> pending_key ` set ?new. fst x = p \<and> fst (snd x) = f}" by (auto simp: pending_key_def)
  also have "\<dots> = (\<lambda>e. (p, f, e_Kind e, e_FromQN e, e_ToName e)) ` set es"
    unfolding keys_fold_insert_ignore k by (auto simp: pending_key_def)
  finally show ?thesis by (simp add: put_pending_def)
qed

lemma put_fields_keys:
  "field_key ` {r \<in> set (t_fields (put_fields p f rows st)). sf_ProjectID r = p \<and> sf_StructID r \<in> ids_of_file st p f} =
   (\<lambda>r. (p, sf_StructID r, sf_FieldName r)) ` {r \<in> set rows. sf_StructID r \<in> ids_of_file st p f}"
proof -
  let ?ids = "ids_of_file st p f" and ?g = "\<lambda>r. r\<lparr>sf_ProjectID := p\<rparr>"
  let ?t = "filter (\<lambda>r. \<not> (sf_ProjectID r = p \<and> sf_StructID r \<in> ?ids)) (t_fields st)"
  let ?R = "fold (\<lambda>r. insert_replace field_key (?g r)) rows []" and ?new = "fold (\<lambda>r. insert_replace field_key (?g r)) rows ?t"
  have "field_key ` {r \<in> set ?new. sf_ProjectID r = p \<and> sf_StructID r \<in> ?ids} = {x \<in> field_key ` set ?R. fst x = p \<and> fst (snd x) \<in> ?ids}"
    by (subst fold_insert_replace) (auto simp: field_key_def)
  also have "\<dots> = (\<lambda>r. (p, sf_StructID r, sf_FieldName r)) ` {r \<in> set rows. sf_StructID r \<in> ?ids}"
    unfolding keys_fold_insert_replace by (auto simp: field_key_def)
  finally show ?thesis by (simp add: put_fields_def delete_fields_of_def delete_where_def)
qed

text \<open>
  Committing the extraction of a file twice is committing it once, so a retry after a crash is harmless, and the commit
  leaves exactly what was extracted: its hash is the stored hash of the file, the deferred edges stored for the file are
  those handed in (one per kind, caller and callee), and the fields stored for the structs of the file are those handed in.
\<close>
theorem commit_file_exact:
  "CommitFileExtraction c now (CommitFileExtraction c now st) = CommitFileExtraction c now st \<and>
   GetFileHash (fc_ProjectID c) (fc_FilePath c) (CommitFileExtraction c now st) = fc_FileHash c \<and>
   pending_key ` {r \<in> set (t_pending (CommitFileExtraction c now st)). e_ProjectID r = fc_ProjectID c \<and> e_FromFile r = fc_FilePath c} =
     (\<lambda>e. (fc_ProjectID c, fc_FilePath c, e_Kind e, e_FromQN e, e_ToName e)) ` set (fc_PendingEdges c) \<and>
   field_key ` {r \<in> set (t_fields (CommitFileExtraction c now st)).
       sf_ProjectID r = fc_ProjectID c \<and> sf_StructID r \<in> ids_of_file st (fc_ProjectID c) (fc_FilePath c)} =
     (\<lambda>r. (fc_ProjectID c, sf_StructID r, sf_FieldName r)) ` {r \<in> set (fc_StructFields c). sf_StructID r \<in> ids_of_file st (fc_ProjectID c) (fc_FilePath c)}"
proof -
  let ?p = "fc_ProjectID c" and ?f = "fc_FilePath c"
  have pend: "t_pending (CommitFileExtraction c now st) = t_pending (put_pending ?p ?f (fc_PendingEdges c) st)"
    by (simp add: CommitFileExtraction_def Let_def SetFileHash_def put_methods_def put_fields_def delete_fields_of_def delete_methods_of_def)
  have flds: "t_fields (CommitFileExtraction c now st) = t_fields (put_fields ?p ?f (fc_StructFields c) st)"
    by (simp add: CommitFileExtraction_def Let_def SetFileHash_def put_methods_def put_fields_def delete_fields_of_def
        delete_methods_of_def put_pending_def ids_of_file_def)
  have h: "GetFileHash ?p ?f (CommitFileExtraction c now st) = fc_FileHash c"
    unfolding CommitFileExtraction_def Let_def by (rule GetFileHash_set)
  show ?thesis unfolding pend flds by (intro conjI commit_repeat h put_pending_keys put_fields_keys)
qed

section \<open>The replacement of edges\<close>

text \<open>The edges a replacement drops.\<close>

definition replaced_edge :: "string \<Rightarrow> string \<Rightarrow> string \<Rightarrow> string list \<Rightarrow> 'f store \<Rightarrow> 'f resolved_edge \<Rightarrow> bool" where
  "replaced_edge p kind source files st g \<longleftrightarrow>
     g_ProjectID g = p \<and> g_Kind g = kind \<and> g_Source g = source \<and> (files = [] \<or> g_FromID g \<in> ids_of_files st p files)"

lemma insert_absent: "x \<notin> B \<Longrightarrow> insert x (A - insert x B) = insert x A - B"
  by auto

lemma insertEdgesTx_appends:
  "insertEdgesTx gs st = Inr st1 \<Longrightarrow>
   \<exists>new. st1 = st\<lparr>t_edges := t_edges st @ new\<rparr> \<and> set new \<subseteq> with_source ` set gs \<and> distinct (map edge_uniq new) \<and>
     edge_uniq ` set new = edge_uniq ` set gs - edge_uniq ` set (t_edges st)"
proof (induction gs arbitrary: st)
  case Nil
  then show ?case by (intro exI [of _ "[]"]) simp
next
  case (Cons g gs)
  show ?case
  proof (cases "edge_uniq g \<in> edge_uniq ` set (t_edges st)")
    case True
    then have "insertEdgesTx gs st = Inr st1" using Cons.prems by simp
    then obtain new where n: "st1 = st\<lparr>t_edges := t_edges st @ new\<rparr>" "set new \<subseteq> with_source ` set gs"
      "distinct (map edge_uniq new)" "edge_uniq ` set new = edge_uniq ` set gs - edge_uniq ` set (t_edges st)"
      using Cons.IH by blast
    have "edge_uniq ` set (g # gs) - edge_uniq ` set (t_edges st) = edge_uniq ` set gs - edge_uniq ` set (t_edges st)"
      using True by auto
    then show ?thesis using n by (intro exI [of _ new]) auto
  next
    case False
    let ?st = "st\<lparr>t_edges := t_edges st @ [with_source g]\<rparr>"
    have "insertEdgesTx gs ?st = Inr st1" using Cons.prems False by (simp split: if_splits)
    from Cons.IH [OF this] obtain new where n: "st1 = ?st\<lparr>t_edges := t_edges ?st @ new\<rparr>" "set new \<subseteq> with_source ` set gs"
      "distinct (map edge_uniq new)" "edge_uniq ` set new = edge_uniq ` set gs - edge_uniq ` set (t_edges ?st)"
      by (elim exE conjE)
    show ?thesis
    proof (intro exI [of _ "with_source g # new"] conjI)
      show "edge_uniq ` set (with_source g # new) = edge_uniq ` set (g # gs) - edge_uniq ` set (t_edges st)"
        using n(4) insert_absent [OF False] by simp
      show "distinct (map edge_uniq (with_source g # new))" using n(3,4) by simp
    qed (use n(1,2) in auto)
  qed
qed

lemma replace_edges_rows:
  assumes "ReplaceEdgesByKindSource p kind source files gs st = Inr st1"
  shows "\<exists>new. st1 = st\<lparr>t_edges := filter (\<lambda>g. \<not> replaced_edge p kind source files st g) (t_edges st) @ new\<rparr> \<and>
    set new \<subseteq> with_source ` set gs \<and> distinct (map edge_uniq new) \<and>
    edge_uniq ` set new = edge_uniq ` set gs - edge_uniq ` {g \<in> set (t_edges st). \<not> replaced_edge p kind source files st g}"
proof -
  let ?kept = "filter (\<lambda>g. \<not> replaced_edge p kind source files st g) (t_edges st)"
  have "(if files \<noteq> [] then delete_scoped p kind source files st else DeleteEdgesByKindAndSource p kind source st)
      = st\<lparr>t_edges := ?kept\<rparr>"
    by (auto simp: delete_scoped_def DeleteEdgesByKindAndSource_def delete_where_def replaced_edge_def intro!: arg_cong [of _ _ "\<lambda>t. st\<lparr>t_edges := t\<rparr>"] filter_cong)
  then have "insertEdgesTx gs (st\<lparr>t_edges := ?kept\<rparr>) = Inr st1" using assms by (simp add: ReplaceEdgesByKindSource_def)
  from insertEdgesTx_appends [OF this] show ?thesis by simp
qed

text \<open>
  C16: The atomic replacement of the edges of one kind and source is exact: the edges of the project with that kind and
  source (from the given files, when files are given) are gone, every other edge stays in its place, and the rows
  appended are edges of the new set, one for each key of the set that no kept edge has. Nothing but the edge table
  changes.
\<close>
theorem replace_edges_exact:
  assumes "ReplaceEdgesByKindSource p kind source files gs st = Inr st1"
  shows "\<exists>new. st1 = st\<lparr>t_edges := filter (\<lambda>g. \<not> replaced_edge p kind source files st g) (t_edges st) @ new\<rparr> \<and>
    set new \<subseteq> with_source ` set gs \<and> distinct (map edge_uniq new) \<and>
    edge_uniq ` set new = edge_uniq ` set gs - edge_uniq ` {g \<in> set (t_edges st). \<not> replaced_edge p kind source files st g}"
  by (rule replace_edges_rows [OF assms])

lemma insertEdgesTx_total: "(\<And>g. g \<in> set gs \<Longrightarrow> has_project st (g_ProjectID g)) \<Longrightarrow> \<exists>st1. insertEdgesTx gs st = Inr st1"
proof (induction gs arbitrary: st)
  case (Cons g gs)
  have "has_project (st\<lparr>t_edges := t\<rparr>) i = has_project st i" for t i by (simp add: has_project_def)
  then show ?case using Cons by simp
qed simp

lemma insertEdgesTx_other:
  "insertEdgesTx gs st = Inr st1 \<Longrightarrow> t_symbols st1 = t_symbols st \<and> t_projects st1 = t_projects st \<and> t_files st1 = t_files st"
  by (drule insertEdgesTx_appends) auto

section \<open>Deleting a project\<close>

text \<open>
  Deleting a project never fails, whatever rows it has: no foreign key stops it. Afterwards each of the twelve
  tables holds exactly the rows that are not of the project, in their order, so none of the project is left and none
  of another is touched.
\<close>
theorem delete_project_exact:
  "DeleteProject i st = Inr
     \<lparr>t_projects = filter (\<lambda>p. j_ID p \<noteq> i) (t_projects st), t_symbols = filter (\<lambda>s. s_ProjectID s \<noteq> i) (t_symbols st),
      t_edges = filter (\<lambda>g. g_ProjectID g \<noteq> i) (t_edges st), t_files = filter (\<lambda>r. f_ProjectID r \<noteq> i) (t_files st),
      t_adrs = filter (\<lambda>r. a_ProjectID r \<noteq> i) (t_adrs st), t_failures = filter (\<lambda>r. x_ProjectID r \<noteq> i) (t_failures st),
      t_closure = filter (\<lambda>r. cr_project r \<noteq> i) (t_closure st), t_pending = filter (\<lambda>e. e_ProjectID e \<noteq> i) (t_pending st),
      t_fields = filter (\<lambda>r. sf_ProjectID r \<noteq> i) (t_fields st), t_methods = filter (\<lambda>r. im_ProjectID r \<noteq> i) (t_methods st),
      t_moves = filter (\<lambda>r. mv_ProjectID r \<noteq> i) (t_moves st), t_slow = filter (\<lambda>r. q_ProjectID r \<noteq> Some i) (t_slow st)\<rparr>"
  by (simp add: DeleteProject_eq delete_project_rows_def delete_where_def)

section \<open>Removing the symbols of a file\<close>

lemma delete_file_edges:
  "t_edges (DeleteSymbolsForFile p f st) = filter (\<lambda>g. g_FromID g \<notin> ids_of_file st p f \<and> g_ToID g \<notin> ids_of_file st p f) (t_edges st)"
  by (simp add: DeleteSymbolsForFile_def Let_def delete_fields_of_def delete_methods_of_def delete_where_def)

lemma delete_file_symbols:
  "t_symbols (DeleteSymbolsForFile p f st) = filter (\<lambda>s. \<not> (s_ProjectID s = p \<and> s_FilePath s = f)) (t_symbols st)"
  by (simp add: DeleteSymbolsForFile_def Let_def delete_fields_of_def delete_methods_of_def delete_where_def)

text \<open>
  C17: Removing the symbols of a file deletes edges of other projects. The edges are selected by the bare IDs of the
  file's symbols (the comment says edges have no project column, which they have), and an ID is a path, a name and a
  kind, not a project. So when another project has a symbol of the same ID, the symbol stays and loses every edge: nothing
  is reported to call it, it calls nothing, and it no longer counts as a hot spot.
\<close>
theorem delete_file_hits_others:
  assumes "s \<in> set (t_symbols st)" and "s_ProjectID s = p" and "s_FilePath s = f"
    and "h \<in> set (t_symbols st)" and "s_ProjectID h \<noteq> p" and "s_ID h = s_ID s"
  shows "h \<in> set (t_symbols (DeleteSymbolsForFile p f st)) \<and>
    EdgesTo (s_ID h) kinds (DeleteSymbolsForFile p f st) = [] \<and> EdgesFrom (s_ID h) kinds (DeleteSymbolsForFile p f st) = [] \<and>
    in_degree (s_ProjectID h) (DeleteSymbolsForFile p f st) (s_ID h) = 0"
proof -
  have "s_ID h \<in> ids_of_file st p f" using assms by (auto simp: ids_of_file_def)
  then show ?thesis using assms(4,5)
    by (auto simp: delete_file_symbols EdgesTo_def EdgesFrom_def queryEdges_def in_degree_def delete_file_edges filter_empty_conv)
qed

section \<open>Merging projects\<close>




text \<open>
  A project with materialized closure rows cannot be merged. The merge moves six tables and leaves the closure, whose
  rows reference the project row: the last statement fails, the caller returns the error, and opening the database fails
  with it. What the merge had done stays, the two rows of one directory stay, and so does the cause, so the next attempt
  fails in the same way. The deferred edges, fields and methods of the loser are not moved either.
\<close>
theorem merge_blocked_by_closure:
  assumes "has_project st loser" and "loser \<in> cr_project ` set (t_closure st)"
  shows "mergeProjectInto loser winner st = (Some ForeignKeyViolation, merge_rows loser winner st) \<and>
    mergeProjectInto loser winner (merge_rows loser winner st) = (Some ForeignKeyViolation, merge_rows loser winner (merge_rows loser winner st)) \<and>
    t_projects (merge_rows loser winner st) = t_projects st \<and> t_pending (merge_rows loser winner st) = t_pending st \<and>
    t_fields (merge_rows loser winner st) = t_fields st \<and> t_methods (merge_rows loser winner st) = t_methods st"
  using assms by (simp add: mergeProjectInto_def delete_project_row_def has_project_def project_referenced_def merge_rows_def)

section \<open>The version of the last binary\<close>

lemma find_insert_update:
  assumes "\<And>x. key (upd x r) = key x"
  shows "find (\<lambda>x. key x = i) (insert_update key upd r t) =
    (if i \<noteq> key r then find (\<lambda>x. key x = i) t
     else case find (\<lambda>x. key x = i) t of None \<Rightarrow> Some r | Some x \<Rightarrow> Some (upd x r))"
proof -
  have app: "find P (u @ [r]) = (case find P u of None \<Rightarrow> if P r then Some r else None | Some x \<Rightarrow> Some x)" for P u
    by (induction u) auto
  have u: "find (\<lambda>x. key x = i) (update_where (\<lambda>x. key x = key r) (\<lambda>x. upd x r) t) =
    (if i \<noteq> key r then find (\<lambda>x. key x = i) t else map_option (\<lambda>x. upd x r) (find (\<lambda>x. key x = i) t))"
    by (induction t) (auto simp: update_where_def assms)
  have n: "find (\<lambda>x. key x = key r) t = None \<longleftrightarrow> key r \<notin> key ` set t"
    unfolding find_None_iff by (metis imageE imageI)
  show ?thesis
  proof (cases "key r \<in> key ` set t")
    case True
    then obtain x where "find (\<lambda>x. key x = key r) t = Some x" using n by (cases "find (\<lambda>x. key x = key r) t") auto
    then show ?thesis by (simp add: insert_update_def True u)
  next
    case False
    then have "find (\<lambda>x. key x = key r) t = None" using n by simp
    then show ?thesis by (simp add: insert_update_def False app split: option.split)
  qed
qed

lemma CompareBinaryVersion_refl [simp]: "CompareBinaryVersion v v = 0"
  by (simp add: CompareBinaryVersion_def)

definition stored_schema :: "string \<Rightarrow> 'f store \<Rightarrow> int" where
  "stored_schema i st = (case find (\<lambda>p. j_ID p = i) (t_projects st) of
     None \<Rightarrow> 0 | Some p \<Rightarrow> (case j_Schema p of None \<Rightarrow> 0 | Some n \<Rightarrow> n))"

text \<open>
  C18: An upsert of the metadata never moves back a project whose row has a version. For such a project the stored
  binary version never becomes one that compares lower than what was stored, nor does the stored schema number go
  down, whatever row, of this or another project, is written by a binary of whatever schema; the project of the row
  gets at least that binary's schema number. The full upsert keeps the version in the same way when its row names a
  version. A row without a version, as those written before the column existed, is not covered.
\<close>
theorem stored_version_guarded:
  assumes "stored_binary i st \<noteq> ''''"
  shows "CompareBinaryVersion (stored_binary i (UpsertProjectMeta n row st)) (stored_binary i st) \<ge> 0 \<and>
    stored_schema i (UpsertProjectMeta n row st) \<ge> stored_schema i st \<and> stored_schema (j_ID row) (UpsertProjectMeta n row st) \<ge> n \<and>
    (j_Binary row = Some v \<and> v \<noteq> '''' \<longrightarrow> CompareBinaryVersion (stored_binary i (UpsertProject n row st)) (stored_binary i st) \<ge> 0)"
  using assms
  by (auto simp: stored_binary_def stored_schema_def UpsertProjectMeta_def UpsertProject_def Let_def find_insert_update meta_update_def
      project_update_def coalesce0_def sql_max_def sql_ge_def split: option.splits if_splits)

text \<open>
  A version that does not parse is not guarded: it is compared as text. Such is the version of a build from a dirty
  tree right at a tag, as in 0.9.0-dirty. When it is the greater text it displaces a real and newer version, and from
  then on every version that is a smaller text is dropped, the next real releases included.
\<close>
theorem unparsed_version_sticks:
  assumes "parseBinaryVersion v = None" and "v \<noteq> ''dev''" and "stored_binary i st \<noteq> ''''" and "stored_binary i st \<noteq> ''dev''"
    and "stored_binary i st < v" and "stored_schema i st \<le> n" and "j_ID row = i" and "j_ID row2 = i"
    and "j_Binary row = Some v" and "j_Binary row2 = Some w" and "w < v"
  shows "stored_binary i (UpsertProjectMeta n row st) = v \<and>
    stored_binary i (UpsertProjectMeta n row2 (UpsertProjectMeta n row st)) = v"
proof -
  have cmp: "CompareBinaryVersion v (stored_binary i st) = 1" "CompareBinaryVersion w v = -1"
    using assms by (auto simp: CompareBinaryVersion_def compare_lex_def split: option.split)
  have v: "v \<noteq> ''''" using assms(5) by auto
  obtain x where x: "find (\<lambda>p. j_ID p = i) (t_projects st) = Some x"
    using assms(3) by (auto simp: stored_binary_def split: option.splits)
  have s: "sql_ge n (coalesce0 (j_Schema x))" using assms(6) x by (simp add: stored_schema_def sql_ge_def coalesce0_def)
  have one: "find (\<lambda>p. j_ID p = i) (t_projects (UpsertProjectMeta n row st)) =
      Some (x\<lparr>j_Path := j_Path row, j_Name := j_Name row, j_IndexedAt := j_IndexedAt row, j_Binary := Some v,
        j_Schema := sql_max (coalesce0 (j_Schema x)) n, j_Branch := j_Branch row\<rparr>)"
    using assms(7,9) x s cmp(1) by (simp add: UpsertProjectMeta_def Let_def find_insert_update meta_update_def)
  then have first: "stored_binary i (UpsertProjectMeta n row st) = v" by (simp add: stored_binary_def)
  let ?st = "UpsertProjectMeta n row st"
  have "stored_binary i (UpsertProjectMeta n row2 ?st) = v"
    using assms(8,10) one first cmp(2) v
    by (simp add: UpsertProjectMeta_def [of n row2] Let_def stored_binary_def [of i "_\<lparr>t_projects := _\<rparr>"] find_insert_update meta_update_def)
  then show ?thesis using first by simp
qed

section \<open>The flush of a batch and moved symbols\<close>

text \<open>
  \<open>flushBatch\<close> of the indexer (\<open>internal/index/indexer.go\<close>): \<open>branch\<close> is the current branch of the project. What a
  failing statement left before it stays.
\<close>

definition stamp_symbol :: "string \<Rightarrow> 'f symbol \<Rightarrow> 'f symbol" where
  "stamp_symbol branch s = (if branch \<noteq> '''' \<and> s_Branch s = '''' then s\<lparr>s_Branch := branch\<rparr> else s)"

definition stamp_edge :: "string \<Rightarrow> 'f resolved_edge \<Rightarrow> 'f resolved_edge" where
  "stamp_edge branch g = (if branch \<noteq> '''' \<and> g_Branch g = '''' then g\<lparr>g_Branch := branch\<rparr> else g)"

definition flushBatch ::
    "'f \<Rightarrow> 'f \<Rightarrow> string \<Rightarrow> int \<Rightarrow> string \<Rightarrow> 'f symbol list \<Rightarrow> 'f resolved_edge list \<Rightarrow> 'f store \<Rightarrow> sql_error option \<times> 'f store" where
  "flushBatch zero one branch now projectID syms gs st =
     (let syms = map (stamp_symbol branch) syms; gs = map (stamp_edge branch) gs;
          st1 = (if syms \<noteq> [] then DetectAndRecordMoves projectID syms now st else st)
      in case BulkUpsertSymbols zero one syms st1 of
           Inl e \<Rightarrow> (Some e, st1)
         | Inr st2 \<Rightarrow> (case BulkUpsertEdges gs st2 of Inl e \<Rightarrow> (Some e, st2) | Inr st3 \<Rightarrow> (None, st3)))"

lemma ResolveStaleID_record: "ResolveStaleID p i (RecordSymbolMove p old new now st) = (if i = old then Some new else ResolveStaleID p i st)"
proof -
  have k: "(\<lambda>r. mv_OldID r = i \<and> mv_ProjectID r = p) = (\<lambda>r. move_key r = (i, p))" by (auto simp: move_key_def)
  have "find (\<lambda>r. move_key r = (i, p)) (insert_update move_key move_update r (t_moves st)) =
    (if (i, p) \<noteq> move_key r then find (\<lambda>r. move_key r = (i, p)) (t_moves st)
     else case find (\<lambda>r. move_key r = (i, p)) (t_moves st) of None \<Rightarrow> Some r | Some x \<Rightarrow> Some (move_update x r))" for r
    by (rule find_insert_update) (simp add: move_update_def move_key_def)
  then show ?thesis unfolding ResolveStaleID_def RecordSymbolMove_def k
    by (auto simp: move_update_def move_key_def [of "symbol_move_ext _ _ _ _ _"] split: option.split)
qed

lemma find_hit: "find P xs = Some x \<Longrightarrow> x \<in> set xs \<and> P x"
  by (induction xs) (auto split: if_splits)

lemma detect_moves_absent:
  assumes "\<And>s. s \<in> set (t_symbols st) \<Longrightarrow> s_ProjectID s = p \<Longrightarrow> s_ID s \<noteq> i"
  shows "ResolveStaleID p i (DetectAndRecordMoves p syms now st) = ResolveStaleID p i st"
  using assms
proof (induction syms arbitrary: st)
  case (Cons s syms)
  have "ResolveStaleID p i (detect_move p now s st) = ResolveStaleID p i st"
    using Cons.prems by (auto simp: detect_move_def ResolveStaleID_record split: option.split dest!: find_hit)
  moreover have "t_symbols (detect_move p now s st) = t_symbols st" by (simp add: detect_move_def RecordSymbolMove_def split: option.split)
  ultimately show ?case using Cons.IH [of "detect_move p now s st"] Cons.prems by (simp add: DetectAndRecordMoves_def)
qed (simp add: DetectAndRecordMoves_def)

lemma upsert_symbols_moves: "t_moves (fold (upsert_symbol zr on) syms st) = t_moves st"
  by (induction syms arbitrary: st) (simp_all add: upsert_symbol_def)

lemma insertEdgesTx_moves: "insertEdgesTx gs st = Inr st1 \<Longrightarrow> t_moves st1 = t_moves st"
  using insertEdgesTx_appends by fastforce

lemma flushBatch_moves:
  assumes "flushBatch zr on branch now p syms gs st = (None, st1)"
  shows "t_moves st1 = t_moves (DetectAndRecordMoves p (map (stamp_symbol branch) syms) now st)"
  using assms insertEdgesTx_moves
  by (auto simp: flushBatch_def Let_def BulkUpsertSymbols_def BulkUpsertEdges_def DetectAndRecordMoves_def upsert_symbols_moves
      split: sum.splits if_splits)

text \<open>
  Redirects of moved symbols are not followed up. When a symbol that was moved is moved again, the redirect from its
  first ID keeps pointing at its second ID, which is gone: a flush leaves every redirect from an ID that the project no longer has
  as it was, and the lookup of a stale ID takes one step only.
\<close>
theorem redirect_not_followed:
  assumes "flushBatch zr on branch now p syms gs st = (None, st1)"
    and "\<forall>s \<in> set (t_symbols st). s_ProjectID s = p \<longrightarrow> s_ID s \<noteq> i"
  shows "ResolveStaleID p i st1 = ResolveStaleID p i st"
proof -
  have "ResolveStaleID p i st1 = ResolveStaleID p i (DetectAndRecordMoves p (map (stamp_symbol branch) syms) now st)"
    by (simp add: ResolveStaleID_def flushBatch_moves [OF assms(1)])
  also have "\<dots> = ResolveStaleID p i st" by (rule detect_moves_absent) (use assms(2) in blast)
  finally show ?thesis .
qed

section \<open>Sweeping empty projects\<close>

lemma same_rows_empty: "same_rows q empty_store st \<Longrightarrow> p \<noteq> q \<Longrightarrow> DeleteProject p st = Inr st1 \<Longrightarrow> same_rows q empty_store st1"
  by (metis DeleteProject_frame same_rows_trans)

lemma delete_projects_rows:
  "\<exists>st1. delete_projects is st = (None, st1) \<and> (q \<in> set is \<or> same_rows q empty_store st \<longrightarrow> same_rows q empty_store st1)"
proof (induction "is" arbitrary: st)
  case (Cons i "is")
  obtain st1 where d: "DeleteProject i st = Inr st1" and e: "same_rows i empty_store st1"
    by (simp add: DeleteProject_eq same_rows_def empty_store_def delete_project_rows_def delete_where_def filter_empty_conv)
  have "q = i \<or> same_rows q empty_store st \<Longrightarrow> same_rows q empty_store st1"
    using e same_rows_empty [OF _ _ d, of q] by blast
  then show ?case using Cons.IH [of st1] d by auto
qed simp

text \<open>
  The sweep of empty projects goes by the cached counts of the project row. A project whose row says zero symbols
  and zero edges loses every row it has, symbols and edges included; such is a project whose first index is running,
  since the row is written with zero counts and the counts follow later. The comment promises that rows with any symbols
  or edges are untouched.
\<close>
theorem sweep_deletes_populated:
  assumes "row \<in> set (t_projects st)" and "j_SymCount row = 0" and "j_EdgeCount row = 0"
  shows "\<exists>n st1. DeleteEmptyProjects st = (n, None, st1) \<and> n > 0 \<and> same_rows (j_ID row) empty_store st1"
proof -
  let ?is = "map j_ID (filter (\<lambda>p. j_SymCount p = 0 \<and> j_EdgeCount p = 0) (t_projects st))"
  have i: "j_ID row \<in> set ?is" using assms by auto
  obtain st1 where "delete_projects ?is st = (None, st1)" "same_rows (j_ID row) empty_store st1"
    using delete_projects_rows [of ?is st "j_ID row"] i by blast
  moreover have "length ?is > 0" using i by (cases ?is) auto
  ultimately show ?thesis by (simp add: DeleteEmptyProjects_def Let_def)
qed

section \<open>Runs\<close>

text \<open>Two projects with the same file and so with the same symbol IDs.\<close>

definition demo_two :: "nat store" where
  "demo_two = demo_fill ''p'' (demo_fill ''q'' empty_store)"

lemmas demo_simps = demo_two_def demo_fill_def Let_def upsert_symbol_def UpsertProjectMeta_def empty_store_def demo_symbol_def demo_edge_def
  demo_project_def insert_replace_def insert_update_def delete_where_def symbol_key_def MakeSymbolID_def default_confidence_def with_source_def stored_binary_def

lemma demo_two_symbols: "map (\<lambda>s. (s_ProjectID s, s_FilePath s, s_ID s)) (t_symbols demo_two) =
    [(''q'', ''a.go'', ''a.go::f#Function''), (''q'', ''a.go'', ''a.go::g#Function''),
     (''p'', ''a.go'', ''a.go::f#Function''), (''p'', ''a.go'', ''a.go::g#Function'')]"
  by (simp add: demo_simps)

lemma demo_two_rows:
  "t_projects demo_two = [(demo_project ''q'' ''/q'' ''0.9.0'')\<lparr>j_Schema := Some 26\<rparr>, (demo_project ''p'' ''/p'' ''0.9.0'')\<lparr>j_Schema := Some 26\<rparr>]"
  "t_symbols demo_two = [demo_symbol ''q'' ''a.go'' ''f'', demo_symbol ''q'' ''a.go'' ''g'', demo_symbol ''p'' ''a.go'' ''f'', demo_symbol ''p'' ''a.go'' ''g'']"
  "t_edges demo_two = [with_source (demo_edge ''q'' (demo_symbol ''q'' ''a.go'' ''f'') (demo_symbol ''q'' ''a.go'' ''g'')),
     with_source (demo_edge ''p'' (demo_symbol ''p'' ''a.go'' ''f'') (demo_symbol ''p'' ''a.go'' ''g''))]"
  "t_methods demo_two = []" "t_moves demo_two = []"
  by (simp_all add: demo_simps)

definition demo_back :: "nat resolved_edge" where
  "demo_back = demo_edge ''p'' (demo_symbol ''p'' ''a.go'' ''g'') (demo_symbol ''p'' ''a.go'' ''f'')"

theorem replace_edges_exact_witness:
  "\<exists>st1 new. ReplaceEdgesByKindSource ''p'' ''CALLS'' ''per_file'' [] [demo_back] demo_two = Inr st1 \<and>
     st1 = demo_two\<lparr>t_edges := filter (\<lambda>g. \<not> replaced_edge ''p'' ''CALLS'' ''per_file'' [] demo_two g) (t_edges demo_two) @ new\<rparr> \<and>
     edge_uniq ` set new = {(''p'', ''a.go::g#Function'', ''a.go::f#Function'', ''CALLS'')}"
proof -
  let ?r = "replaced_edge ''p'' ''CALLS'' ''per_file'' [] demo_two"
  have kept: "{g \<in> set (t_edges demo_two). \<not> ?r g} = {with_source (demo_edge ''q'' (demo_symbol ''q'' ''a.go'' ''f'') (demo_symbol ''q'' ''a.go'' ''g''))}"
    by (auto simp: demo_two_rows replaced_edge_def demo_edge_def with_source_def)
  obtain st1 where st1: "ReplaceEdgesByKindSource ''p'' ''CALLS'' ''per_file'' [] [demo_back] demo_two = Inr st1"
    by (simp add: ReplaceEdgesByKindSource_def DeleteEdgesByKindAndSource_def delete_where_def demo_two_rows has_project_def demo_back_def
        demo_project_def demo_edge_def with_source_def edge_uniq_def demo_symbol_def MakeSymbolID_def)
  from replace_edges_exact [OF this] obtain new where n: "st1 = demo_two\<lparr>t_edges := filter (\<lambda>g. \<not> ?r g) (t_edges demo_two) @ new\<rparr>"
    "edge_uniq ` set new = edge_uniq ` set [demo_back] - edge_uniq ` {g \<in> set (t_edges demo_two). \<not> ?r g}" by blast
  have "edge_uniq ` set new = {(''p'', ''a.go::g#Function'', ''a.go::f#Function'', ''CALLS'')}"
    using n(2) unfolding kept by (simp add: demo_back_def demo_edge_def demo_symbol_def MakeSymbolID_def edge_uniq_def)
  then show ?thesis using st1 n(1) by blast
qed

text \<open>The function of \<open>q\<close> that is called in \<open>q\<close> is reported dead after \<open>p\<close> drops its file.\<close>

theorem delete_file_hits_others_witness:
  "\<not> is_dead (\<le>) ''q'' [''Function''] '''' 0 demo_two (demo_symbol ''q'' ''a.go'' ''g'') \<and>
   is_dead (\<le>) ''q'' [''Function''] '''' 0 (DeleteSymbolsForFile ''p'' ''a.go'' demo_two) (demo_symbol ''q'' ''a.go'' ''g'') \<and>
   EdgesTo ''a.go::g#Function'' [] demo_two \<noteq> [] \<and>
   EdgesTo ''a.go::g#Function'' [] (DeleteSymbolsForFile ''p'' ''a.go'' demo_two) = []"
proof -
  have 1: "\<not> is_dead (\<le>) ''q'' [''Function''] '''' 0 demo_two (demo_symbol ''q'' ''a.go'' ''g'')"
    and 2: "EdgesTo ''a.go::g#Function'' [] demo_two \<noteq> []"
    by (simp_all add: is_dead_def EdgesTo_def queryEdges_def demo_two_rows demo_edge_def with_source_def demo_symbol_def MakeSymbolID_def)
  have i: "s_ID (demo_symbol q ''a.go'' ''g'') = ''a.go::g#Function''" for q by (simp add: demo_symbol_def MakeSymbolID_def)
  have 3: "EdgesTo ''a.go::g#Function'' [] (DeleteSymbolsForFile ''p'' ''a.go'' demo_two) = []"
    using delete_file_hits_others [of "demo_symbol ''p'' ''a.go'' ''g''" demo_two "''p''" "''a.go''" "demo_symbol ''q'' ''a.go'' ''g''" "[]"]
    by (simp add: demo_two_rows i) (simp add: demo_symbol_def)
  have "t_methods (DeleteSymbolsForFile ''p'' ''a.go'' demo_two) = []"
    by (simp add: DeleteSymbolsForFile_def Let_def delete_fields_of_def delete_methods_of_def delete_where_def demo_two_rows)
  then have "is_dead (\<le>) ''q'' [''Function''] '''' 0 (DeleteSymbolsForFile ''p'' ''a.go'' demo_two) (demo_symbol ''q'' ''a.go'' ''g'')"
    using 3 by (auto simp: is_dead_def EdgesTo_def queryEdges_def filter_empty_conv demo_symbol_def MakeSymbolID_def)
  then show ?thesis using 1 2 3 by blast
qed

theorem merge_blocked_by_closure_witness:
  "fst (mergeProjectInto ''q'' ''p'' (demo_two\<lparr>t_closure := [\<lparr>cr_project = ''q'', cr_from = ''a.go::f#Function'', cr_to = ''a.go::g#Function'', cr_depth = 1, cr_kind = ''CALLS''\<rparr>]\<rparr>)) = Some ForeignKeyViolation"
  using merge_blocked_by_closure [of "demo_two\<lparr>t_closure := [\<lparr>cr_project = ''q'', cr_from = ''a.go::f#Function'', cr_to = ''a.go::g#Function'', cr_depth = 1, cr_kind = ''CALLS''\<rparr>]\<rparr>" "''q''" "''p''"]
  by (simp add: has_project_def demo_two_rows demo_project_def)



theorem stored_version_guarded_witness:
  "CompareBinaryVersion (stored_binary ''p'' (UpsertProjectMeta 26 (demo_project ''p'' ''/p'' ''0.10.0'') demo_two)) ''0.9.0'' \<ge> 0 \<and>
   stored_binary ''p'' (UpsertProjectMeta 26 (demo_project ''p'' ''/p'' ''0.10.0'') demo_two) = ''0.10.0''"
proof -
  have b: "stored_binary ''p'' demo_two = ''0.9.0''" by (simp add: stored_binary_def demo_two_rows demo_project_def)
  have "CompareBinaryVersion ''0.10.0'' ''0.9.0'' = 1" by code_simp
  then have "stored_binary ''p'' (UpsertProjectMeta 26 (demo_project ''p'' ''/p'' ''0.10.0'') demo_two) = ''0.10.0''"
    unfolding UpsertProjectMeta_def b Let_def
    by (simp add: demo_project_def) (simp add: stored_binary_def find_insert_update demo_two_rows demo_project_def meta_update_def sql_ge_def coalesce0_def)
  then show ?thesis using stored_version_guarded [of "''p''" demo_two 26 "demo_project ''p'' ''/p'' ''0.10.0''"] by (simp add: b)
qed

theorem unparsed_version_sticks_witness:
  "stored_binary ''p'' (UpsertProjectMeta 26 (demo_project ''p'' ''/p'' ''0.11.0'')
     (UpsertProjectMeta 26 (demo_project ''p'' ''/p'' ''0.9.0-dirty'')
       (UpsertProjectMeta 26 (demo_project ''p'' ''/p'' ''0.10.0'') demo_two))) = ''0.9.0-dirty''"
proof -
  let ?st = "UpsertProjectMeta 26 (demo_project ''p'' ''/p'' ''0.10.0'') demo_two"
  have "CompareBinaryVersion ''0.10.0'' ''0.9.0'' = 1" by code_simp
  moreover have f: "find (\<lambda>p. j_ID p = ''p'') (t_projects demo_two) = Some ((demo_project ''p'' ''/p'' ''0.9.0'')\<lparr>j_Schema := Some 26\<rparr>)"
    by (simp add: demo_two_rows demo_project_def)
  ultimately have st: "find (\<lambda>p. j_ID p = ''p'') (t_projects ?st) = Some ((demo_project ''p'' ''/p'' ''0.10.0'')\<lparr>j_Schema := Some 26\<rparr>)"
    by (simp add: UpsertProjectMeta_def stored_binary_def find_insert_update Let_def demo_project_def meta_update_def sql_ge_def sql_max_def coalesce0_def)
  have b: "stored_binary ''p'' ?st = ''0.10.0''" and s: "stored_schema ''p'' ?st = 26"
    by (simp_all add: stored_binary_def stored_schema_def st) (simp_all add: demo_project_def)
  have "parse_commits ''dirty'' = None" by (simp add: parse_commits_def go_atoi_def is_digit_char_def code_of_def)
  then have "parseBinaryVersion ''0.9.0-dirty'' = None"
    by (simp add: parseBinaryVersion_def trim_prefix_def)
  moreover have "''0.10.0'' < ''0.9.0-dirty''" "''0.11.0'' < ''0.9.0-dirty''" by (simp_all add: less_char_def)
  ultimately show ?thesis
    using unparsed_version_sticks [of "''0.9.0-dirty''" "''p''" ?st 26 "demo_project ''p'' ''/p'' ''0.9.0-dirty''" "demo_project ''p'' ''/p'' ''0.11.0''" "''0.11.0''"]
    by (simp add: b s) (simp add: demo_project_def)
qed

theorem sweep_deletes_populated_witness:
  "length (t_symbols demo_two) = 4 \<and> (\<exists>n st1. DeleteEmptyProjects demo_two = (n, None, st1) \<and> n > 0 \<and> same_rows ''q'' empty_store st1)"
  using sweep_deletes_populated [of "(demo_project ''q'' ''/q'' ''0.9.0'')\<lparr>j_Schema := Some 26\<rparr>" demo_two]
  by (simp add: demo_two_rows demo_project_def)

text \<open>
  The function \<open>h\<close> was moved from \<open>old.go\<close> to \<open>b.go\<close>, whose rows the flush of \<open>c.go\<close> finds: afterwards the ID in \<open>old.go\<close> leads
  to \<open>b.go\<close>, and the ID in \<open>b.go\<close>, which the removal of that file leaves without a symbol, to \<open>c.go\<close>.
\<close>

definition demo_moved :: "nat store" where
  "demo_moved = empty_store\<lparr>t_projects := [demo_project ''p'' ''/p'' ''0.9.0''], t_symbols := [demo_symbol ''p'' ''b.go'' ''h''],
     t_moves := [\<lparr>mv_OldID = ''old.go::h#Function'', mv_NewID = ''b.go::h#Function'', mv_ProjectID = ''p'', mv_MovedAt = 1\<rparr>]\<rparr>"

definition demo_moved_again :: "nat store" where
  "demo_moved_again = snd (flushBatch 0 1 '''' 2 ''p'' [demo_symbol ''p'' ''c.go'' ''h''] [] demo_moved)"

theorem redirect_not_followed_witness:
  "ResolveStaleID ''p'' ''old.go::h#Function'' demo_moved_again = Some ''b.go::h#Function'' \<and>
   ResolveStaleID ''p'' ''b.go::h#Function'' demo_moved_again = Some ''c.go::h#Function'' \<and>
   GetSymbolScoped ''p'' ''b.go::h#Function'' (DeleteSymbolsForFile ''p'' ''b.go'' demo_moved_again) = Some None"
proof -
  let ?m = "demo_moved\<lparr>t_moves := t_moves demo_moved @ [\<lparr>mv_OldID = ''b.go::h#Function'', mv_NewID = ''c.go::h#Function'', mv_ProjectID = ''p'', mv_MovedAt = 2\<rparr>]\<rparr>"
  have d: "DetectAndRecordMoves ''p'' [demo_symbol ''p'' ''c.go'' ''h''] 2 demo_moved = ?m"
    by (simp add: DetectAndRecordMoves_def detect_move_def RecordSymbolMove_def insert_update_def move_key_def demo_moved_def demo_symbol_def MakeSymbolID_def)
  have p: "has_project ?m (s_ProjectID (demo_symbol ''p'' ''c.go'' ''h''))"
    by (simp add: has_project_def demo_moved_def demo_symbol_def demo_project_def)
  have f: "flushBatch 0 1 '''' 2 ''p'' [demo_symbol ''p'' ''c.go'' ''h''] [] demo_moved = (None, upsert_symbol 0 1 (demo_symbol ''p'' ''c.go'' ''h'') ?m)"
    using p by (simp add: flushBatch_def Let_def d stamp_symbol_def BulkUpsertSymbols_def BulkUpsertEdges_def)
  then have again: "demo_moved_again = upsert_symbol 0 1 (demo_symbol ''p'' ''c.go'' ''h'') ?m" by (simp add: demo_moved_again_def)
  have one: "ResolveStaleID ''p'' ''old.go::h#Function'' demo_moved_again = Some ''b.go::h#Function''"
    using redirect_not_followed [OF f, of "''old.go::h#Function''"] unfolding again
    by (simp add: ResolveStaleID_def [of _ _ demo_moved]) (simp add: demo_moved_def demo_symbol_def MakeSymbolID_def)
  have two: "ResolveStaleID ''p'' ''b.go::h#Function'' demo_moved_again = Some ''c.go::h#Function''"
    by (simp add: ResolveStaleID_def again upsert_symbol_def demo_moved_def)
  have "GetSymbolScoped ''p'' ''b.go::h#Function'' (DeleteSymbolsForFile ''p'' ''b.go'' demo_moved_again) = Some None"
    by (simp add: GetSymbolScoped_def delete_file_symbols again upsert_symbol_def insert_replace_def delete_where_def demo_moved_def demo_symbol_def
        MakeSymbolID_def symbol_key_def default_confidence_def)
  then show ?thesis using one two by blast
qed

end
