(* ===== verification/Index_Files.thy ===== *)
theory Index_Files
  imports Store_Behaviour
begin

text \<open>
  The extraction phase of an index run (\<open>indexImpl\<close> in \<open>internal/index/indexer.go\<close>, \<open>ExtractWithModule\<close> and
  \<open>disambiguateDuplicates\<close> in \<open>internal/ast/extractor.go\<close>): the main loop over the files the walker yields and one goroutine
  per changed file, which shares the buffers of symbols and edges with the others.

  What the language extractors return is a parameter, and so are the hash of a content, the detected language, the
  confidence of a symbol and the wording of the two diagnostics. A goroutine is a program counter; between two of its
  transactions others may run.
\<close>

section \<open>What an extractor returns\<close>

record 'f extracted_symbol =
  xs_Name :: string
  xs_QualifiedName :: string
  xs_Kind :: string
  xs_StartByte :: int
  xs_EndByte :: int
  xs_StartLine :: int
  xs_EndLine :: int
  xs_Signature :: string
  xs_ReturnType :: string
  xs_Docstring :: string
  xs_Parent :: string
  xs_IsExported :: bool
  xs_IsTest :: bool
  xs_IsEntryPoint :: bool
  xs_Complexity :: int
  xs_ExtractionConfidence :: 'f
  xs_Fields :: "(string \<times> string) list"
  xs_InterfaceMethods :: "string list"

record 'f file_result =
  r_Symbols :: "'f extracted_symbol list"
  r_Edges :: "'f pending_edge list"
  r_QNCollisions :: "(string \<times> int) list"

definition dup_key :: "'f extracted_symbol \<Rightarrow> string \<times> string" where
  "dup_key s = (xs_QualifiedName s, xs_Kind s)"

definition key_count :: "'f extracted_symbol list \<Rightarrow> string \<times> string \<Rightarrow> nat" where
  "key_count syms k = length (filter (\<lambda>s. dup_key s = k) syms)"

text \<open>The first symbol of a key keeps its name, the later ones get their line.\<close>

fun suffix_duplicates :: "(string \<times> string \<Rightarrow> nat) \<Rightarrow> (string \<times> string) list \<Rightarrow> 'f extracted_symbol list \<Rightarrow> 'f extracted_symbol list" where
  "suffix_duplicates count seen [] = []"
| "suffix_duplicates count seen (s # ss) =
     (if count (dup_key s) \<le> 1 then s # suffix_duplicates count seen ss
      else if dup_key s \<notin> set seen then s # suffix_duplicates count (dup_key s # seen) ss
      else s\<lparr>xs_QualifiedName := xs_QualifiedName s @ ''~'' @ show_int (xs_StartLine s)\<rparr> # suffix_duplicates count seen ss)"

text \<open>The collisions are a Go map by name; of two kinds of one name the later in the list stands for the last written.\<close>

definition collisions_of :: "'f extracted_symbol list \<Rightarrow> (string \<times> int) list" where
  "collisions_of syms =
     fold (\<lambda>k. insert_replace fst (fst k, int (key_count syms k))) (filter (\<lambda>k. key_count syms k > 1) (remdups (map dup_key syms))) []"

definition disambiguateDuplicates :: "'f file_result \<Rightarrow> 'f file_result" where
  "disambiguateDuplicates r =
     (if length (r_Symbols r) \<le> 1 then r
      else let collisions = collisions_of (r_Symbols r)
        in if collisions = [] then r
           else r\<lparr>r_Symbols := suffix_duplicates (key_count (r_Symbols r)) [] (r_Symbols r), r_QNCollisions := collisions\<rparr>)"

definition ExtractWithModule :: "('f extracted_symbol \<Rightarrow> 'f) \<Rightarrow> 'f file_result option \<Rightarrow> 'f file_result" where
  "ExtractWithModule conf raw =
     (case raw of
        None \<Rightarrow> \<lparr>r_Symbols = [], r_Edges = [], r_QNCollisions = []\<rparr>
      | Some r \<Rightarrow>
          let r1 = disambiguateDuplicates r
          in r1\<lparr>r_Symbols := map (\<lambda>s. s\<lparr>xs_ExtractionConfidence := conf s\<rparr>) (r_Symbols r1)\<rparr>)"

section \<open>The environment of a run\<close>

text \<open>An extractor panics with a message, returns nil, or a result.\<close>

datatype 'f extraction = Panics string | Returns "'f file_result option"

record ('c, 'f) index_env =
  ie_ProjectID :: string
  ie_Branch :: string
  ie_Binary :: string
  ie_Now :: int
  ie_Zero :: 'f
  ie_One :: 'f
  ie_Hash :: "'c \<Rightarrow> string"
  ie_Lang :: "string \<Rightarrow> 'c \<Rightarrow> string"
  ie_Extract :: "string \<Rightarrow> string \<Rightarrow> 'c \<Rightarrow> 'f extraction"
  ie_Confidence :: "string \<Rightarrow> string \<Rightarrow> 'c \<Rightarrow> 'f extracted_symbol \<Rightarrow> 'f"
  ie_NegativeText :: "'f extracted_symbol \<Rightarrow> string"
  ie_CollisionText :: "string \<Rightarrow> int \<Rightarrow> string"

section \<open>Diagnostics of a result\<close>

text \<open>A failure to record a failure is logged and ignored.\<close>

definition note_failure :: "('c, 'f) index_env \<Rightarrow> string \<Rightarrow> string \<Rightarrow> string \<Rightarrow> string \<Rightarrow> 'f store \<Rightarrow> 'f store" where
  "note_failure env path lang reason details st =
     (case RecordExtractionFailureWithBinary (ie_ProjectID env) path lang reason details (ie_Binary env) (ie_Now env) st of
        Inl _ \<Rightarrow> st | Inr st1 \<Rightarrow> st1)"

definition qnLastSegmentIsInit :: "string \<Rightarrow> bool" where
  "qnLastSegmentIsInit qn = (case last_index (CHR ''.'') qn of Some i \<Rightarrow> drop (i + 1) qn = ''init'' | None \<Rightarrow> qn = ''init'')"

definition overloadCapableLanguages :: "string list" where
  "overloadCapableLanguages = [''C#'', ''Java'', ''C++'', ''Swift'', ''Kotlin'']"

definition allASCIIDigits :: "string \<Rightarrow> bool" where
  "allASCIIDigits s \<longleftrightarrow> s \<noteq> '''' \<and> list_all is_digit_char s"

definition strip_line :: "string \<Rightarrow> string" where
  "strip_line qn =
     (case last_index (CHR ''~'') qn of
        Some i \<Rightarrow> if allASCIIDigits (drop (i + 1) qn) then take i qn else qn
      | None \<Rightarrow> qn)"

fun disjoint_ranges :: "(int \<times> int) list \<Rightarrow> bool" where
  "disjoint_ranges (a # b # rs) = (\<not> (fst b \<le> fst a \<or> fst b < snd a) \<and> disjoint_ranges (b # rs))"
| "disjoint_ranges _ = True"

definition collisionIsLegitimateOverload :: "string \<Rightarrow> 'f file_result \<Rightarrow> bool" where
  "collisionIsLegitimateOverload qn r =
     (let same = filter (\<lambda>s. strip_line (xs_QualifiedName s) = qn) (r_Symbols r);
          ranges = map (\<lambda>s. (xs_StartByte s, xs_EndByte s)) same
      in list_all (\<lambda>s. xs_Kind s = ''Function'' \<or> xs_Kind s = ''Method'') same \<and> length ranges \<ge> 2 \<and>
         disjoint_ranges (sort_stable (\<lambda>a b. fst a < fst b) ranges))"

definition negative_span :: "'f extracted_symbol \<Rightarrow> bool" where
  "negative_span s \<longleftrightarrow> xs_EndByte s < xs_StartByte s \<or> xs_EndByte s = xs_StartByte s \<and> xs_Kind s \<noteq> ''Module''"

definition worst_collision :: "string \<Rightarrow> 'f file_result \<Rightarrow> string \<times> int" where
  "worst_collision lang r =
     foldl (\<lambda>(worst, worstCount) (qn, n).
         if lang = ''Go'' \<and> qnLastSegmentIsInit qn then (worst, worstCount)
         else if lang \<in> set overloadCapableLanguages \<and> collisionIsLegitimateOverload qn r then (worst, worstCount)
         else if n > worstCount then (qn, n) else (worst, worstCount)) ('''', 0) (r_QNCollisions r)"

definition recordExtractionHeuristics ::
    "('c, 'f) index_env \<Rightarrow> string \<Rightarrow> string \<Rightarrow> 'f file_result \<Rightarrow> 'f store \<Rightarrow> 'f store" where
  "recordExtractionHeuristics env path lang r st =
     (let neg = filter negative_span (r_Symbols r);
          st1 = fold (\<lambda>s. note_failure env path lang ''byte_range_negative'' (ie_NegativeText env s)) neg st;
          keep1 = (if neg = [] then [] else [''byte_range_negative'']);
          (worst, n) = worst_collision lang r;
          collides = lang \<notin> {''Markdown'', ''TypeScript'', ''TSX''} \<and> r_QNCollisions r \<noteq> [] \<and> n > 0;
          st2 = (if collides then note_failure env path lang ''qualified_name_collision'' (ie_CollisionText env worst n) st1 else st1);
          keep2 = (if collides then [''qualified_name_collision''] else [])
      in PruneExtractionFailuresForFile (ie_ProjectID env) path (keep1 @ keep2) st2)"

section \<open>From a result to rows\<close>

definition to_symbol :: "('c, 'f) index_env \<Rightarrow> string \<Rightarrow> string \<Rightarrow> string \<Rightarrow> 'f extracted_symbol \<Rightarrow> 'f symbol" where
  "to_symbol env path lang hash s =
     \<lparr>s_ID = MakeSymbolID path (xs_QualifiedName s) (xs_Kind s), s_ProjectID = ie_ProjectID env, s_FilePath = path,
      s_Name = xs_Name s, s_QualifiedName = xs_QualifiedName s, s_Kind = xs_Kind s, s_Language = lang,
      s_StartByte = xs_StartByte s, s_EndByte = xs_EndByte s, s_StartLine = xs_StartLine s, s_EndLine = xs_EndLine s,
      s_Signature = xs_Signature s, s_ReturnType = xs_ReturnType s, s_Docstring = xs_Docstring s, s_Parent = xs_Parent s,
      s_Complexity = xs_Complexity s, s_IsExported = xs_IsExported s, s_IsTest = xs_IsTest s, s_IsEntryPoint = xs_IsEntryPoint s,
      s_FileHash = hash, s_ExtractionConfidence = xs_ExtractionConfidence s, s_Branch = ''''\<rparr>"

definition nameToID :: "'f symbol list \<Rightarrow> string \<rightharpoonup> string" where
  "nameToID syms = foldl (\<lambda>m s. m(s_Name s \<mapsto> s_ID s, s_QualifiedName s \<mapsto> s_ID s)) Map.empty syms"

definition name_id :: "(string \<rightharpoonup> string) \<Rightarrow> string \<Rightarrow> string" where
  "name_id m k = (case m k of None \<Rightarrow> '''' | Some i \<Rightarrow> i)"

definition bind_from :: "(string \<rightharpoonup> string) \<Rightarrow> string \<Rightarrow> string" where
  "bind_from m qn = (if name_id m qn = '''' then name_id m (last (split_on (CHR ''.'') [] qn)) else name_id m qn)"

record 'f routed =
  rt_Imports :: "'f pending_edge list"
  rt_Calls :: "'f pending_edge list"
  rt_Reads :: "'f pending_edge list"
  rt_UsesVar :: "'f pending_edge list"
  rt_Edges :: "'f resolved_edge list"

definition route_edge :: "string \<Rightarrow> string \<Rightarrow> string \<Rightarrow> (string \<rightharpoonup> string) \<Rightarrow> 'f routed \<Rightarrow> 'f pending_edge \<Rightarrow> 'f routed" where
  "route_edge pid lang path m rt e0 =
     (let e = e0\<lparr>e_FromFile := path\<rparr>
      in if e_Kind e = ''IMPORTS'' then rt\<lparr>rt_Imports := rt_Imports rt @ [e]\<rparr>
         else if (e_Kind e = ''READS'' \<or> e_Kind e = ''WRITES'') \<and> lang = ''Go'' then rt\<lparr>rt_Reads := rt_Reads rt @ [e]\<rparr>
         else if e_Kind e = ''USES_VAR'' then rt\<lparr>rt_UsesVar := rt_UsesVar rt @ [e]\<rparr>
         else let fromID = bind_from m (e_FromQN e); toID = name_id m (e_ToName e)
           in if fromID = '''' \<or> toID = '''' then
                if e_Kind e = ''CALLS'' \<and> (lang = ''Go'' \<or> lang = ''Python'' \<or> e_ReceiverType e \<noteq> '''')
                then rt\<lparr>rt_Calls := rt_Calls rt @ [e]\<rparr> else rt
              else rt\<lparr>rt_Edges := rt_Edges rt @ [\<lparr>g_ProjectID = pid, g_FromID = fromID, g_ToID = toID, g_Kind = e_Kind e,
                g_Confidence = e_Confidence e, g_Properties = '''', g_Source = '''', g_Branch = ''''\<rparr>]\<rparr>)"

definition route_edges :: "string \<Rightarrow> string \<Rightarrow> string \<Rightarrow> 'f symbol list \<Rightarrow> 'f pending_edge list \<Rightarrow> 'f routed" where
  "route_edges pid lang path syms es =
     foldl (route_edge pid lang path (nameToID syms))
       \<lparr>rt_Imports = [], rt_Calls = [], rt_Reads = [], rt_UsesVar = [], rt_Edges = []\<rparr> es"

definition deferred_of :: "'f routed \<Rightarrow> 'f pending_edge list" where
  "deferred_of rt = rt_Imports rt @ rt_Calls rt @ rt_Reads rt @ rt_UsesVar rt"

definition commit_of :: "('c, 'f) index_env \<Rightarrow> string \<Rightarrow> string \<Rightarrow> 'f file_result \<Rightarrow> 'f routed \<Rightarrow> 'f file_commit" where
  "commit_of env path hash r rt =
     \<lparr>fc_ProjectID = ie_ProjectID env, fc_FilePath = path, fc_FileHash = hash, fc_PendingEdges = deferred_of rt,
      fc_StructFields = concat (map (\<lambda>s. if xs_Kind s = ''Class'' then
          map (\<lambda>(f, t). \<lparr>sf_ProjectID = ie_ProjectID env, sf_StructID = MakeSymbolID path (xs_QualifiedName s) (xs_Kind s),
            sf_FieldName = f, sf_FieldType = t\<rparr>) (xs_Fields s) else []) (r_Symbols r)),
      fc_InterfaceMethods = concat (map (\<lambda>s. if xs_Kind s = ''Interface'' then
          map (\<lambda>n. \<lparr>im_ProjectID = ie_ProjectID env, im_InterfaceID = MakeSymbolID path (xs_QualifiedName s) (xs_Kind s),
            im_MethodName = n\<rparr>) (xs_InterfaceMethods s) else []) (r_Symbols r))\<rparr>"

end
