(* ===== verification/Index_Machine.thy ===== *)
theory Index_Machine
  imports Index_Files
begin

text \<open>
  The extraction phase as a step relation: the main loop takes the next file of the walk or a goroutine makes its next
  transaction, in any order. The fields of the machine are the variables of \<open>indexImpl\<close> that the goroutines share.
\<close>

section \<open>The gate of the main loop\<close>

text \<open>
  What the walk yields: the path relative to the root, the verdicts of \<open>ast.ShouldSkip\<close> and of \<open>ast.IsSourceFile\<close> or
  \<open>ast.MayHaveShebang\<close>, the size (none when the file cannot be examined) and the content (none when it cannot be read).
\<close>

record 'c walk_item =
  w_Path :: string
  w_Skip :: bool
  w_Source :: bool
  w_Size :: "int option"
  w_Content :: "'c option"

datatype 'c gated = Blocked | Passed_over | Too_large | Admitted 'c

definition gate :: "int \<Rightarrow> 'c walk_item \<Rightarrow> 'c gated" where
  "gate maxSize w =
     (if w_Skip w then Blocked
      else if isFixturePath (w_Path w) then Blocked
      else if \<not> w_Source w then Passed_over
      else (case (if maxSize > 0 then w_Size w else Some 0) of
          None \<Rightarrow> Passed_over
        | Some n \<Rightarrow> if maxSize > 0 \<and> n > maxSize then Too_large
            else (case w_Content w of None \<Rightarrow> Passed_over | Some c \<Rightarrow> Admitted c)))"

section \<open>The shared state\<close>

datatype 'f file_pc = At_start | Cleared | Checked "'f file_result" | Committed "'f file_result" | Finished

record ('c, 'f) machine =
  m_Store :: "'f store"
  m_SymBuf :: "'f symbol list"
  m_EdgeBuf :: "'f resolved_edge list"
  m_Imports :: "'f pending_edge list"
  m_Calls :: "'f pending_edge list"
  m_Reads :: "'f pending_edge list"
  m_UsesVar :: "'f pending_edge list"
  m_TotalSymbols :: nat
  m_TotalEdges :: nat
  m_TotalFiles :: nat
  m_Skipped :: nat
  m_Blocked :: nat
  m_Seen :: "string list"
  m_Extracted :: "string list"
  m_Referrers :: "string list"
  m_Expected :: "(string \<times> nat) list"
  m_Queue :: "'c walk_item list"
  m_Jobs :: "(string \<times> 'c \<times> 'f file_pc) list"

definition start_machine :: "'f store \<Rightarrow> 'c walk_item list \<Rightarrow> ('c, 'f) machine" where
  "start_machine st queue =
     \<lparr>m_Store = st, m_SymBuf = [], m_EdgeBuf = [], m_Imports = [], m_Calls = [], m_Reads = [], m_UsesVar = [],
      m_TotalSymbols = 0, m_TotalEdges = 0, m_TotalFiles = 0, m_Skipped = 0, m_Blocked = 0, m_Seen = [], m_Extracted = [],
      m_Referrers = [], m_Expected = [], m_Queue = queue, m_Jobs = []\<rparr>"

section \<open>The main loop\<close>

text \<open>\<open>force\<close> is that of the caller or the one a newer extractor version causes (\<open>binaryDriftForce\<close>).\<close>

definition admit :: "('c, 'f) index_env \<Rightarrow> bool \<Rightarrow> string \<Rightarrow> 'c \<Rightarrow> ('c, 'f) machine \<Rightarrow> ('c, 'f) machine" where
  "admit env force path c m =
     (let m1 = m\<lparr>m_Seen := m_Seen m @ [path]\<rparr>
      in if \<not> force \<and> GetFileHash (ie_ProjectID env) path (m_Store m) = ie_Hash env c then m1\<lparr>m_Skipped := m_Skipped m + 1\<rparr>
         else m1\<lparr>m_TotalFiles := m_TotalFiles m + 1, m_Extracted := m_Extracted m @ [path],
           m_Referrers := m_Referrers m @ FilesWithEdgesToFile (ie_ProjectID env) path (m_Store m),
           m_Jobs := m_Jobs m @ [(path, c, At_start)]\<rparr>)"

definition size_text :: "int option \<Rightarrow> int \<Rightarrow> string" where
  "size_text n cap = ''size='' @ show_int (case n of None \<Rightarrow> 0 | Some k \<Rightarrow> k) @ '' bytes (cap='' @ show_int cap @ '' bytes)''"

definition take_file :: "('c, 'f) index_env \<Rightarrow> bool \<Rightarrow> int \<Rightarrow> (string \<Rightarrow> string) \<Rightarrow> 'c walk_item \<Rightarrow> ('c, 'f) machine \<Rightarrow> ('c, 'f) machine" where
  "take_file env force maxSize detect w m =
     (case gate maxSize w of
        Blocked \<Rightarrow> m\<lparr>m_Blocked := m_Blocked m + 1\<rparr>
      | Passed_over \<Rightarrow> m
      | Too_large \<Rightarrow> m\<lparr>m_Blocked := m_Blocked m + 1,
          m_Store := note_failure env (w_Path w) (detect (w_Path w)) ''file_too_large'' (size_text (w_Size w) maxSize) (m_Store m)\<rparr>
      | Admitted c \<Rightarrow> admit env force (w_Path w) c m)"

section \<open>The goroutine of a file\<close>

definition stamp_hash :: "('c, 'f) index_env \<Rightarrow> string \<Rightarrow> 'c \<Rightarrow> ('c, 'f) machine \<Rightarrow> ('c, 'f) machine" where
  "stamp_hash env path c m = m\<lparr>m_Store := SetFileHash (ie_ProjectID env) path (ie_Hash env c) (ie_Now env) (m_Store m)\<rparr>"

text \<open>\<open>flushBuffers\<close>: the buffers are kept when the flush fails.\<close>

definition flushBuffers :: "('c, 'f) index_env \<Rightarrow> ('c, 'f) machine \<Rightarrow> sql_error option \<times> ('c, 'f) machine" where
  "flushBuffers env m =
     (case flushBatch (ie_Zero env) (ie_One env) (ie_Branch env) (ie_Now env) (ie_ProjectID env) (m_SymBuf m) (m_EdgeBuf m) (m_Store m) of
        (Some e, st) \<Rightarrow> (Some e, m\<lparr>m_Store := st\<rparr>)
      | (None, st) \<Rightarrow> (None, m\<lparr>m_Store := st, m_SymBuf := [], m_EdgeBuf := []\<rparr>))"

definition counted_flush :: "('c, 'f) index_env \<Rightarrow> ('c, 'f) machine \<Rightarrow> ('c, 'f) machine" where
  "counted_flush env m =
     snd (flushBuffers env (m\<lparr>m_TotalSymbols := m_TotalSymbols m + length (m_SymBuf m), m_TotalEdges := m_TotalEdges m + length (m_EdgeBuf m)\<rparr>))"

definition flush_size :: nat where "flush_size = 500"

text \<open>The part under the lock: the rows join the buffers, which are flushed when there are enough of them.\<close>

definition join_buffers :: "('c, 'f) index_env \<Rightarrow> string \<Rightarrow> 'f symbol list \<Rightarrow> 'f routed \<Rightarrow> ('c, 'f) machine \<Rightarrow> ('c, 'f) machine" where
  "join_buffers env path syms rt m =
     (let m1 = m\<lparr>m_SymBuf := m_SymBuf m @ syms, m_EdgeBuf := m_EdgeBuf m @ rt_Edges rt, m_Imports := m_Imports m @ rt_Imports rt,
            m_Calls := m_Calls m @ rt_Calls rt, m_Reads := m_Reads m @ rt_Reads rt, m_UsesVar := m_UsesVar m @ rt_UsesVar rt,
            m_Expected := m_Expected m @ [(path, length syms)]\<rparr>
      in if length (m_SymBuf m1) \<ge> flush_size then counted_flush env m1 else m1)"

definition rows_of :: "('c, 'f) index_env \<Rightarrow> string \<Rightarrow> 'c \<Rightarrow> 'f file_result \<Rightarrow> 'f symbol list" where
  "rows_of env path c r = map (to_symbol env path (ie_Lang env path c) (ie_Hash env c)) (r_Symbols r)"

definition route_of :: "('c, 'f) index_env \<Rightarrow> string \<Rightarrow> 'c \<Rightarrow> 'f file_result \<Rightarrow> 'f routed" where
  "route_of env path c r = route_edges (ie_ProjectID env) (ie_Lang env path c) path (rows_of env path c r) (r_Edges r)"

definition result_of :: "('c, 'f) index_env \<Rightarrow> string \<Rightarrow> 'c \<Rightarrow> 'f file_result option \<Rightarrow> 'f file_result" where
  "result_of env path c raw = ExtractWithModule (ie_Confidence env (ie_Lang env path c) path c) raw"

definition extract_step :: "('c, 'f) index_env \<Rightarrow> string \<Rightarrow> 'c \<Rightarrow> ('c, 'f) machine \<Rightarrow> 'f file_pc \<times> ('c, 'f) machine" where
  "extract_step env path c m =
     (let lang = ie_Lang env path c
      in case ie_Extract env lang path c of
           Panics msg \<Rightarrow> (Finished, stamp_hash env path c
             (m\<lparr>m_Store := note_failure env path lang ''extractor_panicked'' (''panic: '' @ msg) (m_Store m)\<rparr>))
         | Returns raw \<Rightarrow>
             let r = result_of env path c raw
             in if r_Symbols r = [] \<and> r_Edges r = [] then (Finished, stamp_hash env path c m)
                else (Checked r, m\<lparr>m_Store := recordExtractionHeuristics env path lang r (m_Store m)\<rparr>))"

definition file_step :: "('c, 'f) index_env \<Rightarrow> string \<Rightarrow> 'c \<Rightarrow> 'f file_pc \<Rightarrow> ('c, 'f) machine \<Rightarrow> 'f file_pc \<times> ('c, 'f) machine" where
  "file_step env path c pc m =
     (case pc of
        At_start \<Rightarrow>
          if ie_Lang env path c = '''' then (Finished, stamp_hash env path c m)
          else (Cleared, m\<lparr>m_Store := DeleteSymbolsForFile (ie_ProjectID env) path (m_Store m)\<rparr>)
      | Cleared \<Rightarrow> extract_step env path c m
      | Checked r \<Rightarrow>
          (Committed r, m\<lparr>m_Store := CommitFileExtraction (commit_of env path (ie_Hash env c) r (route_of env path c r)) (ie_Now env) (m_Store m)\<rparr>)
      | Committed r \<Rightarrow> (Finished, join_buffers env path (rows_of env path c r) (route_of env path c r) m)
      | Finished \<Rightarrow> (Finished, m))"

section \<open>Runs\<close>

text \<open>The counts of the project row are refreshed at times, by whichever goroutine flushed last.\<close>

definition refresh_counts :: "('c, 'f) index_env \<Rightarrow> nat \<Rightarrow> ('c, 'f) machine \<Rightarrow> ('c, 'f) machine" where
  "refresh_counts env files_done m =
     (let dbSyms = length (filter (\<lambda>s. s_ProjectID s = ie_ProjectID env) (t_symbols (m_Store m)));
          dbEdges = length (filter (\<lambda>g. g_ProjectID g = ie_ProjectID env) (t_edges (m_Store m)))
      in if dbSyms > 0
         then m\<lparr>m_Store := UpdateProjectCounts (ie_ProjectID env) (int files_done) (int dbSyms) (int dbEdges) (m_Store m)\<rparr> else m)"

inductive index_step :: "('c, 'f) index_env \<Rightarrow> bool \<Rightarrow> int \<Rightarrow> (string \<Rightarrow> string) \<Rightarrow> ('c, 'f) machine \<Rightarrow> ('c, 'f) machine \<Rightarrow> bool"
  for env force maxSize detect where
  take: "m_Queue m = w # ws \<Longrightarrow> index_step env force maxSize detect m (take_file env force maxSize detect w (m\<lparr>m_Queue := ws\<rparr>))"
| go: "k < length (m_Jobs m) \<Longrightarrow> m_Jobs m ! k = (path, c, pc) \<Longrightarrow> pc \<noteq> Finished \<Longrightarrow> file_step env path c pc m = (pc1, m1) \<Longrightarrow>
    index_step env force maxSize detect m (m1\<lparr>m_Jobs := (m_Jobs m)[k := (path, c, pc1)]\<rparr>)"
| refresh: "index_step env force maxSize detect m (refresh_counts env n m)"

inductive_cases index_stepE: "index_step env force maxSize detect m m1"

definition drained :: "('c, 'f) machine \<Rightarrow> bool" where
  "drained m \<longleftrightarrow> m_Queue m = [] \<and> (\<forall>(path, c, pc) \<in> set (m_Jobs m). pc = Finished)"

text \<open>The flush after the last goroutine.\<close>

definition final_flush :: "('c, 'f) index_env \<Rightarrow> ('c, 'f) machine \<Rightarrow> ('c, 'f) machine" where
  "final_flush env m = (if m_SymBuf m \<noteq> [] \<or> m_EdgeBuf m \<noteq> [] then counted_flush env m else m)"

text \<open>
  A cancelled context is seen before the next file is taken: the goroutines finish and the run ends with an error, without
  the final flush.
\<close>

definition cancel_run :: "('c, 'f) machine \<Rightarrow> 'f store" where
  "cancel_run m = m_Store m"

end
