(* ===== verification/Index_Correct.thy ===== *)
theory Index_Correct
  imports Index_Machine
begin

text \<open>
  What an index run leaves, for every interleaving of its goroutines: each file that was extracted has exactly the rows
  of its extraction, each other file keeps its rows, and so an incremental run leaves what a forced one would.
\<close>

section \<open>Symbol identifiers\<close>

text \<open>The ID of a row names its path: the path has no colon, and the ID is the path, two colons, and the rest.\<close>

definition id_ok :: "'f symbol \<Rightarrow> bool" where
  "id_ok s \<longleftrightarrow> s_ID s = MakeSymbolID (s_FilePath s) (s_QualifiedName s) (s_Kind s) \<and> CHR '':'' \<notin> set (s_FilePath s)"

lemma path_of_id: "CHR '':'' \<notin> set p \<Longrightarrow> takeWhile (\<lambda>c. c \<noteq> CHR '':'') (MakeSymbolID p qn k) = p"
  by (simp add: MakeSymbolID_def takeWhile_append2 takeWhile_tail) (metis (no_types, lifting) append_Nil2 takeWhile.simps(2) takeWhile_append2)

lemma same_id_same_path: "id_ok s \<Longrightarrow> id_ok t \<Longrightarrow> s_ID s = s_ID t \<Longrightarrow> s_FilePath s = s_FilePath t"
  by (metis id_ok_def path_of_id)

section \<open>What each transaction keeps\<close>

definition file_rows :: "string \<Rightarrow> string \<Rightarrow> 'f store \<Rightarrow> 'f symbol set" where
  "file_rows pid path st = {s \<in> set (t_symbols st). s_ProjectID s = pid \<and> s_FilePath s = path}"

text \<open>Two stores with the same symbols, file hashes and projects.\<close>

definition same_files :: "'f store \<Rightarrow> 'f store \<Rightarrow> bool" where
  "same_files st st1 \<longleftrightarrow> t_symbols st1 = t_symbols st \<and> t_files st1 = t_files st \<and> j_ID ` set (t_projects st1) = j_ID ` set (t_projects st)"

lemma same_files_refl: "same_files st st"
  by (simp add: same_files_def)

lemma same_files_trans: "same_files st st1 \<Longrightarrow> same_files st1 st2 \<Longrightarrow> same_files st st2"
  by (simp add: same_files_def)

lemma same_filesD:
  assumes "same_files st st1"
  shows "file_rows pid path st1 = file_rows pid path st" and "GetFileHash pid path st1 = GetFileHash pid path st"
    and "has_project st1 i = has_project st i" and "t_symbols st1 = t_symbols st"
  using assms by (simp_all add: same_files_def file_rows_def GetFileHash_def has_project_def)

lemma note_failure_files: "same_files st (note_failure env path lang reason details st)"
  by (auto simp: same_files_def note_failure_def RecordExtractionFailureWithBinary_def Let_def split: sum.split)

lemma fold_files: "(\<And>x u. same_files u (f x u)) \<Longrightarrow> same_files st (fold f xs st)"
  by (induction xs arbitrary: st) (auto intro: same_files_refl same_files_trans)

lemma prune_files: "same_files st (PruneExtractionFailuresForFile p f keep st)"
  by (simp add: same_files_def PruneExtractionFailuresForFile_def)

lemma heuristics_files: "same_files st (recordExtractionHeuristics env path lang r st)"
proof -
  let ?st1 = "fold (\<lambda>s. note_failure env path lang ''byte_range_negative'' (ie_NegativeText env s)) (filter negative_span (r_Symbols r)) st"
  have "same_files st ?st1" by (rule fold_files) (rule note_failure_files)
  then have "same_files st (if b then note_failure env path lang x y ?st1 else ?st1)" for b x y
    using note_failure_files [of ?st1 env path lang x y] by (cases b) (auto intro: same_files_trans)
  then show ?thesis unfolding recordExtractionHeuristics_def Let_def case_prod_beta
    by (rule same_files_trans [OF _ prune_files])
qed

lemma refresh_files: "same_files (m_Store m) (m_Store (refresh_counts env n m))"
proof -
  have "map j_ID (update_where (\<lambda>p. j_ID p = i) (\<lambda>p. p\<lparr>j_FileCount := a, j_SymCount := b, j_EdgeCount := c\<rparr>) t) = map j_ID t" for i a b c t
    by (simp add: update_where_def)
  then have same: "j_ID ` set (update_where (\<lambda>p. j_ID p = i) (\<lambda>p. p\<lparr>j_FileCount := a, j_SymCount := b, j_EdgeCount := c\<rparr>) t) = j_ID ` set t" for i a b c t
    by (metis set_map)
  show ?thesis by (simp add: refresh_counts_def Let_def UpdateProjectCounts_def same_files_def) (intro impI same)
qed

lemma GetFileHash_set_other: "(p, f) \<noteq> (q, g) \<Longrightarrow> GetFileHash q g (SetFileHash p f h now st) = GetFileHash q g st"
proof -
  assume ne: "(p, f) \<noteq> (q, g)"
  have "find P (filter Q t @ [r]) = find P t" if "\<not> P r" "\<And>x. P x \<Longrightarrow> Q x" for P Q and t :: "file_row list" and r
    using that by (induction t) auto
  from this [of "\<lambda>r. f_ProjectID r = q \<and> f_Path r = g" "\<lparr>f_ProjectID = p, f_Path = f, f_Hash = h, f_IndexedAt = now\<rparr>"
      "\<lambda>x. \<not> (f_ProjectID x = p \<and> f_Path x = f)" "t_files st"] ne
  show ?thesis by (auto simp: GetFileHash_def SetFileHash_def insert_replace_def delete_where_def file_key_def)
qed

lemma GetFileHash_SetFileHash: "GetFileHash q g (SetFileHash p f h now st) = (if (q, g) = (p, f) then h else GetFileHash q g st)"
  using GetFileHash_set [of p f h now st] GetFileHash_set_other [of p f q g h now st] by auto

lemma SetFileHash_keeps [simp]: "t_symbols (SetFileHash p f h now st) = t_symbols st" "t_projects (SetFileHash p f h now st) = t_projects st"
  by (simp_all add: SetFileHash_def)

lemma commit_keeps [simp]:
  "t_symbols (CommitFileExtraction c now st) = t_symbols st" "t_projects (CommitFileExtraction c now st) = t_projects st"
  by (simp_all add: CommitFileExtraction_def Let_def put_pending_def put_fields_def put_methods_def delete_fields_of_def delete_methods_of_def)

lemma GetFileHash_commit:
  "GetFileHash q g (CommitFileExtraction c now st) = (if (q, g) = (fc_ProjectID c, fc_FilePath c) then fc_FileHash c else GetFileHash q g st)"
  by (simp add: CommitFileExtraction_def Let_def GetFileHash_SetFileHash)
    (simp add: GetFileHash_def put_pending_def put_fields_def put_methods_def delete_fields_of_def delete_methods_of_def Let_def)

lemma delete_file_keeps [simp]: "t_projects (DeleteSymbolsForFile p f st) = t_projects st" "t_files (DeleteSymbolsForFile p f st) = t_files st"
  by (simp_all add: DeleteSymbolsForFile_def Let_def delete_fields_of_def delete_methods_of_def)

lemma GetFileHash_delete_file [simp]: "GetFileHash q g (DeleteSymbolsForFile p f st) = GetFileHash q g st"
  by (simp add: GetFileHash_def)

lemma file_rows_delete: "file_rows pid g (DeleteSymbolsForFile pid f st) = (if g = f then {} else file_rows pid g st)"
  by (auto simp: file_rows_def delete_file_symbols)

section \<open>The flush\<close>

lemma fold_insert_replace_distinct:
  "distinct (map (key \<circ> f) xs) \<Longrightarrow> fold (\<lambda>x. insert_replace key (f x)) xs [] = map f xs"
proof (induction xs rule: rev_induct)
  case (snoc x xs)
  then have "key (f x) \<notin> (key \<circ> f) ` set xs" by simp
  then have "filter (\<lambda>r. \<not> key r = key (f x)) (map f xs) = map f xs" by (auto simp: filter_id_conv image_iff)
  then show ?case using snoc by (simp add: insert_replace_def delete_where_def)
qed simp

lemma upsert_symbols_table:
  "t_symbols (fold (upsert_symbol zr on) syms st) = fold (\<lambda>s. insert_replace symbol_key (default_confidence zr on s)) syms (t_symbols st)"
  by (induction syms arbitrary: st) (simp_all add: upsert_symbol_def)

lemma upsert_symbols_distinct:
  assumes "distinct (map symbol_key syms)"
  shows "t_symbols (fold (upsert_symbol zr on) syms st) =
    filter (\<lambda>r. symbol_key r \<notin> symbol_key ` set syms) (t_symbols st) @ map (default_confidence zr on) syms"
  using assms unfolding upsert_symbols_table
  by (subst fold_insert_replace) (simp add: comp_def fold_insert_replace_distinct)

lemma upsert_symbols_other: "t_projects (fold (upsert_symbol zr on) syms st) = t_projects st" "t_files (fold (upsert_symbol zr on) syms st) = t_files st"
  by (induction syms arbitrary: st) (simp_all add: upsert_symbol_def)

lemma detect_moves_other:
  "t_projects (DetectAndRecordMoves p syms now st) = t_projects st" "t_files (DetectAndRecordMoves p syms now st) = t_files st"
  "t_symbols (DetectAndRecordMoves p syms now st) = t_symbols st"
  by (induction syms arbitrary: st) (auto simp: DetectAndRecordMoves_def detect_move_def RecordSymbolMove_def split: option.split)

text \<open>The row a flush writes for a buffered symbol.\<close>

definition stored_row :: "('c, 'f) index_env \<Rightarrow> 'f symbol \<Rightarrow> 'f symbol" where
  "stored_row env s = default_confidence (ie_Zero env) (ie_One env) (stamp_symbol (ie_Branch env) s)"

lemma stored_row_ids [simp]: "s_ID (stored_row env s) = s_ID s" "s_ProjectID (stored_row env s) = s_ProjectID s"
    "s_FilePath (stored_row env s) = s_FilePath s" "s_QualifiedName (stored_row env s) = s_QualifiedName s" "s_Kind (stored_row env s) = s_Kind s"
  by (simp_all add: stored_row_def default_confidence_def stamp_symbol_def)

lemma stored_row_key [simp]: "symbol_key (stored_row env s) = symbol_key s"
  by (simp add: symbol_key_def)

lemma flushBatch_rows:
  assumes "has_project st pid" and "\<And>s. s \<in> set syms \<Longrightarrow> s_ProjectID s = pid" and "\<And>g. g \<in> set gs \<Longrightarrow> g_ProjectID g = pid"
    and "distinct (map s_ID syms)" and "pid = ie_ProjectID env"
  shows "\<exists>st1. flushBatch (ie_Zero env) (ie_One env) (ie_Branch env) now pid syms gs st = (None, st1) \<and>
    t_projects st1 = t_projects st \<and> t_files st1 = t_files st \<and>
    t_symbols st1 = filter (\<lambda>r. symbol_key r \<notin> symbol_key ` set syms) (t_symbols st) @ map (stored_row env) syms"
proof -
  let ?b = "ie_Branch env"
  let ?syms = "map (stamp_symbol ?b) syms" and ?gs = "map (stamp_edge ?b) gs"
  define st1 where "st1 = (if ?syms \<noteq> [] then DetectAndRecordMoves pid ?syms now st else st)"
  define st2 where "st2 = fold (upsert_symbol (ie_Zero env) (ie_One env)) ?syms st1"
  have stamp: "s_ID (stamp_symbol ?b s) = s_ID s" "s_ProjectID (stamp_symbol ?b s) = s_ProjectID s" "symbol_key (stamp_symbol ?b s) = symbol_key s"
    "g_ProjectID (stamp_edge ?b g) = g_ProjectID g" for s g
    by (simp_all add: stamp_symbol_def stamp_edge_def symbol_key_def)
  have st1: "t_projects st1 = t_projects st" "t_files st1 = t_files st" "t_symbols st1 = t_symbols st"
    by (simp_all add: st1_def detect_moves_other)
  have "inj_on symbol_key (set syms)"
    using assms(2,4) by (auto simp: inj_on_def symbol_key_def distinct_map)
  then have "distinct (map symbol_key ?syms)" using assms(4) by (simp add: distinct_map comp_def stamp inj_on_def)
  from upsert_symbols_distinct [OF this]
  have t2: "t_symbols st2 = filter (\<lambda>r. symbol_key r \<notin> symbol_key ` set syms) (t_symbols st) @ map (stored_row env) syms"
    by (simp add: st2_def st1 stored_row_def image_image stamp)
  have o2: "t_projects st2 = t_projects st" "t_files st2 = t_files st" by (simp_all add: st2_def upsert_symbols_other st1)
  have up: "BulkUpsertSymbols (ie_Zero env) (ie_One env) ?syms st1 = Inr st2"
    using assms(1,2) by (auto simp: BulkUpsertSymbols_def st2_def stamp has_project_def st1)
  have "\<exists>st3. insertEdgesTx ?gs st2 = Inr st3"
    by (rule insertEdgesTx_total) (use assms(1,3) o2 in \<open>auto simp: stamp has_project_def\<close>)
  then obtain st3 where g: "BulkUpsertEdges ?gs st2 = Inr st3" and "?gs = [] \<longrightarrow> st3 = st2" "?gs \<noteq> [] \<longrightarrow> insertEdgesTx ?gs st2 = Inr st3"
    by (cases "?gs = []") (auto simp: BulkUpsertEdges_def)
  then have "t_symbols st3 = t_symbols st2 \<and> t_projects st3 = t_projects st2 \<and> t_files st3 = t_files st2"
    using insertEdgesTx_other by blast
  then show ?thesis using t2 o2 up g by (simp add: flushBatch_def Let_def st1_def)
qed

section \<open>The invariant of the extraction phase\<close>

text \<open>The rows an extraction of a content gives.\<close>

definition outcome :: "('c, 'f) index_env \<Rightarrow> string \<Rightarrow> 'c \<Rightarrow> 'f symbol list" where
  "outcome env path c =
     (case ie_Extract env (ie_Lang env path c) path c of
        Panics msg \<Rightarrow> [] | Returns raw \<Rightarrow> rows_of env path c (result_of env path c raw))"

text \<open>What is known of a path: its rows, its buffered rows, its stored hash.\<close>

definition view :: "('c, 'f) index_env \<Rightarrow> string \<Rightarrow> ('c, 'f) machine \<Rightarrow> 'f symbol set \<times> 'f symbol list \<times> string" where
  "view env path m = (file_rows (ie_ProjectID env) path (m_Store m), filter (\<lambda>s. s_FilePath s = path) (m_SymBuf m),
     GetFileHash (ie_ProjectID env) path (m_Store m))"

definition job_ok :: "('c, 'f) index_env \<Rightarrow> 'f store \<Rightarrow> string \<Rightarrow> 'c \<Rightarrow> 'f file_pc \<Rightarrow> 'f symbol set \<times> 'f symbol list \<times> string \<Rightarrow> bool" where
  "job_ok env st0 path c pc v =
     (case v of (rows, buf, h) \<Rightarrow>
        (case pc of
           At_start \<Rightarrow> rows = file_rows (ie_ProjectID env) path st0 \<and> buf = []
         | Cleared \<Rightarrow> rows = {} \<and> buf = [] \<and> ie_Lang env path c \<noteq> ''''
         | Checked r \<Rightarrow> rows = {} \<and> buf = [] \<and> ie_Lang env path c \<noteq> '''' \<and> rows_of env path c r = outcome env path c
         | Committed r \<Rightarrow> rows = {} \<and> buf = [] \<and> ie_Lang env path c \<noteq> '''' \<and> rows_of env path c r = outcome env path c \<and> h = ie_Hash env c
         | Finished \<Rightarrow> h = ie_Hash env c \<and>
             (if ie_Lang env path c = '''' then rows = file_rows (ie_ProjectID env) path st0 \<and> buf = []
              else rows = {} \<and> buf = outcome env path c \<or> buf = [] \<and> rows = stored_row env ` set (outcome env path c))))"

text \<open>The files of a walk: paths without a colon, and extractions whose rows have distinct IDs.\<close>

definition clean_file :: "('c, 'f) index_env \<Rightarrow> string \<Rightarrow> 'c \<Rightarrow> bool" where
  "clean_file env path c \<longleftrightarrow> CHR '':'' \<notin> set path \<and> distinct (map s_ID (outcome env path c))"

definition clean_walk :: "('c, 'f) index_env \<Rightarrow> 'c walk_item list \<Rightarrow> bool" where
  "clean_walk env ws \<longleftrightarrow> distinct (map w_Path ws) \<and> list_all (\<lambda>w. pred_option (clean_file env (w_Path w)) (w_Content w)) ws"

definition rows_ok :: "string \<Rightarrow> 'f store \<Rightarrow> bool" where
  "rows_ok pid st \<longleftrightarrow> has_project st pid \<and> (\<forall>s \<in> set (t_symbols st). s_ProjectID s = pid \<longrightarrow> id_ok s)"

definition buffers_ok :: "('c, 'f) index_env \<Rightarrow> ('c, 'f) machine \<Rightarrow> bool" where
  "buffers_ok env m \<longleftrightarrow>
     (\<forall>s \<in> set (m_SymBuf m). s_ProjectID s = ie_ProjectID env \<and> id_ok s) \<and>
     (\<forall>g \<in> set (m_EdgeBuf m). g_ProjectID g = ie_ProjectID env) \<and> distinct (map s_ID (m_SymBuf m))"

definition jobs_ok :: "('c, 'f) index_env \<Rightarrow> 'f store \<Rightarrow> ('c, 'f) machine \<Rightarrow> bool" where
  "jobs_ok env st0 m \<longleftrightarrow>
     (\<forall>(path, c, pc) \<in> set (m_Jobs m). clean_file env path c \<and> job_ok env st0 path c pc (view env path m)) \<and>
     (\<forall>path. path \<notin> fst ` set (m_Jobs m) \<longrightarrow>
        view env path m = (file_rows (ie_ProjectID env) path st0, [], GetFileHash (ie_ProjectID env) path st0))"

definition queue_ok :: "('c, 'f) index_env \<Rightarrow> ('c, 'f) machine \<Rightarrow> bool" where
  "queue_ok env m \<longleftrightarrow> distinct (map fst (m_Jobs m) @ map w_Path (m_Queue m)) \<and> clean_walk env (m_Queue m)"

text \<open>The content a run extracts of a path: that of the first file of the walk with the path, when it is admitted and new.\<close>

definition planned :: "('c, 'f) index_env \<Rightarrow> bool \<Rightarrow> int \<Rightarrow> 'f store \<Rightarrow> 'c walk_item list \<Rightarrow> string \<Rightarrow> 'c option" where
  "planned env force maxSize st queue p =
     (case find (\<lambda>w. w_Path w = p) queue of None \<Rightarrow> None
      | Some w \<Rightarrow> (case gate maxSize w of
            Admitted c \<Rightarrow> if \<not> force \<and> GetFileHash (ie_ProjectID env) p st = ie_Hash env c then None else Some c
          | _ \<Rightarrow> None))"

definition taken_ok :: "('c, 'f) index_env \<Rightarrow> bool \<Rightarrow> int \<Rightarrow> 'f store \<Rightarrow> 'c walk_item list \<Rightarrow> ('c, 'f) machine \<Rightarrow> bool" where
  "taken_ok env force maxSize st0 queue m \<longleftrightarrow> set (m_Queue m) \<subseteq> set queue \<and>
     (\<forall>(p, c) \<in> (\<lambda>(p, c, pc). (p, c)) ` set (m_Jobs m). planned env force maxSize st0 queue p = Some c) \<and>
     (\<forall>p c. planned env force maxSize st0 queue p = Some c \<longrightarrow> p \<in> w_Path ` set (m_Queue m) \<or> p \<in> fst ` set (m_Jobs m))"

definition run_ok :: "('c, 'f) index_env \<Rightarrow> bool \<Rightarrow> int \<Rightarrow> 'f store \<Rightarrow> 'c walk_item list \<Rightarrow> ('c, 'f) machine \<Rightarrow> bool" where
  "run_ok env force maxSize st0 queue m \<longleftrightarrow>
     rows_ok (ie_ProjectID env) (m_Store m) \<and> buffers_ok env m \<and> jobs_ok env st0 m \<and> queue_ok env m \<and> taken_ok env force maxSize st0 queue m"

lemma gate_content: "gate maxSize w = Admitted c \<Longrightarrow> w_Content w = Some c"
  by (auto simp: gate_def split: if_splits option.splits)

lemma rows_of_fields: "s \<in> set (rows_of env path c r) \<Longrightarrow> s_FilePath s = path \<and> s_ProjectID s = ie_ProjectID env \<and> (CHR '':'' \<notin> set path \<longrightarrow> id_ok s)"
  by (auto simp: rows_of_def to_symbol_def id_ok_def)

lemma outcome_fields: "s \<in> set (outcome env path c) \<Longrightarrow> s_FilePath s = path \<and> s_ProjectID s = ie_ProjectID env \<and> (CHR '':'' \<notin> set path \<longrightarrow> id_ok s)"
  by (auto simp: outcome_def dest: rows_of_fields split: extraction.splits)

lemma planned_path: "planned env force maxSize st queue p = Some c \<Longrightarrow> p \<in> w_Path ` set queue"
  by (auto simp: planned_def find_Some_iff split: option.splits)

lemma find_path: "distinct (map w_Path queue) \<Longrightarrow> w \<in> set queue \<Longrightarrow> find (\<lambda>v. w_Path v = w_Path w) queue = Some w"
  by (induction queue) auto

lemma start_ok:
  assumes "rows_ok (ie_ProjectID env) st" and "clean_walk env queue"
  shows "run_ok env force maxSize st queue (start_machine st queue)"
  using assms
  by (auto simp: run_ok_def start_machine_def buffers_ok_def jobs_ok_def queue_ok_def taken_ok_def view_def clean_walk_def
    dest: planned_path)

section \<open>Every step keeps it\<close>

lemma view_jobs [simp]: "view env path (m\<lparr>m_Jobs := js\<rparr>) = view env path m" "view env path (m\<lparr>m_Queue := ws\<rparr>) = view env path m"
  by (simp_all add: view_def)

lemma view_same_files: "same_files (m_Store m) st1 \<Longrightarrow> view env path (m\<lparr>m_Store := st1\<rparr>) = view env path m"
  by (simp add: view_def same_filesD)

lemma view_stamp:
  "view env q (stamp_hash env path c m) = (if q = path then (fst (view env q m), fst (snd (view env q m)), ie_Hash env c) else view env q m)"
  by (simp add: view_def stamp_hash_def GetFileHash_SetFileHash file_rows_def)

lemma rows_ok_same: "same_files st st1 \<Longrightarrow> rows_ok pid st1 = rows_ok pid st"
  by (simp add: rows_ok_def same_filesD)

lemma rows_ok_sub: "rows_ok pid st \<Longrightarrow> set (t_symbols st1) \<subseteq> set (t_symbols st) \<Longrightarrow> t_projects st1 = t_projects st \<Longrightarrow> rows_ok pid st1"
  by (auto simp: rows_ok_def has_project_def)

lemma job_update:
  assumes "run_ok env force maxSize st0 queue m" and k: "k < length (m_Jobs m)" "m_Jobs m ! k = (path, c, pc)"
    and "m_Jobs m1 = m_Jobs m" "m_Queue m1 = m_Queue m" and "rows_ok (ie_ProjectID env) (m_Store m1)" and "buffers_ok env m1"
    and other: "\<And>q. q \<noteq> path \<Longrightarrow> view env q m1 = view env q m" and own: "job_ok env st0 path c pc1 (view env path m1)"
  shows "run_ok env force maxSize st0 queue (m1\<lparr>m_Jobs := (m_Jobs m)[k := (path, c, pc1)]\<rparr>)"
proof -
  let ?js = "(m_Jobs m)[k := (path, c, pc1)]"
  note ok = assms(1)[unfolded run_ok_def]
  have kin: "(path, c, pc) \<in> set (m_Jobs m)" using nth_mem [OF k(1)] k(2) by simp
  have paths: "map fst ?js = map fst (m_Jobs m)" 
    using k list_update_id [of "map fst (m_Jobs m)" k] by (simp add: map_update)
  have ends: "map (\<lambda>(p, c, pc). (p, c)) ?js = map (\<lambda>(p, c, pc). (p, c)) (m_Jobs m)"
    using k list_update_id [of "map (\<lambda>(p, c, pc). (p, c)) (m_Jobs m)" k] by (simp add: map_update)
  have d: "distinct (map fst (m_Jobs m))" using ok by (simp add: queue_ok_def)
  have nth: "i < length ?js \<Longrightarrow> ?js ! i = (if i = k then (path, c, pc1) else m_Jobs m ! i)" for i
    by (simp add: nth_list_update)
  have path_k: "fst (m_Jobs m ! i) = path \<Longrightarrow> i = k" if "i < length (m_Jobs m)" for i
    using nth_eq_iff_index_eq [OF d, of i k] k that by simp
  have jobs: "jobs_ok env st0 (m1\<lparr>m_Jobs := ?js\<rparr>)"
    unfolding jobs_ok_def
  proof (intro conjI ballI allI impI)
    fix x assume "x \<in> set (m_Jobs (m1\<lparr>m_Jobs := ?js\<rparr>))"
    then obtain i where i: "i < length (m_Jobs m)" "x = ?js ! i" by (auto simp: in_set_conv_nth)
    show "case x of (path, c, pc) \<Rightarrow> clean_file env path c \<and> job_ok env st0 path c pc (view env path (m1\<lparr>m_Jobs := ?js\<rparr>))"
    proof (cases "i = k")
      case True
      then have "x = (path, c, pc1)" using i nth by simp
      moreover have "clean_file env path c" using ok kin unfolding jobs_ok_def by fast
      ultimately show ?thesis using own by simp
    next
      case False
      then have "x = m_Jobs m ! i" "fst x \<noteq> path" using i nth path_k by auto
      moreover from this(1) have "x \<in> set (m_Jobs m)" using i by simp
      moreover obtain p b q where "x = (p, b, q)" by (rule prod_cases3)
      moreover have "\<forall>(path, c, pc) \<in> set (m_Jobs m). clean_file env path c \<and> job_ok env st0 path c pc (view env path m)"
        using ok unfolding jobs_ok_def by (rule conjunct1 [OF conjunct1 [OF conjunct2 [OF conjunct2]]])
      ultimately show ?thesis using other by (simp) fastforce
    qed
  next
    fix q assume "q \<notin> fst ` set (m_Jobs (m1\<lparr>m_Jobs := ?js\<rparr>))"
    then have "q \<notin> fst ` set (m_Jobs m)" using paths by (simp only: set_map [symmetric] machine.simps) simp
    moreover from this have "q \<noteq> path" using kin by force
    ultimately show "view env q (m1\<lparr>m_Jobs := ?js\<rparr>) = (file_rows (ie_ProjectID env) q st0, [], GetFileHash (ie_ProjectID env) q st0)"
      using ok other by (simp add: jobs_ok_def)
  qed
  have sets: "(\<lambda>(p, c, pc). (p, c)) ` set ?js = (\<lambda>(p, c, pc). (p, c)) ` set (m_Jobs m)" "fst ` set ?js = fst ` set (m_Jobs m)"
    by (simp_all only: set_map [symmetric] ends paths)
  show ?thesis
    using ok assms(4-7) jobs paths sets
    by (simp add: run_ok_def queue_ok_def buffers_ok_def taken_ok_def)
qed

text \<open>The changes of one goroutine that touch no other path.\<close>

definition local_step :: "('c, 'f) index_env \<Rightarrow> string \<Rightarrow> ('c, 'f) machine \<Rightarrow> ('c, 'f) machine \<Rightarrow> bool" where
  "local_step env path m m1 \<longleftrightarrow> m_Jobs m1 = m_Jobs m \<and> m_Queue m1 = m_Queue m \<and>
     (rows_ok (ie_ProjectID env) (m_Store m) \<longrightarrow> rows_ok (ie_ProjectID env) (m_Store m1)) \<and>
     (buffers_ok env m \<longrightarrow> buffers_ok env m1) \<and> (\<forall>q. q \<noteq> path \<longrightarrow> view env q m1 = view env q m)"

lemma local_store:
  assumes "set (t_symbols st1) \<subseteq> set (t_symbols (m_Store m))" and "j_ID ` set (t_projects st1) = j_ID ` set (t_projects (m_Store m))"
    and "\<And>q. q \<noteq> path \<Longrightarrow> file_rows (ie_ProjectID env) q st1 = file_rows (ie_ProjectID env) q (m_Store m)"
    and "\<And>q. q \<noteq> path \<Longrightarrow> GetFileHash (ie_ProjectID env) q st1 = GetFileHash (ie_ProjectID env) q (m_Store m)"
  shows "local_step env path m (m\<lparr>m_Store := st1\<rparr>)"
proof -
  have "has_project st1 i = has_project (m_Store m) i" for i
    using assms(2) by (simp add: has_project_def)
  then show ?thesis using assms by (auto simp: local_step_def rows_ok_def buffers_ok_def view_def)
qed

lemma stamp_local: "local_step env path m (stamp_hash env path c m)"
  unfolding stamp_hash_def by (rule local_store) (simp_all add: GetFileHash_SetFileHash file_rows_def)

lemma same_files_local: "same_files (m_Store m) st1 \<Longrightarrow> local_step env path m (m\<lparr>m_Store := st1\<rparr>)"
  by (rule local_store) (simp_all add: same_filesD(1,2), simp_all add: same_files_def)

lemma clear_local: "local_step env path m (m\<lparr>m_Store := DeleteSymbolsForFile (ie_ProjectID env) path (m_Store m)\<rparr>)"
  by (rule local_store) (auto simp: file_rows_delete delete_file_symbols)

lemma commit_local:
  "fc_ProjectID cm = ie_ProjectID env \<Longrightarrow> fc_FilePath cm = path \<Longrightarrow> local_step env path m (m\<lparr>m_Store := CommitFileExtraction cm now (m_Store m)\<rparr>)"
  by (rule local_store) (auto simp: GetFileHash_commit file_rows_def)

lemma local_trans: "local_step env path m m1 \<Longrightarrow> local_step env path m1 m2 \<Longrightarrow> local_step env path m m2"
  by (simp add: local_step_def)

lemma job_local:
  assumes "run_ok env force maxSize st0 queue m" and "k < length (m_Jobs m)" "m_Jobs m ! k = (path, c, pc)"
    and "local_step env path m m1" and "job_ok env st0 path c pc1 (view env path m1)"
  shows "run_ok env force maxSize st0 queue (m1\<lparr>m_Jobs := (m_Jobs m)[k := (path, c, pc1)]\<rparr>)"
  using assms(4) by (intro job_update [OF assms(1-3)]) (use assms(1,5) in \<open>auto simp: local_step_def run_ok_def\<close>)

lemma job_of:
  assumes "run_ok env force maxSize st0 queue m" and "k < length (m_Jobs m)" "m_Jobs m ! k = (path, c, pc)"
  shows "job_ok env st0 path c pc (view env path m)" and "clean_file env path c"
proof -
  have "(path, c, pc) \<in> set (m_Jobs m)" using nth_mem [OF assms(2)] assms(3) by simp
  then show "job_ok env st0 path c pc (view env path m)" "clean_file env path c"
    using assms(1) unfolding run_ok_def jobs_ok_def by fast+
qed

lemma view_clear: "view env path (m\<lparr>m_Store := DeleteSymbolsForFile (ie_ProjectID env) path (m_Store m)\<rparr>) = ({}, snd (view env path m))"
  by (simp add: view_def file_rows_delete)

lemma start_step:
  assumes "run_ok env force maxSize st0 queue m" and "k < length (m_Jobs m)" "m_Jobs m ! k = (path, c, At_start)"
    and "file_step env path c At_start m = (pc1, m1)"
  shows "run_ok env force maxSize st0 queue (m1\<lparr>m_Jobs := (m_Jobs m)[k := (path, c, pc1)]\<rparr>)"
proof (cases "ie_Lang env path c = ''''")
  case True
  then have "pc1 = Finished" "m1 = stamp_hash env path c m" using assms(4) by (simp_all add: file_step_def)
  then show ?thesis using job_local [OF assms(1-3) stamp_local] job_of(1) [OF assms(1-3)] True
    by (cases "view env path m") (simp add: view_stamp job_ok_def)
next
  case False
  then have "pc1 = Cleared" "m1 = m\<lparr>m_Store := DeleteSymbolsForFile (ie_ProjectID env) path (m_Store m)\<rparr>"
    using assms(4) by (simp_all add: file_step_def)
  then show ?thesis using job_local [OF assms(1-3) clear_local] job_of(1) [OF assms(1-3)] False
    by (cases "view env path m") (simp only: view_clear, simp add: job_ok_def)
qed

lemma cleared_step:
  assumes "run_ok env force maxSize st0 queue m" and "k < length (m_Jobs m)" "m_Jobs m ! k = (path, c, Cleared)"
    and "extract_step env path c m = (pc1, m1)"
  shows "run_ok env force maxSize st0 queue (m1\<lparr>m_Jobs := (m_Jobs m)[k := (path, c, pc1)]\<rparr>)"
proof -
  let ?lang = "ie_Lang env path c"
  have v: "job_ok env st0 path c Cleared (view env path m)" by (rule job_of(1) [OF assms(1-3)])
  have "local_step env path m m1 \<and> job_ok env st0 path c pc1 (view env path m1)"
  proof (cases "ie_Extract env ?lang path c")
    case (Panics msg)
    let ?m = "m\<lparr>m_Store := note_failure env path ?lang ''extractor_panicked'' (''panic: '' @ msg) (m_Store m)\<rparr>"
    have "pc1 = Finished" "m1 = stamp_hash env path c ?m" using assms(4) Panics by (simp_all add: extract_step_def Let_def)
    moreover have "local_step env path m ?m" "view env path ?m = view env path m"
      by (rule same_files_local view_same_files, rule note_failure_files)+
    ultimately show ?thesis using v Panics local_trans [OF _ stamp_local]
      by (cases "view env path m") (auto simp: view_stamp job_ok_def outcome_def)
  next
    case (Returns raw)
    let ?r = "result_of env path c raw"
    have out: "outcome env path c = rows_of env path c ?r" by (simp add: outcome_def Returns)
    show ?thesis
    proof (cases "r_Symbols ?r = [] \<and> r_Edges ?r = []")
      case True
      then have "pc1 = Finished" "m1 = stamp_hash env path c m" "outcome env path c = []"
        using assms(4) Returns out by (simp_all add: extract_step_def Let_def rows_of_def)
      then show ?thesis using v stamp_local by (cases "view env path m") (auto simp: view_stamp job_ok_def)
    next
      case False
      let ?m = "m\<lparr>m_Store := recordExtractionHeuristics env path ?lang ?r (m_Store m)\<rparr>"
      have "local_step env path m ?m" "view env path ?m = view env path m"
        by (rule same_files_local view_same_files, rule heuristics_files)+
      moreover have "pc1 = Checked ?r" "m1 = ?m" using assms(4) Returns False by (auto simp: extract_step_def Let_def)
      ultimately show ?thesis using v out by (cases "view env path m") (simp add: job_ok_def)
    qed
  qed
  then show ?thesis by (intro job_local [OF assms(1-3)]) simp_all
qed

lemma checked_step:
  assumes "run_ok env force maxSize st0 queue m" and "k < length (m_Jobs m)" "m_Jobs m ! k = (path, c, Checked r)"
    and "file_step env path c (Checked r) m = (pc1, m1)"
  shows "run_ok env force maxSize st0 queue (m1\<lparr>m_Jobs := (m_Jobs m)[k := (path, c, pc1)]\<rparr>)"
proof -
  let ?cm = "commit_of env path (ie_Hash env c) r (route_of env path c r)"
  let ?m = "m\<lparr>m_Store := CommitFileExtraction ?cm (ie_Now env) (m_Store m)\<rparr>"
  have cm: "fc_ProjectID ?cm = ie_ProjectID env" "fc_FilePath ?cm = path" "fc_FileHash ?cm = ie_Hash env c"
    by (simp_all add: commit_of_def)
  have "view env path ?m = (fst (view env path m), fst (snd (view env path m)), ie_Hash env c)"
    by (simp add: view_def GetFileHash_commit cm file_rows_def)
  moreover have "pc1 = Committed r" "m1 = ?m" using assms(4) by (simp_all add: file_step_def)
  moreover note job_of(1) [OF assms(1-3)]
  ultimately have "job_ok env st0 path c pc1 (view env path m1)" by (cases "view env path m") (simp add: job_ok_def)
  then show ?thesis using job_local [OF assms(1-3) commit_local] cm \<open>m1 = ?m\<close> by simp
qed

section \<open>The shared buffers\<close>

text \<open>A flush writes what every path has in the buffers.\<close>

definition flushed :: "('c, 'f) index_env \<Rightarrow> 'f symbol set \<times> 'f symbol list \<times> string \<Rightarrow> 'f symbol set \<times> 'f symbol list \<times> string" where
  "flushed env v = (case v of (rows, buf, h) \<Rightarrow> (rows \<union> stored_row env ` set buf, [], h))"

lemma job_ok_flushed: "job_ok env st0 path c pc v \<Longrightarrow> job_ok env st0 path c pc (flushed env v)"
  by (cases v) (auto simp: job_ok_def flushed_def split: file_pc.splits if_splits)

lemma job_ok_disjoint: "job_ok env st0 path c pc (rows, buf, h) \<Longrightarrow> buf \<noteq> [] \<Longrightarrow> rows = {}"
  by (auto simp: job_ok_def split: file_pc.splits if_splits)

lemma file_rows_flush:
  assumes tab: "t_symbols st1 = filter (\<lambda>r. symbol_key r \<notin> symbol_key ` set syms) (t_symbols st) @ map (stored_row env) syms"
    and rows: "rows_ok pid st" and buf: "\<And>s. s \<in> set syms \<Longrightarrow> s_ProjectID s = pid \<and> id_ok s"
    and one: "filter (\<lambda>s. s_FilePath s = q) syms \<noteq> [] \<Longrightarrow> file_rows pid q st = {}"
  shows "file_rows pid q st1 = file_rows pid q st \<union> stored_row env ` set (filter (\<lambda>s. s_FilePath s = q) syms)"
proof -
  have "symbol_key r \<notin> symbol_key ` set syms" if r: "r \<in> file_rows pid q st" for r
  proof
    assume "symbol_key r \<in> symbol_key ` set syms"
    then obtain s where s: "s \<in> set syms" "s_ID r = s_ID s" by (auto simp: symbol_key_def)
    have "id_ok r" "s_FilePath r = q" using r rows by (auto simp: file_rows_def rows_ok_def)
    then have "s_FilePath s = q" using same_id_same_path [of r s] buf [OF s(1)] s(2) by simp
    then have "filter (\<lambda>s. s_FilePath s = q) syms \<noteq> []" using s(1) by (auto simp: filter_empty_conv)
    then show False using one r by simp
  qed
  then have "{r \<in> file_rows pid q st. symbol_key r \<notin> symbol_key ` set syms} = file_rows pid q st" by blast
  moreover have "{s \<in> set (map (stored_row env) syms). s_ProjectID s = pid \<and> s_FilePath s = q} =
      stored_row env ` set (filter (\<lambda>s. s_FilePath s = q) syms)"
    unfolding set_map set_filter using buf by (intro set_eqI iffI; elim CollectE conjE imageE; simp)
  moreover have "file_rows pid q st1 = {r \<in> file_rows pid q st. symbol_key r \<notin> symbol_key ` set syms} \<union>
      {s \<in> set (map (stored_row env) syms). s_ProjectID s = pid \<and> s_FilePath s = q}"
    unfolding file_rows_def tab set_append set_filter by (intro set_eqI iffI; elim CollectE conjE UnE; simp)
  ultimately show ?thesis by simp
qed

lemma counted_flush_ok:
  assumes rows: "rows_ok (ie_ProjectID env) (m_Store m)" and buf: "buffers_ok env m"
    and one: "\<And>q rows buf h. view env q m = (rows, buf, h) \<Longrightarrow> buf \<noteq> [] \<Longrightarrow> rows = {}"
  shows "rows_ok (ie_ProjectID env) (m_Store (counted_flush env m))" "buffers_ok env (counted_flush env m)"
    "view env q (counted_flush env m) = flushed env (view env q m)"
    "m_Jobs (counted_flush env m) = m_Jobs m" "m_Queue (counted_flush env m) = m_Queue m"
proof -
  let ?pid = "ie_ProjectID env"
  have "\<exists>st1. flushBatch (ie_Zero env) (ie_One env) (ie_Branch env) (ie_Now env) ?pid (m_SymBuf m) (m_EdgeBuf m) (m_Store m) = (None, st1) \<and>
    t_projects st1 = t_projects (m_Store m) \<and> t_files st1 = t_files (m_Store m) \<and>
    t_symbols st1 = filter (\<lambda>r. symbol_key r \<notin> symbol_key ` set (m_SymBuf m)) (t_symbols (m_Store m)) @ map (stored_row env) (m_SymBuf m)"
    by (rule flushBatch_rows) (use rows buf in \<open>simp_all add: rows_ok_def buffers_ok_def\<close>)
  then obtain st1 where
      fl: "flushBatch (ie_Zero env) (ie_One env) (ie_Branch env) (ie_Now env) ?pid (m_SymBuf m) (m_EdgeBuf m) (m_Store m) = (None, st1)"
    and keep: "t_projects st1 = t_projects (m_Store m)" "t_files st1 = t_files (m_Store m)"
    and tab: "t_symbols st1 = filter (\<lambda>r. symbol_key r \<notin> symbol_key ` set (m_SymBuf m)) (t_symbols (m_Store m)) @ map (stored_row env) (m_SymBuf m)"
    by blast
  have cf: "m_Store (counted_flush env m) = st1" "m_SymBuf (counted_flush env m) = []" "m_EdgeBuf (counted_flush env m) = []"
    "m_Jobs (counted_flush env m) = m_Jobs m" "m_Queue (counted_flush env m) = m_Queue m"
    by (simp_all add: counted_flush_def flushBuffers_def fl)
  show "m_Jobs (counted_flush env m) = m_Jobs m" "m_Queue (counted_flush env m) = m_Queue m" by (fact cf)+
  have ids: "id_ok (stored_row env s) = id_ok s" for s by (simp add: id_ok_def)
  have b: "s_ProjectID s = ?pid \<and> id_ok s" if "s \<in> set (m_SymBuf m)" for s using buf that by (simp add: buffers_ok_def)
  show "rows_ok ?pid (m_Store (counted_flush env m))"
    using rows b by (auto simp: cf rows_ok_def has_project_def keep tab ids)
  show "buffers_ok env (counted_flush env m)" by (simp add: buffers_ok_def cf)
  have "file_rows ?pid q st1 = file_rows ?pid q (m_Store m) \<union> stored_row env ` set (filter (\<lambda>s. s_FilePath s = q) (m_SymBuf m))"
    by (rule file_rows_flush [OF tab rows b]) (use one [of q] in \<open>auto simp: view_def\<close>)
  then show "view env q (counted_flush env m) = flushed env (view env q m)"
    by (simp add: view_def flushed_def cf GetFileHash_def keep)
qed

lemma run_ok_disjoint:
  assumes "run_ok env force maxSize st0 queue m" and "view env q m = (rows, buf, h)" "buf \<noteq> []"
  shows "rows = {}"
proof (cases "q \<in> fst ` set (m_Jobs m)")
  case True
  then obtain c pc where "(q, c, pc) \<in> set (m_Jobs m)" by auto
  then have "job_ok env st0 q c pc (view env q m)" using assms(1) unfolding run_ok_def jobs_ok_def by fast
  then show ?thesis using assms(2,3) job_ok_disjoint by metis
next
  case False
  then have "view env q m = (file_rows (ie_ProjectID env) q st0, [], GetFileHash (ie_ProjectID env) q st0)"
    using assms(1) unfolding run_ok_def jobs_ok_def by blast
  then show ?thesis using assms(2,3) by simp
qed

lemma run_ok_flush:
  assumes "run_ok env force maxSize st0 queue m"
  shows "run_ok env force maxSize st0 queue (counted_flush env m)"
proof -
  have rows: "rows_ok (ie_ProjectID env) (m_Store m)" and buf: "buffers_ok env m" using assms by (simp_all add: run_ok_def)
  have one: "view env q m = (rows, buf, h) \<Longrightarrow> buf \<noteq> [] \<Longrightarrow> rows = {}" for q rows buf h
    by (rule run_ok_disjoint [OF assms])
  have fl: "rows_ok (ie_ProjectID env) (m_Store (counted_flush env m))" "buffers_ok env (counted_flush env m)"
    "m_Jobs (counted_flush env m) = m_Jobs m" "m_Queue (counted_flush env m) = m_Queue m"
    using counted_flush_ok [OF rows buf one] by simp_all
  have vw: "view env q (counted_flush env m) = flushed env (view env q m)" for q
    by (rule counted_flush_ok(3) [OF rows buf one])
  have jobs: "\<forall>(path, c, pc) \<in> set (m_Jobs m). clean_file env path c \<and> job_ok env st0 path c pc (view env path m)"
    and rest: "\<forall>path. path \<notin> fst ` set (m_Jobs m) \<longrightarrow>
      view env path m = (file_rows (ie_ProjectID env) path st0, [], GetFileHash (ie_ProjectID env) path st0)"
    using assms unfolding run_ok_def jobs_ok_def by fast+
  have "\<forall>(path, c, pc) \<in> set (m_Jobs m). clean_file env path c \<and> job_ok env st0 path c pc (view env path (counted_flush env m))"
    using jobs by (auto simp: vw intro: job_ok_flushed)
  moreover have "\<forall>path. path \<notin> fst ` set (m_Jobs m) \<longrightarrow> view env path (counted_flush env m) =
      (file_rows (ie_ProjectID env) path st0, [], GetFileHash (ie_ProjectID env) path st0)"
    using rest by (simp add: vw flushed_def)
  ultimately have "jobs_ok env st0 (counted_flush env m)" by (simp add: jobs_ok_def fl(3))
  then show ?thesis using assms fl by (simp add: run_ok_def queue_ok_def taken_ok_def)
qed

lemma route_edge_project: "\<forall>g \<in> set (rt_Edges rt). g_ProjectID g = pid \<Longrightarrow> \<forall>g \<in> set (rt_Edges (route_edge pid lang path nm rt e)). g_ProjectID g = pid"
  by (simp add: route_edge_def Let_def)

lemma route_edges_project: "\<forall>g \<in> set (rt_Edges (route_edges pid lang path syms es)). g_ProjectID g = pid"
proof -
  have all: "\<forall>g \<in> set (rt_Edges rt). g_ProjectID g = pid \<Longrightarrow>
      \<forall>g \<in> set (rt_Edges (foldl (route_edge pid lang path nm) rt es)). g_ProjectID g = pid" for rt nm
  proof (induction es arbitrary: rt)
    case (Cons e es)
    show ?case using Cons.IH [OF route_edge_project [OF Cons.prems]] by simp
  qed simp
  show ?thesis unfolding route_edges_def by (rule all) simp
qed

text \<open>The rows of a file join the buffers.\<close>

definition appended :: "string \<Rightarrow> 'f symbol list \<Rightarrow> 'f routed \<Rightarrow> ('c, 'f) machine \<Rightarrow> ('c, 'f) machine" where
  "appended path syms rt m =
     m\<lparr>m_SymBuf := m_SymBuf m @ syms, m_EdgeBuf := m_EdgeBuf m @ rt_Edges rt, m_Imports := m_Imports m @ rt_Imports rt,
       m_Calls := m_Calls m @ rt_Calls rt, m_Reads := m_Reads m @ rt_Reads rt, m_UsesVar := m_UsesVar m @ rt_UsesVar rt,
       m_Expected := m_Expected m @ [(path, length syms)]\<rparr>"

lemma join_appended: "join_buffers env path syms rt m =
    (if length (m_SymBuf (appended path syms rt m)) \<ge> flush_size then counted_flush env (appended path syms rt m) else appended path syms rt m)"
  by (simp add: join_buffers_def appended_def Let_def)

lemma appended_fields: "m_Store (appended path syms rt m) = m_Store m" "m_SymBuf (appended path syms rt m) = m_SymBuf m @ syms"
    "m_EdgeBuf (appended path syms rt m) = m_EdgeBuf m @ rt_Edges rt" "m_Jobs (appended path syms rt m) = m_Jobs m"
    "m_Queue (appended path syms rt m) = m_Queue m"
  by (simp_all add: appended_def)

lemma counted_flush_jobs: "counted_flush env (m\<lparr>m_Jobs := js\<rparr>) = (counted_flush env m)\<lparr>m_Jobs := js\<rparr>"
  by (simp add: counted_flush_def flushBuffers_def split: prod.split option.split)

lemma appended_buffers:
  assumes "buffers_ok env m" and "\<And>s. s \<in> set syms \<Longrightarrow> s_FilePath s = path \<and> s_ProjectID s = ie_ProjectID env \<and> id_ok s"
    and "distinct (map s_ID syms)" and "filter (\<lambda>s. s_FilePath s = path) (m_SymBuf m) = []"
    and "\<forall>g \<in> set (rt_Edges rt). g_ProjectID g = ie_ProjectID env"
  shows "buffers_ok env (appended path syms rt m)"
proof -
  have "s_ID s \<noteq> s_ID t" if "s \<in> set (m_SymBuf m)" "t \<in> set syms" for s t
  proof
    assume "s_ID s = s_ID t"
    moreover have "id_ok s" using assms(1) that(1) by (simp add: buffers_ok_def)
    ultimately have "s_FilePath s = path" using same_id_same_path [of s t] assms(2) [OF that(2)] by simp
    then show False using assms(4) that(1) by (auto simp: filter_empty_conv)
  qed
  then have "s_ID ` set (m_SymBuf m) \<inter> s_ID ` set syms = {}" by blast
  then show ?thesis using assms(1,3) assms(2) assms(5) by (auto simp: buffers_ok_def appended_fields)
qed

lemma committed_step:
  assumes "run_ok env force maxSize st0 queue m" and "k < length (m_Jobs m)" "m_Jobs m ! k = (path, c, Committed r)"
    and "file_step env path c (Committed r) m = (pc1, m1)"
  shows "run_ok env force maxSize st0 queue (m1\<lparr>m_Jobs := (m_Jobs m)[k := (path, c, pc1)]\<rparr>)"
proof -
  let ?syms = "rows_of env path c r" and ?rt = "route_of env path c r"
  let ?m = "appended path ?syms ?rt m" and ?js = "(m_Jobs m)[k := (path, c, Finished)]"
  obtain rows buf h where v: "view env path m = (rows, buf, h)" by (rule prod_cases3)
  have own: "rows = {}" "buf = []" "ie_Lang env path c \<noteq> ''''" "?syms = outcome env path c" "h = ie_Hash env c"
    using job_of(1) [OF assms(1-3)] v by (simp_all add: job_ok_def)
  have clean: "CHR '':'' \<notin> set path" "distinct (map s_ID ?syms)"
    using job_of(2) [OF assms(1-3)] own(4) by (simp_all add: clean_file_def)
  have syms: "s_FilePath s = path \<and> s_ProjectID s = ie_ProjectID env \<and> id_ok s" if "s \<in> set ?syms" for s
    using rows_of_fields [OF that] clean(1) by simp
  have free: "filter (\<lambda>s. s_FilePath s = path) (m_SymBuf m) = []" using v own(2) by (simp add: view_def)
  have "buffers_ok env ?m"
    by (rule appended_buffers) (use assms(1) syms clean free in \<open>auto simp: run_ok_def route_of_def route_edges_project\<close>)
  moreover have "filter (\<lambda>s. s_FilePath s = q) ?syms = (if q = path then ?syms else [])" for q
    using syms by (auto simp: filter_id_conv filter_empty_conv)
  then have views: "view env q ?m = (if q = path then ({}, ?syms, ie_Hash env c) else view env q m)" for q
    using v own free by (auto simp: view_def appended_fields)
  ultimately have ok: "run_ok env force maxSize st0 queue (?m\<lparr>m_Jobs := ?js\<rparr>)"
    using assms(1) own by (intro job_update [OF assms(1-3)]) (simp_all add: appended_fields run_ok_def job_ok_def)
  have "pc1 = Finished" "m1 = join_buffers env path ?syms ?rt m" using assms(4) by (simp_all add: file_step_def)
  then show ?thesis using ok run_ok_flush [OF ok] by (simp add: join_appended counted_flush_jobs)
qed

section \<open>The main loop keeps it\<close>

text \<open>What the invariant sees of a machine.\<close>

lemma run_ok_view:
  assumes "run_ok env force maxSize st0 queue m" and "m_Jobs m1 = m_Jobs m" "m_Queue m1 = m_Queue m" "m_SymBuf m1 = m_SymBuf m" "m_EdgeBuf m1 = m_EdgeBuf m"
    and "same_files (m_Store m) (m_Store m1)"
  shows "run_ok env force maxSize st0 queue m1"
proof -
  have "view env q m1 = view env q m" for q using assms(4,6) by (simp add: view_def same_filesD)
  then show ?thesis using assms by (simp add: run_ok_def rows_ok_same buffers_ok_def jobs_ok_def queue_ok_def taken_ok_def)
qed

lemma run_ok_passed:
  assumes "run_ok env force maxSize st0 queue m" and "m_Queue m = w # ws" and "planned env force maxSize st0 queue (w_Path w) = None"
  shows "run_ok env force maxSize st0 queue (m\<lparr>m_Queue := ws\<rparr>)"
  using assms by (auto simp: run_ok_def buffers_ok_def jobs_ok_def queue_ok_def taken_ok_def clean_walk_def)

lemma run_ok_job:
  assumes "run_ok env force maxSize st0 queue m" and "m_Queue m = w # ws" and "planned env force maxSize st0 queue (w_Path w) = Some c"
    and "gate maxSize w = Admitted c"
  shows "run_ok env force maxSize st0 queue (m\<lparr>m_Queue := ws, m_Jobs := m_Jobs m @ [(w_Path w, c, At_start)]\<rparr>)"
proof -
  let ?m = "m\<lparr>m_Queue := ws, m_Jobs := m_Jobs m @ [(w_Path w, c, At_start)]\<rparr>"
  have new: "w_Path w \<notin> fst ` set (m_Jobs m)" and clean: "clean_file env (w_Path w) c" and queue: "queue_ok env ?m"
    using assms(1,2) gate_content [OF assms(4)] by (auto simp: run_ok_def queue_ok_def clean_walk_def)
  have jobs: "jobs_ok env st0 m" using assms(1) by (simp add: run_ok_def)
  then have v: "view env (w_Path w) m = (file_rows (ie_ProjectID env) (w_Path w) st0, [], GetFileHash (ie_ProjectID env) (w_Path w) st0)"
    using new unfolding jobs_ok_def by blast
  have "jobs_ok env st0 ?m"
    using jobs clean by (simp add: jobs_ok_def v [unfolded view_def] view_def) (simp add: job_ok_def)
  moreover have "taken_ok env force maxSize st0 queue ?m"
    using assms(1-3) by (auto simp: run_ok_def taken_ok_def)
  ultimately show ?thesis using assms(1) queue by (simp add: run_ok_def buffers_ok_def)
qed

lemma take_step:
  assumes "run_ok env force maxSize st0 queue m" and q: "m_Queue m = w # ws" and walk: "distinct (map w_Path queue)"
  shows "run_ok env force maxSize st0 queue (take_file env force maxSize detect w (m\<lparr>m_Queue := ws\<rparr>))"
proof -
  have "w \<in> set queue" using assms(1) q by (simp add: run_ok_def taken_ok_def)
  note find = find_path [OF walk this]
  have new: "w_Path w \<notin> fst ` set (m_Jobs m)" using assms(1) q by (auto simp: run_ok_def queue_ok_def)
  then have "view env (w_Path w) m = (file_rows (ie_ProjectID env) (w_Path w) st0, [], GetFileHash (ie_ProjectID env) (w_Path w) st0)"
    using assms(1) unfolding run_ok_def jobs_ok_def by blast
  then have hash: "GetFileHash (ie_ProjectID env) (w_Path w) (m_Store m) = GetFileHash (ie_ProjectID env) (w_Path w) st0" by (simp add: view_def)
  show ?thesis
  proof (cases "gate maxSize w")
    case (Admitted c)
    show ?thesis
    proof (cases "\<not> force \<and> GetFileHash (ie_ProjectID env) (w_Path w) st0 = ie_Hash env c")
      case True
      then have "planned env force maxSize st0 queue (w_Path w) = None" by (simp add: planned_def find Admitted)
      from run_ok_passed [OF assms(1) q this] show ?thesis
        by (rule run_ok_view) (use True in \<open>simp_all add: take_file_def Admitted admit_def Let_def hash same_files_refl\<close>)
    next
      case False
      then have "planned env force maxSize st0 queue (w_Path w) = Some c" by (simp add: planned_def find Admitted)
      from run_ok_job [OF assms(1) q this Admitted] show ?thesis
        by (rule run_ok_view) (use False in \<open>auto simp: take_file_def Admitted admit_def Let_def hash same_files_refl\<close>)
    qed
  next
    case Too_large
    then have "planned env force maxSize st0 queue (w_Path w) = None" by (simp add: planned_def find)
    from run_ok_passed [OF assms(1) q this] show ?thesis
      by (rule run_ok_view) (simp_all add: take_file_def Too_large note_failure_files)
  next
    case Blocked
    then have "planned env force maxSize st0 queue (w_Path w) = None" by (simp add: planned_def find)
    from run_ok_passed [OF assms(1) q this] show ?thesis
      by (rule run_ok_view) (simp_all add: take_file_def Blocked same_files_refl)
  next
    case Passed_over
    then have "planned env force maxSize st0 queue (w_Path w) = None" by (simp add: planned_def find)
    from run_ok_passed [OF assms(1) q this] show ?thesis
      by (rule run_ok_view) (simp_all add: take_file_def Passed_over same_files_refl)
  qed
qed

lemma index_step_ok:
  assumes "index_step env force maxSize detect m m1" and "distinct (map w_Path queue)" and "run_ok env force maxSize st0 queue m"
  shows "run_ok env force maxSize st0 queue m1"
  using assms(1)
proof cases
  case (take w ws)
  then show ?thesis using take_step assms(2,3) by blast
next
  case (go k path c pc pc1 m2)
  show ?thesis
  proof (cases pc)
    case At_start
    then show ?thesis using start_step [OF assms(3)] go by simp
  next
    case Cleared
    then show ?thesis using cleared_step [OF assms(3)] go by (simp add: file_step_def)
  next
    case (Checked r)
    then show ?thesis using checked_step [OF assms(3)] go by simp
  next
    case (Committed r)
    then show ?thesis using committed_step [OF assms(3)] go by simp
  qed (use go in simp)
next
  case (refresh n)
  show ?thesis unfolding refresh(1)
    by (rule run_ok_view [OF assms(3) _ _ _ _ refresh_files]) (simp_all add: refresh_counts_def Let_def)
qed

lemma index_run_ok:
  assumes "(index_step env force maxSize detect)\<^sup>*\<^sup>* (start_machine st queue) m" and "rows_ok (ie_ProjectID env) st" and "clean_walk env queue"
  shows "run_ok env force maxSize st queue m"
  using assms(1)
proof (induction rule: rtranclp_induct)
  case base
  show ?case by (rule start_ok [OF assms(2,3)])
next
  case (step m1 m2)
  then show ?case using index_step_ok assms(3) by (auto simp: clean_walk_def)
qed

end
