(* ===== verification/Index_Run.thy ===== *)
theory Index_Run
  imports Index_Correct
begin

text \<open>
  Complete runs of the extraction phase: what they leave, that they end, that an incremental run leaves what a full one
  would, and what a cancelled one loses.
\<close>

section \<open>Complete runs\<close>

lemma run_ok_final: "run_ok env force maxSize st0 queue m \<Longrightarrow> run_ok env force maxSize st0 queue (final_flush env m)"
  by (simp add: final_flush_def run_ok_flush)

lemma final_flush_fields: "run_ok env force maxSize st0 queue m \<Longrightarrow>
    m_Jobs (final_flush env m) = m_Jobs m \<and> m_Queue (final_flush env m) = m_Queue m \<and>
    view env q (final_flush env m) = flushed env (view env q m)"
proof -
  assume ok: "run_ok env force maxSize st0 queue m"
  have rows: "rows_ok (ie_ProjectID env) (m_Store m)" and buf: "buffers_ok env m" using ok by (simp_all add: run_ok_def)
  have one: "view env q m = (rows, buf, h) \<Longrightarrow> buf \<noteq> [] \<Longrightarrow> rows = {}" for q rows buf h
    by (rule run_ok_disjoint [OF ok])
  have "m_SymBuf m = [] \<Longrightarrow> view env q m = flushed env (view env q m)" by (simp add: view_def flushed_def)
  then show ?thesis using counted_flush_ok [OF rows buf one] by (simp add: final_flush_def)
qed

lemma run_exact:
  assumes "(index_step env force maxSize detect)\<^sup>*\<^sup>* (start_machine st queue) m" and "drained m"
    and "rows_ok (ie_ProjectID env) st" and "clean_walk env queue"
  shows "let fin = m_Store (final_flush env m); pid = ie_ProjectID env
    in (file_rows pid p fin, GetFileHash pid p fin) =
      (case planned env force maxSize st queue p of
         None \<Rightarrow> (file_rows pid p st, GetFileHash pid p st)
       | Some c \<Rightarrow> (if ie_Lang env p c = '''' then file_rows pid p st else stored_row env ` set (outcome env p c), ie_Hash env c))"
proof -
  have ok: "run_ok env force maxSize st queue m" by (rule index_run_ok [OF assms(1,3,4)])
  note fin = final_flush_fields [OF ok, of p]
  have vw: "view env p (final_flush env m) = flushed env (view env p m)" using fin by simp
  show ?thesis
  proof (cases "planned env force maxSize st queue p")
    case None
    have "p \<notin> fst ` set (m_Jobs m)" using ok None by (auto simp: run_ok_def taken_ok_def)
    then have "view env p m = (file_rows (ie_ProjectID env) p st, [], GetFileHash (ie_ProjectID env) p st)"
      using ok unfolding run_ok_def jobs_ok_def by blast
    with vw have "view env p (final_flush env m) = (file_rows (ie_ProjectID env) p st, [], GetFileHash (ie_ProjectID env) p st)"
      by (simp add: flushed_def)
    then show ?thesis using None by (simp add: view_def)
  next
    case (Some c)
    have "p \<in> w_Path ` set (m_Queue m) \<or> p \<in> fst ` set (m_Jobs m)" using ok Some unfolding run_ok_def taken_ok_def by blast
    then obtain c1 pc where job: "(p, c1, pc) \<in> set (m_Jobs m)" using assms(2) by (auto simp: drained_def)
    then have "planned env force maxSize st queue p = Some c1" using ok by (force simp: run_ok_def taken_ok_def)
    then have c1: "c1 = c" using Some by simp
    moreover have "pc = Finished" using assms(2) job by (auto simp: drained_def)
    ultimately have "job_ok env st p c Finished (view env p m)" using ok job unfolding run_ok_def jobs_ok_def by fast
    then have "job_ok env st p c Finished (view env p (final_flush env m))" unfolding vw by (rule job_ok_flushed)
    moreover have "fst (snd (view env p (final_flush env m))) = []" by (simp add: vw flushed_def split: prod.split)
    ultimately show ?thesis using Some by (auto simp: view_def job_ok_def Let_def split: if_splits)
  qed
qed

section \<open>Every run can be completed\<close>

fun pc_work :: "'f file_pc \<Rightarrow> nat" where
  "pc_work At_start = 4"
| "pc_work Cleared = 3"
| "pc_work (Checked r) = 2"
| "pc_work (Committed r) = 1"
| "pc_work Finished = 0"

definition index_work :: "('c, 'f) machine \<Rightarrow> nat" where
  "index_work m = 5 * length (m_Queue m) + sum_list (map (\<lambda>(p, c, pc). pc_work pc) (m_Jobs m))"

lemma take_work:
  assumes "m_Queue m = w # ws"
  shows "index_work (take_file env force maxSize detect w (m\<lparr>m_Queue := ws\<rparr>)) < index_work m"
  by (cases "gate maxSize w") (auto simp: index_work_def take_file_def admit_def Let_def assms)

lemma sum_list_less: "k < length xs \<Longrightarrow> y < xs ! k \<Longrightarrow> sum_list (xs[k := y]) < sum_list (xs :: nat list)"
proof (induction xs arbitrary: k)
  case (Cons x xs)
  then show ?case by (cases k) auto
qed simp

lemma counted_flush_frame: "m_Jobs (counted_flush env m) = m_Jobs m" "m_Queue (counted_flush env m) = m_Queue m"
  by (simp_all add: counted_flush_def flushBuffers_def split: prod.split option.split)

lemma file_step_work:
  assumes "file_step env path c pc m = (pc1, m1)" and "pc \<noteq> Finished"
  shows "pc_work pc1 < pc_work pc \<and> m_Queue m1 = m_Queue m"
  using assms
  by (cases pc) (auto simp: file_step_def extract_step_def stamp_hash_def join_buffers_def Let_def counted_flush_frame
      split: if_splits extraction.splits)

lemma go_work:
  assumes "k < length (m_Jobs m)" "m_Jobs m ! k = (path, c, pc)" "pc \<noteq> Finished" "file_step env path c pc m = (pc1, m1)"
  shows "index_work (m1\<lparr>m_Jobs := (m_Jobs m)[k := (path, c, pc1)]\<rparr>) < index_work m"
proof -
  note w = file_step_work [OF assms(4,3)]
  have "sum_list ((map (\<lambda>(p, c, pc). pc_work pc) (m_Jobs m))[k := pc_work pc1]) < sum_list (map (\<lambda>(p, c, pc). pc_work pc) (m_Jobs m))"
    by (rule sum_list_less) (use assms(1,2) w in simp_all)
  then show ?thesis using w by (simp add: index_work_def map_update)
qed

lemma undrained_step:
  assumes "\<not> drained m"
  shows "\<exists>m1. index_step env force maxSize detect m m1 \<and> index_work m1 < index_work m"
proof (cases "m_Queue m")
  case (Cons w ws)
  then show ?thesis using take_work index_step.take by blast
next
  case Nil
  then obtain k path c pc where k: "k < length (m_Jobs m)" "m_Jobs m ! k = (path, c, pc)" "pc \<noteq> Finished"
    using assms by (auto simp: drained_def in_set_conv_nth)
  obtain pc1 m1 where "file_step env path c pc m = (pc1, m1)" by (rule prod.exhaust)
  then show ?thesis using index_step.go [OF k] go_work [OF k] by blast
qed

lemma run_completes: "\<exists>m1. (index_step env force maxSize detect)\<^sup>*\<^sup>* m m1 \<and> drained m1"
proof (induction "index_work m" arbitrary: m rule: less_induct)
  case less
  show ?case
  proof (cases "drained m")
    case False
    then obtain m1 where m1: "index_step env force maxSize detect m m1" "index_work m1 < index_work m" using undrained_step by blast
    from less [OF m1(2)] show ?thesis by (meson m1(1) converse_rtranclp_into_rtranclp)
  qed auto
qed

section \<open>Incremental and full runs\<close>

text \<open>
  The store is in step with its file hashes: a file whose stored hash is that of one of the contents has the rows of that
  content.
\<close>

definition in_sync :: "('c, 'f) index_env \<Rightarrow> 'c list \<Rightarrow> 'f store \<Rightarrow> bool" where
  "in_sync env contents st \<longleftrightarrow>
     (\<forall>r \<in> set (t_files st). \<forall>c \<in> set contents.
        GetFileHash (ie_ProjectID env) (f_Path r) st = ie_Hash env c \<longrightarrow> ie_Lang env (f_Path r) c \<noteq> '''' \<longrightarrow>
        file_rows (ie_ProjectID env) (f_Path r) st = stored_row env ` set (outcome env (f_Path r) c))"

definition hash_ok :: "('c, 'f) index_env \<Rightarrow> 'c list \<Rightarrow> bool" where
  "hash_ok env contents \<longleftrightarrow> distinct (map (ie_Hash env) (remdups contents)) \<and> '''' \<notin> ie_Hash env ` set contents"

lemma hash_ok_inj: "hash_ok env contents \<Longrightarrow> c \<in> set contents \<Longrightarrow> d \<in> set contents \<Longrightarrow> ie_Hash env c = ie_Hash env d \<Longrightarrow> c = d"
  by (auto simp: hash_ok_def distinct_map inj_on_def)

lemma stored_path:
  assumes "GetFileHash pid p st = h" "h \<noteq> ''''"
  shows "p \<in> f_Path ` set (t_files st)"
proof -
  have "\<exists>r. find (\<lambda>r. f_ProjectID r = pid \<and> f_Path r = p) (t_files st) = Some r"
    using assms by (cases "find (\<lambda>r. f_ProjectID r = pid \<and> f_Path r = p) (t_files st)") (auto simp: GetFileHash_def)
  then show ?thesis by (auto simp: find_Some_iff)
qed

lemma in_syncD:
  assumes "in_sync env contents st" and "hash_ok env contents" "c \<in> set contents"
    and "GetFileHash (ie_ProjectID env) p st = ie_Hash env c" "ie_Lang env p c \<noteq> ''''"
  shows "file_rows (ie_ProjectID env) p st = stored_row env ` set (outcome env p c)"
proof -
  have "ie_Hash env c \<noteq> ''''" using assms(2,3) by (force simp: hash_ok_def)
  then obtain r where "r \<in> set (t_files st)" "f_Path r = p" using stored_path [OF assms(4)] by blast
  then show ?thesis using assms unfolding in_sync_def by blast
qed

definition walk_contents :: "'c walk_item list \<Rightarrow> 'c list" where
  "walk_contents queue = concat (map (\<lambda>w. case w_Content w of None \<Rightarrow> [] | Some c \<Rightarrow> [c]) queue)"

lemma planned_content: "planned env force maxSize st queue p = Some c \<Longrightarrow> c \<in> set (walk_contents queue)"
proof -
  assume "planned env force maxSize st queue p = Some c"
  then obtain w where w: "find (\<lambda>w. w_Path w = p) queue = Some w" "gate maxSize w = Admitted c"
    by (auto simp: planned_def split: option.splits gated.splits if_splits)
  then have "w \<in> set queue" by (auto simp: find_Some_iff)
  then show ?thesis using gate_content [OF w(2)] by (auto simp: walk_contents_def intro!: bexI [of _ w])
qed

lemma planned_cases:
  "planned env True maxSize st queue p = Some c \<Longrightarrow>
    planned env False maxSize st queue p = (if GetFileHash (ie_ProjectID env) p st = ie_Hash env c then None else Some c)"
  by (auto simp: planned_def split: option.splits gated.splits if_splits)

lemma planned_force_none: "planned env True maxSize st queue p = None \<Longrightarrow> planned env force maxSize st queue p = None"
  by (auto simp: planned_def split: option.splits gated.splits if_splits)

text \<open>
  C26: Every complete run keeps the store in step with its file hashes: if before it each file whose stored hash is
  that of a known content (and whose language is known) had the rows of that content, the same holds after it, for
  files added, changed, skipped or left alone, whatever the interleaving and whether or not the run is forced. The
  conditions: the known contents include those of the walk and have pairwise different hashes, none of them empty; the
  project has its row, its stored symbols have the identifiers made of their path, name and kind, no path has a colon,
  the paths of the walk are distinct, and the rows of each extraction have distinct identifiers (which duplicates on
  one line break).
\<close>
theorem run_keeps_sync:
  assumes "(index_step env force maxSize detect)\<^sup>*\<^sup>* (start_machine st queue) m" and "drained m"
    and "rows_ok (ie_ProjectID env) st" and "clean_walk env queue"
    and "in_sync env contents st" and "hash_ok env contents" and "set (walk_contents queue) \<subseteq> set contents"
  shows "in_sync env contents (m_Store (final_flush env m))"
  unfolding in_sync_def
proof (intro ballI impI)
  let ?fin = "m_Store (final_flush env m)" and ?pid = "ie_ProjectID env"
  fix r c assume r: "r \<in> set (t_files ?fin)" and c: "c \<in> set contents"
    and h: "GetFileHash ?pid (f_Path r) ?fin = ie_Hash env c" and lang: "ie_Lang env (f_Path r) c \<noteq> ''''"
  note exact = run_exact [OF assms(1-4), of "f_Path r", unfolded Let_def]
  show "file_rows ?pid (f_Path r) ?fin = stored_row env ` set (outcome env (f_Path r) c)"
  proof (cases "planned env force maxSize st queue (f_Path r)")
    case None
    then show ?thesis using exact in_syncD [OF assms(5,6) c _ lang] h by simp
  next
    case (Some d)
    have "c = d" using hash_ok_inj [OF assms(6) c] planned_content [OF Some] assms(7) exact h Some by auto
    then show ?thesis using exact Some lang by simp
  qed
qed

text \<open>
  C25: An incremental run is worth a forced one: from a store in step with its hashes, any complete interleaving of
  the incremental run leaves the symbol rows and the hash of every path exactly as any complete interleaving of the
  forced run does. The conditions on the project, its stored symbols and the walk: the project has its row, the
  identifiers are made of path, name and kind, no path has a colon, the paths of the walk are distinct, the rows of
  each extraction have distinct identifiers, and the contents of the walk have pairwise different hashes, none of them
  empty.
\<close>
theorem incremental_equals_full:
  assumes inc: "(index_step env False maxSize detect)\<^sup>*\<^sup>* (start_machine st queue) m1" "drained m1"
    and full: "(index_step env True maxSize detect)\<^sup>*\<^sup>* (start_machine st queue) m2" "drained m2"
    and "rows_ok (ie_ProjectID env) st" and "clean_walk env queue"
    and "in_sync env (walk_contents queue) st" and "hash_ok env (walk_contents queue)"
  shows "file_rows (ie_ProjectID env) p (m_Store (final_flush env m1)) = file_rows (ie_ProjectID env) p (m_Store (final_flush env m2)) \<and>
    GetFileHash (ie_ProjectID env) p (m_Store (final_flush env m1)) = GetFileHash (ie_ProjectID env) p (m_Store (final_flush env m2))"
proof -
  note e1 = run_exact [OF inc assms(5,6), of p, unfolded Let_def]
  note e2 = run_exact [OF full assms(5,6), of p, unfolded Let_def]
  show ?thesis
  proof (cases "planned env True maxSize st queue p")
    case None
    then show ?thesis using e1 e2 planned_force_none [OF None, of False] by simp
  next
    case (Some c)
    show ?thesis
    proof (cases "GetFileHash (ie_ProjectID env) p st = ie_Hash env c")
      case True
      have "ie_Lang env p c \<noteq> '''' \<Longrightarrow> file_rows (ie_ProjectID env) p st = stored_row env ` set (outcome env p c)"
        by (rule in_syncD [OF assms(7,8) planned_content [OF Some] True])
      then show ?thesis using e1 e2 Some planned_cases [OF Some] True by auto
    next
      case False
      then show ?thesis using e1 e2 Some planned_cases [OF Some] by auto
    qed
  qed
qed

section \<open>A cancelled run\<close>

text \<open>
  C27: A cancelled run loses symbols for good: a file whose goroutine finished but whose rows are still buffered has
  its new hash and no row, the cancelled run does not flush the buffer, and the next incremental run, which completes
  and finds the file unchanged, skips it, so that its rows stay missing although it declares symbols. Both walks have
  distinct paths without colons and extractions of rows with distinct identifiers, as in a project whose stored rows
  have the identifiers of their path, name and kind.
\<close>
theorem cancelled_run_loses_symbols:
  assumes "(index_step env force maxSize detect)\<^sup>*\<^sup>* (start_machine st queue) m"
    and "rows_ok (ie_ProjectID env) st" and "clean_walk env queue"
    and "(path, c, Finished) \<in> set (m_Jobs m)" and "path \<in> s_FilePath ` set (m_SymBuf m)"
    and "(index_step env False maxSize2 detect)\<^sup>*\<^sup>* (start_machine (cancel_run m) queue2) m2" and "drained m2"
    and "clean_walk env queue2" and "w \<in> set queue2" "w_Path w = path" "gate maxSize2 w = Admitted c"
  shows "outcome env path c \<noteq> [] \<and> file_rows (ie_ProjectID env) path (m_Store (final_flush env m2)) = {} \<and>
    GetFileHash (ie_ProjectID env) path (m_Store (final_flush env m2)) = ie_Hash env c"
proof -
  let ?pid = "ie_ProjectID env"
  have ok: "run_ok env force maxSize st queue m" by (rule index_run_ok [OF assms(1-3)])
  obtain rows buf h where v: "view env path m = (rows, buf, h)" by (rule prod_cases3)
  have "buf \<noteq> []" using v assms(5) by (auto simp: view_def filter_empty_conv)
  moreover have "job_ok env st path c Finished (rows, buf, h)" using ok assms(4) unfolding run_ok_def jobs_ok_def v [symmetric] by fast
  ultimately have own: "rows = {}" "outcome env path c \<noteq> []" "h = ie_Hash env c" by (auto simp: job_ok_def split: if_splits)
  have st: "file_rows ?pid path (m_Store m) = {}" "GetFileHash ?pid path (m_Store m) = ie_Hash env c"
    using v own by (simp_all add: view_def)
  have "find (\<lambda>v. w_Path v = path) queue2 = Some w" using find_path [of queue2 w] assms(8-10) by (simp add: clean_walk_def)
  then have "planned env False maxSize2 (cancel_run m) queue2 path = None" using assms(11) st by (simp add: planned_def cancel_run_def)
  moreover have "rows_ok ?pid (cancel_run m)" using ok by (simp add: run_ok_def cancel_run_def)
  ultimately show ?thesis using run_exact [OF assms(6,7) _ assms(8), of path] own(2) st by (simp add: cancel_run_def Let_def)
qed

end
