(* ===== verification/Index_Duplicates.thy ===== *)
theory Index_Duplicates
  imports Index_Run
begin

text \<open>
  Symbols of one file with the same qualified name and kind: what \<open>disambiguateDuplicates\<close> makes of them, and what
  becomes of those it leaves equal.
\<close>

section \<open>Texts of numbers\<close>

lemma show_nat_inj: "show_nat m = show_nat n \<Longrightarrow> m = n"
  by (metis show_nat_digits)

lemma show_int_inj: "show_int m = show_int n \<Longrightarrow> m = n"
proof -
  assume eq: "show_int m = show_int n"
  have "hd (show_nat k) \<noteq> CHR ''-''" for k
    using show_nat_digits [of k] by (cases "show_nat k") (auto simp: is_digit_char_def code_of_def)
  then have "show_nat j \<noteq> CHR ''-'' # x" and "CHR ''-'' # x \<noteq> show_nat j" for j x by (metis list.sel(1))+
  then have "(m < 0) = (n < 0)" using eq by (auto simp: show_int_def split: if_splits)
  then show ?thesis using eq show_nat_inj by (fastforce simp: show_int_def split: if_splits)
qed

section \<open>Disambiguation\<close>

definition plain_name :: "'f extracted_symbol \<Rightarrow> bool" where
  "plain_name s \<longleftrightarrow> CHR ''~'' \<notin> set (xs_QualifiedName s)"

definition lined_name :: "'f extracted_symbol \<Rightarrow> string" where
  "lined_name s = xs_QualifiedName s @ ''~'' @ show_int (xs_StartLine s)"

lemma lined_name_eq:
  assumes "plain_name s" "plain_name t" "lined_name s = lined_name t"
  shows "xs_QualifiedName s = xs_QualifiedName t \<and> xs_StartLine s = xs_StartLine t"
proof -
  have tw: "takeWhile (\<lambda>c. c \<noteq> CHR ''~'') (lined_name u) = xs_QualifiedName u" if "plain_name u" for u :: "'f extracted_symbol"
    using that by (simp add: lined_name_def plain_name_def takeWhile_append2 takeWhile_tail) (metis append.right_neutral takeWhile.simps(2) takeWhile_append2)
  have "xs_QualifiedName s = xs_QualifiedName t" using tw assms by metis
  then show ?thesis using assms(3) show_int_inj by (auto simp: lined_name_def)
qed

lemma lined_not_plain: "plain_name s \<Longrightarrow> xs_QualifiedName s \<noteq> lined_name t"
  by (auto simp: plain_name_def lined_name_def)

text \<open>Each symbol keeps its key, or takes the key with its line.\<close>

lemma suffix_keys:
  assumes "t \<in> set (suffix_duplicates count seen ss)"
  shows "\<exists>s \<in> set ss. dup_key t = dup_key s \<and> (count (dup_key s) \<le> 1 \<or> dup_key s \<notin> set seen) \<or>
    dup_key t = (lined_name s, xs_Kind s) \<and> count (dup_key s) > 1"
  using assms
  by (induction ss arbitrary: seen) (fastforce simp: dup_key_def lined_name_def split: if_splits)+

lemma suffix_distinct:
  assumes "list_all plain_name ss" and "distinct (map (\<lambda>s. (dup_key s, xs_StartLine s)) ss)"
    and "\<And>k. key_count ss k \<le> count k"
  shows "distinct (map dup_key (suffix_duplicates count seen ss))"
  using assms
proof (induction ss arbitrary: seen)
  case (Cons s ss)
  have le: "key_count ss k \<le> count k" for k using Cons.prems(3) [of k] by (simp add: key_count_def split: if_splits)
  have plain: "plain_name s" "\<And>u. u \<in> set ss \<Longrightarrow> plain_name u" using Cons.prems(1) by (auto simp: list_all_iff)
  have rest: "distinct (map dup_key (suffix_duplicates count seen' ss))" for seen'
    using Cons.IH Cons.prems(1,2) le by simp
  have lone: "dup_key u \<noteq> dup_key s" if "count (dup_key s) \<le> 1" "u \<in> set ss" for u
  proof
    assume "dup_key u = dup_key s"
    then have "key_count ss (dup_key s) \<ge> 1" using that(2) by (auto simp: key_count_def Suc_le_eq filter_empty_conv)
    then show False using Cons.prems(3) [of "dup_key s"] that(1) by (simp add: key_count_def)
  qed
  have kept: "dup_key s \<notin> dup_key ` set (suffix_duplicates count seen' ss)" if "count (dup_key s) \<le> 1 \<or> dup_key s \<in> set seen'" for seen'
  proof
    assume "dup_key s \<in> dup_key ` set (suffix_duplicates count seen' ss)"
    then obtain t where t: "t \<in> set (suffix_duplicates count seen' ss)" "dup_key s = dup_key t" by blast
    from suffix_keys [OF t(1)] obtain u where u: "u \<in> set ss" and
      "dup_key t = dup_key u \<and> (count (dup_key u) \<le> 1 \<or> dup_key u \<notin> set seen') \<or> dup_key t = (lined_name u, xs_Kind u)" by blast
    moreover have "dup_key s \<noteq> (lined_name u, xs_Kind u)" using lined_not_plain [OF plain(1), of u] by (simp add: dup_key_def)
    ultimately show False using that t(2) lone u by metis
  qed
  have lined: "(lined_name s, xs_Kind s) \<notin> dup_key ` set (suffix_duplicates count seen ss)"
  proof
    assume "(lined_name s, xs_Kind s) \<in> dup_key ` set (suffix_duplicates count seen ss)"
    then obtain t where t: "t \<in> set (suffix_duplicates count seen ss)" "dup_key t = (lined_name s, xs_Kind s)" by force
    from suffix_keys [OF t(1)] obtain u where u: "u \<in> set ss" "dup_key t = dup_key u \<or> dup_key t = (lined_name u, xs_Kind u)" by blast
    then have "lined_name u = lined_name s" "xs_Kind u = xs_Kind s"
      using t(2) lined_not_plain [OF plain(2) [OF u(1)], of s] by (auto simp: dup_key_def)
    then have "dup_key u = dup_key s \<and> xs_StartLine u = xs_StartLine s"
      using lined_name_eq [OF plain(2) [OF u(1)] plain(1)] by (simp add: dup_key_def)
    then have "(dup_key s, xs_StartLine s) \<in> (\<lambda>s. (dup_key s, xs_StartLine s)) ` set ss"
      using u(1) by (intro image_eqI [of _ _ u]) simp_all
    then show False using Cons.prems(2) by simp
  qed
  have "dup_key (s\<lparr>xs_QualifiedName := xs_QualifiedName s @ ''~'' @ show_int (xs_StartLine s)\<rparr>) = (lined_name s, xs_Kind s)"
    by (simp add: dup_key_def lined_name_def)
  then show ?case using rest kept lined by simp
qed simp

lemma collisions_empty: "collisions_of syms = [] \<Longrightarrow> key_count syms k \<le> 1"
proof (rule ccontr)
  assume none: "collisions_of syms = []" and "\<not> key_count syms k \<le> 1"
  then have many: "key_count syms k > 1" by simp
  then have "filter (\<lambda>s. dup_key s = k) syms \<noteq> []" by (auto simp: key_count_def)
  then have "k \<in> set (filter (\<lambda>k. key_count syms k > 1) (remdups (map dup_key syms)))" using many by (auto simp: filter_empty_conv)
  then have ne: "filter (\<lambda>k. key_count syms k > 1) (remdups (map dup_key syms)) \<noteq> []" by (metis empty_iff list.set(1))
  have "fold (\<lambda>k. insert_replace fst (f k)) ks acc \<noteq> []" if "ks \<noteq> [] \<or> acc \<noteq> []" for ks acc and f :: "string \<times> string \<Rightarrow> string \<times> int"
    using that by (induction ks arbitrary: acc) (auto simp: insert_replace_def)
  from this [OF disjI1 [OF ne]] show False using none unfolding collisions_of_def by simp
qed

lemma key_counts_distinct: "(\<And>k. key_count syms k \<le> 1) \<Longrightarrow> distinct (map dup_key syms)"
proof (induction syms)
  case (Cons s ss)
  have "key_count ss k \<le> 1" for k using Cons.prems [of k] by (simp add: key_count_def split: if_splits)
  moreover have "dup_key s \<notin> dup_key ` set ss"
    using Cons.prems [of "dup_key s"] by (auto simp: key_count_def filter_empty_conv)
  ultimately show ?case using Cons.IH by simp
qed simp

lemma disambiguated_keys:
  assumes "list_all plain_name (r_Symbols r)" and "distinct (map (\<lambda>s. (dup_key s, xs_StartLine s)) (r_Symbols r))"
  shows "distinct (map dup_key (r_Symbols (disambiguateDuplicates r)))"
proof (cases "collisions_of (r_Symbols r) = []")
  case True
  then show ?thesis using key_counts_distinct [OF collisions_empty] by (simp add: disambiguateDuplicates_def)
next
  case False
  have "length (r_Symbols r) \<le> 1 \<Longrightarrow> distinct (map dup_key (r_Symbols r))" by (cases "r_Symbols r") auto
  then show ?thesis using suffix_distinct [OF assms, of "key_count (r_Symbols r)" "[]"] False
    by (simp add: disambiguateDuplicates_def Let_def)
qed

section \<open>Identifiers\<close>

lemma MakeSymbolID_inj:
  assumes "MakeSymbolID p q k = MakeSymbolID p q1 k1" and "CHR ''#'' \<notin> set k" "CHR ''#'' \<notin> set k1"
  shows "q = q1 \<and> k = k1"
proof -
  have tw: "takeWhile (\<lambda>c. c \<noteq> CHR ''#'') (rev (MakeSymbolID p q k)) = rev k" if "CHR ''#'' \<notin> set k" for q k
    using that by (simp add: MakeSymbolID_def) (subst takeWhile_append2, auto)
  have "k = k1" using tw assms by (metis rev_rev_ident)
  then show ?thesis using assms(1) by (simp add: MakeSymbolID_def)
qed

lemma outcome_symbols:
  assumes "ie_Extract env (ie_Lang env path c) path c = Returns (Some r)"
  shows "map s_ID (outcome env path c) = map (\<lambda>s. MakeSymbolID path (xs_QualifiedName s) (xs_Kind s)) (r_Symbols (disambiguateDuplicates r))"
  by (simp add: outcome_def assms rows_of_def result_of_def ExtractWithModule_def Let_def to_symbol_def)

lemma suffix_kind: "map xs_Kind (suffix_duplicates count seen ss) = map xs_Kind ss"
  by (induction ss arbitrary: seen) simp_all

lemma disambiguated_kinds: "map xs_Kind (r_Symbols (disambiguateDuplicates r)) = map xs_Kind (r_Symbols r)"
  by (simp add: disambiguateDuplicates_def Let_def suffix_kind)

text \<open>
  C28: the rows of a file have distinct identifiers: when the names the extractor gives have no tilde, its
  kinds no hash sign, and two symbols of one name and kind start on different lines, no two rows share an ID, so no symbol
  overwrites another in the table.
\<close>
theorem extraction_ids_distinct:
  assumes "ie_Extract env (ie_Lang env path c) path c = Returns (Some r)"
    and "list_all plain_name (r_Symbols r)" and "distinct (map (\<lambda>s. (dup_key s, xs_StartLine s)) (r_Symbols r))"
    and "list_all (\<lambda>s. CHR ''#'' \<notin> set (xs_Kind s)) (r_Symbols r)"
  shows "distinct (map s_ID (outcome env path c))"
proof -
  let ?syms = "r_Symbols (disambiguateDuplicates r)"
  have "xs_Kind ` set ?syms = xs_Kind ` set (r_Symbols r)" by (simp only: set_map [symmetric] disambiguated_kinds)
  then have kinds: "CHR ''#'' \<notin> set (xs_Kind s)" if "s \<in> set ?syms" for s
  proof -
    have "xs_Kind s \<in> xs_Kind ` set (r_Symbols r)" using \<open>xs_Kind ` set ?syms = _\<close> that by blast
    then show ?thesis using assms(4) by (auto simp: list_all_iff)
  qed
  have "inj_on (\<lambda>(qn, k). MakeSymbolID path qn k) (dup_key ` set ?syms)"
  proof (rule inj_onI)
    fix x y assume "x \<in> dup_key ` set ?syms" "y \<in> dup_key ` set ?syms"
    then have "CHR ''#'' \<notin> set (snd x)" "CHR ''#'' \<notin> set (snd y)" using kinds by (auto simp: dup_key_def)
    moreover assume "(case x of (qn, k) \<Rightarrow> MakeSymbolID path qn k) = (case y of (qn, k) \<Rightarrow> MakeSymbolID path qn k)"
    ultimately show "x = y" using MakeSymbolID_inj [of path "fst x" "snd x" "fst y" "snd y"] by (simp add: case_prod_beta prod_eq_iff)
  qed
  then have "distinct (map (\<lambda>(qn, k). MakeSymbolID path qn k) (map dup_key ?syms))"
    using disambiguated_keys [OF assms(2,3)] by (simp add: distinct_map comp_inj_on)
  moreover have "map (\<lambda>(qn, k). MakeSymbolID path qn k) (map dup_key ?syms) = map s_ID (outcome env path c)"
    unfolding outcome_symbols [OF assms(1)] by (simp add: dup_key_def)
  ultimately show ?thesis by simp
qed

text \<open>The line tells the later ones apart only when their lines differ.\<close>

lemma suffix_nth:
  assumes "i < j" "j < length ss" "dup_key (ss ! i) = dup_key (ss ! j)" "count (dup_key (ss ! j)) > 1"
  shows "xs_QualifiedName (suffix_duplicates count seen ss ! j) = lined_name (ss ! j)"
proof -
  have step: "\<And>seen. dup_key (ss ! j) \<in> set seen \<or> (\<exists>i < j. dup_key (ss ! i) = dup_key (ss ! j)) \<Longrightarrow>
      xs_QualifiedName (suffix_duplicates count seen ss ! j) = lined_name (ss ! j)"
    using assms(2,4)
  proof (induction ss arbitrary: j)
    case (Cons s ss)
    show ?case
    proof (cases j)
      case 0
      then show ?thesis using Cons.prems by (auto simp: lined_name_def)
    next
      case (Suc j1)
      have "(\<exists>i < j. dup_key ((s # ss) ! i) = dup_key ((s # ss) ! j)) \<longleftrightarrow>
          dup_key s = dup_key (ss ! j1) \<or> (\<exists>i < j1. dup_key (ss ! i) = dup_key (ss ! j1))"
        by (simp add: Suc Ex_less_Suc2)
      then show ?thesis using Cons.prems Cons.IH [of j1] Suc by auto
    qed
  qed simp
  show ?thesis by (rule step) (use assms in blast)
qed

text \<open>
  Of three symbols with one name and kind the last two get the same identifier when they start on
  the same line: the suffix is the line, so fewer IDs than symbols remain and rows are overwritten, although
  \<open>disambiguateDuplicates\<close> promises that every symbol stays addressable.
\<close>
theorem same_line_duplicates_lost:
  assumes "ie_Extract env (ie_Lang env path c) path c = Returns (Some r)"
    and "i < j" "j < k" "k < length (r_Symbols r)"
    and "dup_key (r_Symbols r ! i) = dup_key (r_Symbols r ! j)" "dup_key (r_Symbols r ! k) = dup_key (r_Symbols r ! j)"
    and "xs_StartLine (r_Symbols r ! k) = xs_StartLine (r_Symbols r ! j)"
  shows "s_ID (outcome env path c ! j) = s_ID (outcome env path c ! k) \<and> card (s_ID ` set (outcome env path c)) < length (r_Symbols r)"
proof -
  let ?ss = "r_Symbols r" and ?ids = "map s_ID (outcome env path c)"
  let ?key = "dup_key (?ss ! j)"
  have "i < length ?ss" "j < length ?ss" "i \<noteq> j" using assms(2-4) by simp_all
  then have "{i, j} \<subseteq> {n. n < length ?ss \<and> dup_key (?ss ! n) = ?key}" using assms(5) by auto
  then have "card {i, j} \<le> card {n. n < length ?ss \<and> dup_key (?ss ! n) = ?key}" by (intro card_mono) auto
  then have many: "key_count ?ss ?key > 1" using \<open>i \<noteq> j\<close> by (simp add: key_count_def length_filter_conv_card)
  then have "collisions_of ?ss \<noteq> []" using collisions_empty [of ?ss ?key] by auto
  then have syms: "r_Symbols (disambiguateDuplicates r) = suffix_duplicates (key_count ?ss) [] ?ss"
    using assms(2-4) by (simp add: disambiguateDuplicates_def Let_def)
  have len: "length ?ids = length ?ss"
    by (metis length_map outcome_symbols [OF assms(1)] disambiguated_kinds)
  have "i < k" using assms(2,3) by simp
  have "lined_name (?ss ! k) = lined_name (?ss ! j)" "xs_Kind (?ss ! k) = xs_Kind (?ss ! j)"
    using assms(6,7) by (simp_all add: lined_name_def dup_key_def)
  moreover have "xs_Kind (suffix_duplicates (key_count ?ss) [] ?ss ! n) = xs_Kind (?ss ! n)" if "n < length ?ss" for n
    using that suffix_kind [of "key_count ?ss" "[]" ?ss] by (metis length_map nth_map)
  moreover have "length (suffix_duplicates (key_count ?ss) [] ?ss) = length ?ss"
    by (metis length_map suffix_kind)
  ultimately have eq: "?ids ! j = ?ids ! k"
    unfolding outcome_symbols [OF assms(1)] syms
    using assms(2-6) many \<open>i < k\<close> suffix_nth [of i j ?ss "key_count ?ss" "[]"] suffix_nth [of i k ?ss "key_count ?ss" "[]"] by simp
  then have "\<not> distinct ?ids" using assms(3,4) len by (metis less_trans nat_neq_iff nth_eq_iff_index_eq)
  then have "card (set ?ids) < length ?ids" using card_distinct card_length le_neq_implies_less by blast
  then show ?thesis using eq assms(3,4) len by simp
qed

end
