(* ===== verification/Index_Behaviour.thy ===== *)
theory Index_Behaviour
  imports Index_Duplicates
begin

text \<open>
  The properties of the index runs, a scheduler that executes a chosen interleaving, and the runs that show the
  properties on concrete files.
\<close>

section \<open>Chosen interleavings\<close>

datatype choice = Take | Go nat | Refresh nat

definition do_choice ::
    "('c, 'f) index_env \<Rightarrow> bool \<Rightarrow> int \<Rightarrow> (string \<Rightarrow> string) \<Rightarrow> choice \<Rightarrow> ('c, 'f) machine \<Rightarrow> ('c, 'f) machine option" where
  "do_choice env force maxSize detect ch m =
     (case ch of
        Take \<Rightarrow> (case m_Queue m of [] \<Rightarrow> None | w # ws \<Rightarrow> Some (take_file env force maxSize detect w (m\<lparr>m_Queue := ws\<rparr>)))
      | Go k \<Rightarrow>
          if k < length (m_Jobs m) then
            (case m_Jobs m ! k of (path, c, pc) \<Rightarrow>
               if pc = Finished then None
               else (case file_step env path c pc m of (pc1, m1) \<Rightarrow> Some (m1\<lparr>m_Jobs := (m_Jobs m)[k := (path, c, pc1)]\<rparr>)))
          else None
      | Refresh n \<Rightarrow> Some (refresh_counts env n m))"

fun do_choices ::
    "('c, 'f) index_env \<Rightarrow> bool \<Rightarrow> int \<Rightarrow> (string \<Rightarrow> string) \<Rightarrow> choice list \<Rightarrow> ('c, 'f) machine \<Rightarrow> ('c, 'f) machine option" where
  "do_choices env force maxSize detect [] m = Some m"
| "do_choices env force maxSize detect (ch # chs) m =
     (case do_choice env force maxSize detect ch m of None \<Rightarrow> None | Some m1 \<Rightarrow> do_choices env force maxSize detect chs m1)"

lemma do_choice_step: "do_choice env force maxSize detect ch m = Some m1 \<Longrightarrow> index_step env force maxSize detect m m1"
  by (auto simp: do_choice_def split: choice.splits list.splits if_splits prod.splits
    intro: index_step.take index_step.go index_step.refresh)

lemma do_choices_steps: "do_choices env force maxSize detect chs m = Some m1 \<Longrightarrow> (index_step env force maxSize detect)\<^sup>*\<^sup>* m m1"
proof (induction chs arbitrary: m)
  case (Cons ch chs)
  then obtain m2 where m2: "do_choice env force maxSize detect ch m = Some m2" "do_choices env force maxSize detect chs m2 = Some m1"
    by (auto split: option.splits)
  show ?case by (rule converse_rtranclp_into_rtranclp [OF do_choice_step [OF m2(1)] Cons.IH [OF m2(2)]])
qed simp

section \<open>Two files\<close>

text \<open>The content of a file of the demonstrations is the name of the only function it declares.\<close>

definition demo_extracted :: "string \<Rightarrow> int \<Rightarrow> nat extracted_symbol" where
  "demo_extracted name line =
     \<lparr>xs_Name = name, xs_QualifiedName = name, xs_Kind = ''Function'', xs_StartByte = 0, xs_EndByte = 9, xs_StartLine = line, xs_EndLine = line + 1,
      xs_Signature = '''', xs_ReturnType = '''', xs_Docstring = '''', xs_Parent = '''', xs_IsExported = False, xs_IsTest = False,
      xs_IsEntryPoint = False, xs_Complexity = 1, xs_ExtractionConfidence = 1, xs_Fields = [], xs_InterfaceMethods = []\<rparr>"

definition demo_env :: "(string, nat) index_env" where
  "demo_env =
     \<lparr>ie_ProjectID = ''p'', ie_Branch = ''main'', ie_Binary = ''1.0.0'', ie_Now = 7, ie_Zero = 0, ie_One = 1,
      ie_Hash = (\<lambda>c. CHR ''h'' # c), ie_Lang = (\<lambda>path c. ''Go''),
      ie_Extract = (\<lambda>lang path c. Returns (Some \<lparr>r_Symbols = [demo_extracted c 1], r_Edges = [], r_QNCollisions = []\<rparr>)),
      ie_Confidence = (\<lambda>lang path c s. 1), ie_NegativeText = (\<lambda>s. ''''), ie_CollisionText = (\<lambda>qn n. qn)\<rparr>"

definition demo_item :: "string \<Rightarrow> string \<Rightarrow> string walk_item" where
  "demo_item path c = \<lparr>w_Path = path, w_Skip = False, w_Source = True, w_Size = Some 9, w_Content = Some c\<rparr>"

definition demo_queue :: "string walk_item list" where
  "demo_queue = [demo_item ''a.go'' ''f'', demo_item ''b.go'' ''g'']"

definition demo_empty :: "nat store" where
  "demo_empty = empty_store\<lparr>t_projects := [demo_project ''p'' ''/p'' ''1.0.0'']\<rparr>"

lemma demo_env_simps [simp]:
  "ie_ProjectID demo_env = ''p''" "ie_Hash demo_env c = CHR ''h'' # c" "ie_Lang demo_env path c = ''Go''"
  "ie_Extract demo_env lang path c = Returns (Some \<lparr>r_Symbols = [demo_extracted c 1], r_Edges = [], r_QNCollisions = []\<rparr>)"
  by (simp_all add: demo_env_def)

lemma demo_outcome: "map (\<lambda>s. (s_FilePath s, s_ID s)) (outcome demo_env path c) = [(path, MakeSymbolID path c ''Function'')]"
  by (simp add: outcome_def rows_of_def result_of_def ExtractWithModule_def disambiguateDuplicates_def to_symbol_def demo_extracted_def)

lemma demo_empty_rows: "rows_ok ''p'' demo_empty"
  by (simp add: rows_ok_def demo_empty_def empty_store_def has_project_def demo_project_def)

lemma demo_clean: "CHR '':'' \<notin> set path \<Longrightarrow> clean_file demo_env path c"
  using demo_outcome [of path c] by (cases "outcome demo_env path c") (auto simp: clean_file_def)

lemma demo_queue_clean: "clean_walk demo_env demo_queue"
  by (simp add: clean_walk_def demo_queue_def demo_item_def demo_clean)

section \<open>What a run leaves\<close>

text \<open>
  C19: Every complete run, however its goroutines interleave, leaves the same for a walk it can tell apart: after the
  walk is exhausted, every goroutine has finished and the buffers are flushed, a file that the gate admitted and that
  is new (or the run is forced) has exactly the rows of its extraction and its hash (a file of no known language keeps
  its old rows under the new hash), and every other path keeps the rows and the hash it had. The conditions: the
  project has its row, the stored symbols of the project have the identifiers made of their path, name and kind, no
  path of the store or of the walk has a colon, the paths of the walk are distinct, and the rows of each extraction
  have distinct identifiers.
\<close>
theorem index_run_exact:
  assumes "(index_step env force maxSize detect)\<^sup>*\<^sup>* (start_machine st queue) m" and "drained m"
    and "rows_ok (ie_ProjectID env) st" and "clean_walk env queue"
  shows "let fin = m_Store (final_flush env m); pid = ie_ProjectID env
    in (file_rows pid p fin, GetFileHash pid p fin) =
      (case planned env force maxSize st queue p of
         None \<Rightarrow> (file_rows pid p st, GetFileHash pid p st)
       | Some c \<Rightarrow> (if ie_Lang env p c = '''' then file_rows pid p st else stored_row env ` set (outcome env p c), ie_Hash env c))"
  by (rule run_exact [OF assms])

text \<open>
  No state of the extraction phase is stuck: from every machine, files left to take or goroutines under way, there are
  steps to one where the walk is exhausted and every goroutine has finished.
\<close>
theorem index_run_completes: "\<exists>m1. (index_step env force maxSize detect)\<^sup>*\<^sup>* m m1 \<and> drained m1"
  by (rule run_completes)

text \<open>
  A file that no longer yields symbols or edges loses its rows and gets its hash, but the edges that were pending for
  its old content stay pending: only the commit, which such a file does not reach, replaces them.
\<close>
theorem emptied_file_keeps_pending:
  assumes "ie_Lang env path c \<noteq> ''''" and "ie_Extract env (ie_Lang env path c) path c = Returns raw"
    and "r_Symbols (result_of env path c raw) = []" and "r_Edges (result_of env path c raw) = []"
  shows "\<exists>m1 m2. file_step env path c At_start m = (Cleared, m1) \<and> file_step env path c Cleared m1 = (Finished, m2) \<and>
    file_rows (ie_ProjectID env) path (m_Store m2) = {} \<and>
    GetFileHash (ie_ProjectID env) path (m_Store m2) = ie_Hash env c \<and>
    t_pending (m_Store m2) = t_pending (m_Store m)"
proof -
  let ?m1 = "m\<lparr>m_Store := DeleteSymbolsForFile (ie_ProjectID env) path (m_Store m)\<rparr>"
  have 1: "file_step env path c At_start m = (Cleared, ?m1)" using assms(1) by (simp add: file_step_def)
  have 2: "file_step env path c Cleared ?m1 = (Finished, stamp_hash env path c ?m1)"
    using assms by (simp add: file_step_def extract_step_def)
  have 3: "view env path (stamp_hash env path c ?m1) = ({}, fst (snd (view env path m)), ie_Hash env c)"
    unfolding view_stamp view_clear by simp
  have "t_pending (m_Store (stamp_hash env path c ?m1)) = t_pending (m_Store m)"
    by (simp add: stamp_hash_def SetFileHash_def DeleteSymbolsForFile_def Let_def delete_fields_of_def delete_methods_of_def)
  then show ?thesis using 1 2 3 by (auto simp: view_def)
qed

section \<open>The demonstrations\<close>

lemma demo_rows: "s_ID ` stored_row demo_env ` set (outcome demo_env path c) = {MakeSymbolID path c ''Function''}"
  using demo_outcome [of path c] by (cases "outcome demo_env path c") auto

lemma demo_gate: "gate 100 (demo_item ''a.go'' c) = Admitted c" "gate 100 (demo_item ''b.go'' c) = Admitted c"
proof -
  have "\<not> isFixturePath ''a.go''" "\<not> isFixturePath ''b.go''" by code_simp+
  then show "gate 100 (demo_item ''a.go'' c) = Admitted c" "gate 100 (demo_item ''b.go'' c) = Admitted c"
    by (simp_all add: gate_def demo_item_def)
qed

text \<open>The file \<open>a.go\<close> is in the store already.\<close>

definition demo_half :: "nat store" where
  "demo_half = demo_empty\<lparr>t_symbols := map (stored_row demo_env) (outcome demo_env ''a.go'' ''f''),
     t_files := [\<lparr>f_ProjectID = ''p'', f_Path = ''a.go'', f_Hash = ''hf'', f_IndexedAt = 1\<rparr>]\<rparr>"

lemma demo_half_hash: "GetFileHash ''p'' ''a.go'' demo_half = ''hf''" "GetFileHash ''p'' ''b.go'' demo_half = ''''"
  by (simp_all add: demo_half_def GetFileHash_def)

lemma demo_half_a: "file_rows ''p'' ''a.go'' demo_half = stored_row demo_env ` set (outcome demo_env ''a.go'' ''f'')"
  by (auto simp: demo_half_def file_rows_def dest: outcome_fields)

lemma demo_half_rows: "rows_ok ''p'' demo_half"
  using demo_empty_rows
  by (auto simp: rows_ok_def demo_half_def has_project_def id_ok_def dest!: outcome_fields)

lemma demo_walk: "walk_contents demo_queue = [''f'', ''g'']"
  by (simp add: walk_contents_def demo_queue_def demo_item_def)

lemma demo_half_sync: "in_sync demo_env [''f'', ''g''] demo_half"
  using demo_half_hash demo_half_a by (simp add: in_sync_def) (simp add: demo_half_def GetFileHash_def)

lemma demo_hash: "hash_ok demo_env [''f'', ''g'']"
  by (simp add: hash_ok_def)

lemma demo_planned: "planned demo_env False 100 demo_half demo_queue ''a.go'' = None"
    "planned demo_env False 100 demo_half demo_queue ''b.go'' = Some ''g''"
    "planned demo_env True 100 demo_half demo_queue ''a.go'' = Some ''f''"
  using demo_gate demo_half_hash by (simp_all add: planned_def demo_queue_def) (simp_all add: demo_item_def)

theorem index_run_exact_witness:
  "\<exists>m. (index_step demo_env False 100 (\<lambda>p. ''Go''))\<^sup>*\<^sup>* (start_machine demo_half demo_queue) m \<and> drained m \<and>
     s_ID ` file_rows ''p'' ''b.go'' (m_Store (final_flush demo_env m)) = {''b.go::g#Function''} \<and>
     GetFileHash ''p'' ''b.go'' (m_Store (final_flush demo_env m)) = ''hg''"
proof -
  obtain m where m: "(index_step demo_env False 100 (\<lambda>p. ''Go''))\<^sup>*\<^sup>* (start_machine demo_half demo_queue) m" "drained m"
    using run_completes by blast
  have r: "rows_ok (ie_ProjectID demo_env) demo_half" using demo_half_rows by simp
  from index_run_exact [OF m r demo_queue_clean, of "''b.go''"]
  have "file_rows ''p'' ''b.go'' (m_Store (final_flush demo_env m)) = stored_row demo_env ` set (outcome demo_env ''b.go'' ''g'') \<and>
      GetFileHash ''p'' ''b.go'' (m_Store (final_flush demo_env m)) = ''hg''"
    by (simp add: demo_planned Let_def)
  then show ?thesis using m demo_rows [of "''b.go''" "''g''"] by (intro exI [of _ m]) (simp add: MakeSymbolID_def)
qed

theorem run_keeps_sync_witness:
  "\<exists>m. (index_step demo_env False 100 (\<lambda>p. ''Go''))\<^sup>*\<^sup>* (start_machine demo_half demo_queue) m \<and> drained m \<and>
     in_sync demo_env [''f'', ''g''] (m_Store (final_flush demo_env m))"
proof -
  obtain m where m: "(index_step demo_env False 100 (\<lambda>p. ''Go''))\<^sup>*\<^sup>* (start_machine demo_half demo_queue) m" "drained m"
    using run_completes by blast
  have r: "rows_ok (ie_ProjectID demo_env) demo_half" using demo_half_rows by simp
  from run_keeps_sync [OF m r demo_queue_clean demo_half_sync demo_hash] show ?thesis using m by (intro exI [of _ m]) (simp add: demo_walk)
qed

theorem incremental_equals_full_witness:
  "\<exists>m1 m2. (index_step demo_env False 100 (\<lambda>p. ''Go''))\<^sup>*\<^sup>* (start_machine demo_half demo_queue) m1 \<and> drained m1 \<and>
     (index_step demo_env True 100 (\<lambda>p. ''Go''))\<^sup>*\<^sup>* (start_machine demo_half demo_queue) m2 \<and> drained m2 \<and>
     s_ID ` file_rows ''p'' ''a.go'' (m_Store (final_flush demo_env m1)) = {''a.go::f#Function''} \<and>
     s_ID ` file_rows ''p'' ''a.go'' (m_Store (final_flush demo_env m2)) = {''a.go::f#Function''}"
proof -
  obtain m1 where 1: "(index_step demo_env False 100 (\<lambda>p. ''Go''))\<^sup>*\<^sup>* (start_machine demo_half demo_queue) m1" "drained m1"
    using run_completes by blast
  obtain m2 where 2: "(index_step demo_env True 100 (\<lambda>p. ''Go''))\<^sup>*\<^sup>* (start_machine demo_half demo_queue) m2" "drained m2"
    using run_completes by blast
  have r: "rows_ok (ie_ProjectID demo_env) demo_half" using demo_half_rows by simp
  have s: "in_sync demo_env (walk_contents demo_queue) demo_half" "hash_ok demo_env (walk_contents demo_queue)"
    by (simp_all add: demo_walk demo_half_sync demo_hash)
  have "s_ID ` file_rows ''p'' ''a.go'' (m_Store (final_flush demo_env m1)) = {''a.go::f#Function''}"
    using run_exact [OF 1 r demo_queue_clean, of "''a.go''"] demo_rows [of "''a.go''" "''f''"]
    by (simp add: demo_planned MakeSymbolID_def demo_half_a Let_def)
  then show ?thesis using incremental_equals_full [OF 1 2 r demo_queue_clean s, of "''a.go''"] 1 2
    by (intro exI [of _ m1] exI [of _ m2]) simp
qed

theorem emptied_file_keeps_pending_witness:
  "\<exists>m1 m2. file_step (demo_env\<lparr>ie_Extract := \<lambda>l p c. Returns None\<rparr>) ''a.go'' ''x'' At_start (start_machine demo_half []) = (Cleared, m1) \<and>
     file_step (demo_env\<lparr>ie_Extract := \<lambda>l p c. Returns None\<rparr>) ''a.go'' ''x'' Cleared m1 = (Finished, m2) \<and>
     file_rows ''p'' ''a.go'' (m_Store m2) = {} \<and> GetFileHash ''p'' ''a.go'' (m_Store m2) = ''hx'' \<and>
     t_pending (m_Store m2) = t_pending demo_half"
  using emptied_file_keeps_pending [of "demo_env\<lparr>ie_Extract := \<lambda>l p c. Returns None\<rparr>" "''a.go''" "''x''" None "start_machine demo_half []"]
  by (simp add: result_of_def ExtractWithModule_def start_machine_def)

definition demo_cancel :: "(string, nat) machine option" where
  "demo_cancel = do_choices demo_env False 100 (\<lambda>p. ''Go'') [Take, Go 0, Go 0, Go 0, Go 0] (start_machine demo_empty [demo_item ''a.go'' ''f''])"

lemma demo_cancel_run: "\<exists>m. demo_cancel = Some m \<and> m_Jobs m = [(''a.go'', ''f'', Finished)] \<and> map s_FilePath (m_SymBuf m) = [''a.go'']"
proof -
  have "case demo_cancel of None \<Rightarrow> False | Some m \<Rightarrow>
    (case m_Jobs m of [(p, c, Finished)] \<Rightarrow> p = ''a.go'' \<and> c = ''f'' | _ \<Rightarrow> False) \<and> map s_FilePath (m_SymBuf m) = [''a.go'']"
    by code_simp
  then show ?thesis by (auto split: option.splits list.splits prod.splits file_pc.splits)
qed

text \<open>The next run does not bring the function of \<open>a.go\<close> back.\<close>

theorem cancelled_run_loses_symbols_witness:
  "\<exists>m m2. demo_cancel = Some m \<and>
     (index_step demo_env False 100 (\<lambda>p. ''Go''))\<^sup>*\<^sup>* (start_machine (cancel_run m) [demo_item ''a.go'' ''f'']) m2 \<and> drained m2 \<and>
     file_rows ''p'' ''a.go'' (m_Store (final_flush demo_env m2)) = {}"
proof -
  obtain m where m: "demo_cancel = Some m" "m_Jobs m = [(''a.go'', ''f'', Finished)]" "map s_FilePath (m_SymBuf m) = [''a.go'']"
    using demo_cancel_run by (elim exE conjE)
  have run: "(index_step demo_env False 100 (\<lambda>p. ''Go''))\<^sup>*\<^sup>* (start_machine demo_empty [demo_item ''a.go'' ''f'']) m"
    using m(1) unfolding demo_cancel_def by (rule do_choices_steps)
  have buf: "''a.go'' \<in> s_FilePath ` set (m_SymBuf m)" by (simp only: set_map [symmetric] m(3)) simp
  have walk: "clean_walk demo_env [demo_item ''a.go'' ''f'']" by (simp add: clean_walk_def demo_item_def demo_clean)
  have r: "rows_ok (ie_ProjectID demo_env) demo_empty" using demo_empty_rows by simp
  have item: "w_Path (demo_item ''a.go'' ''f'') = ''a.go''" by (simp add: demo_item_def)
  obtain m2 where m2: "(index_step demo_env False 100 (\<lambda>p. ''Go''))\<^sup>*\<^sup>* (start_machine (cancel_run m) [demo_item ''a.go'' ''f'']) m2" "drained m2"
    using run_completes by blast
  have "file_rows ''p'' ''a.go'' (m_Store (final_flush demo_env m2)) = {}"
    using cancelled_run_loses_symbols [OF run r walk _ buf m2 walk _ item demo_gate(1), unfolded m(2)] by simp
  then show ?thesis using m(1) m2 by (intro exI [of _ m] exI [of _ m2]) simp
qed

definition demo_twins :: "(string, nat) index_env" where
  "demo_twins = demo_env\<lparr>ie_Extract := \<lambda>lang path c. Returns (Some \<lparr>r_Symbols = map (demo_extracted ''f'') [1, 4, int (length c)], r_Edges = [],
     r_QNCollisions = []\<rparr>)\<rparr>"

lemma demo_twins_extract: "ie_Extract demo_twins l p c = Returns (Some \<lparr>r_Symbols = map (demo_extracted ''f'') [1, 4, int (length c)], r_Edges = [], r_QNCollisions = []\<rparr>)"
  by (simp add: demo_twins_def)

theorem extraction_ids_distinct_witness: "distinct (map s_ID (outcome demo_twins ''a.go'' ''seven77''))"
  by (rule extraction_ids_distinct [OF demo_twins_extract]) (simp_all add: demo_extracted_def plain_name_def dup_key_def)

theorem same_line_duplicates_lost_witness: "card (s_ID ` set (outcome demo_twins ''a.go'' ''four'')) < 3"
  using same_line_duplicates_lost [where path = "''a.go''" and c = "''four''" and env = demo_twins, OF demo_twins_extract, of 0 1 2]
  by (simp add: demo_extracted_def dup_key_def numeral_3_eq_3)

end
