(* ===== verification/Resolve_Calls.thy ===== *)
theory Resolve_Calls
  imports Resolve_Names
begin

text \<open>
  \<open>resolveCalls\<close> (\<open>internal/index/indexer.go\<close>): deferred call edges become edges of the graph. Each Go closure with
  its cache is an operation on the record of caches; what a lookup means without a cache is its specification.
\<close>

section \<open>The caches\<close>

record call_cache =
  cc_qn :: "string \<rightharpoonup> string"
  cc_sib :: "string \<rightharpoonup> string list"
  cc_name :: "string \<rightharpoonup> string"
  cc_method :: "string \<rightharpoonup> string"
  cc_var :: "string \<rightharpoonup> string"
  cc_class :: "string \<rightharpoonup> string"

definition no_cache :: call_cache where
  "no_cache = \<lparr>cc_qn = Map.empty, cc_sib = Map.empty, cc_name = Map.empty, cc_method = Map.empty, cc_var = Map.empty, cc_class = Map.empty\<rparr>"

definition keep_siblings :: "string \<Rightarrow> 'f symbol list \<Rightarrow> string \<Rightarrow> call_cache \<Rightarrow> call_cache" where
  "keep_siblings key syms canonical c =
     (let sibs = siblingsForCanonical syms canonical
      in if length syms > 1 \<and> sibs \<noteq> [] then c\<lparr>cc_sib := (cc_sib c)(key \<mapsto> sibs)\<rparr> else c)"

definition lookupQN :: "'f sym_store \<Rightarrow> string \<Rightarrow> call_cache \<Rightarrow> string \<times> call_cache" where
  "lookupQN st qn c =
     (if qn = '''' then ('''', c)
      else (case cc_qn c qn of
          Some i \<Rightarrow> (i, c)
        | None \<Rightarrow>
            let syms = excludeNonCodeSyms (lookup_syms st qn)
            in if syms = [] then ('''', c\<lparr>cc_qn := (cc_qn c)(qn \<mapsto> '''')\<rparr>)
               else let canonical = pickCanonical syms
                 in (canonical, keep_siblings qn syms canonical (c\<lparr>cc_qn := (cc_qn c)(qn \<mapsto> canonical)\<rparr>))))"

definition lookupFromQN :: "'f sym_store \<Rightarrow> string \<Rightarrow> string \<Rightarrow> call_cache \<Rightarrow> string \<times> call_cache" where
  "lookupFromQN st qn fromFile c =
     (if qn = '''' then ('''', c)
      else if fromFile = '''' then lookupQN st qn c
      else let syms = lookup_syms st qn
        in if syms = [] then ('''', c)
           else (case find (\<lambda>s. s_FilePath s = fromFile) syms of
               Some s \<Rightarrow> (s_ID s, c)
             | None \<Rightarrow> (pickCanonical syms, c)))"

definition name_candidates :: "'f sym_store \<Rightarrow> string \<Rightarrow> 'f symbol list" where
  "name_candidates st name =
     (case st_by_name st name 200 of
        None \<Rightarrow> []
      | Some syms \<Rightarrow> excludeNonCodeSyms (excludeMethodSyms (preferNonFixtureSyms syms)))"

definition lookupName :: "'f sym_store \<Rightarrow> string \<Rightarrow> call_cache \<Rightarrow> string \<times> call_cache" where
  "lookupName st name c =
     (if name = '''' then ('''', c)
      else (case cc_name c name of
          Some i \<Rightarrow> (i, c)
        | None \<Rightarrow>
            let syms = name_candidates st name
            in if syms = [] then ('''', c\<lparr>cc_name := (cc_name c)(name \<mapsto> '''')\<rparr>)
               else let canonical = pickCanonical syms
                 in (canonical, keep_siblings name syms canonical (c\<lparr>cc_name := (cc_name c)(name \<mapsto> canonical)\<rparr>))))"

section \<open>Struct fields\<close>

text \<open>The qualified name inside an ID of the form file, two colons, name, hash, kind.\<close>

definition struct_qn :: "string \<Rightarrow> string" where
  "struct_qn struct_id =
     (case str_index struct_id ''::'' of
        None \<Rightarrow> []
      | Some i \<Rightarrow>
          let rest = drop (i + 2) struct_id
          in (case last_index (CHR ''#'') rest of
                None \<Rightarrow> []
              | Some j \<Rightarrow> if j > 0 then take j rest else []))"

definition fieldsByStructQN :: "'f sym_store \<Rightarrow> string \<Rightarrow> string \<Rightarrow> string option" where
  "fieldsByStructQN st qn field =
     (case st_fields st of
        None \<Rightarrow> None
      | Some rows \<Rightarrow>
          map_of (rev (map (\<lambda>(sid, f, t). (f, t)) (filter (\<lambda>(sid, f, t). struct_qn sid \<noteq> [] \<and> struct_qn sid = qn) rows))) field)"

section \<open>Receiver types\<close>

definition pkg_of :: "string \<Rightarrow> string" where
  "pkg_of fromQN = (case str_index fromQN ''.'' of None \<Rightarrow> fromQN | Some i \<Rightarrow> if i > 0 then take i fromQN else fromQN)"

text \<open>The first candidate that is found; the later ones are not looked up.\<close>

fun first_hit :: "('k \<Rightarrow> 'c \<Rightarrow> string \<times> 'c) \<Rightarrow> 'k list \<Rightarrow> 'c \<Rightarrow> string \<times> 'c" where
  "first_hit look [] c = ('''', c)"
| "first_hit look (k # ks) c = (let (i, c1) = look k c in if i \<noteq> '''' then (i, c1) else first_hit look ks c1)"

text \<open>The qualified names a call through a receiver of known type can have.\<close>

definition receiver_candidates :: "'f sym_store \<Rightarrow> string \<Rightarrow> string \<Rightarrow> string \<Rightarrow> string list" where
  "receiver_candidates st toName receiverType fromQN =
     (if receiverType = '''' \<or> toName = '''' \<or> fromQN = '''' then []
      else
        let pkg = pkg_of fromQN;
            bareRecv = trim_prefix receiverType ''*'';
            segments = split_on (CHR ''.'') [] toName
        in if str_contains bareRecv ''.'' then []
           else if isStdlibReceiver (hd segments) then []
           else (case segments of
               [_, m] \<Rightarrow> map (\<lambda>recvForm. pkg @ ''.'' @ recvForm @ ''.'' @ m) [receiverType, ''*'' @ bareRecv, bareRecv]
             | [_, f, m] \<Rightarrow>
                 (case fieldsByStructQN st (pkg @ ''.'' @ bareRecv) f of
                    None \<Rightarrow> []
                  | Some fieldType \<Rightarrow>
                      let bareField = trim_prefix fieldType ''*''
                      in if str_contains bareField ''.'' then []
                         else map (\<lambda>recvForm. pkg @ ''.'' @ recvForm @ ''.'' @ m) [''*'' @ bareField, bareField])
             | _ \<Rightarrow> []))"

definition resolveByReceiverType :: "'f sym_store \<Rightarrow> string \<Rightarrow> string \<Rightarrow> string \<Rightarrow> call_cache \<Rightarrow> string \<times> call_cache" where
  "resolveByReceiverType st toName receiverType fromQN =
     first_hit (lookupQN st) (receiver_candidates st toName receiverType fromQN)"

text \<open>The signature of a package variable is its inferred type.\<close>

definition var_type :: "'f sym_store \<Rightarrow> string \<Rightarrow> string" where
  "var_type st varQN =
     (case find (\<lambda>s. s_Kind s = ''Variable'' \<and> s_Signature s \<noteq> '''') (lookup_syms st varQN) of
        None \<Rightarrow> '''' | Some s \<Rightarrow> s_Signature s)"

definition base_method :: "string \<Rightarrow> string option" where
  "base_method toName =
     (case str_index toName ''.'' of
        None \<Rightarrow> None
      | Some dot \<Rightarrow>
          if dot = 0 \<or> dot + 1 \<ge> length toName \<or> str_contains (drop (dot + 1) toName) ''.'' then None
          else Some (take dot toName))"

definition resolveBySingletonVar :: "'f sym_store \<Rightarrow> string \<Rightarrow> string \<Rightarrow> call_cache \<Rightarrow> string \<times> call_cache" where
  "resolveBySingletonVar st toName fromQN c =
     (if toName = '''' \<or> fromQN = '''' then ('''', c)
      else (case base_method toName of
          None \<Rightarrow> ('''', c)
        | Some base \<Rightarrow>
            let varQN = pkg_of fromQN @ ''.'' @ base;
                (recvType, c1) = (case cc_var c varQN of
                    Some t \<Rightarrow> (t, c)
                  | None \<Rightarrow> (var_type st varQN, c\<lparr>cc_var := (cc_var c)(varQN \<mapsto> var_type st varQN)\<rparr>))
            in if recvType = '''' then ('''', c1) else resolveByReceiverType st toName recvType fromQN c1))"

definition lookupPythonCall :: "'f sym_store \<Rightarrow> string list \<Rightarrow> string \<Rightarrow> string \<Rightarrow> call_cache \<Rightarrow> string \<times> call_cache" where
  "lookupPythonCall st pythonRoots toName fromFile =
     first_hit (lookupQN st) (PythonImportCandidates toName fromFile pythonRoots)"

definition class_qn :: "'f sym_store \<Rightarrow> string \<Rightarrow> string" where
  "class_qn st name =
     (case st_by_name st name 50 of
        None \<Rightarrow> ''''
      | Some syms \<Rightarrow> (case find (\<lambda>s. s_Kind s = ''Class'' \<or> s_Kind s = ''Interface'') syms of
            None \<Rightarrow> '''' | Some s \<Rightarrow> s_QualifiedName s))"

definition classQNByName :: "'f sym_store \<Rightarrow> string \<Rightarrow> call_cache \<Rightarrow> string \<times> call_cache" where
  "classQNByName st name c =
     (if name = '''' then ('''', c)
      else (case cc_class c name of
          Some qn \<Rightarrow> (qn, c)
        | None \<Rightarrow> (class_qn st name, c\<lparr>cc_class := (cc_class c)(name \<mapsto> class_qn st name)\<rparr>)))"

definition resolveByReceiverTypeNonGo :: "'f sym_store \<Rightarrow> string \<Rightarrow> string \<Rightarrow> call_cache \<Rightarrow> string \<times> call_cache" where
  "resolveByReceiverTypeNonGo st toName receiverType c =
     (if receiverType = '''' \<or> toName = '''' then ('''', c)
      else (case split_on (CHR ''.'') [] toName of
          [_, methodName] \<Rightarrow>
            if methodName = '''' then ('''', c)
            else let (classQN, c1) = classQNByName st receiverType c
              in if classQN = '''' then ('''', c1) else lookupQN st (classQN @ ''.'' @ methodName) c1
        | _ \<Rightarrow> ('''', c)))"

text \<open>The last resort: the only method of that name, unless the receiver or the method name looks foreign.\<close>

definition method_fallback :: "'f sym_store \<Rightarrow> string \<Rightarrow> call_cache \<Rightarrow> string \<times> call_cache" where
  "method_fallback st toName c =
     (case last_index (CHR ''.'') toName of
        None \<Rightarrow> ('''', c)
      | Some i \<Rightarrow>
          if i > 0 \<and> i + 1 < length toName then
            let receiver = take i toName; trailing = drop (i + 1) toName
            in if isStdlibReceiver receiver \<or> isPolymorphicInterfaceMethodName trailing then ('''', c)
               else (case cc_method c trailing of
                   Some m \<Rightarrow> (m, c)
                 | None \<Rightarrow> (resolveMethodByName st trailing,
                     c\<lparr>cc_method := (cc_method c)(trailing \<mapsto> resolveMethodByName st trailing)\<rparr>))
          else ('''', c))"

section \<open>The two ends of an edge\<close>

text \<open>Go on with the next lookup when nothing was found.\<close>

definition or_else :: "string \<times> 'c \<Rightarrow> ('c \<Rightarrow> string \<times> 'c) \<Rightarrow> string \<times> 'c" where
  "or_else r f = (if fst r = '''' then f (snd r) else r)"

definition when_c :: "bool \<Rightarrow> ('c \<Rightarrow> string \<times> 'c) \<Rightarrow> 'c \<Rightarrow> string \<times> 'c" where
  "when_c b f c = (if b then f c else ('''', c))"

definition resolve_from :: "'f sym_store \<Rightarrow> 'f pending_edge \<Rightarrow> call_cache \<Rightarrow> string \<times> call_cache" where
  "resolve_from st e c =
     or_else (lookupFromQN st (e_FromQN e) (e_FromFile e) c)
       (when_c (\<not> str_contains (e_FromQN e) ''.'') (lookupName st (e_FromQN e)))"

definition resolve_to :: "'f sym_store \<Rightarrow> string list \<Rightarrow> 'f pending_edge \<Rightarrow> call_cache \<Rightarrow> string \<times> call_cache" where
  "resolve_to st pythonRoots e c =
     (let bare = \<not> str_contains (e_ToName e) ''.'';
          r0 = (if isPythonFile (e_FromFile e) then lookupPythonCall st pythonRoots (e_ToName e) (e_FromFile e) c
            else lookupQN st (e_ToName e) c);
          r1 = or_else r0 (when_c bare (lookupName st (e_ToName e)));
          r2 = or_else r1 (resolveByReceiverType st (e_ToName e) (e_ReceiverType e) (e_FromQN e));
          r3 = or_else r2 (when_c (e_ReceiverType e = '''' \<and> has_suffix (e_FromFile e) ''.go'')
            (resolveBySingletonVar st (e_ToName e) (e_FromQN e)));
          r4 = or_else r3 (when_c (e_ReceiverType e \<noteq> '''' \<and> isJSorTSFile (e_FromFile e))
            (resolveByReceiverTypeNonGo st (e_ToName e) (e_ReceiverType e)))
      in or_else r4 (method_fallback st (e_ToName e)))"

section \<open>The loop\<close>

record 'f call_state =
  cs_cache :: call_cache
  cs_seen :: "(string \<times> string) list"
  cs_edges :: "'f resolved_edge list"
  cs_from_missing :: nat
  cs_to_missing :: nat
  cs_self :: nat
  cs_dup :: nat

definition call_start :: "'f call_state" where
  "call_start = \<lparr>cs_cache = no_cache, cs_seen = [], cs_edges = [], cs_from_missing = 0, cs_to_missing = 0, cs_self = 0, cs_dup = 0\<rparr>"

definition calls_edge :: "string \<Rightarrow> string \<Rightarrow> string \<Rightarrow> 'f \<Rightarrow> 'f resolved_edge" where
  "calls_edge pid from to conf =
     \<lparr>g_ProjectID = pid, g_FromID = from, g_ToID = to, g_Kind = ''CALLS'', g_Confidence = conf,
      g_Properties = '''', g_Source = ''resolve_pass'', g_Branch = ''''\<rparr>"

text \<open>An edge to every build-tag sibling of the target, from the siblings kept under the name of the call.\<close>

fun fan_out :: "string \<Rightarrow> string \<Rightarrow> 'f \<Rightarrow> string list \<Rightarrow> 'f call_state \<Rightarrow> 'f call_state" where
  "fan_out pid from conf [] s = s"
| "fan_out pid from conf (sib # sibs) s =
     (if sib = from \<or> (from, sib) \<in> set (cs_seen s) then fan_out pid from conf sibs s
      else fan_out pid from conf sibs
        (s\<lparr>cs_seen := cs_seen s @ [(from, sib)], cs_edges := cs_edges s @ [calls_edge pid from sib conf]\<rparr>))"

definition call_step :: "'f sym_store \<Rightarrow> string list \<Rightarrow> string \<Rightarrow> 'f call_state \<Rightarrow> 'f pending_edge \<Rightarrow> 'f call_state" where
  "call_step st pythonRoots pid s e =
     (let (fromID, c1) = resolve_from st e (cs_cache s)
      in if fromID = '''' then s\<lparr>cs_cache := c1, cs_from_missing := cs_from_missing s + 1\<rparr>
         else let (toID, c2) = resolve_to st pythonRoots e c1
           in if toID = '''' then s\<lparr>cs_cache := c2, cs_to_missing := cs_to_missing s + 1\<rparr>
              else if fromID = toID then s\<lparr>cs_cache := c2, cs_self := cs_self s + 1\<rparr>
              else if (fromID, toID) \<in> set (cs_seen s) then s\<lparr>cs_cache := c2, cs_dup := cs_dup s + 1\<rparr>
              else fan_out pid fromID (e_Confidence e) (case cc_sib c2 (e_ToName e) of None \<Rightarrow> [] | Some sibs \<Rightarrow> sibs)
                (s\<lparr>cs_cache := c2, cs_seen := cs_seen s @ [(fromID, toID)],
                   cs_edges := cs_edges s @ [calls_edge pid fromID toID (e_Confidence e)]\<rparr>))"

definition resolve_calls_loop :: "'f sym_store \<Rightarrow> string list \<Rightarrow> string \<Rightarrow> 'f pending_edge list \<Rightarrow> 'f call_state" where
  "resolve_calls_loop st pythonRoots pid pending = foldl (call_step st pythonRoots pid) call_start pending"

section \<open>Lookups without a cache\<close>

definition qn_spec :: "'f sym_store \<Rightarrow> string \<Rightarrow> string" where
  "qn_spec st qn = (if qn = '''' \<or> excludeNonCodeSyms (lookup_syms st qn) = [] then ''''
     else pickCanonical (excludeNonCodeSyms (lookup_syms st qn)))"

definition name_spec :: "'f sym_store \<Rightarrow> string \<Rightarrow> string" where
  "name_spec st name = (if name = '''' \<or> name_candidates st name = [] then '''' else pickCanonical (name_candidates st name))"

fun first_spec :: "('k \<Rightarrow> string) \<Rightarrow> 'k list \<Rightarrow> string" where
  "first_spec f [] = ''''"
| "first_spec f (k # ks) = (if f k \<noteq> '''' then f k else first_spec f ks)"

definition from_qn_spec :: "'f sym_store \<Rightarrow> string \<Rightarrow> string \<Rightarrow> string" where
  "from_qn_spec st qn fromFile =
     (if qn = '''' then '''' else if fromFile = '''' then qn_spec st qn
      else let syms = lookup_syms st qn
        in if syms = [] then ''''
           else (case find (\<lambda>s. s_FilePath s = fromFile) syms of Some s \<Rightarrow> s_ID s | None \<Rightarrow> pickCanonical syms))"

definition receiver_spec :: "'f sym_store \<Rightarrow> string \<Rightarrow> string \<Rightarrow> string \<Rightarrow> string" where
  "receiver_spec st toName receiverType fromQN = first_spec (qn_spec st) (receiver_candidates st toName receiverType fromQN)"

definition singleton_spec :: "'f sym_store \<Rightarrow> string \<Rightarrow> string \<Rightarrow> string" where
  "singleton_spec st toName fromQN =
     (if toName = '''' \<or> fromQN = '''' then ''''
      else (case base_method toName of
          None \<Rightarrow> ''''
        | Some base \<Rightarrow> (let t = var_type st (pkg_of fromQN @ ''.'' @ base) in if t = '''' then '''' else receiver_spec st toName t fromQN)))"

definition class_method_spec :: "'f sym_store \<Rightarrow> string \<Rightarrow> string \<Rightarrow> string" where
  "class_method_spec st toName receiverType =
     (if receiverType = '''' \<or> toName = '''' then ''''
      else (case split_on (CHR ''.'') [] toName of
          [_, methodName] \<Rightarrow>
            if methodName = '''' \<or> class_qn st receiverType = '''' then '''' else qn_spec st (class_qn st receiverType @ ''.'' @ methodName)
        | _ \<Rightarrow> ''''))"

definition method_spec :: "'f sym_store \<Rightarrow> string \<Rightarrow> string" where
  "method_spec st toName =
     (case last_index (CHR ''.'') toName of
        None \<Rightarrow> ''''
      | Some i \<Rightarrow>
          if i > 0 \<and> i + 1 < length toName \<and> \<not> isStdlibReceiver (take i toName) \<and>
             \<not> isPolymorphicInterfaceMethodName (drop (i + 1) toName)
          then resolveMethodByName st (drop (i + 1) toName) else '''')"

definition or_spec :: "string \<Rightarrow> string \<Rightarrow> string" where
  "or_spec a b = (if a = '''' then b else a)"

definition when_spec :: "bool \<Rightarrow> string \<Rightarrow> string" where
  "when_spec b x = (if b then x else '''')"

definition from_spec :: "'f sym_store \<Rightarrow> 'f pending_edge \<Rightarrow> string" where
  "from_spec st e = or_spec (from_qn_spec st (e_FromQN e) (e_FromFile e))
     (when_spec (\<not> str_contains (e_FromQN e) ''.'') (name_spec st (e_FromQN e)))"

definition to_spec :: "'f sym_store \<Rightarrow> string list \<Rightarrow> 'f pending_edge \<Rightarrow> string" where
  "to_spec st pythonRoots e =
     or_spec (or_spec (or_spec (or_spec (or_spec
       (if isPythonFile (e_FromFile e) then first_spec (qn_spec st) (PythonImportCandidates (e_ToName e) (e_FromFile e) pythonRoots)
        else qn_spec st (e_ToName e))
       (when_spec (\<not> str_contains (e_ToName e) ''.'') (name_spec st (e_ToName e))))
       (receiver_spec st (e_ToName e) (e_ReceiverType e) (e_FromQN e)))
       (when_spec (e_ReceiverType e = '''' \<and> has_suffix (e_FromFile e) ''.go'') (singleton_spec st (e_ToName e) (e_FromQN e))))
       (when_spec (e_ReceiverType e \<noteq> '''' \<and> isJSorTSFile (e_FromFile e)) (class_method_spec st (e_ToName e) (e_ReceiverType e))))
       (method_spec st (e_ToName e))"

text \<open>The siblings a name can carry: those of its qualified name or of its bare name.\<close>

definition siblings_spec :: "'f sym_store \<Rightarrow> string \<Rightarrow> string list set" where
  "siblings_spec st key =
     {siblingsForCanonical (excludeNonCodeSyms (lookup_syms st key)) (qn_spec st key),
      siblingsForCanonical (name_candidates st key) (name_spec st key)}"

section \<open>The caches are transparent\<close>

definition cache_ok :: "'f sym_store \<Rightarrow> call_cache \<Rightarrow> bool" where
  "cache_ok st c \<longleftrightarrow>
     (\<forall>k v. cc_qn c k = Some v \<longrightarrow> v = qn_spec st k) \<and> (\<forall>k v. cc_name c k = Some v \<longrightarrow> v = name_spec st k) \<and>
     (\<forall>k v. cc_method c k = Some v \<longrightarrow> v = resolveMethodByName st k) \<and> (\<forall>k v. cc_var c k = Some v \<longrightarrow> v = var_type st k) \<and>
     (\<forall>k v. cc_class c k = Some v \<longrightarrow> v = class_qn st k) \<and> (\<forall>k v. cc_sib c k = Some v \<longrightarrow> v \<in> siblings_spec st k)"

lemma no_cache_ok: "cache_ok st no_cache"
  by (simp add: cache_ok_def no_cache_def)

text \<open>A lookup through a cache: its answer is the specification, and the cache stays correct.\<close>

locale memo =
  fixes look :: "'k \<Rightarrow> 'c \<Rightarrow> string \<times> 'c" and spec :: "'k \<Rightarrow> string" and ok :: "'c \<Rightarrow> bool"
  assumes look: "ok c \<Longrightarrow> fst (look k c) = spec k \<and> ok (snd (look k c))"
begin

lemma first_hit_spec: "ok c \<Longrightarrow> fst (first_hit look ks c) = first_spec spec ks \<and> ok (snd (first_hit look ks c))"
proof (induction ks arbitrary: c)
  case (Cons k ks)
  obtain i c1 where l: "look k c = (i, c1)" by (cases "look k c")
  then have "i = spec k" "ok c1" using look [OF Cons.prems, of k] by auto
  then show ?case using Cons.IH [of c1] by (simp add: l)
qed simp

end

text \<open>Keeping the specified answer keeps the caches correct.\<close>

lemma cache_ok_upd:
  assumes "cache_ok st c"
  shows "v = qn_spec st k \<Longrightarrow> cache_ok st (c\<lparr>cc_qn := (cc_qn c)(k \<mapsto> v)\<rparr>)"
    and "v = name_spec st k \<Longrightarrow> cache_ok st (c\<lparr>cc_name := (cc_name c)(k \<mapsto> v)\<rparr>)"
    and "v = resolveMethodByName st k \<Longrightarrow> cache_ok st (c\<lparr>cc_method := (cc_method c)(k \<mapsto> v)\<rparr>)"
    and "v = var_type st k \<Longrightarrow> cache_ok st (c\<lparr>cc_var := (cc_var c)(k \<mapsto> v)\<rparr>)"
    and "v = class_qn st k \<Longrightarrow> cache_ok st (c\<lparr>cc_class := (cc_class c)(k \<mapsto> v)\<rparr>)"
    and "sibs \<in> siblings_spec st k \<Longrightarrow> cache_ok st (c\<lparr>cc_sib := (cc_sib c)(k \<mapsto> sibs)\<rparr>)"
  using assms by (simp_all add: cache_ok_def)

lemma cache_okD:
  assumes "cache_ok st c"
  shows "cc_qn c k = Some v \<Longrightarrow> v = qn_spec st k" and "cc_name c k = Some v \<Longrightarrow> v = name_spec st k"
    and "cc_method c k = Some v \<Longrightarrow> v = resolveMethodByName st k" and "cc_var c k = Some v \<Longrightarrow> v = var_type st k"
    and "cc_class c k = Some v \<Longrightarrow> v = class_qn st k" and "cc_sib c k = Some sibs \<Longrightarrow> sibs \<in> siblings_spec st k"
  using assms by (auto simp: cache_ok_def)

lemma keep_siblings_ok:
  assumes "cache_ok st c" and "siblingsForCanonical syms canonical \<in> siblings_spec st key"
  shows "cache_ok st (keep_siblings key syms canonical c)"
  using assms by (auto simp: keep_siblings_def Let_def intro: cache_ok_upd)

lemma lookupQN_memo:
  assumes c: "cache_ok st c"
  shows "fst (lookupQN st qn c) = qn_spec st qn \<and> cache_ok st (snd (lookupQN st qn c))"
proof (cases "qn = '''' \<or> cc_qn c qn \<noteq> None")
  case True
  then consider "qn = ''''" | y where "qn \<noteq> ''''" "cc_qn c qn = Some y" by blast
  then show ?thesis using c cache_okD(1) [OF c, of qn] by cases (simp_all add: lookupQN_def qn_spec_def [of st "[]"])
next
  case False
  let ?syms = "excludeNonCodeSyms (lookup_syms st qn)"
  have ok: "cache_ok st (c\<lparr>cc_qn := (cc_qn c)(qn \<mapsto> qn_spec st qn)\<rparr>)" using c by (rule cache_ok_upd) simp
  have sib: "siblingsForCanonical ?syms (qn_spec st qn) \<in> siblings_spec st qn" by (simp add: siblings_spec_def)
  show ?thesis
  proof (cases "?syms = []")
    case True
    then have "qn_spec st qn = ''''" by (simp add: qn_spec_def)
    then show ?thesis using ok False True by (auto simp: lookupQN_def)
  next
    case syms: False
    then have q: "qn_spec st qn = pickCanonical ?syms" using False by (simp add: qn_spec_def)
    show ?thesis using keep_siblings_ok [OF ok sib] False syms by (auto simp: lookupQN_def Let_def q)
  qed
qed

interpretation qn_memo: memo "lookupQN st" "qn_spec st" "cache_ok st" for st
  by unfold_locales (rule lookupQN_memo)

lemma lookupName_memo:
  assumes c: "cache_ok st c"
  shows "fst (lookupName st n c) = name_spec st n \<and> cache_ok st (snd (lookupName st n c))"
proof (cases "n = '''' \<or> cc_name c n \<noteq> None")
  case True
  then consider "n = ''''" | y where "n \<noteq> ''''" "cc_name c n = Some y" by blast
  then show ?thesis using c cache_okD(2) [OF c, of n] by cases (simp_all add: lookupName_def name_spec_def [of st "[]"])
next
  case False
  let ?syms = "name_candidates st n"
  have ok: "cache_ok st (c\<lparr>cc_name := (cc_name c)(n \<mapsto> name_spec st n)\<rparr>)" using c by (rule cache_ok_upd) simp
  have sib: "siblingsForCanonical ?syms (name_spec st n) \<in> siblings_spec st n" by (simp add: siblings_spec_def)
  show ?thesis
  proof (cases "?syms = []")
    case True
    then have "name_spec st n = ''''" by (simp add: name_spec_def)
    then show ?thesis using ok False True by (auto simp: lookupName_def)
  next
    case syms: False
    then have q: "name_spec st n = pickCanonical ?syms" using False by (simp add: name_spec_def)
    show ?thesis using keep_siblings_ok [OF ok sib] False syms by (auto simp: lookupName_def Let_def q)
  qed
qed

interpretation name_memo: memo "lookupName st" "name_spec st" "cache_ok st" for st
  by unfold_locales (rule lookupName_memo)

lemma lookupFromQN_memo: "cache_ok st c \<Longrightarrow>
    fst (lookupFromQN st qn file c) = from_qn_spec st qn file \<and> cache_ok st (snd (lookupFromQN st qn file c))"
  using lookupQN_memo [of st c qn] by (auto simp: lookupFromQN_def from_qn_spec_def Let_def split: option.split)

lemma receiver_memo: "cache_ok st c \<Longrightarrow>
    fst (resolveByReceiverType st t r f c) = receiver_spec st t r f \<and> cache_ok st (snd (resolveByReceiverType st t r f c))"
  by (simp add: resolveByReceiverType_def receiver_spec_def qn_memo.first_hit_spec)

lemma singleton_memo:
  assumes c: "cache_ok st c"
  shows "fst (resolveBySingletonVar st t f c) = singleton_spec st t f \<and> cache_ok st (snd (resolveBySingletonVar st t f c))"
proof (cases "t = '''' \<or> f = '''' \<or> base_method t = None")
  case True
  then show ?thesis using c by (auto simp: resolveBySingletonVar_def singleton_spec_def)
next
  case False
  then obtain base where b: "base_method t = Some base" by auto
  define q where "q = pkg_of f @ CHR ''.'' # base"
  define ty where "ty = var_type st q"
  have ok: "cache_ok st (c\<lparr>cc_var := (cc_var c)(q \<mapsto> ty)\<rparr>)" using c by (rule cache_ok_upd) (simp add: ty_def)
  have s: "singleton_spec st t f = (if ty = '''' then '''' else receiver_spec st t ty f)"
    using False b by (simp add: singleton_spec_def Let_def flip: ty_def q_def)
  have r: "resolveBySingletonVar st t f c =
      (let (recvType, c1) = (case cc_var c q of Some t \<Rightarrow> (t, c) | None \<Rightarrow> (ty, c\<lparr>cc_var := (cc_var c)(q \<mapsto> ty)\<rparr>))
       in if recvType = '''' then ('''', c1) else resolveByReceiverType st t recvType f c1)"
    unfolding ty_def using False b by (simp add: resolveBySingletonVar_def Let_def flip: q_def)
  show ?thesis
  proof (cases "cc_var c q")
    case None
    then show ?thesis using receiver_memo [OF ok, of t ty f] ok by (auto simp: r s)
  next
    case (Some x)
    then have "x = ty" using cache_okD(4) [OF c] by (simp add: ty_def)
    then show ?thesis using Some receiver_memo [OF c, of t ty f] c by (simp add: r s)
  qed
qed

lemma class_memo:
  assumes c: "cache_ok st c"
  shows "fst (classQNByName st n c) = (if n = '''' then '''' else class_qn st n) \<and> cache_ok st (snd (classQNByName st n c))"
proof (cases "cc_class c n")
  case None
  have "cache_ok st (c\<lparr>cc_class := (cc_class c)(n \<mapsto> class_qn st n)\<rparr>)" using c by (rule cache_ok_upd) simp
  then show ?thesis using None c by (simp add: classQNByName_def)
next
  case (Some q)
  then show ?thesis using c cache_okD(5) [OF c Some] by (simp add: classQNByName_def)
qed

lemma class_method_memo:
  assumes "cache_ok st c"
  shows "fst (resolveByReceiverTypeNonGo st t r c) = class_method_spec st t r \<and> cache_ok st (snd (resolveByReceiverTypeNonGo st t r c))"
proof (cases "r = '''' \<or> t = '''' \<or> (\<nexists>a m. split_on (CHR ''.'') [] t = [a, m] \<and> m \<noteq> '''')")
  case True
  then show ?thesis using assms by (auto simp: resolveByReceiverTypeNonGo_def class_method_spec_def split: list.splits)
next
  case False
  then obtain a m where m: "split_on (CHR ''.'') [] t = [a, m]" "m \<noteq> ''''" by blast
  obtain q c1 where q: "classQNByName st r c = (q, c1)" by (cases "classQNByName st r c")
  then have "q = class_qn st r" "cache_ok st c1" using class_memo [OF assms, of r] False by auto
  then show ?thesis using False m q lookupQN_memo [of st c1 "q @ ''.'' @ m"]
    by (simp add: resolveByReceiverTypeNonGo_def class_method_spec_def)
qed

lemma method_memo:
  assumes c: "cache_ok st c"
  shows "fst (method_fallback st t c) = method_spec st t \<and> cache_ok st (snd (method_fallback st t c))"
proof -
  have "cache_ok st (c\<lparr>cc_method := (cc_method c)(k \<mapsto> resolveMethodByName st k)\<rparr>)" for k
    using c by (rule cache_ok_upd) simp
  then show ?thesis using c
    by (auto simp: method_fallback_def method_spec_def Let_def dest: cache_okD(3) [OF c] split: option.split)
qed

lemma or_else_memo:
  assumes "fst r = x \<and> cache_ok st (snd r)" and "\<And>c. cache_ok st c \<Longrightarrow> fst (f c) = y \<and> cache_ok st (snd (f c))"
  shows "fst (or_else r f) = or_spec x y \<and> cache_ok st (snd (or_else r f))"
  using assms by (auto simp: or_else_def or_spec_def)

lemma when_memo:
  assumes "\<And>c. cache_ok st c \<Longrightarrow> fst (f c) = y \<and> cache_ok st (snd (f c))"
  shows "cache_ok st c \<Longrightarrow> fst (when_c b f c) = when_spec b y \<and> cache_ok st (snd (when_c b f c))"
  using assms by (auto simp: when_c_def when_spec_def)

lemma resolve_from_memo: "cache_ok st c \<Longrightarrow> fst (resolve_from st e c) = from_spec st e \<and> cache_ok st (snd (resolve_from st e c))"
  unfolding resolve_from_def from_spec_def
  by (intro or_else_memo when_memo lookupFromQN_memo lookupName_memo)

lemma resolve_to_memo: "cache_ok st c \<Longrightarrow> fst (resolve_to st roots e c) = to_spec st roots e \<and> cache_ok st (snd (resolve_to st roots e c))"
  unfolding resolve_to_def to_spec_def Let_def
  by (intro or_else_memo when_memo lookupName_memo receiver_memo singleton_memo class_method_memo method_memo)
    (auto simp: lookupPythonCall_def qn_memo.first_hit_spec lookupQN_memo)

section \<open>The edges of the pass\<close>

text \<open>Both ends of the pending edge are found, and differ.\<close>

definition bindable :: "'f sym_store \<Rightarrow> string list \<Rightarrow> 'f pending_edge \<Rightarrow> bool" where
  "bindable st roots e \<longleftrightarrow> from_spec st e \<noteq> '''' \<and> to_spec st roots e \<noteq> '''' \<and> from_spec st e \<noteq> to_spec st roots e"

definition edge_ends :: "'f resolved_edge \<Rightarrow> string \<times> string" where
  "edge_ends g = (g_FromID g, g_ToID g)"

lemma ends_of_calls_edge [simp]: "edge_ends (calls_edge pid f t conf) = (f, t)"
  by (simp add: edge_ends_def calls_edge_def)

text \<open>An edge of a pending edge: to its target, or to a build-tag sibling kept under its name.\<close>

definition edge_of :: "'f sym_store \<Rightarrow> string list \<Rightarrow> string \<Rightarrow> 'f pending_edge \<Rightarrow> 'f resolved_edge \<Rightarrow> bool" where
  "edge_of st roots pid e g \<longleftrightarrow>
     g = calls_edge pid (from_spec st e) (g_ToID g) (e_Confidence e) \<and> g_ToID g \<noteq> from_spec st e \<and>
     (g_ToID g = to_spec st roots e \<or> g_ToID g \<in> \<Union> (set ` siblings_spec st (e_ToName e)))"

definition pass_ok :: "'f sym_store \<Rightarrow> string list \<Rightarrow> string \<Rightarrow> 'f pending_edge list \<Rightarrow> 'f call_state \<Rightarrow> bool" where
  "pass_ok st roots pid ps s \<longleftrightarrow>
     cache_ok st (cs_cache s) \<and> map edge_ends (cs_edges s) = cs_seen s \<and> distinct (cs_seen s) \<and>
     cs_from_missing s = length (filter (\<lambda>e. from_spec st e = '''') ps) \<and>
     cs_to_missing s = length (filter (\<lambda>e. from_spec st e \<noteq> '''' \<and> to_spec st roots e = '''') ps) \<and>
     cs_self s = length (filter (\<lambda>e. from_spec st e \<noteq> '''' \<and> from_spec st e = to_spec st roots e) ps) \<and>
     (\<forall>e \<in> set ps. bindable st roots e \<longrightarrow> (from_spec st e, to_spec st roots e) \<in> set (cs_seen s)) \<and>
     (\<forall>g \<in> set (cs_edges s). \<exists>e \<in> set ps. bindable st roots e \<and> edge_of st roots pid e g)"

text \<open>The fan-out keeps what was seen, adds edges of the same caller, and no pair twice.\<close>

lemma fan_out_ok:
  assumes "map edge_ends (cs_edges s) = cs_seen s" and "distinct (cs_seen s)"
  shows "map edge_ends (cs_edges (fan_out pid f conf sibs s)) = cs_seen (fan_out pid f conf sibs s)"
    and "distinct (cs_seen (fan_out pid f conf sibs s))"
    and "set (cs_seen s) \<subseteq> set (cs_seen (fan_out pid f conf sibs s))"
    and "set (cs_edges (fan_out pid f conf sibs s)) \<subseteq> set (cs_edges s) \<union> (\<lambda>x. calls_edge pid f x conf) ` (set sibs - {f})"
    and "cs_cache (fan_out pid f conf sibs s) = cs_cache s" and "cs_from_missing (fan_out pid f conf sibs s) = cs_from_missing s"
    and "cs_to_missing (fan_out pid f conf sibs s) = cs_to_missing s" and "cs_self (fan_out pid f conf sibs s) = cs_self s"
proof -
  have "map edge_ends (cs_edges (fan_out pid f conf sibs s)) = cs_seen (fan_out pid f conf sibs s) \<and>
    distinct (cs_seen (fan_out pid f conf sibs s)) \<and> set (cs_seen s) \<subseteq> set (cs_seen (fan_out pid f conf sibs s)) \<and>
    set (cs_edges (fan_out pid f conf sibs s)) \<subseteq> set (cs_edges s) \<union> (\<lambda>x. calls_edge pid f x conf) ` (set sibs - {f}) \<and>
    cs_cache (fan_out pid f conf sibs s) = cs_cache s \<and> cs_from_missing (fan_out pid f conf sibs s) = cs_from_missing s \<and>
    cs_to_missing (fan_out pid f conf sibs s) = cs_to_missing s \<and> cs_self (fan_out pid f conf sibs s) = cs_self s"
    using assms
  proof (induction sibs arbitrary: s)
    case (Cons x sibs)
    show ?case
    proof (cases "x = f \<or> (f, x) \<in> set (cs_seen s)")
      case True
      then show ?thesis using Cons.IH [OF Cons.prems] by auto
    next
      case False
      let ?s = "s\<lparr>cs_seen := cs_seen s @ [(f, x)], cs_edges := cs_edges s @ [calls_edge pid f x conf]\<rparr>"
      have "map edge_ends (cs_edges ?s) = cs_seen ?s" using Cons.prems by simp
      moreover have "distinct (cs_seen ?s)" using Cons.prems False by simp
      ultimately show ?thesis using Cons.IH [of ?s] False by auto
    qed
  qed simp
  then show "map edge_ends (cs_edges (fan_out pid f conf sibs s)) = cs_seen (fan_out pid f conf sibs s)"
    and "distinct (cs_seen (fan_out pid f conf sibs s))"
    and "set (cs_seen s) \<subseteq> set (cs_seen (fan_out pid f conf sibs s))"
    and "set (cs_edges (fan_out pid f conf sibs s)) \<subseteq> set (cs_edges s) \<union> (\<lambda>x. calls_edge pid f x conf) ` (set sibs - {f})"
    and "cs_cache (fan_out pid f conf sibs s) = cs_cache s" and "cs_from_missing (fan_out pid f conf sibs s) = cs_from_missing s"
    and "cs_to_missing (fan_out pid f conf sibs s) = cs_to_missing s" and "cs_self (fan_out pid f conf sibs s) = cs_self s"
    by blast+
qed

lemma call_step_spec:
  assumes "cache_ok st (cs_cache s)"
  obtains c where "cache_ok st c" and "call_step st roots pid s e =
     (if from_spec st e = '''' then s\<lparr>cs_cache := c, cs_from_missing := cs_from_missing s + 1\<rparr>
      else if to_spec st roots e = '''' then s\<lparr>cs_cache := c, cs_to_missing := cs_to_missing s + 1\<rparr>
      else if from_spec st e = to_spec st roots e then s\<lparr>cs_cache := c, cs_self := cs_self s + 1\<rparr>
      else if (from_spec st e, to_spec st roots e) \<in> set (cs_seen s) then s\<lparr>cs_cache := c, cs_dup := cs_dup s + 1\<rparr>
      else fan_out pid (from_spec st e) (e_Confidence e) (case cc_sib c (e_ToName e) of None \<Rightarrow> [] | Some sibs \<Rightarrow> sibs)
        (s\<lparr>cs_cache := c, cs_seen := cs_seen s @ [(from_spec st e, to_spec st roots e)],
           cs_edges := cs_edges s @ [calls_edge pid (from_spec st e) (to_spec st roots e) (e_Confidence e)]\<rparr>))"
proof -
  obtain f c1 where f: "resolve_from st e (cs_cache s) = (f, c1)" by (cases "resolve_from st e (cs_cache s)")
  then have 1: "f = from_spec st e" "cache_ok st c1" using resolve_from_memo [OF assms, of e] by auto
  obtain t c2 where t: "resolve_to st roots e c1 = (t, c2)" by (cases "resolve_to st roots e c1")
  then have 2: "t = to_spec st roots e" "cache_ok st c2" using resolve_to_memo [OF 1(2), of roots e] by auto
  show thesis
  proof (rule that [of "if from_spec st e = '''' then c1 else c2"])
    show "cache_ok st (if from_spec st e = '''' then c1 else c2)" using 1 2 by simp
  qed (use 1(1) 2(1) f t in \<open>simp add: call_step_def\<close>)
qed

lemma pass_ok_step:
  assumes ok: "pass_ok st roots pid ps s"
  shows "pass_ok st roots pid (ps @ [e]) (call_step st roots pid s e)"
proof -
  have c: "cache_ok st (cs_cache s)" and keys: "map edge_ends (cs_edges s) = cs_seen s" and d: "distinct (cs_seen s)"
    and old: "\<And>x. x \<in> set ps \<Longrightarrow> bindable st roots x \<Longrightarrow> (from_spec st x, to_spec st roots x) \<in> set (cs_seen s)"
    and from_old: "\<And>g. g \<in> set (cs_edges s) \<Longrightarrow> \<exists>x \<in> set ps. bindable st roots x \<and> edge_of st roots pid x g"
    using ok by (auto simp: pass_ok_def)
  obtain c2 where c2: "cache_ok st c2" and step: "call_step st roots pid s e =
     (if from_spec st e = '''' then s\<lparr>cs_cache := c2, cs_from_missing := cs_from_missing s + 1\<rparr>
      else if to_spec st roots e = '''' then s\<lparr>cs_cache := c2, cs_to_missing := cs_to_missing s + 1\<rparr>
      else if from_spec st e = to_spec st roots e then s\<lparr>cs_cache := c2, cs_self := cs_self s + 1\<rparr>
      else if (from_spec st e, to_spec st roots e) \<in> set (cs_seen s) then s\<lparr>cs_cache := c2, cs_dup := cs_dup s + 1\<rparr>
      else fan_out pid (from_spec st e) (e_Confidence e) (case cc_sib c2 (e_ToName e) of None \<Rightarrow> [] | Some sibs \<Rightarrow> sibs)
        (s\<lparr>cs_cache := c2, cs_seen := cs_seen s @ [(from_spec st e, to_spec st roots e)],
           cs_edges := cs_edges s @ [calls_edge pid (from_spec st e) (to_spec st roots e) (e_Confidence e)]\<rparr>))"
    by (rule call_step_spec [OF c, of roots pid e])
  show ?thesis
  proof (cases "bindable st roots e \<and> (from_spec st e, to_spec st roots e) \<notin> set (cs_seen s)")
    case False
    then show ?thesis using ok c2 by (auto simp: step pass_ok_def bindable_def)
  next
    case True
    let ?f = "from_spec st e" and ?t = "to_spec st roots e" and ?conf = "e_Confidence e"
    let ?s = "s\<lparr>cs_cache := c2, cs_seen := cs_seen s @ [(?f, ?t)], cs_edges := cs_edges s @ [calls_edge pid ?f ?t ?conf]\<rparr>"
    define sibs where "sibs = (case cc_sib c2 (e_ToName e) of None \<Rightarrow> [] | Some sibs \<Rightarrow> sibs)"
    have b: "?f \<noteq> ''''" "?t \<noteq> ''''" "?f \<noteq> ?t" using True by (auto simp: bindable_def)
    have r: "call_step st roots pid s e = fan_out pid ?f ?conf sibs ?s" using True b by (simp add: step sibs_def)
    have 1: "map edge_ends (cs_edges ?s) = cs_seen ?s" using keys by simp
    have 2: "distinct (cs_seen ?s)" using d True by simp
    note fan = fan_out_ok [OF 1 2, of pid ?f ?conf sibs]
    have sib: "set sibs \<subseteq> \<Union> (set ` siblings_spec st (e_ToName e))"
      using cache_okD(6) [OF c2, of "e_ToName e"] by (cases "cc_sib c2 (e_ToName e)") (auto simp: sibs_def)
    have "\<exists>x \<in> set (ps @ [e]). bindable st roots x \<and> edge_of st roots pid x g"
      if g: "g \<in> set (cs_edges (fan_out pid ?f ?conf sibs ?s))" for g
    proof -
      consider "g \<in> set (cs_edges s)" | "g = calls_edge pid ?f ?t ?conf"
        | x where "g = calls_edge pid ?f x ?conf" "x \<in> set sibs" "x \<noteq> ?f"
        using subsetD [OF fan(4) g] by auto
      then show ?thesis
      proof cases
        case 1
        then show ?thesis using from_old by fastforce
      next
        case 2
        then have "edge_of st roots pid e g" using b by (simp add: edge_of_def calls_edge_def)
        then show ?thesis using True by auto
      next
        case 3
        then have "edge_of st roots pid e g" using sib by (auto simp: edge_of_def calls_edge_def)
        then show ?thesis using True by auto
      qed
    qed
    moreover have "(from_spec st x, to_spec st roots x) \<in> set (cs_seen (fan_out pid ?f ?conf sibs ?s))"
      if "x \<in> set (ps @ [e])" "bindable st roots x" for x
      using that old fan(3) by auto
    ultimately show ?thesis using ok fan(1,2) c2 b
      by (auto simp: r pass_ok_def fan(5-8))
  qed
qed

lemma resolve_calls_ok: "pass_ok st roots pid pending (resolve_calls_loop st roots pid pending)"
proof (induction pending rule: rev_induct)
  case Nil
  then show ?case by (simp add: resolve_calls_loop_def call_start_def pass_ok_def no_cache_ok)
next
  case (snoc e ps)
  then show ?case using pass_ok_step [of st roots pid ps _ e] by (simp add: resolve_calls_loop_def)
qed

section \<open>What the pass binds to\<close>

text \<open>A symbol the store can answer with.\<close>

definition in_store :: "'f sym_store \<Rightarrow> 'f symbol \<Rightarrow> bool" where
  "in_store st s \<longleftrightarrow> (\<exists>k syms. st_by_qn st k = Some syms \<and> s \<in> set syms) \<or>
     (\<exists>k n syms. st_by_name st k n = Some syms \<and> s \<in> set syms)"

definition code_target :: "'f sym_store \<Rightarrow> string \<Rightarrow> bool" where
  "code_target st i \<longleftrightarrow> (\<exists>s. in_store st s \<and> s_ID s = i \<and> s_Kind s \<notin> set non_code_kinds)"

lemma lookup_syms_in: "s \<in> set (lookup_syms st qn) \<Longrightarrow> in_store st s"
  by (auto simp: lookup_syms_def in_store_def split: option.splits)

lemma lookup_name_in: "st_by_name st n k = Some syms \<Longrightarrow> s \<in> set syms \<Longrightarrow> in_store st s"
  unfolding in_store_def by blast

lemma code_targetI: "in_store st s \<Longrightarrow> s_Kind s \<notin> set non_code_kinds \<Longrightarrow> code_target st (s_ID s)"
  unfolding code_target_def by blast

lemma qn_candidates_code: "s_ID ` set (excludeNonCodeSyms (lookup_syms st qn)) \<subseteq> Collect (code_target st)"
  using lookup_syms_in by (auto simp: excludeNonCodeSyms_def intro: code_targetI)

lemma name_candidates_code: "s_ID ` set (name_candidates st n) \<subseteq> Collect (code_target st)"
proof (cases "st_by_name st n 200")
  case (Some syms)
  have "in_store st s \<and> s_Kind s \<notin> set non_code_kinds" if "s \<in> set (name_candidates st n)" for s
    using that lookup_name_in [OF Some, of s] excludeNonCode_subset(2) [of "preferNonFixtureSyms syms"]
      excludeNonCode_subset(3) [of syms]
    by (auto simp: name_candidates_def Some excludeNonCodeSyms_def [of "excludeMethodSyms _"])
  then show ?thesis by (auto intro: code_targetI)
qed (simp add: name_candidates_def)

text \<open>What a lookup without a cache answers: nothing, or a code symbol.\<close>

definition code_or_none :: "'f sym_store \<Rightarrow> string \<Rightarrow> bool" where
  "code_or_none st i \<longleftrightarrow> i = '''' \<or> code_target st i"

named_theorems code_lookup \<open>every lookup answers nothing or a code symbol\<close>

lemma code_or_none_empty [code_lookup]: "code_or_none st ''''"
  by (simp add: code_or_none_def)

lemma canonical_code: "syms \<noteq> [] \<Longrightarrow> s_ID ` set syms \<subseteq> Collect (code_target st) \<Longrightarrow> code_or_none st (pickCanonical syms)"
  using pickCanonical_in [of syms] by (auto simp: code_or_none_def)

lemma qn_spec_code [code_lookup]: "code_or_none st (qn_spec st qn)"
  using canonical_code [OF _ qn_candidates_code] code_or_none_empty by (auto simp: qn_spec_def)

lemma name_spec_code [code_lookup]: "code_or_none st (name_spec st n)"
  using canonical_code [OF _ name_candidates_code] code_or_none_empty by (auto simp: name_spec_def)

lemma first_spec_code: "(\<And>k. code_or_none st (f k)) \<Longrightarrow> code_or_none st (first_spec f ks)"
  by (induction ks) (simp_all add: code_or_none_empty)

lemma receiver_spec_code [code_lookup]: "code_or_none st (receiver_spec st t r f)"
  unfolding receiver_spec_def by (intro first_spec_code qn_spec_code)

lemma singleton_spec_code [code_lookup]: "code_or_none st (singleton_spec st t f)"
  by (cases "base_method t") (simp_all add: singleton_spec_def Let_def receiver_spec_code code_or_none_empty)

lemma class_method_spec_code [code_lookup]: "code_or_none st (class_method_spec st t r)"
  by (auto simp: class_method_spec_def qn_spec_code code_or_none_empty split: list.split)

lemma Method_is_code: "''Method'' \<notin> set non_code_kinds"
  by (simp add: non_code_kinds_def)

lemma method_name_code: "code_or_none st (resolveMethodByName st n)"
  using resolveMethodByName_method [of st n] Method_is_code
  unfolding code_or_none_def code_target_def in_store_def by metis

lemma method_spec_code [code_lookup]: "code_or_none st (method_spec st t)"
  by (cases "last_index (CHR ''.'') t") (simp_all add: method_spec_def method_name_code code_or_none_empty)

lemma or_spec_code [code_lookup]: "code_or_none st a \<Longrightarrow> code_or_none st b \<Longrightarrow> code_or_none st (or_spec a b)"
  by (simp add: or_spec_def)

lemma when_spec_code [code_lookup]: "code_or_none st a \<Longrightarrow> code_or_none st (when_spec b a)"
  by (simp add: when_spec_def code_or_none_empty)

lemma to_spec_code: "code_or_none st (to_spec st roots e)"
proof -
  have "code_or_none st (if isPythonFile (e_FromFile e)
      then first_spec (qn_spec st) (PythonImportCandidates (e_ToName e) (e_FromFile e) roots) else qn_spec st (e_ToName e))"
    by (simp add: qn_spec_code first_spec_code)
  then show ?thesis unfolding to_spec_def by (intro code_lookup)
qed

lemma siblings_spec_code:
  assumes "sibs \<in> siblings_spec st k"
  shows "set sibs \<subseteq> Collect (code_target st)"
proof -
  have "set (siblingsForCanonical syms c) \<subseteq> s_ID ` set syms" for syms c
    using siblings_in by blast
  then show ?thesis using assms qn_candidates_code [of st k] name_candidates_code [of st k]
    unfolding siblings_spec_def by blast
qed

section \<open>Properties of the pass\<close>

text \<open>
  C29: The call pass binds what it can. Every pair of ends is stored once; every deferred call whose caller and target
  are found, and differ, has its edge; every edge comes from such a call, to its target or to a build-tag sibling of
  the name; and the counters of calls without a caller, without a target and to themselves are exact. The caches
  change none of this: caller and target are those found without a cache.
\<close>
theorem resolve_calls_refines:
  "let s = resolve_calls_loop st roots pid pending
   in distinct (map edge_ends (cs_edges s)) \<and>
      (\<lambda>e. (from_spec st e, to_spec st roots e)) ` {e \<in> set pending. bindable st roots e} \<subseteq> edge_ends ` set (cs_edges s) \<and>
      set (cs_edges s) \<subseteq> {g. \<exists>e \<in> set pending. bindable st roots e \<and> edge_of st roots pid e g} \<and>
      cs_from_missing s = length (filter (\<lambda>e. from_spec st e = '''') pending) \<and>
      cs_to_missing s = length (filter (\<lambda>e. from_spec st e \<noteq> '''' \<and> to_spec st roots e = '''') pending) \<and>
      cs_self s = length (filter (\<lambda>e. from_spec st e \<noteq> '''' \<and> from_spec st e = to_spec st roots e) pending)"
proof -
  define s where "s = resolve_calls_loop st roots pid pending"
  have ok: "pass_ok st roots pid pending s" using resolve_calls_ok by (simp add: s_def)
  then have keys: "map edge_ends (cs_edges s) = cs_seen s" by (simp add: pass_ok_def)
  then have "edge_ends ` set (cs_edges s) = set (cs_seen s)" by (metis set_map)
  then show ?thesis using ok keys unfolding Let_def by (fold s_def) (auto simp: pass_ok_def)
qed

text \<open>
  A call edge never points at a setting, a section, a document or another symbol that is no code: every target,
  by whatever lookup it was found and siblings included, is the ID of a symbol of the store whose kind is not one of the non-code kinds.
\<close>
theorem resolve_calls_targets_code:
  "g_ToID ` set (cs_edges (resolve_calls_loop st roots pid pending)) \<subseteq> Collect (code_target st)"
proof
  fix t assume "t \<in> g_ToID ` set (cs_edges (resolve_calls_loop st roots pid pending))"
  then obtain g where g: "g \<in> set (cs_edges (resolve_calls_loop st roots pid pending))" "t = g_ToID g" by blast
  then obtain e where "bindable st roots e" "edge_of st roots pid e g"
    using resolve_calls_ok [of st roots pid pending] unfolding pass_ok_def by blast
  then show "t \<in> Collect (code_target st)"
    using g(2) to_spec_code [of st roots e] siblings_spec_code [of _ st "e_ToName e"]
    by (auto simp: edge_of_def bindable_def code_or_none_def)
qed

section \<open>The fan-out follows the name, not the target\<close>

text \<open>A package with one function per platform, a Python module with a function of the same name, a caller of each.\<close>

definition sym_of :: "'f \<Rightarrow> string \<Rightarrow> string \<Rightarrow> string \<Rightarrow> 'f symbol" where
  "sym_of conf file qn name =
     \<lparr>s_ID = MakeSymbolID file qn ''Function'', s_ProjectID = ''p'', s_FilePath = file, s_Name = name, s_QualifiedName = qn,
      s_Kind = ''Function'', s_Language = '''', s_StartByte = 0, s_EndByte = 9, s_StartLine = 1, s_EndLine = 1, s_Signature = '''',
      s_ReturnType = '''', s_Docstring = '''', s_Parent = '''', s_Complexity = 0, s_IsExported = False, s_IsTest = False,
      s_IsEntryPoint = False, s_FileHash = '''', s_ExtractionConfidence = conf, s_Branch = ''''\<rparr>"

definition two_platforms :: "'f \<Rightarrow> 'f sym_store" where
  "two_platforms conf =
     (let lin = sym_of conf ''a_linux.go'' ''p.open'' ''open''; dar = sym_of conf ''a_darwin.go'' ''p.open'' ''open'';
          py = sym_of conf ''lib/__init__.py'' ''lib.open'' ''open''; go = sym_of conf ''r.go'' ''p.run'' ''run''; use = sym_of conf ''u.py'' ''u.main'' ''main''
      in \<lparr>st_by_qn = (\<lambda>q. if q = ''p.run'' then Some [go] else if q = ''u.main'' then Some [use]
              else if q = ''lib.open'' then Some [py] else if q = ''p.open'' then Some [lin, dar] else None),
          st_by_name = (\<lambda>n k. if n = ''open'' then Some [lin, dar, py] else None),
          st_fields = None\<rparr>)"


definition call_of :: "string \<Rightarrow> string \<Rightarrow> string \<Rightarrow> 'f \<Rightarrow> 'f pending_edge" where
  "call_of qn file name conf =
     \<lparr>e_FromQN = qn, e_ToName = name, e_Kind = ''CALLS'', e_FromFile = file, e_Confidence = conf, e_ReceiverType = '''', e_BaseType = ''''\<rparr>"

text \<open>A step that stores an edge, with the cache it leaves.\<close>

definition cache_after :: "'f sym_store \<Rightarrow> string list \<Rightarrow> 'f pending_edge \<Rightarrow> call_cache \<Rightarrow> call_cache" where
  "cache_after st roots e c = snd (resolve_to st roots e (snd (resolve_from st e c)))"

lemma call_step_edge:
  assumes "cache_ok st (cs_cache s)" and "cs_cache s = c" and "(from_spec st e, to_spec st roots e) = (f, t)" and "f \<noteq> ''''" and "t \<noteq> ''''"
    and "f \<noteq> t" and "(f, t) \<notin> set (cs_seen s)" and "cc_sib (cache_after st roots e c) (e_ToName e) = sib"
  shows "call_step st roots pid s e = fan_out pid f (e_Confidence e) (case sib of None \<Rightarrow> [] | Some sibs \<Rightarrow> sibs)
    (s\<lparr>cs_cache := cache_after st roots e c, cs_seen := cs_seen s @ [(f, t)], cs_edges := cs_edges s @ [calls_edge pid f t (e_Confidence e)]\<rparr>)"
proof -
  obtain x c1 where f: "resolve_from st e (cs_cache s) = (x, c1)" by (cases "resolve_from st e (cs_cache s)")
  then have 1: "x = f" "cache_ok st c1" using resolve_from_memo [OF assms(1), of e] assms(3) by auto
  obtain y c2 where t: "resolve_to st roots e c1 = (y, c2)" by (cases "resolve_to st roots e c1")
  then have 2: "y = t" using resolve_to_memo [OF 1(2), of roots e] assms(3) by auto
  have "cache_after st roots e c = c2" using f t assms(2) by (simp add: cache_after_def)
  then show ?thesis using 1(1) 2 f t assms(4-) by (simp add: call_step_def)
qed

lemma cache_after_ok: "cache_ok st c \<Longrightarrow> cache_ok st (cache_after st roots e c)"
  using resolve_from_memo [of st c e] resolve_to_memo [of st _ roots e] by (simp add: cache_after_def)

abbreviation go_call :: "'f \<Rightarrow> 'f pending_edge" where
  "go_call \<equiv> call_of ''p.run'' ''r.go'' ''open''"

abbreviation py_call :: "'f \<Rightarrow> 'f pending_edge" where
  "py_call \<equiv> call_of ''u.main'' ''u.py'' ''open''"

lemma two_platforms_ends:
  "(from_spec (two_platforms conf) (go_call conf), to_spec (two_platforms conf) [''lib''] (go_call conf)) =
     (''r.go::p.run#Function'', ''a_darwin.go::p.open#Function'')"
  "(from_spec (two_platforms conf) (py_call conf), to_spec (two_platforms conf) [''lib''] (py_call conf)) =
     (''u.py::u.main#Function'', ''lib/__init__.py::lib.open#Function'')"
  by code_simp+

lemma two_platforms_siblings:
  "cc_sib (cache_after (two_platforms conf) [''lib''] (py_call conf) no_cache) ''open'' = None"
  "cc_sib (cache_after (two_platforms conf) [''lib''] (go_call conf) no_cache) ''open'' = Some [''a_linux.go::p.open#Function'']"
  "cc_sib (cache_after (two_platforms conf) [''lib''] (py_call conf) (cache_after (two_platforms conf) [''lib''] (go_call conf) no_cache)) ''open''
     = Some [''a_linux.go::p.open#Function'']"
  "cc_sib (cache_after (two_platforms conf) [''lib''] (go_call conf) (cache_after (two_platforms conf) [''lib''] (py_call conf) no_cache)) ''open''
     = Some [''a_linux.go::p.open#Function'']"
  by code_simp+

text \<open>
  The fan-out depends on the order of the deferred calls. A Python caller of its own module's function gets, when a
  Go call of the same bare name came first, one more edge, to the Linux variant of a Go function it does not call; when
  it comes first it does not. The siblings are looked up by the name called and not by the target found.
\<close>
theorem fan_out_by_name:
  "let go = call_of ''p.run'' ''r.go'' ''open'' conf; py = call_of ''u.main'' ''u.py'' ''open'' conf;
       ends = (\<lambda>es. filter (\<lambda>(f, t). f = ''u.py::u.main#Function'') (map edge_ends (cs_edges (resolve_calls_loop (two_platforms conf) [''lib''] pid es))))
   in ends [py, go] = [(''u.py::u.main#Function'', ''lib/__init__.py::lib.open#Function'')] \<and>
      ends [go, py] = [(''u.py::u.main#Function'', ''lib/__init__.py::lib.open#Function''),
                       (''u.py::u.main#Function'', ''a_linux.go::p.open#Function'')]"
proof -
  let ?st = "two_platforms conf" and ?step = "call_step (two_platforms conf) [''lib''] pid"
  let ?py = "''u.py::u.main#Function''" and ?lib = "''lib/__init__.py::lib.open#Function''"
  let ?run = "''r.go::p.run#Function''" and ?dar = "''a_darwin.go::p.open#Function''" and ?lin = "''a_linux.go::p.open#Function''"
  note py = call_step_edge [OF _ refl two_platforms_ends(2), where pid = pid] and go = call_step_edge [OF _ refl two_platforms_ends(1), where pid = pid]
  note sib = two_platforms_siblings [of conf]
  have proj: "e_ToName (call_of q fl n c) = n" "e_Confidence (call_of q fl n c) = c" for q fl n and c :: 'a
    by (simp_all add: call_of_def)
  have ok: "cache_ok ?st (cs_cache call_start)" by (simp add: call_start_def no_cache_ok)
  define sp where "sp = ?step call_start (py_call conf)"
  define sg where "sg = ?step call_start (go_call conf)"
  have "sp = fan_out pid ?py conf [] (call_start\<lparr>cs_cache := cache_after ?st [''lib''] (py_call conf) no_cache, cs_seen := [(?py, ?lib)],
      cs_edges := [calls_edge pid ?py ?lib conf]\<rparr>)"
    unfolding sp_def using py [OF ok, where sib = None] by (simp add: proj call_start_def sib(1))
  then have sp: "cs_cache sp = cache_after ?st [''lib''] (py_call conf) no_cache" "cs_seen sp = [(?py, ?lib)]" "cs_edges sp = [calls_edge pid ?py ?lib conf]"
    by simp_all
  have "sg = fan_out pid ?run conf [?lin] (call_start\<lparr>cs_cache := cache_after ?st [''lib''] (go_call conf) no_cache, cs_seen := [(?run, ?dar)],
      cs_edges := [calls_edge pid ?run ?dar conf]\<rparr>)"
    unfolding sg_def using go [OF ok, where sib = "Some [?lin]"] by (simp add: proj call_start_def sib(2))
  then have sg: "cs_cache sg = cache_after ?st [''lib''] (go_call conf) no_cache" "cs_seen sg = [(?run, ?dar), (?run, ?lin)]"
      "cs_edges sg = [calls_edge pid ?run ?dar conf, calls_edge pid ?run ?lin conf]"
    by simp_all
  have "?step sp (go_call conf) = fan_out pid ?run conf [?lin] (sp\<lparr>cs_cache := cache_after ?st [''lib''] (go_call conf) (cs_cache sp),
      cs_seen := cs_seen sp @ [(?run, ?dar)], cs_edges := cs_edges sp @ [calls_edge pid ?run ?dar conf]\<rparr>)"
    using go [where s = sp and sib = "Some [?lin]"] by (simp add: proj sp cache_after_ok no_cache_ok sib(4))
  then have "filter (\<lambda>(f, t). f = ?py) (map edge_ends (cs_edges (?step sp (go_call conf)))) = [(?py, ?lib)]" by (simp add: sp)
  moreover have "?step sg (py_call conf) = fan_out pid ?py conf [?lin] (sg\<lparr>cs_cache := cache_after ?st [''lib''] (py_call conf) (cs_cache sg),
      cs_seen := cs_seen sg @ [(?py, ?lib)], cs_edges := cs_edges sg @ [calls_edge pid ?py ?lib conf]\<rparr>)"
    using py [where s = sg and sib = "Some [?lin]"] by (simp add: proj sg cache_after_ok no_cache_ok sib(3))
  then have "filter (\<lambda>(f, t). f = ?py) (map edge_ends (cs_edges (?step sg (py_call conf)))) = [(?py, ?lib), (?py, ?lin)]" by (simp add: sg)
  ultimately show ?thesis by (simp add: resolve_calls_loop_def sp_def sg_def)
qed

end
