(* ===== verification/Resolve_Imports.thy ===== *)
theory Resolve_Imports
  imports Resolve_Calls Store_Behaviour
begin

text \<open>
  The resolve passes on the store (\<open>internal/index/indexer.go\<close>): what a pass reads of it, \<open>resolveImports\<close> with the
  placeholder modules it writes for targets outside the project, and \<open>resolveCalls\<close> up to its replacement of edges.
\<close>

section \<open>What a pass reads\<close>

text \<open>With a preloaded map the names are looked up there, otherwise each lookup is a query.\<close>

definition store_view :: "string \<Rightarrow> (string \<rightharpoonup> 'f symbol list) option \<Rightarrow> 'f store \<Rightarrow> 'f sym_store" where
  "store_view projectID qnMap st =
     \<lparr>st_by_qn = (\<lambda>qn. Some (case qnMap of
          None \<Rightarrow> GetSymbolsByQN projectID qn st
        | Some m \<Rightarrow> (case m qn of None \<Rightarrow> [] | Some syms \<Rightarrow> syms))),
      st_by_name = (\<lambda>name limit. Some (GetSymbolsByName projectID name (int limit) st)),
      st_fields = Some (map (\<lambda>r. (sf_StructID r, sf_FieldName r, sf_FieldType r)) (LoadStructFields projectID st))\<rparr>"

section \<open>Placeholders\<close>

text \<open>
  The loop ranges over the runes of the UTF-8 text: the bytes of a rune are copied, a byte that starts none is read as U+FFFD.
  \<open>rune_tail\<close> is the number of bytes after the first one of a rune.
\<close>

definition is_cont :: "char \<Rightarrow> bool" where
  "is_cont c \<longleftrightarrow> (of_char c :: nat) \<in> {128..191}"

definition conts :: "nat \<Rightarrow> string \<Rightarrow> bool" where
  "conts k s \<longleftrightarrow> k \<le> length s \<and> list_all is_cont (take k s)"

definition rune_tail :: "char \<Rightarrow> string \<Rightarrow> nat option" where
  "rune_tail c s =
     (let n = (of_char c :: nat); m = (of_char (hd s) :: nat)
      in if n < 128 then Some 0
         else if 194 \<le> n \<and> n < 224 \<and> conts 1 s then Some 1
         else if 224 \<le> n \<and> n < 240 \<and> conts 2 s \<and> (n = 224 \<longrightarrow> m \<ge> 160) \<and> (n = 237 \<longrightarrow> m < 160) then Some 2
         else if 240 \<le> n \<and> n < 245 \<and> conts 3 s \<and> (n = 240 \<longrightarrow> m \<ge> 144) \<and> (n = 244 \<longrightarrow> m < 144) then Some 3
         else None)"

fun sanitize_runes :: "nat \<Rightarrow> string \<Rightarrow> string" where
  "sanitize_runes k [] = ''''"
| "sanitize_runes (Suc k) (c # s) = c # sanitize_runes k s"
| "sanitize_runes 0 (c # s) =
     (case rune_tail c s of
        None \<Rightarrow> [CHR 0xEF, CHR 0xBF, CHR 0xBD] @ sanitize_runes 0 s
      | Some k \<Rightarrow>
          (if c \<in> {CHR ''<'', CHR ''>'', CHR '':'', CHR 0x22, CHR ''|'', CHR ''?'', CHR ''*'', CHR 0x00} then CHR ''_'' else c)
            # sanitize_runes k s)"

definition sanitizeExternalPath :: "string \<Rightarrow> string" where
  "sanitizeExternalPath s = (if s = '''' then ''unknown'' else sanitize_runes 0 s)"

definition external_path :: "string \<Rightarrow> string" where
  "external_path toName = ''@external/'' @ sanitizeExternalPath toName"

definition last_component :: "string \<Rightarrow> string" where
  "last_component name =
     (let base = rev (takeWhile (\<lambda>c. c \<noteq> CHR ''/'' \<and> c \<noteq> bsl) (rev name)) in if base = [] then name else base)"

definition externalModuleSymbol :: "'f \<Rightarrow> string \<Rightarrow> string \<Rightarrow> 'f symbol" where
  "externalModuleSymbol one projectID toName =
     \<lparr>s_ID = MakeSymbolID (external_path toName) toName ''Module'', s_ProjectID = projectID, s_FilePath = external_path toName,
      s_Name = last_component toName, s_QualifiedName = toName, s_Kind = ''Module'', s_Language = ''External'',
      s_StartByte = 0, s_EndByte = 0, s_StartLine = 0, s_EndLine = 0, s_Signature = '''', s_ReturnType = '''', s_Docstring = '''',
      s_Parent = '''', s_Complexity = 0, s_IsExported = True, s_IsTest = False, s_IsEntryPoint = False, s_FileHash = '''',
      s_ExtractionConfidence = one, s_Branch = ''''\<rparr>"

section \<open>The lookups\<close>

text \<open>A function read through a cache.\<close>

definition cached :: "('k \<Rightarrow> 'v) \<Rightarrow> 'k \<Rightarrow> ('k \<rightharpoonup> 'v) \<Rightarrow> 'v \<times> ('k \<rightharpoonup> 'v)" where
  "cached f k c = (case c k of Some i \<Rightarrow> (i, c) | None \<Rightarrow> (f k, c(k \<mapsto> f k)))"

definition cached_ok :: "('k \<Rightarrow> 'v) \<Rightarrow> ('k \<rightharpoonup> 'v) \<Rightarrow> bool" where
  "cached_ok f c \<longleftrightarrow> (\<forall>k v. c k = Some v \<longrightarrow> v = f k)"

lemma cached_spec: "cached_ok f c \<Longrightarrow> fst (cached f k c) = f k \<and> cached_ok f (snd (cached f k c))"
  by (auto simp: cached_def cached_ok_def split: option.split)

lemma cached_ok_empty [simp]: "cached_ok f Map.empty"
  by (simp add: cached_ok_def)

interpretation cached_memo: memo "cached f" f "cached_ok f" for f :: "'k \<Rightarrow> string"
  by unfold_locales (rule cached_spec)

definition canonical_or_none :: "'f symbol list \<Rightarrow> string" where
  "canonical_or_none syms = (if syms = [] then '''' else pickCanonical syms)"

definition import_lookup :: "'f sym_store \<Rightarrow> string \<Rightarrow> string" where
  "import_lookup v qn = canonical_or_none (lookup_syms v qn)"

definition python_target :: "'f sym_store \<Rightarrow> string \<Rightarrow> string" where
  "python_target v qn = canonical_or_none (excludeNonCodeSyms (lookup_syms v qn))"

section \<open>The loop\<close>

record 'f import_state =
  ip_cache :: "string \<rightharpoonup> string"
  ip_code_cache :: "string \<rightharpoonup> string"
  ip_seen :: "(string \<times> string) list"
  ip_edges :: "'f resolved_edge list"
  ip_externals :: "'f symbol list"
  ip_from_missing :: nat
  ip_to_missing :: nat
  ip_dup :: nat

definition import_start :: "'f import_state" where
  "import_start = \<lparr>ip_cache = Map.empty, ip_code_cache = Map.empty, ip_seen = [], ip_edges = [], ip_externals = [],
     ip_from_missing = 0, ip_to_missing = 0, ip_dup = 0\<rparr>"

definition pass_edge :: "string \<Rightarrow> string \<Rightarrow> string \<Rightarrow> string \<Rightarrow> string \<Rightarrow> 'f \<Rightarrow> 'f resolved_edge" where
  "pass_edge pid kind source from to conf =
     \<lparr>g_ProjectID = pid, g_FromID = from, g_ToID = to, g_Kind = kind, g_Confidence = conf,
      g_Properties = '''', g_Source = source, g_Branch = ''''\<rparr>"

definition bind_import :: "string \<Rightarrow> string \<Rightarrow> string \<Rightarrow> 'f pending_edge \<Rightarrow> 'f import_state \<Rightarrow> 'f import_state" where
  "bind_import pid fromID toID e s =
     (if toID = '''' then s\<lparr>ip_to_missing := ip_to_missing s + 1\<rparr>
      else if (fromID, toID) \<in> set (ip_seen s) then s\<lparr>ip_dup := ip_dup s + 1\<rparr>
      else s\<lparr>ip_seen := ip_seen s @ [(fromID, toID)],
             ip_edges := ip_edges s @ [pass_edge pid ''IMPORTS'' ''resolve_pass'' fromID toID (e_Confidence e)]\<rparr>)"

definition import_step :: "'f \<Rightarrow> 'f sym_store \<Rightarrow> string list \<Rightarrow> string \<Rightarrow> 'f import_state \<Rightarrow> 'f pending_edge \<Rightarrow> 'f import_state" where
  "import_step one v pythonRoots pid s e =
     (let (fromID, c1) = cached (import_lookup v) (e_FromQN e) (ip_cache s);
          (toID, c2, cc) = (if isPythonFile (e_FromFile e)
            then (case first_hit (cached (python_target v)) (PythonImportCandidates (e_ToName e) (e_FromFile e) pythonRoots) (ip_code_cache s) of
                (i, cc) \<Rightarrow> (i, c1, cc))
            else (case cached (import_lookup v) (e_ToName e) c1 of (i, c2) \<Rightarrow> (i, c2, ip_code_cache s)));
          s1 = s\<lparr>ip_cache := c2, ip_code_cache := cc\<rparr>
      in if fromID = '''' then s1\<lparr>ip_from_missing := ip_from_missing s1 + 1\<rparr>
         else if toID = '''' \<and> e_ToName e \<noteq> '''' then
           let ext = externalModuleSymbol one pid (e_ToName e)
           in bind_import pid fromID (s_ID ext) e (s1\<lparr>ip_externals := insert_replace s_ID ext (ip_externals s1)\<rparr>)
         else bind_import pid fromID toID e s1)"

definition resolve_imports_loop :: "'f \<Rightarrow> 'f sym_store \<Rightarrow> string list \<Rightarrow> string \<Rightarrow> 'f pending_edge list \<Rightarrow> 'f import_state" where
  "resolve_imports_loop one v pythonRoots pid pending = foldl (import_step one v pythonRoots pid) import_start pending"

text \<open>
  New rows first, then the edges; when the rows are refused, the edges that need one are dropped (\<open>uses\<close> tells which end
  does). The replacement of the edges fails as a whole.
\<close>

definition write_pass ::
    "'f \<Rightarrow> 'f \<Rightarrow> string \<Rightarrow> string \<Rightarrow> string list \<Rightarrow> ('f resolved_edge \<Rightarrow> string) \<Rightarrow> 'f symbol list \<Rightarrow> 'f resolved_edge list \<Rightarrow> 'f store \<Rightarrow> nat \<times> 'f store" where
  "write_pass zero one pid kind scopeFiles uses new edges st =
     (let (edges1, st1) =
          (if new = [] then (edges, st)
           else (case BulkUpsertSymbols zero one new st of
               Inl _ \<Rightarrow> (filter (\<lambda>g. uses g \<notin> s_ID ` set new) edges, st)
             | Inr st1 \<Rightarrow> (edges, st1)))
      in case ReplaceEdgesByKindSource pid kind ''resolve_pass'' scopeFiles edges1 st1 of
           Inl _ \<Rightarrow> (0, st1) | Inr st2 \<Rightarrow> (length edges1, st2))"

definition resolveImports ::
    "'f \<Rightarrow> 'f \<Rightarrow> string \<Rightarrow> 'f pending_edge list \<Rightarrow> string list \<Rightarrow> (string \<rightharpoonup> 'f symbol list) option \<Rightarrow> string list \<Rightarrow> 'f store \<Rightarrow> nat \<times> 'f store" where
  "resolveImports zero one pid pending pythonRoots qnMap scopeFiles st =
     (if pending = [] then (0, DeleteResolvePassEdgesByKindForSourceFiles pid ''IMPORTS'' scopeFiles st)
      else let s = resolve_imports_loop one (store_view pid qnMap st) pythonRoots pid pending
        in write_pass zero one pid ''IMPORTS'' scopeFiles g_ToID (ip_externals s) (ip_edges s) st)"

definition resolveCalls ::
    "string \<Rightarrow> 'f pending_edge list \<Rightarrow> string list \<Rightarrow> (string \<rightharpoonup> 'f symbol list) option \<Rightarrow> string list \<Rightarrow> 'f store \<Rightarrow> nat \<times> 'f store" where
  "resolveCalls pid pending pythonRoots qnMap scopeFiles st =
     (if pending = [] then (0, DeleteResolvePassEdgesByKindForSourceFiles pid ''CALLS'' scopeFiles st)
      else let edges = cs_edges (resolve_calls_loop (store_view pid qnMap st) pythonRoots pid pending)
        in case ReplaceEdgesByKindSource pid ''CALLS'' ''resolve_pass'' scopeFiles edges st of
             Inl _ \<Rightarrow> (0, st) | Inr st1 \<Rightarrow> (length edges, st1))"

section \<open>The pass without caches\<close>

definition import_from :: "'f sym_store \<Rightarrow> 'f pending_edge \<Rightarrow> string" where
  "import_from v e = import_lookup v (e_FromQN e)"

definition import_found :: "'f sym_store \<Rightarrow> string list \<Rightarrow> 'f pending_edge \<Rightarrow> string" where
  "import_found v roots e =
     (if isPythonFile (e_FromFile e) then first_spec (python_target v) (PythonImportCandidates (e_ToName e) (e_FromFile e) roots)
      else import_lookup v (e_ToName e))"

definition external_id :: "string \<Rightarrow> string" where
  "external_id toName = MakeSymbolID (external_path toName) toName ''Module''"

definition import_to :: "'f sym_store \<Rightarrow> string list \<Rightarrow> 'f pending_edge \<Rightarrow> string" where
  "import_to v roots e =
     (if import_found v roots e \<noteq> '''' then import_found v roots e
      else if e_ToName e \<noteq> '''' then external_id (e_ToName e) else '''')"

definition importable :: "'f sym_store \<Rightarrow> string list \<Rightarrow> 'f pending_edge \<Rightarrow> bool" where
  "importable v roots e \<longleftrightarrow> import_from v e \<noteq> '''' \<and> import_to v roots e \<noteq> ''''"

definition import_ends :: "'f sym_store \<Rightarrow> string list \<Rightarrow> 'f pending_edge \<Rightarrow> string \<times> string" where
  "import_ends v roots e = (import_from v e, import_to v roots e)"

definition needs_external :: "'f sym_store \<Rightarrow> string list \<Rightarrow> 'f pending_edge \<Rightarrow> bool" where
  "needs_external v roots e \<longleftrightarrow> import_from v e \<noteq> '''' \<and> import_found v roots e = '''' \<and> e_ToName e \<noteq> ''''"

lemma external_symbol [simp]: "s_ID (externalModuleSymbol one pid n) = external_id n" "s_ProjectID (externalModuleSymbol one pid n) = pid"
    "s_QualifiedName (externalModuleSymbol one pid n) = n" "s_Kind (externalModuleSymbol one pid n) = ''Module''"
    "s_FilePath (externalModuleSymbol one pid n) = external_path n"
  by (simp_all add: externalModuleSymbol_def external_id_def)

lemma external_id_nonempty [simp]: "external_id n \<noteq> ''''"
  by (simp add: external_id_def MakeSymbolID_def external_path_def)

lemma rune_tail_conts: "rune_tail c s = Some k \<Longrightarrow> list_all is_cont (take k s)"
  by (auto simp: rune_tail_def conts_def Let_def split: if_splits)

lemma sanitize_runes_colon: "list_all is_cont (take k s) \<Longrightarrow> CHR '':'' \<notin> set (sanitize_runes k s)"
proof (induction k s rule: sanitize_runes.induct)
  case (2 k c s)
  then have "is_cont c" "list_all is_cont (take k s)" by simp_all
  moreover have "\<not> is_cont (CHR '':'')" by (simp add: is_cont_def)
  ultimately show ?case using 2 by (cases "c = CHR '':''") simp_all
next
  case (3 c s)
  show ?case
  proof (cases "rune_tail c s")
    case None
    then show ?thesis using 3(1) by simp
  next
    case (Some k)
    then show ?thesis using 3(2) [OF Some rune_tail_conts [OF Some]] by (cases "c = CHR '':''") simp_all
  qed
qed simp

lemma sanitized_colon: "CHR '':'' \<notin> set (sanitizeExternalPath s)"
  using sanitize_runes_colon [of 0 s] by (simp add: sanitizeExternalPath_def)

lemma external_id_inj: "external_id m = external_id n \<Longrightarrow> m = n"
proof -
  have skip: "list_all P xs \<Longrightarrow> \<not> P y \<Longrightarrow> dropWhile P (xs @ y # ys) = y # ys" for P xs y and ys :: string
    by (induction xs) simp_all
  have split: "dropWhile (\<lambda>c. c \<noteq> CHR '':'') (external_id k) = CHR '':'' # CHR '':'' # k @ ''#Module''" for k
  proof -
    have eq: "external_id k = (''@external/'' @ sanitizeExternalPath k) @ CHR '':'' # CHR '':'' # k @ ''#Module''"
      by (simp add: external_id_def MakeSymbolID_def external_path_def)
    have "list_all (\<lambda>c. c \<noteq> CHR '':'') (''@external/'' @ sanitizeExternalPath k)"
      unfolding list_all_iff using sanitized_colon [of k] by auto
    then show ?thesis unfolding eq by (rule skip) simp
  qed
  assume "external_id m = external_id n"
  then have "CHR '':'' # CHR '':'' # m @ ''#Module'' = CHR '':'' # CHR '':'' # n @ ''#Module''" by (simp only: split [symmetric])
  then show "m = n" by (simp only: list.inject append_same_eq)
qed

lemma pass_edge_ends [simp]: "edge_ends (pass_edge pid kind src f t c) = (f, t)"
  by (simp add: pass_edge_def edge_ends_def)

text \<open>The state after some pending edges.\<close>

definition imports_ok :: "'f \<Rightarrow> 'f sym_store \<Rightarrow> string list \<Rightarrow> string \<Rightarrow> 'f pending_edge list \<Rightarrow> 'f import_state \<Rightarrow> bool" where
  "imports_ok one v roots pid ps s \<longleftrightarrow>
     cached_ok (import_lookup v) (ip_cache s) \<and> cached_ok (python_target v) (ip_code_cache s) \<and>
     set (ip_seen s) = edge_ends ` set (ip_edges s) \<and> distinct (map edge_ends (ip_edges s)) \<and>
     edge_ends ` set (ip_edges s) = import_ends v roots ` {e \<in> set ps. importable v roots e} \<and>
     set (ip_edges s) \<subseteq> {g. \<exists>e \<in> set ps. g = pass_edge pid ''IMPORTS'' ''resolve_pass'' (import_from v e) (import_to v roots e) (e_Confidence e)} \<and>
     set (ip_externals s) = (\<lambda>e. externalModuleSymbol one pid (e_ToName e)) ` {e \<in> set ps. needs_external v roots e} \<and>
     ip_from_missing s = length (filter (\<lambda>e. import_from v e = '''') ps)"

lemma import_step_spec:
  assumes "cached_ok (import_lookup v) (ip_cache s)" and "cached_ok (python_target v) (ip_code_cache s)"
  shows "\<exists>c cc. cached_ok (import_lookup v) c \<and> cached_ok (python_target v) cc \<and>
    import_step one v roots pid s e =
      (let s1 = s\<lparr>ip_cache := c, ip_code_cache := cc\<rparr>
       in if import_from v e = '''' then s1\<lparr>ip_from_missing := ip_from_missing s1 + 1\<rparr>
          else bind_import pid (import_from v e) (import_to v roots e) e
            (if needs_external v roots e
             then s1\<lparr>ip_externals := insert_replace s_ID (externalModuleSymbol one pid (e_ToName e)) (ip_externals s1)\<rparr> else s1))"
proof -
  obtain i c1 where c1: "cached (import_lookup v) (e_FromQN e) (ip_cache s) = (i, c1)" by (rule prod.exhaust)
  have ok1: "i = import_from v e" "cached_ok (import_lookup v) c1"
    using cached_memo.look [OF assms(1), of "e_FromQN e"] c1 by (simp_all add: import_from_def)
  show ?thesis
  proof (cases "isPythonFile (e_FromFile e)")
    case True
    obtain t cc where cc: "first_hit (cached (python_target v)) (PythonImportCandidates (e_ToName e) (e_FromFile e) roots) (ip_code_cache s) = (t, cc)"
      by (rule prod.exhaust)
    have "t = import_found v roots e" "cached_ok (python_target v) cc"
      using cached_memo.first_hit_spec [OF assms(2), of "PythonImportCandidates (e_ToName e) (e_FromFile e) roots"] cc True
      by (simp_all add: import_found_def)
    then show ?thesis using ok1 True cc c1
      by (intro exI [of _ c1] exI [of _ cc]) (simp add: import_step_def import_to_def needs_external_def Let_def)
  next
    case False
    obtain t c2 where c2: "cached (import_lookup v) (e_ToName e) c1 = (t, c2)" by (rule prod.exhaust)
    have "t = import_found v roots e" "cached_ok (import_lookup v) c2"
      using cached_memo.look [OF ok1(2), of "e_ToName e"] c2 False by (simp_all add: import_found_def)
    then show ?thesis using ok1 False c2 c1 assms(2)
      by (intro exI [of _ c2] exI [of _ "ip_code_cache s"]) (simp add: import_step_def import_to_def needs_external_def Let_def)
  qed
qed

lemma insert_replace_external:
  assumes "set xs = (\<lambda>e. externalModuleSymbol one pid (e_ToName e)) ` A"
  shows "set (insert_replace s_ID (externalModuleSymbol one pid (e_ToName e)) xs) = (\<lambda>e. externalModuleSymbol one pid (e_ToName e)) ` insert e A"
  using assms by (auto simp: insert_replace_def delete_where_def image_iff) (metis external_id_inj)

lemma bind_import_fields [simp]:
  "ip_cache (bind_import pid f t e s) = ip_cache s" "ip_code_cache (bind_import pid f t e s) = ip_code_cache s"
  "ip_externals (bind_import pid f t e s) = ip_externals s" "ip_from_missing (bind_import pid f t e s) = ip_from_missing s"
  by (simp_all add: bind_import_def)

lemma bind_import_edges:
  assumes "set (ip_seen s) = edge_ends ` set (ip_edges s)" and "distinct (map edge_ends (ip_edges s))"
  shows "set (ip_seen (bind_import pid f t e s)) = edge_ends ` set (ip_edges (bind_import pid f t e s))"
    and "distinct (map edge_ends (ip_edges (bind_import pid f t e s)))"
    and "edge_ends ` set (ip_edges (bind_import pid f t e s)) = edge_ends ` set (ip_edges s) \<union> (if t = '''' then {} else {(f, t)})"
    and "set (ip_edges (bind_import pid f t e s)) \<subseteq>
      insert (pass_edge pid ''IMPORTS'' ''resolve_pass'' f t (e_Confidence e)) (set (ip_edges s))"
  using assms by (auto simp: bind_import_def)

lemma imports_ok_step:
  assumes "imports_ok one v roots pid ps s"
  shows "imports_ok one v roots pid (ps @ [e]) (import_step one v roots pid s e)"
proof -
  note ok = assms [unfolded imports_ok_def]
  obtain c cc where c: "cached_ok (import_lookup v) c" "cached_ok (python_target v) cc"
    and st: "import_step one v roots pid s e =
      (let s1 = s\<lparr>ip_cache := c, ip_code_cache := cc\<rparr>
       in if import_from v e = '''' then s1\<lparr>ip_from_missing := ip_from_missing s1 + 1\<rparr>
          else bind_import pid (import_from v e) (import_to v roots e) e
            (if needs_external v roots e
             then s1\<lparr>ip_externals := insert_replace s_ID (externalModuleSymbol one pid (e_ToName e)) (ip_externals s1)\<rparr> else s1))"
    using import_step_spec [OF conjunct1 [OF ok] conjunct1 [OF conjunct2 [OF ok]], of one roots pid e] by (elim exE conjE)
  show ?thesis
  proof (cases "import_from v e = ''''")
    case True
    then have sets: "{x \<in> set (ps @ [e]). importable v roots x} = {x \<in> set ps. importable v roots x}"
      "{x \<in> set (ps @ [e]). needs_external v roots x} = {x \<in> set ps. needs_external v roots x}"
      by (auto simp: importable_def needs_external_def)
    have "set (ip_edges s) \<subseteq> {g. \<exists>e \<in> set ps. g = pass_edge pid ''IMPORTS'' ''resolve_pass'' (import_from v e) (import_to v roots e) (e_Confidence e)}"
      using ok by simp
    then have "set (ip_edges s) \<subseteq> {g. \<exists>x \<in> set (ps @ [e]). g = pass_edge pid ''IMPORTS'' ''resolve_pass'' (import_from v x) (import_to v roots x) (e_Confidence x)}"
      by auto
    then show ?thesis unfolding imports_ok_def st sets using ok c True by (simp add: Let_def)
  next
    case False
    define s2 where "s2 = (let s1 = s\<lparr>ip_cache := c, ip_code_cache := cc\<rparr>
       in if needs_external v roots e
          then s1\<lparr>ip_externals := insert_replace s_ID (externalModuleSymbol one pid (e_ToName e)) (ip_externals s1)\<rparr> else s1)"
    have st2: "import_step one v roots pid s e = bind_import pid (import_from v e) (import_to v roots e) e s2"
      using False by (simp add: st s2_def Let_def)
    have same: "ip_cache s2 = c" "ip_code_cache s2 = cc" "ip_seen s2 = ip_seen s" "ip_edges s2 = ip_edges s" "ip_from_missing s2 = ip_from_missing s"
      by (simp_all add: s2_def Let_def)
    have "{x \<in> set (ps @ [e]). needs_external v roots x} =
        (if needs_external v roots e then insert e {x \<in> set ps. needs_external v roots x} else {x \<in> set ps. needs_external v roots x})"
      by auto
    moreover have "set (ip_externals s) = (\<lambda>e. externalModuleSymbol one pid (e_ToName e)) ` {x \<in> set ps. needs_external v roots x}" using ok by simp
    ultimately have ext: "set (ip_externals s2) = (\<lambda>e. externalModuleSymbol one pid (e_ToName e)) ` {x \<in> set (ps @ [e]). needs_external v roots x}"
      using insert_replace_external [of "ip_externals s" one pid "{x \<in> set ps. needs_external v roots x}" e] by (simp add: s2_def Let_def)
    have seen: "set (ip_seen s2) = edge_ends ` set (ip_edges s2)" "distinct (map edge_ends (ip_edges s2))" using ok by (simp_all add: same)
    note b = bind_import_edges [OF seen, of pid "import_from v e" "import_to v roots e" e, folded st2]
    have imp: "importable v roots e = (import_to v roots e \<noteq> '''')" using False by (simp add: importable_def)
    have "{x \<in> set (ps @ [e]). importable v roots x} =
        (if importable v roots e then insert e {x \<in> set ps. importable v roots x} else {x \<in> set ps. importable v roots x})"
      by auto
    then have ends: "edge_ends ` set (ip_edges (import_step one v roots pid s e)) = import_ends v roots ` {x \<in> set (ps @ [e]). importable v roots x}"
      using b(3) ok imp by (auto simp: same import_ends_def)
    have "set (ip_edges s) \<subseteq> {g. \<exists>e \<in> set ps. g = pass_edge pid ''IMPORTS'' ''resolve_pass'' (import_from v e) (import_to v roots e) (e_Confidence e)}"
      using ok by simp
    then have from_pending: "set (ip_edges (import_step one v roots pid s e)) \<subseteq>
        {g. \<exists>x \<in> set (ps @ [e]). g = pass_edge pid ''IMPORTS'' ''resolve_pass'' (import_from v x) (import_to v roots x) (e_Confidence x)}"
      using b(4) unfolding same by auto
    show ?thesis unfolding imports_ok_def
      using b(1,2) ends from_pending ext c ok False by (simp add: st2 same)
  qed
qed

lemma imports_loop_ok: "imports_ok one v roots pid pending (resolve_imports_loop one v roots pid pending)"
proof (induction pending rule: rev_induct)
  case Nil
  show ?case by (simp add: imports_ok_def resolve_imports_loop_def import_start_def cached_ok_def)
next
  case (snoc e ps)
  then show ?case using imports_ok_step by (simp add: resolve_imports_loop_def)
qed

section \<open>Preloaded names\<close>

lemma group_fold: "fold (\<lambda>s m. m(s_QualifiedName s \<mapsto> (case m (s_QualifiedName s) of None \<Rightarrow> [] | Some l \<Rightarrow> l) @ [s])) ss m qn =
    (let new = filter (\<lambda>s. s_QualifiedName s = qn) ss
     in if new = [] then m qn else Some ((case m qn of None \<Rightarrow> [] | Some l \<Rightarrow> l) @ new))"
proof (induction ss arbitrary: m)
  case (Cons s ss)
  show ?case unfolding fold_simps comp_def by (simp add: Cons Let_def)
qed simp

lemma preloaded_names: "set (lookup_syms (store_view pid (Some (LoadAllSymbolsByQN pid st)) st) qn) = set (lookup_syms (store_view pid None st) qn)"
  by (auto simp: lookup_syms_def store_view_def LoadAllSymbolsByQN_def Let_def group_fold GetSymbolsByQN_def filter_empty_conv)

lemma view_names: "set (lookup_syms (store_view pid None st) qn) = {s \<in> set (t_symbols st). s_ProjectID s = pid \<and> s_QualifiedName s = qn}"
  by (auto simp: lookup_syms_def store_view_def GetSymbolsByQN_def)

lemma canonical_or_none_cong: "set xs = set ys \<Longrightarrow> canonical_or_none xs = canonical_or_none ys"
  using pickCanonical_cong by (auto simp: canonical_or_none_def)

lemma same_names_same_loop:
  assumes "\<And>qn. set (lookup_syms v qn) = set (lookup_syms w qn)"
  shows "resolve_imports_loop one v roots pid pending = resolve_imports_loop one w roots pid pending"
proof -
  have eq: "import_lookup v = import_lookup w" "python_target v = python_target w"
    using assms by (auto simp: import_lookup_def python_target_def excludeNonCodeSyms_def fun_eq_iff intro!: canonical_or_none_cong)
  have "import_step one v roots pid = import_step one w roots pid"
    unfolding import_step_def [abs_def] by (simp only: eq)
  then show ?thesis by (simp only: resolve_imports_loop_def)
qed

text \<open>
  C32: loading all names at once changes nothing: resolving the imports from the preloaded map of the store gives the same
  edges, placeholders and count as a query for each name, although the rows of a name come in another order.
\<close>
theorem imports_preload_same:
  "resolveImports zero one pid pending roots (Some (LoadAllSymbolsByQN pid st)) scope st = resolveImports zero one pid pending roots None scope st"
  using same_names_same_loop [OF preloaded_names, of one pid st roots pid pending] by (simp add: resolveImports_def)

section \<open>What the pass writes\<close>

text \<open>
  C31: the import pass binds what it can, once. Its edges are, without repetition, one for each pair of ends that a pending
  import has, where the caller's end is found and the target is found or gets a placeholder; a placeholder is made exactly
  for the targets that are not found; the counter of missing callers is exact. The caches change none of this.
\<close>
theorem imports_exact:
  "let s = resolve_imports_loop one v roots pid pending
   in distinct (map edge_ends (ip_edges s)) \<and>
      edge_ends ` set (ip_edges s) = import_ends v roots ` {e \<in> set pending. importable v roots e} \<and>
      set (ip_externals s) = (\<lambda>e. externalModuleSymbol one pid (e_ToName e)) ` {e \<in> set pending. needs_external v roots e} \<and>
      ip_from_missing s = length (filter (\<lambda>e. import_from v e = '''') pending)"
  using imports_loop_ok [of one v roots pid pending] by (simp add: imports_ok_def Let_def)

definition row_ids :: "string \<Rightarrow> 'f store \<Rightarrow> string set" where
  "row_ids pid st = s_ID ` {s \<in> set (t_symbols st). s_ProjectID s = pid}"

lemma canonical_or_none_in: "canonical_or_none syms \<noteq> '''' \<Longrightarrow> canonical_or_none syms \<in> s_ID ` set syms"
  using pickCanonical_in by (auto simp: canonical_or_none_def split: if_splits)

lemma import_lookup_row: "import_lookup (store_view pid None st) qn \<noteq> '''' \<Longrightarrow> import_lookup (store_view pid None st) qn \<in> row_ids pid st"
  using canonical_or_none_in [of "lookup_syms (store_view pid None st) qn"] by (auto simp: import_lookup_def row_ids_def view_names)

lemma python_target_row: "python_target (store_view pid None st) qn \<noteq> '''' \<Longrightarrow> python_target (store_view pid None st) qn \<in> row_ids pid st"
  using canonical_or_none_in [of "excludeNonCodeSyms (lookup_syms (store_view pid None st) qn)"] excludeNonCode_subset(1) view_names [of pid st qn]
  by (fastforce simp: python_target_def row_ids_def)

lemma first_spec_in: "(\<And>k. f k \<noteq> '''' \<Longrightarrow> f k \<in> A) \<Longrightarrow> first_spec f ks \<noteq> '''' \<Longrightarrow> first_spec f ks \<in> A"
  by (induction ks) (auto split: if_splits)

lemma import_found_row:
  assumes "import_found (store_view pid None st) roots e \<noteq> ''''"
  shows "import_found (store_view pid None st) roots e \<in> row_ids pid st"
  using assms import_lookup_row first_spec_in [of "python_target (store_view pid None st)", OF python_target_row]
  by (auto simp: import_found_def)

lemma upserted_ids:
  "row_ids pid (fold (upsert_symbol zero one) new st) = row_ids pid st \<union> s_ID ` {s \<in> set new. s_ProjectID s = pid}"
proof (induction new arbitrary: st)
  case (Cons s new)
  define d where "d = default_confidence zero one s"
  have d: "s_ID d = s_ID s" "s_ProjectID d = s_ProjectID s" by (simp_all add: d_def default_confidence_def)
  have "t_symbols (upsert_symbol zero one s st) = filter (\<lambda>r. \<not> symbol_key r = symbol_key d) (t_symbols st) @ [d]"
    by (simp add: upsert_symbol_def insert_replace_def delete_where_def d_def)
  then have "row_ids pid (upsert_symbol zero one s st) = row_ids pid st \<union> (if s_ProjectID s = pid then {s_ID s} else {})"
    using d by (auto simp: row_ids_def symbol_key_def image_iff) metis+
  then show ?case by (auto simp: Cons)
qed (simp add: row_ids_def)

lemma write_pass_rows:
  assumes "has_project st pid" and "\<And>s. s \<in> set new \<Longrightarrow> s_ProjectID s = pid" and "\<And>g. g \<in> set edges \<Longrightarrow> g_ProjectID g = pid"
  shows "\<exists>st1 added. write_pass zero one pid kind scope uses new edges st = (length edges, st1) \<and>
    row_ids pid st1 = row_ids pid st \<union> s_ID ` set new \<and> has_project st1 pid \<and> set added \<subseteq> with_source ` set edges \<and>
    t_edges st1 = filter (\<lambda>g. \<not> replaced_edge pid kind ''resolve_pass'' scope (fold (upsert_symbol zero one) new st) g) (t_edges st) @ added \<and>
    edge_uniq ` set edges \<subseteq> edge_uniq ` set (t_edges st1)"
proof -
  let ?st1 = "fold (upsert_symbol zero one) new st"
  have other: "t_edges ?st1 = t_edges st" "t_projects ?st1 = t_projects st" for zero one
    by (induction new arbitrary: st) (simp_all add: upsert_symbol_def)
  have proj: "has_project ?st1 pid" using assms(1) by (simp add: has_project_def other)
  let ?del = "if scope \<noteq> [] then delete_scoped pid kind ''resolve_pass'' scope ?st1 else DeleteEdgesByKindAndSource pid kind ''resolve_pass'' ?st1"
  have "has_project ?del i = has_project ?st1 i" for i by (simp add: has_project_def delete_scoped_def DeleteEdgesByKindAndSource_def)
  then have "\<exists>st2. insertEdgesTx edges ?del = Inr st2" using proj assms(3) by (intro insertEdgesTx_total) simp
  then obtain st2 where st2: "ReplaceEdgesByKindSource pid kind ''resolve_pass'' scope edges ?st1 = Inr st2"
    by (auto simp: ReplaceEdgesByKindSource_def)
  from replace_edges_rows [OF this] obtain added where
    a: "st2 = ?st1\<lparr>t_edges := filter (\<lambda>g. \<not> replaced_edge pid kind ''resolve_pass'' scope ?st1 g) (t_edges ?st1) @ added\<rparr>"
      "set added \<subseteq> with_source ` set edges"
      "edge_uniq ` set added = edge_uniq ` set edges - edge_uniq ` {g \<in> set (t_edges ?st1). \<not> replaced_edge pid kind ''resolve_pass'' scope ?st1 g}"
    by blast
  have "{s \<in> set new. s_ProjectID s = pid} = set new" using assms(2) by blast
  then have ids: "row_ids pid st2 = row_ids pid st \<union> s_ID ` set new"
    using upserted_ids [of pid zero one new st] by (simp add: a(1) row_ids_def)
  have w: "write_pass zero one pid kind scope uses new edges st = (length edges, st2)"
    using st2 assms(1,2) by (auto simp: write_pass_def BulkUpsertSymbols_def)
  have "edge_uniq ` set edges \<subseteq> edge_uniq ` set (t_edges st2)" using a(3) by (auto simp: a(1))
  moreover have "t_edges st2 = filter (\<lambda>g. \<not> replaced_edge pid kind ''resolve_pass'' scope ?st1 g) (t_edges st) @ added" by (simp add: a(1) other)
  moreover have "has_project st2 pid" using proj by (simp add: a(1) has_project_def)
  ultimately show ?thesis using w ids a(2) by blast
qed

lemma resolveImports_writes:
  assumes "has_project st pid" and "pending \<noteq> []" and s: "s = resolve_imports_loop one (store_view pid qnMap st) roots pid pending"
  shows "\<exists>st1 added. resolveImports zero one pid pending roots qnMap scope st = (length (ip_edges s), st1) \<and>
    row_ids pid st1 = row_ids pid st \<union> s_ID ` set (ip_externals s) \<and>
    t_edges st1 = filter (\<lambda>g. \<not> replaced_edge pid ''IMPORTS'' ''resolve_pass'' scope (fold (upsert_symbol zero one) (ip_externals s) st) g) (t_edges st) @ added \<and>
    set added \<subseteq> set (ip_edges s) \<and>
    edge_ends ` set (ip_edges s) \<subseteq> edge_ends ` {g \<in> set (t_edges st1). g_ProjectID g = pid \<and> g_Kind g = ''IMPORTS''}"
proof -
  note ok = imports_loop_ok [of one "store_view pid qnMap st" roots pid pending, folded s, unfolded imports_ok_def]
  have edge: "g_ProjectID g = pid \<and> g_Kind g = ''IMPORTS'' \<and> g_Source g = ''resolve_pass''" if "g \<in> set (ip_edges s)" for g
    using ok that by (auto simp: pass_edge_def)
  have ext: "x \<in> set (ip_externals s) \<Longrightarrow> s_ProjectID x = pid" for x using ok by auto
  have "\<exists>st1 added. write_pass zero one pid ''IMPORTS'' scope g_ToID (ip_externals s) (ip_edges s) st = (length (ip_edges s), st1) \<and>
    row_ids pid st1 = row_ids pid st \<union> s_ID ` set (ip_externals s) \<and> has_project st1 pid \<and> set added \<subseteq> with_source ` set (ip_edges s) \<and>
    t_edges st1 = filter (\<lambda>g. \<not> replaced_edge pid ''IMPORTS'' ''resolve_pass'' scope (fold (upsert_symbol zero one) (ip_externals s) st) g) (t_edges st) @ added \<and>
    edge_uniq ` set (ip_edges s) \<subseteq> edge_uniq ` set (t_edges st1)"
    by (rule write_pass_rows [OF assms(1)]) (use ext edge in auto)
  then obtain st1 added where w: "write_pass zero one pid ''IMPORTS'' scope g_ToID (ip_externals s) (ip_edges s) st = (length (ip_edges s), st1)"
    and ids: "row_ids pid st1 = row_ids pid st \<union> s_ID ` set (ip_externals s)"
    and add: "set added \<subseteq> with_source ` set (ip_edges s)"
    and rows: "t_edges st1 = filter (\<lambda>g. \<not> replaced_edge pid ''IMPORTS'' ''resolve_pass'' scope (fold (upsert_symbol zero one) (ip_externals s) st) g) (t_edges st) @ added"
    and uniq: "edge_uniq ` set (ip_edges s) \<subseteq> edge_uniq ` set (t_edges st1)"
    by (elim exE conjE) (rule that)
  have run: "resolveImports zero one pid pending roots qnMap scope st = (length (ip_edges s), st1)"
    using assms(2) w by (simp add: resolveImports_def Let_def s)
  have "with_source g = g" if "g \<in> set (ip_edges s)" for g using edge [OF that] by (simp add: with_source_def)
  then have "set added \<subseteq> set (ip_edges s)" using add by auto
  moreover have "edge_ends g \<in> edge_ends ` {g \<in> set (t_edges st1). g_ProjectID g = pid \<and> g_Kind g = ''IMPORTS''}" if g: "g \<in> set (ip_edges s)" for g
  proof -
    have "edge_uniq g \<in> edge_uniq ` set (t_edges st1)" using uniq g by blast
    then obtain h where "h \<in> set (t_edges st1)" "edge_uniq g = edge_uniq h" by blast
    then show ?thesis using edge [OF g] by (intro image_eqI [of _ _ h]) (auto simp: edge_uniq_def edge_ends_def)
  qed
  then have "edge_ends ` set (ip_edges s) \<subseteq> edge_ends ` {g \<in> set (t_edges st1). g_ProjectID g = pid \<and> g_Kind g = ''IMPORTS''}"
    by (rule image_subsetI)
  ultimately show ?thesis using run ids rows by blast
qed

text \<open>
  C30: no import dangles. When the project exists, the import pass stores an edge for every pair of ends it computed, and
  both ends of every edge that it adds are rows of the project: found symbols, or placeholders written before the edges.
\<close>
theorem imports_never_dangle:
  assumes "has_project st pid" and "pending \<noteq> []"
  shows "\<exists>n st1. resolveImports zero one pid pending roots None scope st = (n, st1) \<and>
    n = card (import_ends (store_view pid None st) roots ` {e \<in> set pending. importable (store_view pid None st) roots e}) \<and>
    import_ends (store_view pid None st) roots ` {e \<in> set pending. importable (store_view pid None st) roots e} \<subseteq>
      edge_ends ` {g \<in> set (t_edges st1). g_ProjectID g = pid \<and> g_Kind g = ''IMPORTS''} \<and>
    (\<Union>g \<in> set (t_edges st1) - set (t_edges st). {g_FromID g, g_ToID g}) \<subseteq> row_ids pid st1"
proof -
  let ?v = "store_view pid None st"
  define s where "s = resolve_imports_loop one ?v roots pid pending"
  let ?ends = "import_ends ?v roots ` {e \<in> set pending. importable ?v roots e}"
  note ok = imports_loop_ok [of one ?v roots pid pending, folded s_def, unfolded imports_ok_def]
  have ends: "edge_ends ` set (ip_edges s) = ?ends" and dist: "distinct (map edge_ends (ip_edges s))"
    and ext: "set (ip_externals s) = (\<lambda>e. externalModuleSymbol one pid (e_ToName e)) ` {e \<in> set pending. needs_external ?v roots e}"
    using ok by simp_all
  from resolveImports_writes [OF assms s_def, of zero scope] obtain st1 added where
    run: "resolveImports zero one pid pending roots None scope st = (length (ip_edges s), st1)"
    and ids: "row_ids pid st1 = row_ids pid st \<union> s_ID ` set (ip_externals s)"
    and rows: "t_edges st1 = filter (\<lambda>g. \<not> replaced_edge pid ''IMPORTS'' ''resolve_pass'' scope (fold (upsert_symbol zero one) (ip_externals s) st) g) (t_edges st) @ added"
    and add: "set added \<subseteq> set (ip_edges s)"
    and stored: "edge_ends ` set (ip_edges s) \<subseteq> edge_ends ` {g \<in> set (t_edges st1). g_ProjectID g = pid \<and> g_Kind g = ''IMPORTS''}"
    by (elim exE conjE) (rule that)
  have n: "length (ip_edges s) = card ?ends" using distinct_card [OF dist] ends by simp
  have "import_from ?v e \<in> row_ids pid st1 \<and> import_to ?v roots e \<in> row_ids pid st1" if e: "e \<in> set pending" "importable ?v roots e" for e
  proof -
    have "import_from ?v e \<in> row_ids pid st" 
      using e(2) unfolding importable_def import_from_def by (intro import_lookup_row) simp
    moreover have "import_to ?v roots e \<in> row_ids pid st \<union> s_ID ` set (ip_externals s)"
    proof (cases "import_found ?v roots e = ''''")
      case True
      then have "needs_external ?v roots e" using e(2) by (simp add: importable_def needs_external_def import_to_def split: if_splits)
      then show ?thesis using True e by (auto simp: import_to_def ext needs_external_def image_iff)
    qed (simp add: import_to_def import_found_row)
    ultimately show ?thesis using ids by blast
  qed
  then have "?ends \<subseteq> row_ids pid st1 \<times> row_ids pid st1" by (intro image_subsetI) (simp add: import_ends_def)
  then have "edge_ends g \<in> row_ids pid st1 \<times> row_ids pid st1" if "g \<in> set (ip_edges s)" for g
    using imageI [OF that, of edge_ends] unfolding ends by (rule subsetD)
  then have "{g_FromID g, g_ToID g} \<subseteq> row_ids pid st1" if "g \<in> set added" for g
    using that add by (auto simp: edge_ends_def)
  then have "(\<Union>g \<in> set (t_edges st1) - set (t_edges st). {g_FromID g, g_ToID g}) \<subseteq> row_ids pid st1"
    using rows by auto
  then show ?thesis using run n stored [unfolded ends] by (intro exI [of _ "length (ip_edges s)"] exI [of _ st1]) simp
qed

section \<open>Placeholders win\<close>

lemma canonical_le: "s \<in> set syms \<Longrightarrow> canonical_or_none syms \<noteq> '''' \<Longrightarrow> canonical_or_none syms \<le> s_ID s"
  by (auto simp: canonical_or_none_def pickCanonical_Min split: if_splits)

lemma canonical_below:
  assumes "s \<in> set syms" and "s_ID s < i"
  shows "canonical_or_none syms \<noteq> i"
  using canonical_le [OF assms(1)] assms(2) by fastforce

text \<open>An identifier of a placeholder comes before those of files whose path starts with a later character, as every letter does.\<close>

lemma external_id_first: "CHR ''@'' < hd path \<Longrightarrow> path \<noteq> [] \<Longrightarrow> external_id n < MakeSymbolID path qn kind"
  by (cases path) (simp_all add: external_id_def MakeSymbolID_def external_path_def)

lemma shadowed_target:
  assumes "x \<in> set (t_symbols st)" and "s_ProjectID x = pid" and "s_QualifiedName x = n" and "s_Kind x = ''Module''" and "s_ID x = external_id n"
    and "s_ID r = MakeSymbolID (s_FilePath r) n kind" and "s_FilePath r \<noteq> ''''" and "CHR ''@'' < hd (s_FilePath r)"
    and "n \<noteq> ''''" and "hd n \<noteq> CHR ''.''" and "'''' \<notin> s_ID ` set (t_symbols st)" and "e_ToName e = n"
  shows "import_found (store_view pid None st) roots e \<notin> {s_ID r, ''''}" and "import_lookup (store_view pid None st) n \<noteq> s_ID r"
proof -
  let ?v = "store_view pid None st"
  have less: "s_ID x < s_ID r" using external_id_first [of "s_FilePath r"] assms(5-8) by simp
  have in_names: "x \<in> set (lookup_syms ?v n)" using assms(1-3) by (simp add: view_names)
  have "''Module'' \<notin> set non_code_kinds" by (simp add: non_code_kinds_def)
  then have in_code: "x \<in> set (excludeNonCodeSyms (lookup_syms ?v n))" using in_names assms(4) by (simp add: excludeNonCodeSyms_def)
  have named: "canonical_or_none syms \<noteq> ''''" if "x \<in> set syms" "set syms \<subseteq> set (t_symbols st)" for syms
  proof
    assume "canonical_or_none syms = ''''"
    moreover have "syms \<noteq> []" using that(1) by auto
    ultimately have "'''' \<in> s_ID ` set syms" using pickCanonical_in [of syms] by (simp add: canonical_or_none_def)
    then show False using that(2) assms(11) by (meson image_mono subsetD)
  qed
  have rows: "set (lookup_syms ?v n) \<subseteq> set (t_symbols st)" using view_names [of pid st n] by blast
  have any: "import_lookup ?v n \<noteq> s_ID r" "import_lookup ?v n \<noteq> ''''"
    unfolding import_lookup_def using canonical_below [OF in_names less] named [OF in_names rows] by simp_all
  have code: "python_target ?v n \<noteq> s_ID r" "python_target ?v n \<noteq> ''''"
    unfolding python_target_def using canonical_below [OF in_code less] named [OF in_code] rows excludeNonCode_subset(1) by blast+
  have "PythonImportCandidates n fromFile roots = n # tl (PythonImportCandidates n fromFile roots)" for fromFile
    using assms(9,10) by (simp add: PythonImportCandidates_def)
  then have "first_spec (python_target ?v) (PythonImportCandidates n fromFile roots) = python_target ?v n" for fromFile
    using code(2) by (metis first_spec.simps(2))
  then show "import_found ?v roots e \<notin> {s_ID r, ''''}" using any code assms(12) by (simp add: import_found_def)
  show "import_lookup ?v n \<noteq> s_ID r" by (rule any(1))
qed

text \<open>
  C33: A placeholder keeps winning over the module that comes later. While the placeholder module of a name is stored
  in the project, a pass in which every pending import names it stores no edge to a row of that name whose path starts
  with a letter (or any character after the at sign), and makes no new placeholder; nor does the lookup that finds the
  importing end of that row's own imports give the row. Both lookups take the smallest identifier, and that of the
  placeholder starts with an at sign, although the comment says it stands for a target outside the project. The name
  is not empty and does not start with a dot, and no stored row has an empty identifier.
\<close>
theorem external_shadows_module:
  assumes "x \<in> set (t_symbols st)" and "s_ProjectID x = pid" and "s_QualifiedName x = n" and "s_Kind x = ''Module''" and "s_ID x = external_id n"
    and "s_ID r = MakeSymbolID (s_FilePath r) n kind" and "s_FilePath r \<noteq> ''''" and "CHR ''@'' < hd (s_FilePath r)"
    and "n \<noteq> ''''" and "hd n \<noteq> CHR ''.''" and "'''' \<notin> s_ID ` set (t_symbols st)" and "e_ToName ` set pending \<subseteq> {n}"
  shows "let s = resolve_imports_loop one (store_view pid None st) roots pid pending
    in s_ID r \<notin> g_ToID ` set (ip_edges s) \<and> ip_externals s = [] \<and> import_lookup (store_view pid None st) n \<noteq> s_ID r"
proof -
  let ?v = "store_view pid None st"
  define s where "s = resolve_imports_loop one ?v roots pid pending"
  note ok = imports_loop_ok [of one ?v roots pid pending, folded s_def, unfolded imports_ok_def]
  have target: "import_found ?v roots e \<notin> {s_ID r, ''''}" if "e \<in> set pending" for e
    using shadowed_target(1) [OF assms(1-11), of e roots] that assms(12) by blast
  then have none: "{e \<in> set pending. needs_external ?v roots e} = {}" by (auto simp: needs_external_def)
  have "ip_externals s = []" using ok unfolding none by simp
  moreover have "s_ID r \<notin> g_ToID ` set (ip_edges s)"
  proof
    assume "s_ID r \<in> g_ToID ` set (ip_edges s)"
    then obtain g where g: "g \<in> set (ip_edges s)" "g_ToID g = s_ID r" by auto
    have "edge_ends g \<in> import_ends ?v roots ` {e \<in> set pending. importable ?v roots e}"
      using ok g(1) by (metis image_eqI)
    then obtain e where e: "e \<in> set pending" "edge_ends g = import_ends ?v roots e" by blast
    then have "g_ToID g = import_found ?v roots e" using target [OF e(1)] by (simp add: edge_ends_def import_ends_def import_to_def)
    then show False using g(2) target [OF e(1)] by simp
  qed
  moreover have "import_lookup ?v n \<noteq> s_ID r" by (rule shadowed_target(2) [OF assms(1-11), of "\<lparr>e_FromQN = '''', e_ToName = n, e_Kind = '''', e_FromFile = '''', e_Confidence = one,
     e_ReceiverType = '''', e_BaseType = ''''\<rparr>"]) simp
  ultimately show ?thesis by (simp add: Let_def flip: s_def)
qed

section \<open>A module that is imported before it exists\<close>

definition demo_module :: "string \<Rightarrow> string \<Rightarrow> nat symbol" where
  "demo_module path qn = (demo_symbol ''p'' path qn)\<lparr>s_ID := MakeSymbolID path qn ''Module'', s_Kind := ''Module''\<rparr>"

definition demo_app :: "nat store" where
  "demo_app = empty_store\<lparr>t_projects := [demo_project ''p'' ''/p'' ''0.9.0''], t_symbols := [demo_module ''app.py'' ''app'']\<rparr>"

definition demo_import :: "nat pending_edge" where
  "demo_import = \<lparr>e_FromQN = ''app'', e_ToName = ''utils'', e_Kind = ''IMPORTS'', e_FromFile = ''app.py'', e_Confidence = 1,
     e_ReceiverType = '''', e_BaseType = ''''\<rparr>"

lemma demo_import_ends: "import_ends (store_view ''p'' None demo_app) [] demo_import = (''app.py::app#Module'', ''@external/utils::utils#Module'')"
  by code_simp

theorem imports_never_dangle_witness:
  "\<exists>st1. resolveImports 0 1 ''p'' [demo_import] [] None [] demo_app = (1, st1) \<and>
     (''app.py::app#Module'', ''@external/utils::utils#Module'') \<in> edge_ends ` set (t_edges st1)"
proof -
  have "importable (store_view ''p'' None demo_app) [] demo_import"
    using demo_import_ends by (simp add: importable_def import_ends_def)
  then have all: "{e \<in> set [demo_import]. importable (store_view ''p'' None demo_app) [] e} = {demo_import}" by auto
  have "has_project demo_app ''p''" by (simp add: has_project_def demo_app_def demo_project_def)
  note never = imports_never_dangle [where pending = "[demo_import]" and zero = 0 and one = 1 and roots = "[]" and scope = "[]", OF this list.distinct(2), unfolded all image_insert image_empty demo_import_ends]
  from never obtain st1 where "resolveImports 0 1 ''p'' [demo_import] [] None [] demo_app = (1, st1)"
    and "{(''app.py::app#Module'', ''@external/utils::utils#Module'')} \<subseteq>
      edge_ends ` {g \<in> set (t_edges st1). g_ProjectID g = ''p'' \<and> g_Kind g = ''IMPORTS''}"
    by (elim exE conjE) (simp add: that)
  then show ?thesis by (intro exI [of _ st1]) auto
qed

text \<open>The module is added: the rows are the importing file, the placeholder, and the module.\<close>

definition demo_shadowed :: "nat store" where
  "demo_shadowed = demo_app\<lparr>t_symbols := [demo_module ''app.py'' ''app'', externalModuleSymbol 1 ''p'' ''utils'', demo_module ''utils.py'' ''utils'']\<rparr>"

theorem external_shadows_module_witness:
  "''utils.py::utils#Module'' \<notin> g_ToID ` set (ip_edges (resolve_imports_loop 1 (store_view ''p'' None demo_shadowed) [] ''p'' [demo_import])) \<and>
   ip_externals (resolve_imports_loop 1 (store_view ''p'' None demo_shadowed) [] ''p'' [demo_import]) = [] \<and>
   import_lookup (store_view ''p'' None demo_shadowed) ''utils'' \<noteq> ''utils.py::utils#Module''"
proof -
  have x: "externalModuleSymbol 1 ''p'' ''utils'' \<in> set (t_symbols demo_shadowed)" by (simp add: demo_shadowed_def)
  have r: "s_ID (demo_module ''utils.py'' ''utils'') = MakeSymbolID (s_FilePath (demo_module ''utils.py'' ''utils'')) ''utils'' ''Module''"
    by (simp add: demo_module_def demo_symbol_def)
  have i: "s_ID (demo_module ''utils.py'' ''utils'') = ''utils.py::utils#Module''" by (simp add: demo_module_def MakeSymbolID_def)
  have path: "s_FilePath (demo_module ''utils.py'' ''utils'') \<noteq> ''''" "CHR ''@'' < hd (s_FilePath (demo_module ''utils.py'' ''utils''))"
    by (simp_all add: demo_module_def demo_symbol_def less_char_def)
  have ids: "'''' \<notin> s_ID ` set (t_symbols demo_shadowed)"
    by (simp add: demo_shadowed_def demo_module_def MakeSymbolID_def) (simp add: external_id_def MakeSymbolID_def external_path_def)
  have "e_ToName ` set [demo_import] \<subseteq> {''utils''}" by (simp add: demo_import_def)
  then show ?thesis
    using external_shadows_module [OF x _ _ _ _ r path, of "''p''" "[demo_import]" 1 "[]"] ids unfolding i Let_def by simp
qed

end
