(* ===== verification/Resolve_Vars.thy ===== *)
theory Resolve_Vars
  imports Resolve_Imports
begin

text \<open>
  \<open>resolveUsesVar\<close> (\<open>internal/index/indexer.go\<close>): references to Ansible variables become edges to the settings that
  declare them, from a row of the referring file, which is made up when the file has none.
\<close>

section \<open>Names and rows\<close>

definition isAnsibleVarDeclFile :: "string \<Rightarrow> bool" where
  "isAnsibleVarDeclFile relPath =
     (let clean = slash_path relPath
      in (has_suffix clean ''.yml'' \<or> has_suffix clean ''.yaml'') \<and>
         (has_prefix clean ''group_vars/'' \<or> str_contains clean ''/group_vars/'' \<or>
          has_prefix clean ''host_vars/'' \<or> str_contains clean ''/host_vars/'' \<or>
          has_prefix clean ''vars/'' \<or> str_contains clean ''/vars/'' \<or> str_contains clean ''/defaults/''))"

text \<open>\<open>filepath.Base\<close>, and the same without the extension.\<close>

definition base_path :: "string \<Rightarrow> string" where
  "base_path p =
     (let t = dropWhile (\<lambda>c. c = CHR ''/'') (rev p)
      in if p = '''' then ''.'' else if t = '''' then ''/'' else rev (takeWhile (\<lambda>c. c \<noteq> CHR ''/'') t))"

definition base_stem :: "string \<Rightarrow> string" where
  "base_stem filePath =
     (let base = base_path filePath
      in case last_index (CHR ''.'') base of None \<Rightarrow> base | Some i \<Rightarrow> if i > 0 then take i base else base)"

definition syntheticFileModuleSymbol :: "'f \<Rightarrow> (string \<Rightarrow> string) \<Rightarrow> string \<Rightarrow> string \<Rightarrow> string \<Rightarrow> 'f symbol" where
  "syntheticFileModuleSymbol half detect projectID filePath qnHint =
     (let qn = (if qnHint = '''' then base_stem filePath else qnHint)
      in \<lparr>s_ID = MakeSymbolID filePath qn ''Module'', s_ProjectID = projectID, s_FilePath = filePath,
          s_Name = qn, s_QualifiedName = qn, s_Kind = ''Module'', s_Language = detect filePath,
          s_StartByte = 0, s_EndByte = 0, s_StartLine = 0, s_EndLine = 0, s_Signature = '''', s_ReturnType = '''', s_Docstring = '''',
          s_Parent = '''', s_Complexity = 0, s_IsExported = True, s_IsTest = False, s_IsEntryPoint = False, s_FileHash = '''',
          s_ExtractionConfidence = half, s_Branch = ''''\<rparr>)"

text \<open>The rows of the project, and the three buckets; only the smallest ID of a bucket matters, not its order.\<close>

definition project_rows :: "string \<Rightarrow> 'f store \<Rightarrow> 'f symbol list" where
  "project_rows pid st = filter (\<lambda>s. s_ProjectID s = pid) (t_symbols st)"

definition settingByName :: "'f symbol list \<Rightarrow> string \<Rightarrow> 'f symbol list" where
  "settingByName rows name = filter (\<lambda>s. s_Kind s = ''Setting'' \<and> isAnsibleVarDeclFile (s_FilePath s) \<and> s_Name s = name) rows"

definition moduleByQN :: "'f symbol list \<Rightarrow> string \<Rightarrow> 'f symbol list" where
  "moduleByQN rows qn = filter (\<lambda>s. s_Kind s = ''Module'' \<and> s_QualifiedName s = qn) rows"

definition symsByFile :: "'f symbol list \<Rightarrow> string \<Rightarrow> 'f symbol list" where
  "symsByFile rows path = filter (\<lambda>s. s_FilePath s = path) rows"

section \<open>The loop\<close>

record 'f var_state =
  vs_from_cache :: "string \<times> string \<rightharpoonup> string"
  vs_to_cache :: "string \<rightharpoonup> string"
  vs_synth :: "'f symbol list"
  vs_seen :: "(string \<times> string) list"
  vs_edges :: "'f resolved_edge list"
  vs_from_missing :: nat
  vs_to_missing :: nat
  vs_dup :: nat

definition var_start :: "'f var_state" where
  "var_start = \<lparr>vs_from_cache = Map.empty, vs_to_cache = Map.empty, vs_synth = [], vs_seen = [], vs_edges = [],
     vs_from_missing = 0, vs_to_missing = 0, vs_dup = 0\<rparr>"

definition var_anchor :: "'f symbol list \<Rightarrow> string \<Rightarrow> string \<Rightarrow> string" where
  "var_anchor rows qn fromFile =
     (let i = canonical_or_none (moduleByQN rows qn)
      in if i = '''' \<and> fromFile \<noteq> '''' then canonical_or_none (symsByFile rows fromFile) else i)"

definition resolve_var_from ::
    "'f \<Rightarrow> (string \<Rightarrow> string) \<Rightarrow> string \<Rightarrow> 'f symbol list \<Rightarrow> string \<Rightarrow> string \<Rightarrow> 'f var_state \<Rightarrow> string \<times> 'f var_state" where
  "resolve_var_from half detect pid rows qn fromFile s =
     (case vs_from_cache s (qn, fromFile) of
        Some i \<Rightarrow> (i, s)
      | None \<Rightarrow>
          let i = var_anchor rows qn fromFile; synth = syntheticFileModuleSymbol half detect pid fromFile qn;
              (i1, s1) = (if i = '''' \<and> fromFile \<noteq> ''''
                then (s_ID synth, s\<lparr>vs_synth := insert_replace s_ID synth (vs_synth s)\<rparr>) else (i, s))
          in (i1, s1\<lparr>vs_from_cache := (vs_from_cache s1)((qn, fromFile) \<mapsto> i1)\<rparr>))"

definition setting_id :: "'f symbol list \<Rightarrow> string \<Rightarrow> string" where
  "setting_id rows name = canonical_or_none (settingByName rows name)"

definition var_step ::
    "'f \<Rightarrow> (string \<Rightarrow> string) \<Rightarrow> string \<Rightarrow> 'f symbol list \<Rightarrow> 'f var_state \<Rightarrow> 'f pending_edge \<Rightarrow> 'f var_state" where
  "var_step half detect pid rows s e =
     (let (fromID, s1) = resolve_var_from half detect pid rows (e_FromQN e) (e_FromFile e) s;
          (toID, c) = cached (setting_id rows) (e_ToName e) (vs_to_cache s1);
          s2 = s1\<lparr>vs_to_cache := c\<rparr>
      in if fromID = '''' then s2\<lparr>vs_from_missing := vs_from_missing s2 + 1\<rparr>
         else if toID = '''' then s2\<lparr>vs_to_missing := vs_to_missing s2 + 1\<rparr>
         else if (fromID, toID) \<in> set (vs_seen s2) then s2\<lparr>vs_dup := vs_dup s2 + 1\<rparr>
         else s2\<lparr>vs_seen := vs_seen s2 @ [(fromID, toID)],
                vs_edges := vs_edges s2 @ [pass_edge pid ''USES_VAR'' ''resolve_pass'' fromID toID (e_Confidence e)]\<rparr>)"

definition resolve_vars_loop ::
    "'f \<Rightarrow> (string \<Rightarrow> string) \<Rightarrow> string \<Rightarrow> 'f symbol list \<Rightarrow> 'f pending_edge list \<Rightarrow> 'f var_state" where
  "resolve_vars_loop half detect pid rows pending = foldl (var_step half detect pid rows) var_start pending"

definition resolveUsesVar ::
    "'f \<Rightarrow> 'f \<Rightarrow> 'f \<Rightarrow> (string \<Rightarrow> string) \<Rightarrow> string \<Rightarrow> 'f pending_edge list \<Rightarrow> string list \<Rightarrow> 'f store \<Rightarrow> nat \<times> 'f store" where
  "resolveUsesVar zero one half detect pid pending scopeFiles st =
     (if pending = [] then (0, DeleteResolvePassEdgesByKindForSourceFiles pid ''USES_VAR'' scopeFiles st)
      else let s = resolve_vars_loop half detect pid (project_rows pid st) pending
        in write_pass zero one pid ''USES_VAR'' scopeFiles g_FromID (vs_synth s) (vs_edges s) st)"

section \<open>The pass without caches\<close>

definition synth_id :: "string \<Rightarrow> string \<Rightarrow> string" where
  "synth_id fromFile qn = MakeSymbolID fromFile (if qn = '''' then base_stem fromFile else qn) ''Module''"

definition needs_synth :: "'f symbol list \<Rightarrow> 'f pending_edge \<Rightarrow> bool" where
  "needs_synth rows e \<longleftrightarrow> var_anchor rows (e_FromQN e) (e_FromFile e) = '''' \<and> e_FromFile e \<noteq> ''''"

definition var_from :: "'f symbol list \<Rightarrow> 'f pending_edge \<Rightarrow> string" where
  "var_from rows e = (if needs_synth rows e then synth_id (e_FromFile e) (e_FromQN e) else var_anchor rows (e_FromQN e) (e_FromFile e))"

definition var_ends :: "'f symbol list \<Rightarrow> 'f pending_edge \<Rightarrow> string \<times> string" where
  "var_ends rows e = (var_from rows e, setting_id rows (e_ToName e))"

definition var_bindable :: "'f symbol list \<Rightarrow> 'f pending_edge \<Rightarrow> bool" where
  "var_bindable rows e \<longleftrightarrow> var_from rows e \<noteq> '''' \<and> setting_id rows (e_ToName e) \<noteq> ''''"

definition synth_row :: "'f \<Rightarrow> (string \<Rightarrow> string) \<Rightarrow> string \<Rightarrow> 'f pending_edge \<Rightarrow> 'f symbol" where
  "synth_row half detect pid e = syntheticFileModuleSymbol half detect pid (e_FromFile e) (e_FromQN e)"

lemma synth_row_fields [simp]: "s_ID (synth_row half detect pid e) = synth_id (e_FromFile e) (e_FromQN e)"
    "s_ProjectID (synth_row half detect pid e) = pid" "s_FilePath (synth_row half detect pid e) = e_FromFile e"
  by (simp_all add: synth_row_def syntheticFileModuleSymbol_def synth_id_def Let_def)


lemma insert_replace_ids: "s_ID ` set (insert_replace s_ID x xs) = insert (s_ID x) (s_ID ` set xs)"
  by (auto simp: insert_replace_def delete_where_def image_iff)

lemma insert_replace_subset: "set (insert_replace k x xs) \<subseteq> insert x (set xs)"
  by (auto simp: insert_replace_def delete_where_def)

definition from_cache_ok :: "'f symbol list \<Rightarrow> 'f pending_edge list \<Rightarrow> (string \<times> string \<rightharpoonup> string) \<Rightarrow> bool" where
  "from_cache_ok rows ps c \<longleftrightarrow>
     (\<forall>qn f i. c (qn, f) = Some i \<longrightarrow> (\<exists>e \<in> set ps. e_FromQN e = qn \<and> e_FromFile e = f) \<and>
        i = (if var_anchor rows qn f = '''' \<and> f \<noteq> '''' then synth_id f qn else var_anchor rows qn f))"

lemma from_cache_hit:
  assumes "from_cache_ok rows ps c" and "c (e_FromQN e, e_FromFile e) = Some i"
  shows "i = var_from rows e" and "\<exists>x \<in> set ps. e_FromQN x = e_FromQN e \<and> e_FromFile x = e_FromFile e"
  using assms unfolding from_cache_ok_def by (auto simp: var_from_def needs_synth_def)

lemma from_cache_more: "from_cache_ok rows ps c \<Longrightarrow> from_cache_ok rows (ps @ [e]) c"
  unfolding from_cache_ok_def by fastforce

lemma from_cache_put: "from_cache_ok rows ps c \<Longrightarrow> from_cache_ok rows (ps @ [e]) (c((e_FromQN e, e_FromFile e) \<mapsto> var_from rows e))"
  unfolding from_cache_ok_def by (auto simp: var_from_def needs_synth_def)

definition synths_ok :: "'f \<Rightarrow> (string \<Rightarrow> string) \<Rightarrow> string \<Rightarrow> 'f symbol list \<Rightarrow> 'f pending_edge list \<Rightarrow> 'f symbol list \<Rightarrow> bool" where
  "synths_ok half detect pid rows ps xs \<longleftrightarrow>
     s_ID ` set xs = (\<lambda>e. synth_id (e_FromFile e) (e_FromQN e)) ` {e \<in> set ps. needs_synth rows e} \<and>
     set xs \<subseteq> synth_row half detect pid ` {e \<in> set ps. needs_synth rows e}"

lemma needs_synth_snoc: "{x \<in> set (ps @ [e]). needs_synth rows x} =
    (if needs_synth rows e then insert e {x \<in> set ps. needs_synth rows x} else {x \<in> set ps. needs_synth rows x})"
  by auto

lemma synths_put:
  assumes "synths_ok half detect pid rows ps xs" and "needs_synth rows e"
  shows "synths_ok half detect pid rows (ps @ [e]) (insert_replace s_ID (synth_row half detect pid e) xs)"
  using assms insert_replace_subset [of s_ID "synth_row half detect pid e" xs]
  unfolding synths_ok_def needs_synth_snoc insert_replace_ids by auto

lemma synths_seen:
  assumes "synths_ok half detect pid rows ps xs" and "x \<in> set ps" "e_FromQN x = e_FromQN e" "e_FromFile x = e_FromFile e"
  shows "synths_ok half detect pid rows (ps @ [e]) xs"
proof (cases "needs_synth rows e")
  case True
  then have "x \<in> {x \<in> set ps. needs_synth rows x}" using assms(2-4) by (simp add: needs_synth_def)
  then have "synth_id (e_FromFile e) (e_FromQN e) \<in> (\<lambda>e. synth_id (e_FromFile e) (e_FromQN e)) ` {e \<in> set ps. needs_synth rows e}"
    using assms(3,4) by (intro image_eqI [of _ _ x]) simp_all
  then show ?thesis using assms(1) True unfolding synths_ok_def needs_synth_snoc by auto
next
  case False
  then show ?thesis using assms(1) unfolding synths_ok_def needs_synth_snoc by simp
qed

lemma resolve_var_from_spec:
  assumes "from_cache_ok rows ps (vs_from_cache s)" and "synths_ok half detect pid rows ps (vs_synth s)"
  shows "\<exists>c xs. resolve_var_from half detect pid rows (e_FromQN e) (e_FromFile e) s = (var_from rows e, s\<lparr>vs_from_cache := c, vs_synth := xs\<rparr>) \<and>
    from_cache_ok rows (ps @ [e]) c \<and> synths_ok half detect pid rows (ps @ [e]) xs"
proof (cases "vs_from_cache s (e_FromQN e, e_FromFile e)")
  case (Some i)
  obtain x where "x \<in> set ps" "e_FromQN x = e_FromQN e" "e_FromFile x = e_FromFile e"
    using from_cache_hit(2) [OF assms(1) Some] by blast
  from synths_seen [OF assms(2) this] show ?thesis
    using Some from_cache_hit(1) [OF assms(1) Some] from_cache_more [OF assms(1)]
    by (intro exI [of _ "vs_from_cache s"] exI [of _ "vs_synth s"]) (simp add: resolve_var_from_def)
next
  case None
  show ?thesis
  proof (cases "needs_synth rows e")
    case True
    then show ?thesis using None from_cache_put [OF assms(1), of e] synths_put [OF assms(2) True]
      by (intro exI [of _ "(vs_from_cache s)((e_FromQN e, e_FromFile e) \<mapsto> var_from rows e)"]
          exI [of _ "insert_replace s_ID (synth_row half detect pid e) (vs_synth s)"])
        (simp add: resolve_var_from_def Let_def needs_synth_def var_from_def flip: synth_row_def)
  next
    case False
    then have "synths_ok half detect pid rows (ps @ [e]) (vs_synth s)" using assms(2) unfolding synths_ok_def needs_synth_snoc by simp
    then show ?thesis using None from_cache_put [OF assms(1), of e] False
      by (intro exI [of _ "(vs_from_cache s)((e_FromQN e, e_FromFile e) \<mapsto> var_from rows e)"] exI [of _ "vs_synth s"])
        (auto simp: resolve_var_from_def Let_def needs_synth_def var_from_def)
  qed
qed

text \<open>The state after some pending edges.\<close>

definition vars_ok :: "'f \<Rightarrow> (string \<Rightarrow> string) \<Rightarrow> string \<Rightarrow> 'f symbol list \<Rightarrow> 'f pending_edge list \<Rightarrow> 'f var_state \<Rightarrow> bool" where
  "vars_ok half detect pid rows ps s \<longleftrightarrow>
     from_cache_ok rows ps (vs_from_cache s) \<and> cached_ok (setting_id rows) (vs_to_cache s) \<and>
     synths_ok half detect pid rows ps (vs_synth s) \<and>
     set (vs_seen s) = edge_ends ` set (vs_edges s) \<and> distinct (map edge_ends (vs_edges s)) \<and>
     edge_ends ` set (vs_edges s) = var_ends rows ` {e \<in> set ps. var_bindable rows e} \<and>
     set (vs_edges s) \<subseteq> {g. \<exists>f t c. g = pass_edge pid ''USES_VAR'' ''resolve_pass'' f t c} \<and>
     vs_to_missing s = length (filter (\<lambda>e. var_from rows e \<noteq> '''' \<and> setting_id rows (e_ToName e) = '''') ps)"

lemma var_bindable_snoc: "{x \<in> set (ps @ [e]). var_bindable rows x} =
    (if var_bindable rows e then insert e {x \<in> set ps. var_bindable rows x} else {x \<in> set ps. var_bindable rows x})"
  by auto

lemma vars_ok_step:
  assumes "vars_ok half detect pid rows ps s"
  shows "vars_ok half detect pid rows (ps @ [e]) (var_step half detect pid rows s e)"
proof -
  note ok = assms [unfolded vars_ok_def]
  have "from_cache_ok rows ps (vs_from_cache s)" "synths_ok half detect pid rows ps (vs_synth s)" using ok by simp_all
  from resolve_var_from_spec [OF this, of e] obtain c xs where
    from': "resolve_var_from half detect pid rows (e_FromQN e) (e_FromFile e) s = (var_from rows e, s\<lparr>vs_from_cache := c, vs_synth := xs\<rparr>)"
    and c: "from_cache_ok rows (ps @ [e]) c" "synths_ok half detect pid rows (ps @ [e]) xs" by (elim exE conjE)
  obtain t tc where t: "cached (setting_id rows) (e_ToName e) (vs_to_cache s) = (t, tc)" by (rule prod.exhaust)
  have tc: "t = setting_id rows (e_ToName e)" "cached_ok (setting_id rows) tc"
    using cached_spec [of "setting_id rows" "vs_to_cache s" "e_ToName e"] ok t by simp_all
  define s2 where "s2 = s\<lparr>vs_from_cache := c, vs_synth := xs, vs_to_cache := tc\<rparr>"
  have step: "var_step half detect pid rows s e =
     (if var_from rows e = '''' then s2\<lparr>vs_from_missing := vs_from_missing s2 + 1\<rparr>
      else if t = '''' then s2\<lparr>vs_to_missing := vs_to_missing s2 + 1\<rparr>
      else if (var_from rows e, t) \<in> set (vs_seen s2) then s2\<lparr>vs_dup := vs_dup s2 + 1\<rparr>
      else s2\<lparr>vs_seen := vs_seen s2 @ [(var_from rows e, t)],
             vs_edges := vs_edges s2 @ [pass_edge pid ''USES_VAR'' ''resolve_pass'' (var_from rows e) t (e_Confidence e)]\<rparr>)"
    using t by (simp add: var_step_def from' s2_def Let_def)
  have same: "vs_from_cache s2 = c" "vs_synth s2 = xs" "vs_to_cache s2 = tc" "vs_seen s2 = vs_seen s" "vs_edges s2 = vs_edges s"
    "vs_to_missing s2 = vs_to_missing s" by (simp_all add: s2_def)
  have bind: "var_bindable rows e = (var_from rows e \<noteq> '''' \<and> t \<noteq> '''')" and ends: "var_ends rows e = (var_from rows e, t)"
    by (simp_all add: var_bindable_def var_ends_def tc)
  show ?thesis
  proof (cases "var_bindable rows e")
    case False
    then show ?thesis using ok c tc unfolding vars_ok_def step var_bindable_snoc by (auto simp: same bind)
  next
    case True
    then show ?thesis using ok c tc unfolding vars_ok_def step var_bindable_snoc
      by (cases "(var_from rows e, t) \<in> edge_ends ` set (vs_edges s)") (auto simp: same bind ends)
  qed
qed

lemma vars_loop_ok: "vars_ok half detect pid rows pending (resolve_vars_loop half detect pid rows pending)"
proof (induction pending rule: rev_induct)
  case Nil
  show ?case by (simp add: vars_ok_def resolve_vars_loop_def var_start_def from_cache_ok_def synths_ok_def)
next
  case (snoc e ps)
  then show ?case using vars_ok_step by (simp add: resolve_vars_loop_def)
qed

section \<open>What the pass binds\<close>

lemma setting_id_declared:
  "setting_id rows n \<noteq> '''' \<Longrightarrow> setting_id rows n \<in> s_ID ` {s \<in> set rows. s_Kind s = ''Setting'' \<and> isAnsibleVarDeclFile (s_FilePath s) \<and> s_Name s = n}"
  using canonical_or_none_in [of "settingByName rows n"] by (simp add: setting_id_def settingByName_def)

text \<open>
  C34: The variable pass binds each reference it can, once: its edges are, without repetition, one for each pair of a
  referring file's anchor and the setting that the lookup finds for the referenced name; every target is a setting row
  in a recognised declaration file; a row is made up exactly for the referring files that have none, whether or not
  the variable is declared.
\<close>
theorem uses_var_exact:
  "let s = resolve_vars_loop half detect pid rows pending
   in distinct (map edge_ends (vs_edges s)) \<and>
      edge_ends ` set (vs_edges s) = var_ends rows ` {e \<in> set pending. var_bindable rows e} \<and>
      g_ToID ` set (vs_edges s) \<subseteq> s_ID ` {x \<in> set rows. s_Kind x = ''Setting'' \<and> isAnsibleVarDeclFile (s_FilePath x)} \<and>
      s_ID ` set (vs_synth s) = (\<lambda>e. synth_id (e_FromFile e) (e_FromQN e)) ` {e \<in> set pending. needs_synth rows e}"
proof -
  define s where "s = resolve_vars_loop half detect pid rows pending"
  note ok = vars_loop_ok [of half detect pid rows pending, folded s_def, unfolded vars_ok_def synths_ok_def]
  have "t \<in> s_ID ` {x \<in> set rows. s_Kind x = ''Setting'' \<and> isAnsibleVarDeclFile (s_FilePath x)}"
    if "(f, t) \<in> edge_ends ` set (vs_edges s)" for f t
  proof -
    have "(f, t) \<in> var_ends rows ` {e \<in> set pending. var_bindable rows e}" using that ok by simp
    then obtain e where "e \<in> set pending" "t = setting_id rows (e_ToName e)" "t \<noteq> ''''"
      unfolding var_ends_def var_bindable_def by blast
    then show ?thesis using setting_id_declared [of rows "e_ToName e"] by auto
  qed
  moreover have "g_ToID g = snd (edge_ends g)" "edge_ends g = (fst (edge_ends g), snd (edge_ends g))" for g :: "'a resolved_edge"
    by (simp_all add: edge_ends_def)
  ultimately have "g_ToID ` set (vs_edges s) \<subseteq> s_ID ` {x \<in> set rows. s_Kind x = ''Setting'' \<and> isAnsibleVarDeclFile (s_FilePath x)}"
    by (metis (no_types, lifting) image_eqI image_subsetI)
  then show ?thesis using ok by (simp add: Let_def flip: s_def)
qed

end
