(* ===== verification/Resolve_Reads.thy ===== *)
theory Resolve_Reads
  imports Resolve_Vars
begin

text \<open>
  \<open>resolveReads\<close> (\<open>internal/index/indexer.go\<close>): reads and writes of Go identifiers become edges to variables, and reads of a
  function or method become call edges of the binding pass.
\<close>

section \<open>The lookups\<close>

record hit =
  h_id :: string
  h_lang :: string
  h_isVar :: bool
  h_isFunc :: bool

definition no_hit :: hit where
  "no_hit = \<lparr>h_id = '''', h_lang = '''', h_isVar = False, h_isFunc = False\<rparr>"

definition hit_of :: "'f symbol \<Rightarrow> hit" where
  "hit_of s = \<lparr>h_id = s_ID s, h_lang = s_Language s, h_isVar = (s_Kind s = ''Variable''),
     h_isFunc = (s_Kind s = ''Function'' \<or> s_Kind s = ''Method'')\<rparr>"

text \<open>The first row with the smallest ID.\<close>

definition canonical_row :: "'f symbol list \<Rightarrow> 'f symbol" where
  "canonical_row syms = foldl (\<lambda>c s. if s_ID s < s_ID c then s else c) (hd syms) (tl syms)"

definition qn_hit :: "'f sym_store \<Rightarrow> string \<Rightarrow> hit" where
  "qn_hit v qn = (let syms = lookup_syms v qn in if syms = [] then no_hit else hit_of (canonical_row syms))"

text \<open>A variable of the language first, then a function, then a method.\<close>

definition first_of_kind :: "string \<Rightarrow> string \<Rightarrow> 'f symbol list \<Rightarrow> hit option" where
  "first_of_kind kind lang syms =
     map_option hit_of (find (\<lambda>s. (lang = '''' \<or> s_Language s = lang) \<and> s_Kind s = kind \<and> s_ID s \<noteq> '''') syms)"

definition name_hit :: "'f sym_store \<Rightarrow> string \<times> string \<times> string \<Rightarrow> hit" where
  "name_hit v key =
     (case key of (name, lang, pkgDir) \<Rightarrow>
        (case st_by_name v name 10 of
           None \<Rightarrow> no_hit
         | Some named \<Rightarrow>
             let syms = preferNonFixtureSyms named;
                 scoped = (if pkgDir = '''' then syms else filter (\<lambda>s. dir_of (s_FilePath s) = pkgDir) syms)
             in (case first_of_kind ''Variable'' lang scoped of Some h \<Rightarrow> h
                | None \<Rightarrow> (case first_of_kind ''Function'' lang scoped of Some h \<Rightarrow> h
                    | None \<Rightarrow> (case first_of_kind ''Method'' lang scoped of Some h \<Rightarrow> h | None \<Rightarrow> no_hit)))))"

text \<open>The type of the base of a selector names a struct with that field.\<close>

definition isStructFieldRead :: "'f sym_store \<Rightarrow> string \<Rightarrow> string \<Rightarrow> string \<Rightarrow> bool" where
  "isStructFieldRead v baseType fromQN fieldName \<longleftrightarrow>
     baseType \<noteq> '''' \<and> fieldName \<noteq> '''' \<and>
     (fieldsByStructQN v baseType fieldName \<noteq> None \<or>
      \<not> str_contains baseType ''.'' \<and> pkg_of fromQN \<noteq> '''' \<and> fieldsByStructQN v (pkg_of fromQN @ ''.'' @ baseType) fieldName \<noteq> None)"

section \<open>The loop\<close>

datatype read_drop = From_missing | To_missing | Self_edge | Lang_mismatch | Polymorphic | Struct_field | Not_variable | Duplicate

text \<open>The counters are the list of the reasons; a seen edge is its ends and a kind.\<close>

record 'f read_state =
  rd_qn_cache :: "string \<rightharpoonup> hit"
  rd_name_cache :: "string \<times> string \<times> string \<rightharpoonup> hit"
  rd_seen :: "(string \<times> string \<times> string) list"
  rd_edges :: "'f resolved_edge list"
  rd_drops :: "read_drop list"

definition read_start :: "'f read_state" where
  "read_start = \<lparr>rd_qn_cache = Map.empty, rd_name_cache = Map.empty, rd_seen = [], rd_edges = [], rd_drops = []\<rparr>"

definition lookup_read_qn :: "'f sym_store \<Rightarrow> string \<Rightarrow> 'f read_state \<Rightarrow> hit \<times> 'f read_state" where
  "lookup_read_qn v qn s =
     (if qn = '''' then (no_hit, s) else (case cached (qn_hit v) qn (rd_qn_cache s) of (h, c) \<Rightarrow> (h, s\<lparr>rd_qn_cache := c\<rparr>)))"

definition lookupNameInLang :: "'f sym_store \<Rightarrow> string \<Rightarrow> string \<Rightarrow> string \<Rightarrow> 'f read_state \<Rightarrow> hit \<times> 'f read_state" where
  "lookupNameInLang v name lang pkgDir s =
     (if name = '''' then (no_hit, s)
      else (case cached (name_hit v) (name, lang, pkgDir) (rd_name_cache s) of (h, c) \<Rightarrow> (h, s\<lparr>rd_name_cache := c\<rparr>)))"

definition in_file_or :: "'f sym_store \<Rightarrow> string \<Rightarrow> string \<Rightarrow> hit \<Rightarrow> hit" where
  "in_file_or v qn fromFile base =
     (if h_id base = '''' \<or> fromFile = '''' then base
      else (case find (\<lambda>s. s_FilePath s = fromFile) (lookup_syms v qn) of Some s \<Rightarrow> hit_of s | None \<Rightarrow> base))"

definition read_from :: "'f sym_store \<Rightarrow> 'f pending_edge \<Rightarrow> 'f read_state \<Rightarrow> hit \<times> 'f read_state" where
  "read_from v e s =
     (let (base, s1) = lookup_read_qn v (e_FromQN e) s;
          from = in_file_or v (e_FromQN e) (e_FromFile e) base
      in if h_id from = '''' \<and> \<not> str_contains (e_FromQN e) ''.'' then lookupNameInLang v (e_FromQN e) '''' '''' s1 else (from, s1))"

definition lang_mismatch :: "hit \<Rightarrow> hit \<Rightarrow> bool" where
  "lang_mismatch from to \<longleftrightarrow> h_lang from \<noteq> '''' \<and> h_lang to \<noteq> '''' \<and> h_lang to \<noteq> h_lang from"

definition read_to :: "'f sym_store \<Rightarrow> 'f pending_edge \<Rightarrow> hit \<Rightarrow> 'f read_state \<Rightarrow> hit \<times> 'f read_state" where
  "read_to v e from s =
     (let (to, s1) = lookup_read_qn v (e_ToName e) s;
          pkgDir = (if e_FromFile e \<noteq> '''' then dir_of (e_FromFile e) else '''')
      in if (h_id to = '''' \<or> h_id to \<noteq> '''' \<and> lang_mismatch from to) \<and> \<not> str_contains (e_ToName e) ''.''
         then (case lookupNameInLang v (e_ToName e) (h_lang from) pkgDir s1 of (named, s2) \<Rightarrow> (if h_id named \<noteq> '''' then named else to, s2))
         else (to, s1))"

definition trailing_name :: "string \<Rightarrow> string" where
  "trailing_name n = (case last_index (CHR ''.'') n of None \<Rightarrow> n | Some i \<Rightarrow> if i > 0 \<and> i + 1 < length n then drop (i + 1) n else n)"

definition drop_read :: "read_drop \<Rightarrow> 'f read_state \<Rightarrow> 'f read_state" where
  "drop_read r s = s\<lparr>rd_drops := rd_drops s @ [r]\<rparr>"

definition emit_read :: "string \<times> string \<times> string \<Rightarrow> 'f resolved_edge \<Rightarrow> 'f read_state \<Rightarrow> 'f read_state" where
  "emit_read key g s =
     (if key \<in> set (rd_seen s) then drop_read Duplicate s else s\<lparr>rd_seen := rd_seen s @ [key], rd_edges := rd_edges s @ [g]\<rparr>)"

definition read_kind :: "string \<Rightarrow> string" where
  "read_kind k = (if k \<noteq> ''READS'' \<and> k \<noteq> ''WRITES'' then ''READS'' else k)"

definition read_step :: "'f \<Rightarrow> 'f sym_store \<Rightarrow> string \<Rightarrow> 'f read_state \<Rightarrow> 'f pending_edge \<Rightarrow> 'f read_state" where
  "read_step binding v pid s e =
     (let (from, s1) = read_from v e s
      in if h_id from = '''' then drop_read From_missing s1
         else let (to, s2) = read_to v e from s1
           in if h_id to = '''' then drop_read To_missing s2
              else if h_id from = h_id to then drop_read Self_edge s2
              else if lang_mismatch from to then drop_read Lang_mismatch s2
              else if h_isFunc to then
                if isPolymorphicInterfaceMethodName (trailing_name (e_ToName e)) then drop_read Polymorphic s2
                else if isStructFieldRead v (e_BaseType e) (e_FromQN e) (trailing_name (e_ToName e)) then drop_read Struct_field s2
                else emit_read (h_id from, h_id to, ''CALLS'') (pass_edge pid ''CALLS'' ''binding_pass'' (h_id from) (h_id to) binding) s2
              else if \<not> h_isVar to then drop_read Not_variable s2
              else emit_read (h_id from, h_id to, e_Kind e)
                (pass_edge pid (read_kind (e_Kind e)) ''resolve_pass'' (h_id from) (h_id to) (e_Confidence e)) s2)"

definition resolve_reads_loop :: "'f \<Rightarrow> 'f sym_store \<Rightarrow> string \<Rightarrow> 'f pending_edge list \<Rightarrow> 'f read_state" where
  "resolve_reads_loop binding v pid pending = foldl (read_step binding v pid) read_start pending"

section \<open>The three replacements\<close>

definition replace_or_keep :: "string \<Rightarrow> string \<Rightarrow> string \<Rightarrow> string list \<Rightarrow> 'f resolved_edge list \<Rightarrow> 'f store \<Rightarrow> 'f store" where
  "replace_or_keep pid kind source scopeFiles edges st =
     (case ReplaceEdgesByKindSource pid kind source scopeFiles edges st of Inl _ \<Rightarrow> st | Inr st1 \<Rightarrow> st1)"

definition resolveReads ::
    "'f \<Rightarrow> string \<Rightarrow> 'f pending_edge list \<Rightarrow> (string \<rightharpoonup> 'f symbol list) option \<Rightarrow> string list \<Rightarrow> 'f store \<Rightarrow> nat \<times> 'f store" where
  "resolveReads binding pid pending qnMap scopeFiles st =
     (if pending = [] then
        (0, DeleteEdgesByKindAndSourceForSourceFiles pid ''CALLS'' ''binding_pass'' scopeFiles
             (DeleteResolvePassEdgesByKindForSourceFiles pid ''WRITES'' scopeFiles
               (DeleteResolvePassEdgesByKindForSourceFiles pid ''READS'' scopeFiles st)))
      else let edges = rd_edges (resolve_reads_loop binding (store_view pid qnMap st) pid pending)
        in (length edges,
            replace_or_keep pid ''CALLS'' ''binding_pass'' scopeFiles (filter (\<lambda>g. g_Kind g = ''CALLS'') edges)
              (replace_or_keep pid ''WRITES'' ''resolve_pass'' scopeFiles (filter (\<lambda>g. g_Kind g = ''WRITES'') edges)
                (replace_or_keep pid ''READS'' ''resolve_pass'' scopeFiles (filter (\<lambda>g. g_Kind g = ''READS'') edges) st))))"

section \<open>The pass without caches\<close>

definition qn_spec_hit :: "'f sym_store \<Rightarrow> string \<Rightarrow> hit" where
  "qn_spec_hit v qn = (if qn = '''' then no_hit else qn_hit v qn)"

definition name_spec_hit :: "'f sym_store \<Rightarrow> string \<Rightarrow> string \<Rightarrow> string \<Rightarrow> hit" where
  "name_spec_hit v name lang pkgDir = (if name = '''' then no_hit else name_hit v (name, lang, pkgDir))"

definition read_from_spec :: "'f sym_store \<Rightarrow> 'f pending_edge \<Rightarrow> hit" where
  "read_from_spec v e =
     (let from = in_file_or v (e_FromQN e) (e_FromFile e) (qn_spec_hit v (e_FromQN e))
      in if h_id from = '''' \<and> \<not> str_contains (e_FromQN e) ''.'' then name_spec_hit v (e_FromQN e) '''' '''' else from)"

definition read_to_spec :: "'f sym_store \<Rightarrow> 'f pending_edge \<Rightarrow> hit" where
  "read_to_spec v e =
     (let to = qn_spec_hit v (e_ToName e); from = read_from_spec v e;
          named = name_spec_hit v (e_ToName e) (h_lang from) (if e_FromFile e \<noteq> '''' then dir_of (e_FromFile e) else '''')
      in if (h_id to = '''' \<or> lang_mismatch from to) \<and> \<not> str_contains (e_ToName e) ''.'' \<and> h_id named \<noteq> '''' then named else to)"

text \<open>What becomes of a pending read, but for repetitions: the reason to drop it, or its key and edge.\<close>

definition read_verdict :: "'f \<Rightarrow> 'f sym_store \<Rightarrow> string \<Rightarrow> 'f pending_edge \<Rightarrow> read_drop + ((string \<times> string \<times> string) \<times> 'f resolved_edge)" where
  "read_verdict binding v pid e =
     (let from = read_from_spec v e; to = read_to_spec v e
      in if h_id from = '''' then Inl From_missing
         else if h_id to = '''' then Inl To_missing
         else if h_id from = h_id to then Inl Self_edge
         else if lang_mismatch from to then Inl Lang_mismatch
         else if h_isFunc to then
           if isPolymorphicInterfaceMethodName (trailing_name (e_ToName e)) then Inl Polymorphic
           else if isStructFieldRead v (e_BaseType e) (e_FromQN e) (trailing_name (e_ToName e)) then Inl Struct_field
           else Inr ((h_id from, h_id to, ''CALLS''), pass_edge pid ''CALLS'' ''binding_pass'' (h_id from) (h_id to) binding)
         else if \<not> h_isVar to then Inl Not_variable
         else Inr ((h_id from, h_id to, e_Kind e), pass_edge pid (read_kind (e_Kind e)) ''resolve_pass'' (h_id from) (h_id to) (e_Confidence e)))"

definition apply_verdict :: "'f read_state \<Rightarrow> read_drop + ((string \<times> string \<times> string) \<times> 'f resolved_edge) \<Rightarrow> 'f read_state" where
  "apply_verdict s w = (case w of Inl r \<Rightarrow> drop_read r s | Inr (key, g) \<Rightarrow> emit_read key g s)"

definition read_caches_ok :: "'f sym_store \<Rightarrow> 'f read_state \<Rightarrow> bool" where
  "read_caches_ok v s \<longleftrightarrow> cached_ok (qn_hit v) (rd_qn_cache s) \<and> cached_ok (name_hit v) (rd_name_cache s)"

text \<open>States that differ in their caches only.\<close>

definition same_reads :: "'f read_state \<Rightarrow> 'f read_state \<Rightarrow> bool" where
  "same_reads s t \<longleftrightarrow> rd_seen s = rd_seen t \<and> rd_edges s = rd_edges t \<and> rd_drops s = rd_drops t"

lemma lookup_read_qn_spec:
  assumes "read_caches_ok v s"
  shows "\<exists>s1. lookup_read_qn v qn s = (qn_spec_hit v qn, s1) \<and> read_caches_ok v s1 \<and> same_reads s1 s"
  using cached_spec [of "qn_hit v" "rd_qn_cache s" qn] assms
  by (cases "cached (qn_hit v) qn (rd_qn_cache s)") (auto simp: lookup_read_qn_def qn_spec_hit_def read_caches_ok_def same_reads_def)

lemma lookupNameInLang_spec:
  assumes "read_caches_ok v s"
  shows "\<exists>s1. lookupNameInLang v n l p s = (name_spec_hit v n l p, s1) \<and> read_caches_ok v s1 \<and> same_reads s1 s"
  using cached_spec [of "name_hit v" "rd_name_cache s" "(n, l, p)"] assms
  by (cases "cached (name_hit v) (n, l, p) (rd_name_cache s)") (auto simp: lookupNameInLang_def name_spec_hit_def read_caches_ok_def same_reads_def)

lemma same_reads_trans: "same_reads s t \<Longrightarrow> same_reads t u \<Longrightarrow> same_reads s u"
  by (simp add: same_reads_def)

lemma read_from_ok:
  assumes "read_caches_ok v s"
  shows "\<exists>s1. read_from v e s = (read_from_spec v e, s1) \<and> read_caches_ok v s1 \<and> same_reads s1 s"
proof -
  obtain s1 where 1: "lookup_read_qn v (e_FromQN e) s = (qn_spec_hit v (e_FromQN e), s1)" "read_caches_ok v s1" "same_reads s1 s"
    using lookup_read_qn_spec [OF assms] by blast
  obtain s2 where 2: "lookupNameInLang v (e_FromQN e) '''' '''' s1 = (name_spec_hit v (e_FromQN e) '''' '''', s2)" "read_caches_ok v s2" "same_reads s2 s1"
    using lookupNameInLang_spec [OF 1(2)] by blast
  show ?thesis using 1 2 same_reads_trans [OF 2(3) 1(3)] by (simp add: read_from_def read_from_spec_def Let_def)
qed

lemma read_to_ok:
  assumes "read_caches_ok v s"
  shows "\<exists>s1. read_to v e (read_from_spec v e) s = (read_to_spec v e, s1) \<and> read_caches_ok v s1 \<and> same_reads s1 s"
proof -
  let ?dir = "if e_FromFile e \<noteq> '''' then dir_of (e_FromFile e) else ''''"
  obtain s1 where 1: "lookup_read_qn v (e_ToName e) s = (qn_spec_hit v (e_ToName e), s1)" "read_caches_ok v s1" "same_reads s1 s"
    using lookup_read_qn_spec [OF assms] by blast
  obtain s2 where 2: "lookupNameInLang v (e_ToName e) (h_lang (read_from_spec v e)) ?dir s1 = (name_spec_hit v (e_ToName e) (h_lang (read_from_spec v e)) ?dir, s2)"
    "read_caches_ok v s2" "same_reads s2 s1"
    using lookupNameInLang_spec [OF 1(2)] by blast
  show ?thesis
  proof (cases "(h_id (qn_spec_hit v (e_ToName e)) = '''' \<or> lang_mismatch (read_from_spec v e) (qn_spec_hit v (e_ToName e))) \<and> \<not> str_contains (e_ToName e) ''.''")
    case True
    then have "read_to v e (read_from_spec v e) s = (read_to_spec v e, s2)"
      using 1(1) 2(1) by (auto simp: read_to_def read_to_spec_def Let_def)
    then show ?thesis using 2 same_reads_trans [OF 2(3) 1(3)] by blast
  next
    case False
    then have "read_to v e (read_from_spec v e) s = (read_to_spec v e, s1)"
      using 1(1) by (auto simp: read_to_def read_to_spec_def Let_def)
    then show ?thesis using 1 by blast
  qed
qed

lemma read_step_verdict:
  assumes "read_caches_ok v s" and "same_reads s t"
  shows "read_caches_ok v (read_step binding v pid s e) \<and> same_reads (read_step binding v pid s e) (apply_verdict t (read_verdict binding v pid e))"
proof -
  obtain s1 where 1: "read_from v e s = (read_from_spec v e, s1)" "read_caches_ok v s1" "same_reads s1 s"
    using read_from_ok [OF assms(1)] by blast
  obtain s2 where 2: "read_to v e (read_from_spec v e) s1 = (read_to_spec v e, s2)" "read_caches_ok v s2" "same_reads s2 s1"
    using read_to_ok [OF 1(2)] by blast
  have st: "same_reads s1 t" "same_reads s2 t" using same_reads_trans 1(3) 2(3) assms(2) by blast+
  have drop: "read_caches_ok v (drop_read r u) \<and> same_reads (drop_read r u) (drop_read r t)" if "read_caches_ok v u" "same_reads u t" for r u
    using that by (simp add: drop_read_def read_caches_ok_def same_reads_def)
  have emit: "read_caches_ok v (emit_read k g s2) \<and> same_reads (emit_read k g s2) (emit_read k g t)" for k g
    using drop [OF 2(2) st(2), of Duplicate] 2(2) st(2) by (simp add: emit_read_def read_caches_ok_def same_reads_def)
  show ?thesis
    using drop [OF 1(2) st(1)] drop [OF 2(2) st(2)] emit
    by (simp add: read_step_def 1(1) 2(1) read_verdict_def apply_verdict_def Let_def)
qed

lemma reads_loop_verdicts:
  "read_caches_ok v (resolve_reads_loop binding v pid pending) \<and>
   same_reads (resolve_reads_loop binding v pid pending) (foldl apply_verdict read_start (map (read_verdict binding v pid) pending))"
proof (induction pending rule: rev_induct)
  case Nil
  show ?case by (simp add: resolve_reads_loop_def read_caches_ok_def same_reads_def read_start_def)
next
  case (snoc e ps)
  show ?case using read_step_verdict [OF conjunct1 [OF snoc] conjunct2 [OF snoc], of binding pid e] by (simp add: resolve_reads_loop_def)
qed

section \<open>What the pass binds\<close>

text \<open>The edges of the verdicts, the first of each key.\<close>

fun first_of_key :: "('k \<times> 'v) list \<Rightarrow> 'k list \<Rightarrow> 'v list" where
  "first_of_key [] seen = []"
| "first_of_key ((k, v) # xs) seen = (if k \<in> set seen then first_of_key xs seen else v # first_of_key xs (k # seen))"

definition rights :: "('a + 'b) list \<Rightarrow> 'b list" where
  "rights ws = concat (map (\<lambda>w. case w of Inl a \<Rightarrow> [] | Inr b \<Rightarrow> [b]) ws)"

lemma first_of_key_cong: "set a = set b \<Longrightarrow> first_of_key xs a = first_of_key xs b"
proof (induction xs arbitrary: a b)
  case (Cons x xs)
  obtain k v where "x = (k, v)" by (cases x)
  moreover have "set (k # a) = set (k # b)" using Cons.prems by simp
  ultimately show ?case using Cons.IH [of "k # a" "k # b"] Cons.IH [OF Cons.prems] Cons.prems by simp
qed simp

lemma rights_simps [simp]:
  "rights [] = []" "rights (Inl r # ws) = rights ws" "rights (Inr p # ws) = p # rights ws"
  by (simp_all add: rights_def)

lemma apply_verdict_Inl:
  "rd_edges (apply_verdict s (Inl r)) = rd_edges s"
  "rd_seen (apply_verdict s (Inl r)) = rd_seen s"
  "length (rd_drops (apply_verdict s (Inl r))) = Suc (length (rd_drops s))"
  by (simp_all add: apply_verdict_def drop_read_def)

lemma apply_verdict_Inr:
  "rd_edges (apply_verdict s (Inr (k, g))) = (if k \<in> set (rd_seen s) then rd_edges s else rd_edges s @ [g])"
  "rd_seen (apply_verdict s (Inr (k, g))) = (if k \<in> set (rd_seen s) then rd_seen s else rd_seen s @ [k])"
  "length (rd_drops (apply_verdict s (Inr (k, g)))) = (if k \<in> set (rd_seen s) then Suc (length (rd_drops s)) else length (rd_drops s))"
  by (simp_all add: apply_verdict_def emit_read_def drop_read_def)

lemma apply_verdicts_edges: "rd_edges (foldl apply_verdict s ws) = rd_edges s @ first_of_key (rights ws) (rd_seen s)"
proof (induction ws arbitrary: s)
  case (Cons w ws)
  show ?case
  proof (cases w)
    case (Inl r)
    then show ?thesis by (simp add: Cons apply_verdict_Inl)
  next
    case (Inr p)
    obtain k g where kg: "p = (k, g)" by (cases p)
    have "first_of_key xs (rd_seen s @ [k]) = first_of_key xs (k # rd_seen s)" for xs :: "((string \<times> string \<times> string) \<times> 'a resolved_edge) list"
      by (rule first_of_key_cong) simp
    then show ?thesis by (cases "k \<in> set (rd_seen s)") (simp_all add: Cons Inr kg apply_verdict_Inr)
  qed
qed simp

definition handled :: "'f read_state \<Rightarrow> nat" where
  "handled s = length (rd_edges s) + length (rd_drops s)"

lemma apply_verdict_handled: "handled (apply_verdict s w) = Suc (handled s)"
  by (cases w) (auto simp: handled_def apply_verdict_def drop_read_def emit_read_def split: prod.split)

lemma apply_verdicts_handled: "handled (foldl apply_verdict s ws) = handled s + length ws"
  by (induction ws arbitrary: s) (simp_all add: apply_verdict_handled)

lemma reads_loop_edges:
  "rd_edges (resolve_reads_loop binding v pid pending) = first_of_key (rights (map (read_verdict binding v pid) pending)) []"
proof -
  have "rd_edges (resolve_reads_loop binding v pid pending) = rd_edges (foldl apply_verdict read_start (map (read_verdict binding v pid) pending))"
    using reads_loop_verdicts [of v binding pid pending] by (simp add: same_reads_def)
  also have "\<dots> = first_of_key (rights (map (read_verdict binding v pid) pending)) []"
    by (subst apply_verdicts_edges) (simp add: read_start_def)
  finally show ?thesis .
qed

lemma reads_loop_handled: "handled (resolve_reads_loop binding v pid pending) = length pending"
proof -
  have "handled (resolve_reads_loop binding v pid pending) = handled (foldl apply_verdict read_start (map (read_verdict binding v pid) pending))"
    using reads_loop_verdicts [of v binding pid pending] by (simp add: same_reads_def handled_def)
  also have "\<dots> = length pending"
    by (subst apply_verdicts_handled) (simp add: read_start_def handled_def)
  finally show ?thesis .
qed

text \<open>
  C35: the read pass accounts for every pending read or write: it becomes an edge or is dropped for exactly one reason, and
  the edges are those of the verdicts of the pending ones, each verdict found without caches, the first for each pair of ends
  and kind.
\<close>
theorem reads_refine:
  "let s = resolve_reads_loop binding v pid pending; ws = map (read_verdict binding v pid) pending
   in rd_edges s = first_of_key (rights ws) [] \<and> length (rd_edges s) + length (rd_drops s) = length pending"
  using reads_loop_edges [of binding v pid pending] reads_loop_handled [of binding v pid pending] by (simp add: handled_def Let_def)

lemma first_of_key_subset: "set (first_of_key xs seen) \<subseteq> snd ` set xs"
  by (induction xs seen rule: first_of_key.induct) auto

text \<open>A hit is the row with its ID.\<close>

definition row_of_hit :: "'f symbol set \<Rightarrow> hit \<Rightarrow> bool" where
  "row_of_hit rows h \<longleftrightarrow> h_id h = '''' \<or> (\<exists>s \<in> rows. h = hit_of s)"

lemma canonical_row_in: "syms \<noteq> [] \<Longrightarrow> canonical_row syms \<in> set syms"
proof -
  have f: "foldl (\<lambda>c s. if s_ID s < s_ID c then s else c) x ss \<in> insert x (set ss)" for x and ss :: "'a symbol list"
  proof (induction ss arbitrary: x)
    case (Cons s ss)
    show ?case using Cons [of "if s_ID s < s_ID x then s else x"] by (auto split: if_splits)
  qed simp
  assume "syms \<noteq> []"
  then show ?thesis using f [of "hd syms" "tl syms"] by (cases syms) (auto simp: canonical_row_def)
qed

abbreviation rows_of_project :: "string \<Rightarrow> 'f store \<Rightarrow> 'f symbol set" where
  "rows_of_project pid st \<equiv> {s \<in> set (t_symbols st). s_ProjectID s = pid}"

lemma view_by_name: "st_by_name (store_view pid m st) n k = Some syms \<Longrightarrow> set syms \<subseteq> rows_of_project pid st"
  by (auto simp: store_view_def GetSymbolsByName_def sql_limit_def dest: in_set_takeD split: if_splits)

lemma no_hit_row [simp]: "row_of_hit rows no_hit"
  by (simp add: row_of_hit_def no_hit_def)

lemma row_of_hitI: "s \<in> rows \<Longrightarrow> row_of_hit rows (hit_of s)"
  by (auto simp: row_of_hit_def)

lemma qn_spec_hit_row: "row_of_hit (rows_of_project pid st) (qn_spec_hit (store_view pid None st) qn)"
proof (cases "qn = '''' \<or> lookup_syms (store_view pid None st) qn = []")
  case True
  then show ?thesis by (auto simp: qn_spec_hit_def qn_hit_def Let_def)
next
  case False
  then have "canonical_row (lookup_syms (store_view pid None st) qn) \<in> rows_of_project pid st"
    using canonical_row_in [of "lookup_syms (store_view pid None st) qn"] view_names [of pid st qn] by auto
  from row_of_hitI [OF this] show ?thesis using False by (simp add: qn_spec_hit_def qn_hit_def Let_def)
qed

lemma first_of_kind_row:
  assumes "first_of_kind k l syms = Some h" "set syms \<subseteq> rows"
  shows "row_of_hit rows h"
proof -
  obtain i where "i < length syms" "h = hit_of (syms ! i)" using assms(1) by (auto simp: first_of_kind_def find_Some_iff)
  then show ?thesis using assms(2) row_of_hitI by (metis nth_mem subsetD)
qed

lemma name_spec_hit_row: "row_of_hit (rows_of_project pid st) (name_spec_hit (store_view pid m st) n l p)"
proof (cases "st_by_name (store_view pid m st) n 10")
  case (Some named)
  let ?scoped = "if p = '''' then preferNonFixtureSyms named else filter (\<lambda>s. dir_of (s_FilePath s) = p) (preferNonFixtureSyms named)"
  have "set ?scoped \<subseteq> rows_of_project pid st" using view_by_name [OF Some] excludeNonCode_subset(3) [of named] by auto
  note row = first_of_kind_row [OF _ this]
  show ?thesis using row [of "''Variable''" l] row [of "''Function''" l] row [of "''Method''" l]
    by (auto simp: name_spec_hit_def name_hit_def Some Let_def split: option.split)
qed (simp add: name_spec_hit_def name_hit_def)

lemma read_to_row: "row_of_hit (rows_of_project pid st) (read_to_spec (store_view pid None st) e)"
  by (simp only: read_to_spec_def Let_def split: if_split) (blast intro: qn_spec_hit_row name_spec_hit_row)

text \<open>
  C36: The read pass binds to what it says it binds: every read or write edge ends at a variable of the project and
  comes from the resolve pass, every other edge is a call of the binding pass that ends at a function or a method of
  the project, found for a pending reference whose trailing name is not one of the polymorphic ones, and no edge is a
  loop.
\<close>
theorem reads_targets:
  "set (rd_edges (resolve_reads_loop binding (store_view pid None st) pid pending)) \<subseteq>
     {g. g_Kind g \<in> {''READS'', ''WRITES''} \<and> g_Source g = ''resolve_pass'' \<and> g_FromID g \<noteq> g_ToID g \<and>
         g_ToID g \<in> s_ID ` {s \<in> set (t_symbols st). s_ProjectID s = pid \<and> s_Kind s = ''Variable''}} \<union>
     {g. g_Kind g = ''CALLS'' \<and> g_Source g = ''binding_pass'' \<and> g_FromID g \<noteq> g_ToID g \<and> g_Confidence g = binding \<and>
         g_ToID g \<in> s_ID ` {s \<in> set (t_symbols st). s_ProjectID s = pid \<and> s_Kind s \<in> {''Function'', ''Method''}} \<and>
         g_ToID g \<in> (\<lambda>e. h_id (read_to_spec (store_view pid None st) e)) ` {e \<in> set pending. \<not> isPolymorphicInterfaceMethodName (trailing_name (e_ToName e))}}"
  (is "_ \<subseteq> ?A \<union> ?B")
proof -
  let ?v = "store_view pid None st"
  have verdict: "g \<in> ?A \<union> ?B" if e: "e \<in> set pending" and w: "read_verdict binding ?v pid e = Inr (k, g)" for e k g
  proof -
    have to: "h_id (read_to_spec ?v e) \<noteq> ''''" "h_id (read_from_spec ?v e) \<noteq> h_id (read_to_spec ?v e)"
      using w by (auto simp: read_verdict_def Let_def split: if_splits)
    then obtain s where s: "s \<in> set (t_symbols st)" "s_ProjectID s = pid" "read_to_spec ?v e = hit_of s"
      using read_to_row [of st pid e] by (auto simp: row_of_hit_def)
    show ?thesis
    proof (cases "h_isFunc (read_to_spec ?v e)")
      case True
      then have "g = pass_edge pid ''CALLS'' ''binding_pass'' (h_id (read_from_spec ?v e)) (h_id (read_to_spec ?v e)) binding"
        "\<not> isPolymorphicInterfaceMethodName (trailing_name (e_ToName e))"
        using w by (auto simp: read_verdict_def Let_def split: if_splits)
      then show ?thesis using True s to e by (auto simp: pass_edge_def hit_of_def intro!: image_eqI)
    next
      case False
      then have "g = pass_edge pid (read_kind (e_Kind e)) ''resolve_pass'' (h_id (read_from_spec ?v e)) (h_id (read_to_spec ?v e)) (e_Confidence e)"
        "h_isVar (read_to_spec ?v e)"
        using w by (auto simp: read_verdict_def Let_def split: if_splits)
      then show ?thesis using s to by (auto simp: pass_edge_def hit_of_def read_kind_def)
    qed
  qed
  have "set (rd_edges (resolve_reads_loop binding ?v pid pending)) \<subseteq> snd ` set (rights (map (read_verdict binding ?v pid) pending))"
    using first_of_key_subset by (simp add: reads_loop_edges)
  also have "\<dots> \<subseteq> ?A \<union> ?B"
  proof (rule image_subsetI)
    fix x assume "x \<in> set (rights (map (read_verdict binding ?v pid) pending))"
    then obtain e where "e \<in> set pending" "read_verdict binding ?v pid e = Inr x" by (auto simp: rights_def split: sum.splits)
    then show "snd x \<in> ?A \<union> ?B" using verdict [of e "fst x" "snd x"] by simp
  qed
  finally show ?thesis .
qed

end
