(* ===== verification/Index_Tail.thy ===== *)
theory Index_Tail
  imports Resolve_Reads Index_Machine
begin

text \<open>
  The end of an index run (\<open>indexImpl\<close> after the extraction phase, \<open>internal/index/indexer.go\<close>): the resolve passes over the
  deferred edges of the store, whole or limited to the files of the run, the collection of the rows of vanished files, the
  parity check, and the counts of the project row.
\<close>

section \<open>The deferred edges\<close>

text \<open>What is fixed during the end of a run; \<open>te_LoadFails\<close> tells for which kinds the query for deferred edges fails.\<close>

record 'f tail_env =
  te_Zero :: 'f
  te_One :: 'f
  te_Half :: 'f
  te_Binding :: 'f
  te_ProjectID :: string
  te_Roots :: "string list"
  te_Detect :: "string \<Rightarrow> string"
  te_LoadFails :: "string \<Rightarrow> bool"

definition pendingRowsToExtractedEdges :: "'f pending_row list \<Rightarrow> 'f pending_edge list" where
  "pendingRowsToExtractedEdges rows = map pending_edge.truncate rows"

definition loadOrFallback :: "'f tail_env \<Rightarrow> string \<Rightarrow> 'f pending_edge list \<Rightarrow> 'f store \<Rightarrow> 'f pending_edge list" where
  "loadOrFallback te kind fallback st =
     (if te_LoadFails te kind then fallback else pendingRowsToExtractedEdges (LoadPendingEdges (te_ProjectID te) kind st))"

definition loadScopedOrFallback ::
    "'f tail_env \<Rightarrow> string \<Rightarrow> string list \<Rightarrow> 'f pending_edge list \<Rightarrow> 'f store \<Rightarrow> 'f pending_edge list" where
  "loadScopedOrFallback te kind scopeFiles fallback st =
     (if scopeFiles = [] then fallback
      else if te_LoadFails te kind then fallback
      else pendingRowsToExtractedEdges (LoadPendingEdgesByKindAndFiles (te_ProjectID te) kind scopeFiles st))"

text \<open>The files of the run and those with edges into them, when the run is not forced and there are few of them.\<close>

definition resolve_scope :: "bool \<Rightarrow> ('c, 'f) machine \<Rightarrow> string list option" where
  "resolve_scope force m =
     (let scopeSet = remdups (m_Extracted m @ m_Referrers m)
      in if \<not> force \<and> m_TotalFiles m > 0 \<and> length scopeSet \<le> 64 then Some scopeSet else None)"

definition load_kind :: "'f tail_env \<Rightarrow> string list option \<Rightarrow> string \<Rightarrow> 'f pending_edge list \<Rightarrow> 'f store \<Rightarrow> 'f pending_edge list" where
  "load_kind te scope kind fallback st =
     (case scope of Some files \<Rightarrow> loadScopedOrFallback te kind files fallback st | None \<Rightarrow> loadOrFallback te kind fallback st)"

section \<open>The resolve block\<close>

definition scope_files :: "string list option \<Rightarrow> string list" where
  "scope_files scope = (case scope of Some files \<Rightarrow> files | None \<Rightarrow> [])"

text \<open>\<open>runResolve\<close>: a pass without deferred edges is not run.\<close>

definition run_resolve :: "'f pending_edge list \<Rightarrow> ('f store \<Rightarrow> nat \<times> 'f store) \<Rightarrow> nat \<times> 'f store \<Rightarrow> nat \<times> 'f store" where
  "run_resolve pending run s =
     (case s of (n, st) \<Rightarrow> if pending = [] then (n, st) else (case run st of (k, st1) \<Rightarrow> (n + k, st1)))"

text \<open>In a limited run a pass without deferred edges still clears the old edges of the files.\<close>

definition clear_empty :: "string list option \<Rightarrow> 'f pending_edge list \<Rightarrow> ('f store \<Rightarrow> nat \<times> 'f store) \<Rightarrow> 'f store \<Rightarrow> 'f store" where
  "clear_empty scope pending run st = (if scope \<noteq> None \<and> pending = [] then snd (run st) else st)"

definition preload :: "string \<Rightarrow> nat \<Rightarrow> 'f store \<Rightarrow> (string \<rightharpoonup> 'f symbol list) option" where
  "preload pid n st = (if n > 1000 then Some (LoadAllSymbolsByQN pid st) else None)"

definition run_imports :: "'f tail_env \<Rightarrow> string list option \<Rightarrow> (string \<rightharpoonup> 'f symbol list) option \<Rightarrow> 'f pending_edge list \<Rightarrow> 'f store \<Rightarrow> nat \<times> 'f store" where
  "run_imports te scope qnMap pending st =
     resolveImports (te_Zero te) (te_One te) (te_ProjectID te) pending (te_Roots te) qnMap (scope_files scope) st"

definition run_calls :: "'f tail_env \<Rightarrow> string list option \<Rightarrow> (string \<rightharpoonup> 'f symbol list) option \<Rightarrow> 'f pending_edge list \<Rightarrow> 'f store \<Rightarrow> nat \<times> 'f store" where
  "run_calls te scope qnMap pending st = resolveCalls (te_ProjectID te) pending (te_Roots te) qnMap (scope_files scope) st"

definition run_reads :: "'f tail_env \<Rightarrow> string list option \<Rightarrow> (string \<rightharpoonup> 'f symbol list) option \<Rightarrow> 'f pending_edge list \<Rightarrow> 'f store \<Rightarrow> nat \<times> 'f store" where
  "run_reads te scope qnMap pending st = resolveReads (te_Binding te) (te_ProjectID te) pending qnMap (scope_files scope) st"

definition run_uses :: "'f tail_env \<Rightarrow> string list option \<Rightarrow> 'f pending_edge list \<Rightarrow> 'f store \<Rightarrow> nat \<times> 'f store" where
  "run_uses te scope pending st =
     resolveUsesVar (te_Zero te) (te_One te) (te_Half te) (te_Detect te) (te_ProjectID te) pending (scope_files scope) st"

definition resolve_block :: "'f tail_env \<Rightarrow> string list option \<Rightarrow> ('c, 'f) machine \<Rightarrow> nat \<times> 'f store" where
  "resolve_block te scope m =
     (let st = m_Store m;
          imports = load_kind te scope ''IMPORTS'' (m_Imports m) st;
          calls = load_kind te scope ''CALLS'' (m_Calls m) st;
          reads = load_kind te scope ''READS'' (m_Reads m) st @ load_kind te scope ''WRITES'' [] st;
          qnMap = preload (te_ProjectID te) (length imports + length calls + length reads) st;
          st1 = clear_empty scope reads (run_reads te scope qnMap [])
                 (clear_empty scope calls (run_calls te scope qnMap [])
                   (clear_empty scope imports (run_imports te scope qnMap []) st));
          (n, st2) = run_resolve reads (run_reads te scope qnMap reads)
                 (run_resolve calls (run_calls te scope qnMap calls)
                   (run_resolve imports (run_imports te scope qnMap imports) (0, st1)));
          uses = load_kind te scope ''USES_VAR'' (m_UsesVar m) st2
      in run_resolve uses (run_uses te scope uses) (n, clear_empty scope uses (run_uses te scope []) st2))"

section \<open>The collection of vanished files\<close>

definition gc_paths :: "string \<Rightarrow> 'f store \<Rightarrow> string list" where
  "gc_paths pid st = remdups (ListFilesForProject pid st @ ListSymbolFilePaths pid st)"

definition vanished :: "string list \<Rightarrow> string \<Rightarrow> bool" where
  "vanished seen path \<longleftrightarrow> path \<notin> set seen \<and> \<not> has_prefix path ''@external/''"

definition reap_file :: "string \<Rightarrow> string \<Rightarrow> 'f store \<Rightarrow> 'f store" where
  "reap_file pid path st = DeletePendingEdgesForFile pid path (DeleteFileHash pid path (DeleteSymbolsForFile pid path st))"

definition collect_vanished :: "string \<Rightarrow> string list \<Rightarrow> 'f store \<Rightarrow> nat \<times> 'f store" where
  "collect_vanished pid seen st =
     (let gone = filter (vanished seen) (gc_paths pid st) in (length gone, fold (reap_file pid) gone st))"

section \<open>The parity check\<close>

text \<open>
  The expected count of a file is the sum of those recorded, one for each extraction of the file; a file that lost
  more than a tenth of its rows is reported.
\<close>

definition expected_files :: "(string \<times> nat) list \<Rightarrow> (string \<times> nat) list" where
  "expected_files expected =
     map (\<lambda>p. (p, sum_list (map snd (filter (\<lambda>(q, _). q = p) expected)))) (remdups (map fst expected))"

definition runParityCheck :: "string \<Rightarrow> (string \<times> nat) list \<Rightarrow> 'f store \<Rightarrow> nat \<times> nat" where
  "runParityCheck pid expected st =
     foldl (\<lambda>(files, missing) (p, n).
         let actual = (case SymbolCountsByFile pid st p of None \<Rightarrow> 0 | Some k \<Rightarrow> k)
         in if n = 0 \<or> actual * 10 \<ge> n * 9 then (files, missing) else (files + 1, missing + (n - actual)))
       (0, 0) (expected_files expected)"

section \<open>The end of the run\<close>

record 'f index_result =
  ir_Store :: "'f store"
  ir_Edges :: nat
  ir_Deleted :: nat
  ir_ParityMismatchFiles :: nat
  ir_ParityMissingSymbols :: nat

text \<open>\<open>row\<close> is the project row of the run but for its counts.\<close>

definition counted_row :: "project_row \<Rightarrow> nat \<Rightarrow> 'f store \<Rightarrow> project_row" where
  "counted_row row walked st =
     row\<lparr>j_FileCount := int walked,
         j_SymCount := int (length (filter (\<lambda>s. s_ProjectID s = j_ID row) (t_symbols st))),
         j_EdgeCount := int (length (filter (\<lambda>g. g_ProjectID g = j_ID row) (t_edges st)))\<rparr>"

definition finish_run ::
    "'f tail_env \<Rightarrow> int \<Rightarrow> project_row \<Rightarrow> bool \<Rightarrow> bool \<Rightarrow> ('c, 'f) machine \<Rightarrow> 'f index_result" where
  "finish_run te schema_now row force resolveOnly m =
     (let (n, st1) = (if force \<or> m_TotalFiles m > 0 \<or> resolveOnly then resolve_block te (resolve_scope force m) m else (0, m_Store m));
          (deleted, st2) = collect_vanished (te_ProjectID te) (m_Seen m) st1;
          (files, missing) = runParityCheck (te_ProjectID te) (m_Expected m) st2;
          st3 = UpsertProject schema_now (counted_row row (m_TotalFiles m + m_Skipped m) st2) st2
      in \<lparr>ir_Store = st3, ir_Edges = m_TotalEdges m + n, ir_Deleted = deleted,
          ir_ParityMismatchFiles = files, ir_ParityMissingSymbols = missing\<rparr>)"

section \<open>What a pass leaves alone\<close>

text \<open>The edges a pass owns: those of its kinds whose source is a pass.\<close>

definition pass_owned :: "string set \<Rightarrow> 'f resolved_edge \<Rightarrow> bool" where
  "pass_owned kinds g \<longleftrightarrow> g_Kind g \<in> kinds \<and> g_Source g \<in> {''resolve_pass'', ''binding_pass''}"

definition only_owned :: "string set \<Rightarrow> 'f store \<Rightarrow> 'f store \<Rightarrow> bool" where
  "only_owned kinds st st1 \<longleftrightarrow>
     filter (\<lambda>g. \<not> pass_owned kinds g) (t_edges st1) = filter (\<lambda>g. \<not> pass_owned kinds g) (t_edges st) \<and>
     t_files st1 = t_files st \<and> t_pending st1 = t_pending st \<and> t_projects st1 = t_projects st"

lemma only_owned_refl [simp]: "only_owned K st st"
  by (simp add: only_owned_def)

lemma only_owned_trans: "only_owned K st1 st2 \<Longrightarrow> only_owned K st st1 \<Longrightarrow> only_owned K st st2"
  by (simp add: only_owned_def)

lemma only_owned_mono:
  assumes "only_owned K st st1" "K \<subseteq> L"
  shows "only_owned L st st1"
proof -
  have f: "filter (\<lambda>g. \<not> pass_owned L g) gs = filter (\<lambda>g. \<not> pass_owned L g) (filter (\<lambda>g. \<not> pass_owned K g) gs)" for gs :: "'a resolved_edge list"
    using assms(2) by (simp, intro filter_cong) (auto simp: pass_owned_def)
  show ?thesis
    using assms(1) f [of "t_edges st1"] f [of "t_edges st"] by (simp add: only_owned_def)
qed

lemma delete_owned:
  assumes "source \<in> {''resolve_pass'', ''binding_pass''}"
  shows "only_owned {kind} st (DeleteEdgesByKindAndSourceForSourceFiles pid kind source files st)"
proof -
  have "filter (\<lambda>g. \<not> pass_owned {kind} g) (filter (\<lambda>g. \<not> (g_ProjectID g = pid \<and> g_Kind g = kind \<and> g_Source g = source \<and> P g)) gs) =
      filter (\<lambda>g. \<not> pass_owned {kind} g) gs" for P and gs :: "'a resolved_edge list"
    using assms by (simp, intro filter_cong) (auto simp: pass_owned_def)
  then show ?thesis
    by (simp add: DeleteEdgesByKindAndSourceForSourceFiles_def delete_scoped_def delete_where_def only_owned_def)
qed

lemma replace_owned:
  assumes "ReplaceEdgesByKindSource pid kind source files gs st = Inr st1"
    and "source \<in> {''resolve_pass'', ''binding_pass''}"
    and "\<And>g. g \<in> set gs \<Longrightarrow> g_Kind g \<in> K \<and> g_Source g \<in> {''resolve_pass'', ''binding_pass''}" and "kind \<in> K"
  shows "only_owned K st st1"
proof -
  from replace_edges_rows [OF assms(1)] obtain added where
    st1: "st1 = st\<lparr>t_edges := filter (\<lambda>g. \<not> replaced_edge pid kind source files st g) (t_edges st) @ added\<rparr>"
    and added: "set added \<subseteq> with_source ` set gs" by blast
  have "pass_owned K g" if "g \<in> set added" for g
    using that added assms(3) by (fastforce simp: pass_owned_def with_source_def)
  then have "filter (\<lambda>g. \<not> pass_owned K g) added = []" by (simp add: filter_empty_conv)
  moreover have "filter (\<lambda>g. \<not> pass_owned K g) (filter (\<lambda>g. \<not> replaced_edge pid kind source files st g) (t_edges st)) =
      filter (\<lambda>g. \<not> pass_owned K g) (t_edges st)"
    using assms(2,4) by (simp, intro filter_cong) (auto simp: pass_owned_def replaced_edge_def)
  ultimately show ?thesis by (simp add: st1 only_owned_def)
qed

lemma upsert_owned: "only_owned K st (fold (upsert_symbol zero one) syms st)"
proof (induction syms arbitrary: st)
  case (Cons s syms)
  have "only_owned K st (upsert_symbol zero one s st)" by (simp add: upsert_symbol_def only_owned_def)
  then show ?case using Cons only_owned_trans by fastforce
qed simp

lemma write_pass_owned:
  assumes "\<And>g. g \<in> set edges \<Longrightarrow> g_Kind g = kind \<and> g_Source g = ''resolve_pass''"
  shows "only_owned {kind} st (snd (write_pass zero one pid kind files uses new edges st))"
proof -
  have replaced: "only_owned {kind} st1 (snd (case ReplaceEdgesByKindSource pid kind ''resolve_pass'' files gs st1 of Inl _ \<Rightarrow> (0, st1) | Inr st2 \<Rightarrow> (length gs, st2)))"
    if "set gs \<subseteq> set edges" for gs st1
    using assms that by (auto split: sum.split intro!: replace_owned)
  show ?thesis
  proof (cases "new = []")
    case True
    then show ?thesis using replaced [of edges st] by (simp add: write_pass_def)
  next
    case False
    show ?thesis
    proof (cases "BulkUpsertSymbols zero one new st")
      case (Inl err)
      have "set (filter (\<lambda>g. uses g \<notin> s_ID ` set new) edges) \<subseteq> set edges" by auto
      from replaced [OF this, of st] show ?thesis using False Inl by (simp add: write_pass_def)
    next
      case (Inr st1)
      then have "st1 = fold (upsert_symbol zero one) new st" by (simp add: BulkUpsertSymbols_def split: if_splits)
      then have "only_owned {kind} st st1" by (simp add: upsert_owned)
      then show ?thesis using only_owned_trans [OF replaced [of edges st1]] False Inr by (simp add: write_pass_def)
    qed
  qed
qed

end
