(* ===== verification/Index_Tail_Correct.thy ===== *)
theory Index_Tail_Correct
  imports Index_Tail
begin

text \<open>
  What the end of a run does to the store: the resolve block keeps what extraction wrote, the collection removes the vanished
  files exactly; and where edges are lost: in limited resolve passes and when a file is moved.
\<close>

section \<open>The passes\<close>

lemma import_edges: "g \<in> set (ip_edges (resolve_imports_loop one v roots pid pending)) \<Longrightarrow>
    g_Kind g = ''IMPORTS'' \<and> g_Source g = ''resolve_pass'' \<and> g_ProjectID g = pid"
  using imports_loop_ok [of one v roots pid pending] by (auto simp: imports_ok_def pass_edge_def)

lemma call_edges: "g \<in> set (cs_edges (resolve_calls_loop v roots pid pending)) \<Longrightarrow>
    g_Kind g = ''CALLS'' \<and> g_Source g = ''resolve_pass'' \<and> g_ProjectID g = pid"
proof -
  assume g: "g \<in> set (cs_edges (resolve_calls_loop v roots pid pending))"
  have "pass_ok v roots pid pending (resolve_calls_loop v roots pid pending)" by (rule resolve_calls_ok)
  then obtain e where "edge_of v roots pid e g" using g by (auto simp: pass_ok_def)
  then have "g = calls_edge pid (from_spec v e) (g_ToID g) (e_Confidence e)" by (simp add: edge_of_def)
  then show ?thesis by (metis calls_edge_def resolved_edge.select_convs(1,4,7))
qed

lemma var_edges: "g \<in> set (vs_edges (resolve_vars_loop half detect pid rows pending)) \<Longrightarrow>
    g_Kind g = ''USES_VAR'' \<and> g_Source g = ''resolve_pass'' \<and> g_ProjectID g = pid"
  using vars_loop_ok [of half detect pid rows pending] by (auto simp: vars_ok_def pass_edge_def)

lemma rights_mem: "x \<in> set (rights ws) \<longleftrightarrow> Inr x \<in> set ws"
  by (auto simp: rights_def split: sum.splits)

lemma read_edges: "g \<in> set (rd_edges (resolve_reads_loop binding v pid pending)) \<Longrightarrow>
    g_Source g \<in> {''resolve_pass'', ''binding_pass''} \<and> g_ProjectID g = pid"
proof -
  assume "g \<in> set (rd_edges (resolve_reads_loop binding v pid pending))"
  then have "g \<in> snd ` set (rights (map (read_verdict binding v pid) pending))"
    unfolding reads_loop_edges using first_of_key_subset by (rule subsetD [rotated])
  then obtain k where "Inr (k, g) \<in> set (map (read_verdict binding v pid) pending)" by (auto simp: rights_mem)
  then obtain e where e: "Inr (k, g) = read_verdict binding v pid e" unfolding set_map by blast
  let ?from = "h_id (read_from_spec v e)" and ?to = "h_id (read_to_spec v e)"
  have "g = pass_edge pid ''CALLS'' ''binding_pass'' ?from ?to binding \<or>
      g = pass_edge pid (read_kind (e_Kind e)) ''resolve_pass'' ?from ?to (e_Confidence e)"
    using e [symmetric] by (simp add: read_verdict_def Let_def split: if_split_asm)
  then show ?thesis by (elim disjE) (simp_all add: pass_edge_def)
qed

lemma clears_owned:
  "only_owned {kind} st (DeleteResolvePassEdgesByKindForSourceFiles pid kind files st)"
  "only_owned {kind} st (DeleteEdgesByKindAndSourceForSourceFiles pid kind ''binding_pass'' files st)"
  unfolding DeleteResolvePassEdgesByKindForSourceFiles_def by (rule delete_owned, simp)+

lemma run_imports_owned: "only_owned {''IMPORTS''} st (snd (run_imports te scope qnMap pending st))"
proof (cases "pending = []")
  case True
  then show ?thesis
    by (simp add: run_imports_def resolveImports_def clears_owned)
next
  case False
  then show ?thesis by (simp add: run_imports_def resolveImports_def Let_def write_pass_owned import_edges)
qed

lemma run_uses_owned: "only_owned {''USES_VAR''} st (snd (run_uses te scope pending st))"
proof (cases "pending = []")
  case True
  then show ?thesis
    by (simp add: run_uses_def resolveUsesVar_def clears_owned)
next
  case False
  then show ?thesis by (simp add: run_uses_def resolveUsesVar_def Let_def write_pass_owned var_edges)
qed

lemma run_calls_owned: "only_owned {''CALLS''} st (snd (run_calls te scope qnMap pending st))"
proof (cases "pending = []")
  case True
  then show ?thesis
    by (simp add: run_calls_def resolveCalls_def clears_owned)
next
  case False
  let ?edges = "cs_edges (resolve_calls_loop (store_view (te_ProjectID te) qnMap st) (te_Roots te) (te_ProjectID te) pending)"
  show ?thesis
  proof (cases "ReplaceEdgesByKindSource (te_ProjectID te) ''CALLS'' ''resolve_pass'' (scope_files scope) ?edges st")
    case (Inr st1)
    have "only_owned {''CALLS''} st st1" by (rule replace_owned [OF Inr]) (simp_all add: call_edges)
    then show ?thesis using False Inr by (simp add: run_calls_def resolveCalls_def Let_def)
  qed (use False in \<open>simp add: run_calls_def resolveCalls_def Let_def\<close>)
qed

lemma replace_or_keep_owned:
  assumes "source \<in> {''resolve_pass'', ''binding_pass''}" and "\<And>g. g \<in> set gs \<Longrightarrow> g_Source g \<in> {''resolve_pass'', ''binding_pass''}"
  shows "only_owned {kind} st (replace_or_keep pid kind source files (filter (\<lambda>g. g_Kind g = kind) gs) st)"
proof (cases "ReplaceEdgesByKindSource pid kind source files (filter (\<lambda>g. g_Kind g = kind) gs) st")
  case (Inr st1)
  have "only_owned {kind} st st1" by (rule replace_owned [OF Inr assms(1)]) (use assms(2) in auto)
  then show ?thesis using Inr by (simp add: replace_or_keep_def)
qed (simp add: replace_or_keep_def)

definition read_kinds :: "string set" where
  "read_kinds = {''READS'', ''WRITES'', ''CALLS''}"

lemma read_kindsI: "only_owned {''READS''} st st1 \<Longrightarrow> only_owned read_kinds st st1" "only_owned {''WRITES''} st st1 \<Longrightarrow> only_owned read_kinds st st1"
    "only_owned {''CALLS''} st st1 \<Longrightarrow> only_owned read_kinds st st1"
  by (erule only_owned_mono, simp add: read_kinds_def)+

lemma run_reads_owned: "only_owned read_kinds st (snd (run_reads te scope qnMap pending st))"
proof (cases "pending = []")
  case True
  have "only_owned read_kinds st (DeleteEdgesByKindAndSourceForSourceFiles pid ''CALLS'' ''binding_pass'' files
      (DeleteResolvePassEdgesByKindForSourceFiles pid ''WRITES'' files (DeleteResolvePassEdgesByKindForSourceFiles pid ''READS'' files st)))" for pid files
    by (rule only_owned_trans [OF read_kindsI(3) only_owned_trans [OF read_kindsI(2) read_kindsI(1)]]) (rule clears_owned)+
  then show ?thesis by (simp only: run_reads_def resolveReads_def True if_True snd_conv simp_thms)
next
  case False
  let ?edges = "rd_edges (resolve_reads_loop (te_Binding te) (store_view (te_ProjectID te) qnMap st) (te_ProjectID te) pending)"
  have src: "only_owned {kind} st (replace_or_keep pid kind source files (filter (\<lambda>g. g_Kind g = kind) ?edges) st)"
    if "source \<in> {''resolve_pass'', ''binding_pass''}" for kind source pid files st
    by (rule replace_or_keep_owned [OF that]) (rule conjunct1 [OF read_edges])
  have "only_owned read_kinds st
      (replace_or_keep pid ''CALLS'' ''binding_pass'' files (filter (\<lambda>g. g_Kind g = ''CALLS'') ?edges)
        (replace_or_keep pid ''WRITES'' ''resolve_pass'' files (filter (\<lambda>g. g_Kind g = ''WRITES'') ?edges)
          (replace_or_keep pid ''READS'' ''resolve_pass'' files (filter (\<lambda>g. g_Kind g = ''READS'') ?edges) st)))" for pid files
    by (rule only_owned_trans [OF read_kindsI(3) only_owned_trans [OF read_kindsI(2) read_kindsI(1)]]; rule src; simp)
  then show ?thesis by (simp only: run_reads_def resolveReads_def False if_False Let_def snd_conv)
qed

section \<open>The block\<close>

definition all_kinds :: "string set" where
  "all_kinds = {''IMPORTS'', ''CALLS'', ''READS'', ''WRITES'', ''USES_VAR''}"

lemma run_resolve_store: "snd (run_resolve pending run s) = (if pending = [] then snd s else snd (run (snd s)))"
  by (simp add: run_resolve_def split: prod.split)

lemma run_resolve_owned: "(\<And>st. only_owned K st (snd (run st))) \<Longrightarrow> only_owned K st (snd s) \<Longrightarrow> only_owned K st (snd (run_resolve pending run s))"
  by (simp add: run_resolve_store) (blast intro: only_owned_trans)

lemma clear_empty_owned: "(\<And>st. only_owned K st (snd (run st))) \<Longrightarrow> only_owned K st st1 \<Longrightarrow> only_owned K st (clear_empty scope pending run st1)"
  by (auto simp: clear_empty_def intro: only_owned_trans)

lemma all_owned:
  "only_owned all_kinds st (snd (run_imports te scope qnMap pending st))" "only_owned all_kinds st (snd (run_calls te scope qnMap pending st))"
  "only_owned all_kinds st (snd (run_reads te scope qnMap pending st))" "only_owned all_kinds st (snd (run_uses te scope pending st))"
     apply (rule only_owned_mono [OF run_imports_owned], simp add: all_kinds_def)
    apply (rule only_owned_mono [OF run_calls_owned], simp add: all_kinds_def)
   apply (rule only_owned_mono [OF run_reads_owned], simp add: all_kinds_def read_kinds_def)
  apply (rule only_owned_mono [OF run_uses_owned], simp add: all_kinds_def)
  done

lemma block_owned: "only_owned all_kinds (m_Store m) (snd (resolve_block te scope m))"
  unfolding resolve_block_def Let_def split_beta
  by (intro run_resolve_owned clear_empty_owned all_owned) (simp add: clear_empty_owned run_resolve_owned all_owned)+

lemma extracted_unowned: "filter (\<lambda>g. g_Source g \<notin> {''resolve_pass'', ''binding_pass''}) gs =
    filter (\<lambda>g. g_Source g \<notin> {''resolve_pass'', ''binding_pass''}) (filter (\<lambda>g. \<not> pass_owned K g) gs)"
  unfolding filter_filter by (rule filter_cong) (auto simp: pass_owned_def)

text \<open>
  C23: whatever the resolve block does, it keeps what the extraction phase wrote: every edge whose source is not one of the
  two passes is left in its place, with nothing added to them, and the file hashes, the deferred edges and the project rows
  are untouched. This holds for a whole and for a limited block, and when queries fail.
\<close>
theorem block_keeps_extracted:
  "let st1 = snd (resolve_block te scope m); extracted = (\<lambda>g. g_Source g \<notin> {''resolve_pass'', ''binding_pass''})
   in filter extracted (t_edges st1) = filter extracted (t_edges (m_Store m)) \<and> t_files st1 = t_files (m_Store m) \<and>
      t_pending st1 = t_pending (m_Store m) \<and> t_projects st1 = t_projects (m_Store m)"
proof -
  let ?X = "\<lambda>g. g_Source g \<notin> {''resolve_pass'', ''binding_pass''}" and ?N = "\<lambda>g. \<not> pass_owned all_kinds g"

  note owned = block_owned [of m te scope, unfolded only_owned_def]
  have "filter ?X (t_edges (snd (resolve_block te scope m))) = filter ?X (filter ?N (t_edges (snd (resolve_block te scope m))))" by (rule extracted_unowned)
  also have "\<dots> = filter ?X (filter ?N (t_edges (m_Store m)))" by (simp only: owned)
  also have "\<dots> = filter ?X (t_edges (m_Store m))" by (rule extracted_unowned [symmetric])
  finally show ?thesis using owned by (simp add: Let_def)
qed

section \<open>The collection is exact\<close>

text \<open>The store without the rows of some files, and without the edges, fields and methods that name one of their symbols.\<close>

definition without_files :: "string \<Rightarrow> string list \<Rightarrow> 'f store \<Rightarrow> 'f store" where
  "without_files pid gone st =
     (let ids = ids_of_files st pid gone
      in st\<lparr>t_symbols := filter (\<lambda>s. \<not> (s_ProjectID s = pid \<and> s_FilePath s \<in> set gone)) (t_symbols st),
            t_edges := filter (\<lambda>g. g_FromID g \<notin> ids \<and> g_ToID g \<notin> ids) (t_edges st),
            t_files := filter (\<lambda>r. \<not> (f_ProjectID r = pid \<and> f_Path r \<in> set gone)) (t_files st),
            t_pending := filter (\<lambda>r. \<not> (e_ProjectID r = pid \<and> e_FromFile r \<in> set gone)) (t_pending st),
            t_fields := filter (\<lambda>r. \<not> (sf_ProjectID r = pid \<and> sf_StructID r \<in> ids)) (t_fields st),
            t_methods := filter (\<lambda>r. \<not> (im_ProjectID r = pid \<and> im_InterfaceID r \<in> ids)) (t_methods st)\<rparr>)"

lemma reap_is_without: "reap_file pid p st = without_files pid [p] st"
proof -
  have "ids_of_file st pid p = ids_of_files st pid [p]" by (auto simp: ids_of_file_def ids_of_files_def)
  moreover have "ids_of_file (st\<lparr>t_edges := es, t_fields := fs\<rparr>) pid p = ids_of_file st pid p"
    "ids_of_file (st\<lparr>t_edges := es\<rparr>) pid p = ids_of_file st pid p" for es fs
    by (simp_all add: ids_of_file_def)
  ultimately show ?thesis
    by (simp add: reap_file_def without_files_def DeletePendingEdgesForFile_def DeleteFileHash_def DeleteSymbolsForFile_def
        delete_fields_of_def delete_methods_of_def delete_where_def Let_def)
qed

lemma without_fields [simp]:
  "t_symbols (without_files pid gone st) = filter (\<lambda>s. \<not> (s_ProjectID s = pid \<and> s_FilePath s \<in> set gone)) (t_symbols st)"
  "t_edges (without_files pid gone st) = filter (\<lambda>g. g_FromID g \<notin> ids_of_files st pid gone \<and> g_ToID g \<notin> ids_of_files st pid gone) (t_edges st)"
  "t_files (without_files pid gone st) = filter (\<lambda>r. \<not> (f_ProjectID r = pid \<and> f_Path r \<in> set gone)) (t_files st)"
  "t_pending (without_files pid gone st) = filter (\<lambda>r. \<not> (e_ProjectID r = pid \<and> e_FromFile r \<in> set gone)) (t_pending st)"
  "t_fields (without_files pid gone st) = filter (\<lambda>r. \<not> (sf_ProjectID r = pid \<and> sf_StructID r \<in> ids_of_files st pid gone)) (t_fields st)"
  "t_methods (without_files pid gone st) = filter (\<lambda>r. \<not> (im_ProjectID r = pid \<and> im_InterfaceID r \<in> ids_of_files st pid gone)) (t_methods st)"
  "t_projects (without_files pid gone st) = t_projects st" "t_adrs (without_files pid gone st) = t_adrs st"
  "t_failures (without_files pid gone st) = t_failures st" "t_closure (without_files pid gone st) = t_closure st"
  "t_moves (without_files pid gone st) = t_moves st" "t_slow (without_files pid gone st) = t_slow st"
  by (simp_all add: without_files_def Let_def)

lemma filter_both: "(\<And>x. P x \<and> Q x \<longleftrightarrow> R x) \<Longrightarrow> filter P (filter Q xs) = filter R xs"
  by (simp add: conj_commute)

lemma without_append: "without_files pid qs (without_files pid ps st) = without_files pid (ps @ qs) st"
proof -
  have ids: "ids_of_files st pid (ps @ qs) = ids_of_files st pid ps \<union> ids_of_files (without_files pid ps st) pid qs"
    by (auto simp: ids_of_files_def)
  show ?thesis
    by (rule store.equality; (unfold without_fields ids set_append)?; ((rule filter_both, blast) | simp))
qed

lemma reap_all: "fold (reap_file pid) gone st = without_files pid gone st"
proof (induction gone arbitrary: st)
  case Nil
  have "ids_of_files st pid [] = {}" by (simp add: ids_of_files_def)
  then show ?case by (simp add: without_files_def)
next
  case (Cons p gone)
  then show ?case using without_append [of pid gone "[p]" st] by (simp add: reap_is_without)
qed

text \<open>
  C24: the collection of vanished files is exact: the files it counts are those with rows that the walk did not admit,
  placeholders apart; their symbols, hashes and deferred edges are gone, with every edge, field and method that names one of
  their symbols, and nothing else changes. In particular a walk that ends early costs the rows of every file it did not reach.
\<close>
theorem collect_exact:
  "collect_vanished pid seen st =
     (let gone = filter (\<lambda>p. p \<notin> set seen \<and> \<not> has_prefix p ''@external/'')
           (remdups (map f_Path (filter (\<lambda>r. f_ProjectID r = pid) (t_files st)) @ map s_FilePath (filter (\<lambda>s. s_ProjectID s = pid) (t_symbols st))))
      in (length gone, without_files pid gone st))"
proof -
  have "remdups (xs @ remdups ys) = remdups (xs @ ys)" for xs ys :: "string list"
    by (induction xs) simp_all
  then show ?thesis
    unfolding collect_vanished_def reap_all gc_paths_def ListFilesForProject_def ListSymbolFilePaths_def vanished_def [abs_def]
    by (simp only:)
qed

end
