(* ===== verification/Index_Lost.thy ===== *)
theory Index_Lost
  imports Index_Tail_Correct
begin

text \<open>
  Two ways the end of a run loses edges that the store has deferred edges for: a resolve limited to the changed files drops
  the imports of their siblings, and the symbols of a moved file are bound before they are collected.
\<close>

section \<open>The imports after the block\<close>

abbreviation imports_of :: "'f store \<Rightarrow> 'f resolved_edge set" where
  "imports_of st \<equiv> {g \<in> set (t_edges st). g_Kind g = ''IMPORTS''}"

lemma imports_unowned: "''IMPORTS'' \<notin> K \<Longrightarrow> imports_of st = {g \<in> set (filter (\<lambda>g. \<not> pass_owned K g) (t_edges st)). g_Kind g = ''IMPORTS''}"
  by (auto simp: pass_owned_def)

lemma owned_imports: "only_owned K st st1 \<Longrightarrow> ''IMPORTS'' \<notin> K \<Longrightarrow> imports_of st1 = imports_of st"
  using imports_unowned [of K st1] imports_unowned [of K st] by (simp add: only_owned_def del: set_filter)

lemma other_passes_imports:
  "imports_of (snd (run_calls te scope qnMap pending st)) = imports_of st" "imports_of (snd (run_reads te scope qnMap pending st)) = imports_of st"
  "imports_of (snd (run_uses te scope pending st)) = imports_of st"
    apply (rule owned_imports [OF run_calls_owned], simp)
   apply (rule owned_imports [OF run_reads_owned], simp add: read_kinds_def)
  apply (rule owned_imports [OF run_uses_owned], simp)
  done

lemma run_empty_symbols:
  "t_symbols (snd (run_imports te scope qnMap [] st)) = t_symbols st" "t_symbols (snd (run_calls te scope qnMap [] st)) = t_symbols st"
  "t_symbols (snd (run_reads te scope qnMap [] st)) = t_symbols st"
  by (simp_all add: run_imports_def run_calls_def run_reads_def resolveImports_def resolveCalls_def resolveReads_def
      DeleteResolvePassEdgesByKindForSourceFiles_def DeleteEdgesByKindAndSourceForSourceFiles_def delete_scoped_def)

text \<open>The store the import pass starts from, and the one it leaves.\<close>

definition before_imports :: "'f tail_env \<Rightarrow> string list option \<Rightarrow> ('c, 'f) machine \<Rightarrow> 'f store" where
  "before_imports te scope m =
     (let st = m_Store m;
          imports = load_kind te scope ''IMPORTS'' (m_Imports m) st;
          calls = load_kind te scope ''CALLS'' (m_Calls m) st;
          reads = load_kind te scope ''READS'' (m_Reads m) st @ load_kind te scope ''WRITES'' [] st;
          qnMap = preload (te_ProjectID te) (length imports + length calls + length reads) st
      in clear_empty scope reads (run_reads te scope qnMap [])
           (clear_empty scope calls (run_calls te scope qnMap [])
             (clear_empty scope imports (run_imports te scope qnMap []) st)))"

definition block_map :: "'f tail_env \<Rightarrow> string list option \<Rightarrow> ('c, 'f) machine \<Rightarrow> (string \<rightharpoonup> 'f symbol list) option" where
  "block_map te scope m =
     (let st = m_Store m
      in preload (te_ProjectID te) (length (load_kind te scope ''IMPORTS'' (m_Imports m) st) + length (load_kind te scope ''CALLS'' (m_Calls m) st)
           + length (load_kind te scope ''READS'' (m_Reads m) st @ load_kind te scope ''WRITES'' [] st)) st)"

definition block_imports :: "'f tail_env \<Rightarrow> string list option \<Rightarrow> ('c, 'f) machine \<Rightarrow> 'f pending_edge list" where
  "block_imports te scope m = load_kind te scope ''IMPORTS'' (m_Imports m) (m_Store m)"

lemma clear_empty_imports:
  "(\<And>st. imports_of (snd (run st)) = imports_of st) \<Longrightarrow> imports_of (clear_empty scope pending run st) = imports_of st"
  by (simp add: clear_empty_def)

lemma clear_empty_symbols:
  "(\<And>st. t_symbols (snd (run st)) = t_symbols st) \<Longrightarrow> t_symbols (clear_empty scope pending run st) = t_symbols st"
  by (simp add: clear_empty_def)

lemma before_imports_symbols: "t_symbols (before_imports te scope m) = t_symbols (m_Store m)"
  by (simp add: before_imports_def Let_def clear_empty_symbols run_empty_symbols)

lemma before_imports_edges:
  "imports_of (before_imports te scope m) =
     imports_of (clear_empty scope (block_imports te scope m) (run_imports te scope (block_map te scope m) []) (m_Store m))"
  by (simp only: before_imports_def Let_def clear_empty_imports other_passes_imports block_imports_def block_map_def)

lemma run_resolve_imports:
  "(\<And>st. imports_of (snd (run st)) = imports_of st) \<Longrightarrow> imports_of (snd (run_resolve pending run s)) = imports_of (snd s)"
  by (simp add: run_resolve_store)

lemma block_imports_of:
  "imports_of (snd (resolve_block te scope m)) =
     imports_of (if block_imports te scope m = [] then before_imports te scope m
       else snd (run_imports te scope (block_map te scope m) (block_imports te scope m) (before_imports te scope m)))"
proof -
  let ?qn = "block_map te scope m" and ?is = "block_imports te scope m"
  let ?calls = "load_kind te scope ''CALLS'' (m_Calls m) (m_Store m)"
  let ?reads = "load_kind te scope ''READS'' (m_Reads m) (m_Store m) @ load_kind te scope ''WRITES'' [] (m_Store m)"
  let ?s1 = "run_resolve ?is (run_imports te scope ?qn ?is) (0, before_imports te scope m)"
  let ?s2 = "run_resolve ?reads (run_reads te scope ?qn ?reads) (run_resolve ?calls (run_calls te scope ?qn ?calls) ?s1)"
  let ?uses = "load_kind te scope ''USES_VAR'' (m_UsesVar m) (snd ?s2)"
  have "snd (resolve_block te scope m) = snd (run_resolve ?uses (run_uses te scope ?uses)
      (fst ?s2, clear_empty scope ?uses (run_uses te scope []) (snd ?s2)))"
    by (simp only: resolve_block_def before_imports_def block_map_def block_imports_def Let_def split_beta)
  then have "imports_of (snd (resolve_block te scope m)) = imports_of (snd ?s1)"
    by (simp only: run_resolve_imports clear_empty_imports other_passes_imports snd_conv)
  then show ?thesis by (simp add: run_resolve_store)
qed

section \<open>Limited resolves drop imports of siblings\<close>

lemma lookup_view_cong:
  "t_symbols st1 = t_symbols st \<Longrightarrow> lookup_syms (store_view pid qn st1) = lookup_syms (store_view pid qn st)"
  by (simp add: lookup_syms_def store_view_def GetSymbolsByQN_def fun_eq_iff split: option.split)

lemma same_lookups:
  assumes "\<And>qn. set (lookup_syms v qn) = set (lookup_syms w qn)"
  shows "import_lookup v = import_lookup w" and "python_target v = python_target w"
  using assms by (auto simp: import_lookup_def python_target_def excludeNonCodeSyms_def fun_eq_iff intro!: canonical_or_none_cong)

lemma block_view:
  assumes "t_symbols st1 = t_symbols (m_Store m)"
  shows "import_ends (store_view (te_ProjectID te) (block_map te scope m) st1) = import_ends (store_view (te_ProjectID te) None (m_Store m))"
    and "importable (store_view (te_ProjectID te) (block_map te scope m) st1) = importable (store_view (te_ProjectID te) None (m_Store m))"
proof -
  let ?w = "store_view (te_ProjectID te) None (m_Store m)" and ?v = "store_view (te_ProjectID te) (block_map te scope m) st1"
  have "set (lookup_syms ?v qn) = set (lookup_syms ?w qn)" for qn
    using lookup_view_cong [OF assms, of "te_ProjectID te"] preloaded_names [of "te_ProjectID te" "m_Store m" qn]
    by (simp add: block_map_def preload_def Let_def)
  note same = same_lookups [OF this]
  then have found: "import_found ?v = import_found ?w" "import_from ?v = import_from ?w"
    unfolding import_found_def [abs_def] import_from_def [abs_def] same by simp_all
  then have "import_to ?v = import_to ?w" by (simp add: import_to_def fun_eq_iff)
  with found show "import_ends ?v = import_ends ?w" "importable ?v = importable ?w"
    by (simp_all add: import_ends_def importable_def fun_eq_iff)
qed

lemma upserts_keep: "x \<in> set (t_symbols st) \<Longrightarrow> s_ID x \<notin> s_ID ` set new \<Longrightarrow> x \<in> set (t_symbols (fold (upsert_symbol zero one) new st))"
proof (induction new arbitrary: st)
  case (Cons s new)
  have "s_ID (default_confidence zero one s) = s_ID s" by (simp add: default_confidence_def)
  then have "x \<in> set (t_symbols (upsert_symbol zero one s st))"
    using Cons.prems by (auto simp: upsert_symbol_def insert_replace_def delete_where_def symbol_key_def)
  then show ?case using Cons by simp
qed simp

lemma external_id_prefix: "has_prefix (external_id n) ''@external/''"
  by (simp add: external_id_def MakeSymbolID_def external_path_def)

lemma block_keeps_project: "has_project (before_imports te scope m) p = has_project (m_Store m) p"
proof -
  have "only_owned all_kinds (m_Store m) (before_imports te scope m)"
    unfolding before_imports_def Let_def by (intro clear_empty_owned all_owned only_owned_refl)
  then show ?thesis by (simp add: only_owned_def has_project_def)
qed

text \<open>What the import pass of the block writes.\<close>

lemma block_writes:
  fixes m :: "('c, 'f) machine"
  assumes "has_project (m_Store m) (te_ProjectID te)" and "block_imports te scope m \<noteq> []"
  defines "v \<equiv> store_view (te_ProjectID te) None (m_Store m)"
  shows "\<exists>st2 new added. set added \<subseteq> {g. edge_ends g \<in> import_ends v (te_Roots te) ` set (block_imports te scope m)} \<and>
    s_ID ` set new \<subseteq> range external_id \<and>
    t_edges st2 = filter (\<lambda>g. \<not> replaced_edge (te_ProjectID te) ''IMPORTS'' ''resolve_pass'' (scope_files scope)
      (fold (upsert_symbol (te_Zero te) (te_One te)) new (before_imports te scope m)) g) (t_edges (before_imports te scope m)) @ added \<and>
    import_ends v (te_Roots te) ` {e \<in> set (block_imports te scope m). importable v (te_Roots te) e} \<subseteq>
      edge_ends ` {g \<in> set (t_edges st2). g_ProjectID g = te_ProjectID te \<and> g_Kind g = ''IMPORTS''} \<and>
    imports_of (snd (resolve_block te scope m)) = imports_of st2"
proof -
  let ?st1 = "before_imports te scope m" and ?pid = "te_ProjectID te" and ?is = "block_imports te scope m"
  define s where "s = resolve_imports_loop (te_One te) (store_view ?pid (block_map te scope m) ?st1) (te_Roots te) ?pid ?is"
  note view = block_view [OF before_imports_symbols [of te scope m], of te scope, folded v_def]
  note ok = imports_loop_ok [of "te_One te" "store_view ?pid (block_map te scope m) ?st1" "te_Roots te" ?pid ?is, folded s_def, unfolded imports_ok_def view]
  have proj: "has_project ?st1 ?pid" using assms(1) by (simp add: block_keeps_project)
  from resolveImports_writes [OF proj assms(2) s_def, of "te_Zero te" "scope_files scope"] obtain st2 added where
    run: "resolveImports (te_Zero te) (te_One te) ?pid ?is (te_Roots te) (block_map te scope m) (scope_files scope) ?st1 = (length (ip_edges s), st2)"
    and rows: "t_edges st2 = filter (\<lambda>g. \<not> replaced_edge ?pid ''IMPORTS'' ''resolve_pass'' (scope_files scope)
      (fold (upsert_symbol (te_Zero te) (te_One te)) (ip_externals s) ?st1) g) (t_edges ?st1) @ added"
    and add: "set added \<subseteq> set (ip_edges s)"
    and stored: "edge_ends ` set (ip_edges s) \<subseteq> edge_ends ` {g \<in> set (t_edges st2). g_ProjectID g = ?pid \<and> g_Kind g = ''IMPORTS''}"
    by (elim exE conjE) (rule that)
  have ends: "edge_ends ` set (ip_edges s) = import_ends v (te_Roots te) ` {e \<in> set ?is. importable v (te_Roots te) e}"
    using ok by simp
  have "set added \<subseteq> {g. edge_ends g \<in> import_ends v (te_Roots te) ` set ?is}"
  proof
    fix g assume "g \<in> set added"
    then have "edge_ends g \<in> edge_ends ` set (ip_edges s)" using add by blast
    then show "g \<in> {g. edge_ends g \<in> import_ends v (te_Roots te) ` set ?is}" unfolding ends by blast
  qed
  moreover have "s_ID ` set (ip_externals s) \<subseteq> range external_id" using ok by auto
  moreover have "imports_of (snd (resolve_block te scope m)) = imports_of st2"
    using assms(2) run by (simp add: block_imports_of run_imports_def)
  ultimately show ?thesis using rows stored [unfolded ends] by (intro exI [of _ st2] exI [of _ "ip_externals s"] exI [of _ added]) simp
qed

lemma scoped_pool:
  assumes "\<not> te_LoadFails te ''IMPORTS''" and "files \<noteq> []"
  shows "set (block_imports te (Some files) m) =
    pending_edge.truncate ` {q \<in> set (t_pending (m_Store m)). e_ProjectID q = te_ProjectID te \<and> e_Kind q = ''IMPORTS'' \<and> e_FromFile q \<in> set files}"
  using assms by (auto simp: block_imports_def load_kind_def loadScopedOrFallback_def pendingRowsToExtractedEdges_def LoadPendingEdgesByKindAndFiles_def)

lemma full_pool:
  assumes "\<not> te_LoadFails te ''IMPORTS''"
  shows "set (block_imports te None m) =
    pending_edge.truncate ` {q \<in> set (t_pending (m_Store m)). e_ProjectID q = te_ProjectID te \<and> e_Kind q = ''IMPORTS''}"
  using assms by (auto simp: block_imports_def load_kind_def loadOrFallback_def pendingRowsToExtractedEdges_def LoadPendingEdges_def)

lemma cleared_imports:
  "imports_of (snd (run_imports te (Some files) qnMap [] st)) =
     {g \<in> imports_of st. files = [] \<or> \<not> (g_ProjectID g = te_ProjectID te \<and> g_Source g = ''resolve_pass'' \<and> g_FromID g \<in> ids_of_files st (te_ProjectID te) files)}"
  by (auto simp: run_imports_def resolveImports_def DeleteResolvePassEdgesByKindForSourceFiles_def DeleteEdgesByKindAndSourceForSourceFiles_def
      delete_scoped_def delete_where_def scope_files_def)

definition project_imports :: "'f tail_env \<Rightarrow> 'f store \<Rightarrow> 'f resolved_edge set" where
  "project_imports te st = {g \<in> set (t_edges st). g_ProjectID g = te_ProjectID te \<and> g_Kind g = ''IMPORTS''}"

lemma whole_import_stored:
  assumes proj: "has_project (m_Store m) (te_ProjectID te)" and loads: "\<not> te_LoadFails te ''IMPORTS''"
    and v: "v = store_view (te_ProjectID te) None (m_Store m)"
    and r: "r \<in> set (t_pending (m_Store m))" "e_ProjectID r = te_ProjectID te" "e_Kind r = ''IMPORTS''"
    and bound: "importable v (te_Roots te) (pending_edge.truncate r)"
  shows "import_ends v (te_Roots te) (pending_edge.truncate r) \<in> edge_ends ` project_imports te (snd (resolve_block te None m))"
proof -
  let ?pid = "te_ProjectID te" and ?ends = "import_ends v (te_Roots te) (pending_edge.truncate r)"
  have e: "pending_edge.truncate r \<in> set (block_imports te None m)" using r unfolding full_pool [OF loads] by blast
  then have "block_imports te None m \<noteq> []" by auto
  from block_writes [OF proj this, folded v] obtain st2 where
    stored: "import_ends v (te_Roots te) ` {e \<in> set (block_imports te None m). importable v (te_Roots te) e} \<subseteq>
      edge_ends ` {g \<in> set (t_edges st2). g_ProjectID g = ?pid \<and> g_Kind g = ''IMPORTS''}"
    and final: "imports_of (snd (resolve_block te None m)) = imports_of st2"
    by (elim exE conjE) (rule that)
  have "?ends \<in> edge_ends ` {g \<in> set (t_edges st2). g_ProjectID g = ?pid \<and> g_Kind g = ''IMPORTS''}"
    using stored e bound by blast
  moreover have "{g \<in> set (t_edges st2). g_ProjectID g = ?pid \<and> g_Kind g = ''IMPORTS''} = project_imports te (snd (resolve_block te None m))"
    using final unfolding project_imports_def by blast
  ultimately show ?thesis by simp
qed

text \<open>
  C20: A resolve limited to the changed files drops imports of files that did not change. The deferred import of an
  unchanged file whose package is represented by a row of a changed file (all files of a package have a module row of
  the same name, and the smallest identifier stands for all) is not loaded, while the edge made from it, which starts
  at that row, is deleted: after the block it is gone, unless a changed file imports the same. The whole block stores
  it. The conditions: the project has its row, the deferred imports can be read, the import is one that the pass can
  bind, the row is no placeholder, and every stored edge between the two symbols comes from the resolve pass.
\<close>
theorem scoped_resolve_drops:
  assumes proj: "has_project (m_Store m) (te_ProjectID te)" and loads: "\<not> te_LoadFails te ''IMPORTS''" and files: "files \<noteq> []"
    and r: "r \<in> set (t_pending (m_Store m))" "e_ProjectID r = te_ProjectID te" "e_Kind r = ''IMPORTS''"
    and v: "v = store_view (te_ProjectID te) None (m_Store m)"
    and bound: "importable v (te_Roots te) (pending_edge.truncate r)"
    and sibling: "import_from v (pending_edge.truncate r) \<in> ids_of_files (m_Store m) (te_ProjectID te) files"
      "\<not> has_prefix (import_from v (pending_edge.truncate r)) ''@external/''"
    and alone: "import_ends v (te_Roots te) (pending_edge.truncate r) \<notin> (\<lambda>q. import_ends v (te_Roots te) (pending_edge.truncate q)) `
      {q \<in> set (t_pending (m_Store m)). e_ProjectID q = te_ProjectID te \<and> e_Kind q = ''IMPORTS'' \<and> e_FromFile q \<in> set files}"
    and resolved: "g_Source ` {g \<in> project_imports te (m_Store m). edge_ends g = import_ends v (te_Roots te) (pending_edge.truncate r)} \<subseteq> {''resolve_pass''}"
  shows "import_ends v (te_Roots te) (pending_edge.truncate r) \<notin> edge_ends ` project_imports te (snd (resolve_block te (Some files) m)) \<and>
    import_ends v (te_Roots te) (pending_edge.truncate r) \<in> edge_ends ` project_imports te (snd (resolve_block te None m))"
proof
  let ?pid = "te_ProjectID te" and ?ends = "import_ends v (te_Roots te) (pending_edge.truncate r)"
  let ?pool = "block_imports te (Some files) m"
  have proj_imports: "project_imports te st = {g \<in> imports_of st. g_ProjectID g = ?pid}" for st by (auto simp: project_imports_def)
  have pool: "?ends \<notin> import_ends v (te_Roots te) ` set ?pool" using alone unfolding scoped_pool [OF loads files] image_image by simp
  have old: "g_Source g = ''resolve_pass'' \<and> g_FromID g \<in> ids_of_files (m_Store m) ?pid files"
    if "g \<in> imports_of (m_Store m)" "g_ProjectID g = ?pid" "edge_ends g = ?ends" for g
    using resolved sibling(1) that unfolding proj_imports by (auto simp: edge_ends_def import_ends_def)
  show "?ends \<notin> edge_ends ` project_imports te (snd (resolve_block te (Some files) m))"
  proof
    assume "?ends \<in> edge_ends ` project_imports te (snd (resolve_block te (Some files) m))"
    then obtain g where g: "g \<in> imports_of (snd (resolve_block te (Some files) m))" "g_ProjectID g = ?pid" "edge_ends g = ?ends"
      unfolding proj_imports by auto
    show False
    proof (cases "?pool = []")
      case True
      then have "g \<in> imports_of (snd (run_imports te (Some files) (block_map te (Some files) m) [] (m_Store m)))"
        using g(1) by (simp only: block_imports_of before_imports_edges clear_empty_def if_True simp_thms option.distinct)
      then show False using old [of g] g(2,3) files unfolding cleared_imports by auto
    next
      case False
      have same: "imports_of (before_imports te (Some files) m) = imports_of (m_Store m)"
        using False by (simp only: before_imports_edges clear_empty_def simp_thms if_False)
      from block_writes [OF proj False, folded v] obtain st2 new added where
        added: "set added \<subseteq> {g. edge_ends g \<in> import_ends v (te_Roots te) ` set ?pool}"
        and new: "s_ID ` set new \<subseteq> range external_id"
        and rows: "t_edges st2 = filter (\<lambda>g. \<not> replaced_edge ?pid ''IMPORTS'' ''resolve_pass'' (scope_files (Some files))
          (fold (upsert_symbol (te_Zero te) (te_One te)) new (before_imports te (Some files) m)) g) (t_edges (before_imports te (Some files) m)) @ added"
        and final: "imports_of (snd (resolve_block te (Some files) m)) = imports_of st2"
        by (elim exE conjE) (rule that)
      have "g \<notin> set added" using pool unfolding g(3) [symmetric] using added by (metis mem_Collect_eq subsetD)
      then have kept: "g \<in> imports_of (before_imports te (Some files) m)"
        "\<not> replaced_edge ?pid ''IMPORTS'' ''resolve_pass'' files (fold (upsert_symbol (te_Zero te) (te_One te)) new (before_imports te (Some files) m)) g"
        using g(1) unfolding final by (auto simp: rows scope_files_def)
      have o: "g_Source g = ''resolve_pass''" "g_FromID g \<in> ids_of_files (m_Store m) ?pid files"
        using old [of g] kept(1) g(2,3) unfolding same by simp_all
      then obtain x where x: "x \<in> set (t_symbols (m_Store m))" "s_ProjectID x = ?pid" "s_FilePath x \<in> set files" "s_ID x = g_FromID g"
        unfolding ids_of_files_def by (auto simp: image_iff)
      have "g_FromID g = import_from v (pending_edge.truncate r)" using g(3) by (simp add: edge_ends_def import_ends_def)
      then have "\<not> has_prefix (s_ID x) ''@external/''" using sibling(2) x(4) by simp
      then have "s_ID x \<notin> range external_id" using external_id_prefix by (metis rangeE)
      then have "s_ID x \<notin> s_ID ` set new" using new by (rule contra_subsetD [rotated])
      then have "x \<in> set (t_symbols (fold (upsert_symbol (te_Zero te) (te_One te)) new (before_imports te (Some files) m)))"
        using x(1) by (intro upserts_keep) (simp_all add: before_imports_symbols)
      then have "g_FromID g \<in> ids_of_files (fold (upsert_symbol (te_Zero te) (te_One te)) new (before_imports te (Some files) m)) ?pid files"
        unfolding ids_of_files_def x(4) [symmetric] by (intro imageI CollectI conjI x)
      then show False using kept o(1) g(2) by (simp add: replaced_edge_def)
    qed
  qed
  show "?ends \<in> edge_ends ` project_imports te (snd (resolve_block te None m))" by (rule whole_import_stored [OF proj loads v r bound])
qed

section \<open>Whole resolves are complete\<close>

text \<open>
  C21: A whole resolve block restores every import: when the project has its row and the deferred imports can be read,
  then from whatever edges the store has, afterwards each deferred import of the project whose package is found has
  its edge. So the pass that the watcher runs when a project settles repairs what limited passes dropped.
\<close>
theorem whole_resolve_complete:
  assumes "has_project (m_Store m) (te_ProjectID te)" and "\<not> te_LoadFails te ''IMPORTS''"
    and "v = store_view (te_ProjectID te) None (m_Store m)"
  shows "(\<lambda>q. import_ends v (te_Roots te) (pending_edge.truncate q)) ` {q \<in> set (t_pending (m_Store m)).
      e_ProjectID q = te_ProjectID te \<and> e_Kind q = ''IMPORTS'' \<and> importable v (te_Roots te) (pending_edge.truncate q)} \<subseteq>
    edge_ends ` project_imports te (snd (resolve_block te None m))"
proof (rule image_subsetI)
  fix q assume "q \<in> {q \<in> set (t_pending (m_Store m)). e_ProjectID q = te_ProjectID te \<and> e_Kind q = ''IMPORTS'' \<and> importable v (te_Roots te) (pending_edge.truncate q)}"
  then have q: "q \<in> set (t_pending (m_Store m))" "e_ProjectID q = te_ProjectID te" "e_Kind q = ''IMPORTS''" "importable v (te_Roots te) (pending_edge.truncate q)"
    by simp_all
  show "import_ends v (te_Roots te) (pending_edge.truncate q) \<in> edge_ends ` project_imports te (snd (resolve_block te None m))"
    by (rule whole_import_stored [OF assms(1-3) q])
qed

section \<open>Moved files lose their imports\<close>

lemma not_kept: "es = filter (\<lambda>g. \<not> replaced_edge p k src fs st g) kept @ added \<Longrightarrow> g \<in> set es \<Longrightarrow> replaced_edge p k src fs st g \<Longrightarrow> g \<in> set added"
  by simp

lemma not_image: "(\<And>g. g \<in> A \<Longrightarrow> Q g \<Longrightarrow> f g \<noteq> y) \<Longrightarrow> y \<notin> f ` {g \<in> A. Q g}"
  by auto

lemma reaped_path:
  "(\<And>s. s \<in> set ss \<Longrightarrow> s_ProjectID s = pid \<Longrightarrow> s_FilePath s = p \<Longrightarrow> p \<in> G) \<Longrightarrow>
   p \<notin> s_FilePath ` {s \<in> set (filter (\<lambda>s. \<not> (s_ProjectID s = pid \<and> s_FilePath s \<in> G)) ss). s_ProjectID s = pid}"
  by auto

lemma whole_imports:
  assumes "has_project (m_Store m) (te_ProjectID te)" and "block_imports te None m \<noteq> []"
    and "g \<in> project_imports te (snd (resolve_block te None m))" and "g_Source g = ''resolve_pass''"
  shows "edge_ends g \<in> import_ends (store_view (te_ProjectID te) None (m_Store m)) (te_Roots te) ` set (block_imports te None m)"
proof -
  from block_writes [OF assms(1,2)] obtain st2 new added where
    added: "set added \<subseteq> {g. edge_ends g \<in> import_ends (store_view (te_ProjectID te) None (m_Store m)) (te_Roots te) ` set (block_imports te None m)}"
    and rows: "t_edges st2 = filter (\<lambda>g. \<not> replaced_edge (te_ProjectID te) ''IMPORTS'' ''resolve_pass'' (scope_files None)
      (fold (upsert_symbol (te_Zero te) (te_One te)) new (before_imports te None m)) g) (t_edges (before_imports te None m)) @ added"
    and final: "imports_of (snd (resolve_block te None m)) = imports_of st2"
    by (elim exE conjE) (rule that)
  have g: "g \<in> imports_of st2" "g_ProjectID g = te_ProjectID te" using assms(3) unfolding final [symmetric] by (simp_all add: project_imports_def)
  then have "g \<in> set (t_edges st2)" "replaced_edge (te_ProjectID te) ''IMPORTS'' ''resolve_pass'' (scope_files None) t g" for t
    using assms(4) by (simp_all add: replaced_edge_def scope_files_def)
  then have "g \<in> set added" by (rule not_kept [OF rows])
  from subsetD [OF added this] show ?thesis by (simp only: mem_Collect_eq)
qed

lemma first_spec_some: "first_spec f ks = i \<Longrightarrow> i \<noteq> '''' \<Longrightarrow> \<exists>k \<in> set ks. f k = i"
  by (induction ks) (auto split: if_splits)

lemma shadowed_import:
  assumes "symbols.unique_rows (t_symbols st)"
    and x: "x \<in> set (t_symbols st)" "s_ProjectID x = pid" "s_QualifiedName x = n" "s_Kind x \<notin> set non_code_kinds"
    and r: "r \<in> set (t_symbols st)" "s_ProjectID r = pid" "s_QualifiedName r = n" "s_ID x < s_ID r" "\<not> has_prefix (s_ID r) ''@external/''"
  shows "import_to (store_view pid None st) roots e \<noteq> s_ID r"
proof
  let ?v = "store_view pid None st"
  assume to: "import_to ?v roots e = s_ID r"
  have "s_ID r \<noteq> ''''" using r(4) by auto
  have named: "qn = n" if "s_ID r \<in> s_ID ` set (lookup_syms ?v qn)" for qn
  proof -
    from that obtain y where "s_ID y = s_ID r" "y \<in> set (lookup_syms ?v qn)" by (metis imageE)
    then have "y \<in> set (t_symbols st)" "s_ProjectID y = pid" "s_QualifiedName y = qn" "s_ID y = s_ID r"
      by (simp_all add: view_names)
    then have "y = r" using assms(1) r(1,2) by (auto simp: symbols.unique_rows_def symbol_key_def distinct_map inj_on_def)
    then show ?thesis using \<open>s_QualifiedName y = qn\<close> r(3) by simp
  qed
  have x_named: "x \<in> set (lookup_syms ?v n)" "x \<in> set (excludeNonCodeSyms (lookup_syms ?v n))"
    using x view_names [of pid st n] by (auto simp: excludeNonCodeSyms_def)
  have any: "import_lookup ?v qn \<noteq> s_ID r" for qn
  proof
    assume i: "import_lookup ?v qn = s_ID r"
    then have "s_ID r \<in> s_ID ` set (lookup_syms ?v qn)"
      using canonical_or_none_in [of "lookup_syms ?v qn"] \<open>s_ID r \<noteq> ''''\<close> by (simp add: import_lookup_def)
    then show False using i named canonical_below [OF x_named(1) r(4)] by (simp add: import_lookup_def)
  qed
  have code: "python_target ?v qn \<noteq> s_ID r" for qn
  proof
    assume i: "python_target ?v qn = s_ID r"
    then have "s_ID r \<in> s_ID ` set (excludeNonCodeSyms (lookup_syms ?v qn))"
      using canonical_or_none_in [of "excludeNonCodeSyms (lookup_syms ?v qn)"] \<open>s_ID r \<noteq> ''''\<close> by (simp add: python_target_def)
    then have "s_ID r \<in> s_ID ` set (lookup_syms ?v qn)" using excludeNonCode_subset(1) by blast
    then show False using i named canonical_below [OF x_named(2) r(4)] by (simp add: python_target_def)
  qed
  have "import_found ?v roots e \<noteq> s_ID r"
    using any code first_spec_some [of "python_target ?v" "PythonImportCandidates (e_ToName e) (e_FromFile e) roots" "s_ID r"] \<open>s_ID r \<noteq> ''''\<close>
    by (auto simp: import_found_def)
  moreover have "external_id k \<noteq> s_ID r" for k using r(5) external_id_prefix [of k] by auto
  ultimately show False using to \<open>s_ID r \<noteq> ''''\<close> by (auto simp: import_to_def split: if_splits)
qed

lemma finish_store:
  "t_symbols (ir_Store (finish_run te now row True resolveOnly m)) =
     t_symbols (snd (collect_vanished (te_ProjectID te) (m_Seen m) (snd (resolve_block te None m))))"
  "t_edges (ir_Store (finish_run te now row True resolveOnly m)) =
     t_edges (snd (collect_vanished (te_ProjectID te) (m_Seen m) (snd (resolve_block te None m))))"
  by (simp_all add: finish_run_def resolve_scope_def UpsertProject_def Let_def split_beta)

text \<open>
  C22: A forced run after a file was moved loses the imports of its module. The rows of the old path are collected
  after the resolve block, so during the block both rows of the name are candidates; when the old one is code and has
  the smaller identifier, every import is bound to it and goes with it: at the end no row of the old path is left, and
  no resolved import ends at the row of the new path, whatever deferred imports name it. The project has its row and
  at least one deferred import, these can be read, and neither path is a placeholder's.
\<close>
theorem moved_file_unimported:
  assumes "has_project (m_Store m) (te_ProjectID te)" and "\<not> te_LoadFails te ''IMPORTS''"
    and "symbols.unique_rows (t_symbols (m_Store m))"
    and q: "q \<in> set (t_pending (m_Store m))" "e_ProjectID q = te_ProjectID te" "e_Kind q = ''IMPORTS''"
    and x: "x \<in> set (t_symbols (m_Store m))" "s_ProjectID x = te_ProjectID te" "s_QualifiedName x = n" "s_Kind x \<notin> set non_code_kinds"
    and old: "s_FilePath x \<notin> set (m_Seen m)" "\<not> has_prefix (s_FilePath x) ''@external/''"
    and r: "r \<in> set (t_symbols (m_Store m))" "s_ProjectID r = te_ProjectID te" "s_QualifiedName r = n" "s_ID x < s_ID r" "\<not> has_prefix (s_ID r) ''@external/''"
  shows "let st = ir_Store (finish_run te now row True resolveOnly m)
    in s_FilePath x \<notin> s_FilePath ` {s \<in> set (t_symbols st). s_ProjectID s = te_ProjectID te} \<and>
       s_ID r \<notin> g_ToID ` {g \<in> project_imports te st. g_Source g = ''resolve_pass''}"
proof -
  let ?st1 = "snd (resolve_block te None m)" and ?st = "ir_Store (finish_run te now row True resolveOnly m)" and ?pid = "te_ProjectID te"
  obtain gone where gone: "snd (collect_vanished ?pid (m_Seen m) ?st1) = without_files ?pid gone ?st1"
    "gone = filter (vanished (m_Seen m)) (gc_paths ?pid ?st1)"
    by (simp add: collect_vanished_def reap_all Let_def)
  have "s_FilePath x \<in> set gone" if "s \<in> set (t_symbols ?st1)" "s_ProjectID s = ?pid" "s_FilePath s = s_FilePath x" for s
    using that old by (auto simp: gone(2) vanished_def gc_paths_def ListSymbolFilePaths_def image_iff)
  moreover have "t_symbols ?st = filter (\<lambda>s. \<not> (s_ProjectID s = ?pid \<and> s_FilePath s \<in> set gone)) (t_symbols ?st1)"
    by (simp only: finish_store gone(1) without_fields)
  ultimately have "s_FilePath x \<notin> s_FilePath ` {s \<in> set (t_symbols ?st). s_ProjectID s = ?pid}"
    by (simp only: reaped_path not_False_eq_True)
  moreover have "g_ToID g \<noteq> s_ID r" if "g \<in> project_imports te ?st" "g_Source g = ''resolve_pass''" for g
  proof -
    have "g \<in> project_imports te ?st1" using that(1) by (auto simp: project_imports_def finish_store gone(1))
    moreover have "pending_edge.truncate q \<in> set (block_imports te None m)" using q unfolding full_pool [OF assms(2)] by blast
    then have "block_imports te None m \<noteq> []" by auto
    ultimately have "edge_ends g \<in> import_ends (store_view ?pid None (m_Store m)) (te_Roots te) ` set (block_imports te None m)"
      using whole_imports [OF assms(1)] that(2) by blast
    then obtain e where "edge_ends g = import_ends (store_view ?pid None (m_Store m)) (te_Roots te) e" by blast
    then show ?thesis using shadowed_import [OF assms(3) x r] by (simp add: edge_ends_def import_ends_def)
  qed
  then have "s_ID r \<notin> g_ToID ` {g \<in> project_imports te ?st. g_Source g = ''resolve_pass''}" by (rule not_image)
  ultimately show ?thesis unfolding Let_def by (rule conjI)
qed

section \<open>The two runs on small projects\<close>

lemma demo_module_fields:
  "s_ProjectID (demo_module p n) = ''p''" "s_QualifiedName (demo_module p n) = n" "s_Kind (demo_module p n) \<notin> set non_code_kinds"
  "s_FilePath (demo_module p n) = p" "s_ID (demo_module p n) = MakeSymbolID p n ''Module''"
  by (simp_all add: demo_module_def demo_symbol_def non_code_kinds_def)

definition demo_tail :: "nat tail_env" where
  "demo_tail = \<lparr>te_Zero = 0, te_One = 1, te_Half = 1, te_Binding = 0, te_ProjectID = ''p'', te_Roots = [], te_Detect = (\<lambda>_. ''Go''), te_LoadFails = (\<lambda>_. False)\<rparr>"

definition demo_deferred :: "string \<Rightarrow> string \<Rightarrow> string \<Rightarrow> nat pending_row" where
  "demo_deferred path from to = \<lparr>e_FromQN = from, e_ToName = to, e_Kind = ''IMPORTS'', e_FromFile = path, e_Confidence = 1,
     e_ReceiverType = '''', e_BaseType = '''', e_ProjectID = ''p''\<rparr>"

text \<open>Package \<open>pkg\<close> has two files; the second one imports \<open>lib\<close>, the first one was just extracted again.\<close>

definition demo_edit :: "(nat, nat) machine" where
  "demo_edit = (start_machine (empty_store\<lparr>t_projects := [demo_project ''p'' ''/p'' ''0.9.0''],
       t_symbols := [demo_module ''pkg/a.go'' ''pkg'', demo_module ''pkg/z.go'' ''pkg'', demo_module ''lib/l.go'' ''lib''],
       t_pending := [demo_deferred ''pkg/z.go'' ''pkg'' ''lib'']\<rparr>) [])
     \<lparr>m_Seen := [''pkg/a.go'', ''pkg/z.go'', ''lib/l.go''], m_TotalFiles := 1, m_Skipped := 2, m_Extracted := [''pkg/a.go'']\<rparr>"

lemma demo_edit_ends:
  "import_ends (store_view ''p'' None (m_Store demo_edit)) [] (pending_edge.truncate (demo_deferred ''pkg/z.go'' ''pkg'' ''lib'')) =
     (''pkg/a.go::pkg#Module'', ''lib/l.go::lib#Module'')"
  by code_simp

theorem scoped_resolve_drops_witness:
  "resolve_scope False demo_edit = Some [''pkg/a.go''] \<and>
   (''pkg/a.go::pkg#Module'', ''lib/l.go::lib#Module'') \<notin> edge_ends ` project_imports demo_tail (snd (resolve_block demo_tail (Some [''pkg/a.go'']) demo_edit)) \<and>
   (''pkg/a.go::pkg#Module'', ''lib/l.go::lib#Module'') \<in> edge_ends ` project_imports demo_tail (snd (resolve_block demo_tail None demo_edit))"
proof -
  let ?v = "store_view ''p'' None (m_Store demo_edit)" and ?r = "demo_deferred ''pkg/z.go'' ''pkg'' ''lib''"
  have te: "te_ProjectID demo_tail = ''p''" "te_Roots demo_tail = []" "\<not> te_LoadFails demo_tail ''IMPORTS''" by (simp_all add: demo_tail_def)
  have st: "t_pending (m_Store demo_edit) = [?r]" "t_edges (m_Store demo_edit) = []"
    "t_symbols (m_Store demo_edit) = [demo_module ''pkg/a.go'' ''pkg'', demo_module ''pkg/z.go'' ''pkg'', demo_module ''lib/l.go'' ''lib'']"
    "has_project (m_Store demo_edit) ''p''"
    by (simp_all add: demo_edit_def start_machine_def empty_store_def has_project_def demo_project_def)
  have row: "e_ProjectID ?r = ''p''" "e_Kind ?r = ''IMPORTS''" "e_FromFile ?r = ''pkg/z.go''" by (simp_all add: demo_deferred_def)
  have ends: "import_from ?v (pending_edge.truncate ?r) = ''pkg/a.go::pkg#Module''" "import_to ?v [] (pending_edge.truncate ?r) = ''lib/l.go::lib#Module''"
    using demo_edit_ends by (simp_all add: import_ends_def)
  have scope: "resolve_scope False demo_edit = Some [''pkg/a.go'']" by (simp add: resolve_scope_def demo_edit_def start_machine_def)
  have bound: "importable ?v [] (pending_edge.truncate ?r)" by (simp add: importable_def ends)
  have sibling: "import_from ?v (pending_edge.truncate ?r) \<in> ids_of_files (m_Store demo_edit) ''p'' [''pkg/a.go'']"
    "\<not> has_prefix (import_from ?v (pending_edge.truncate ?r)) ''@external/''"
    unfolding ends ids_of_files_def st
    by (rule image_eqI [of _ _ "demo_module ''pkg/a.go'' ''pkg''"]) (simp_all add: demo_module_fields MakeSymbolID_def)
  have alone: "{q \<in> set (t_pending (m_Store demo_edit)). e_ProjectID q = ''p'' \<and> e_Kind q = ''IMPORTS'' \<and> e_FromFile q \<in> set [''pkg/a.go'']} = {}"
    by (auto simp: st row)
  have "project_imports demo_tail (m_Store demo_edit) = {}" by (simp add: project_imports_def st)
  then show ?thesis
    using scoped_resolve_drops [of demo_edit demo_tail "[''pkg/a.go'']" ?r ?v, unfolded te alone, OF st(4) te(3) _ _ row(1,2) refl bound sibling]
    unfolding demo_edit_ends by (simp add: st scope)
qed

theorem whole_resolve_complete_witness:
  "(''pkg/a.go::pkg#Module'', ''lib/l.go::lib#Module'') \<in> edge_ends ` project_imports demo_tail (snd (resolve_block demo_tail None demo_edit))"
proof -
  let ?r = "demo_deferred ''pkg/z.go'' ''pkg'' ''lib''"
  have te: "te_ProjectID demo_tail = ''p''" "te_Roots demo_tail = []" "\<not> te_LoadFails demo_tail ''IMPORTS''" by (simp_all add: demo_tail_def)
  have st: "?r \<in> set (t_pending (m_Store demo_edit))" "has_project (m_Store demo_edit) ''p''"
    by (simp_all add: demo_edit_def start_machine_def empty_store_def has_project_def demo_project_def)
  have "importable (store_view ''p'' None (m_Store demo_edit)) [] (pending_edge.truncate ?r)"
    using demo_edit_ends by (simp add: importable_def import_ends_def)
  moreover have "e_ProjectID ?r = ''p''" "e_Kind ?r = ''IMPORTS''" by (simp_all add: demo_deferred_def)
  ultimately have "?r \<in> {q \<in> set (t_pending (m_Store demo_edit)). e_ProjectID q = ''p'' \<and> e_Kind q = ''IMPORTS'' \<and>
      importable (store_view ''p'' None (m_Store demo_edit)) [] (pending_edge.truncate q)}"
    using st(1) by (intro CollectI conjI)
  from subsetD [OF whole_resolve_complete [of demo_edit demo_tail, unfolded te, OF st(2) te(3) refl] imageI [OF this]]
  show ?thesis by (simp only: demo_edit_ends)
qed

text \<open>\<open>lib\<close> was moved to a path that comes later; the walk found the new path only.\<close>

definition demo_relocated :: "(nat, nat) machine" where
  "demo_relocated = (start_machine (empty_store\<lparr>t_projects := [demo_project ''p'' ''/p'' ''0.9.0''],
       t_symbols := [demo_module ''pkg/a.go'' ''pkg'', demo_module ''lib/l.go'' ''lib'', demo_module ''lib/m.go'' ''lib''],
       t_pending := [demo_deferred ''pkg/a.go'' ''pkg'' ''lib'']\<rparr>) [])
     \<lparr>m_Seen := [''pkg/a.go'', ''lib/m.go''], m_TotalFiles := 2, m_Extracted := [''pkg/a.go'', ''lib/m.go'']\<rparr>"

theorem moved_file_unimported_witness:
  "let st = ir_Store (finish_run demo_tail 1 (demo_project ''p'' ''/p'' ''0.9.0'') True False demo_relocated)
   in ''lib/l.go'' \<notin> s_FilePath ` {s \<in> set (t_symbols st). s_ProjectID s = ''p''} \<and>
      ''lib/m.go::lib#Module'' \<notin> g_ToID ` {g \<in> project_imports demo_tail st. g_Source g = ''resolve_pass''}"
proof -
  let ?q = "demo_deferred ''pkg/a.go'' ''pkg'' ''lib''" and ?x = "demo_module ''lib/l.go'' ''lib''" and ?r = "demo_module ''lib/m.go'' ''lib''"
  have te: "te_ProjectID demo_tail = ''p''" "\<not> te_LoadFails demo_tail ''IMPORTS''" by (simp_all add: demo_tail_def)
  have st: "t_pending (m_Store demo_relocated) = [?q]" "t_symbols (m_Store demo_relocated) = [demo_module ''pkg/a.go'' ''pkg'', ?x, ?r]"
    "has_project (m_Store demo_relocated) ''p''"
    by (simp_all add: demo_relocated_def start_machine_def empty_store_def has_project_def demo_project_def)
  have q: "?q \<in> set (t_pending (m_Store demo_relocated))" "e_ProjectID ?q = ''p''" "e_Kind ?q = ''IMPORTS''" by (simp add: st, simp_all add: demo_deferred_def)
  note m = demo_module_fields
  have i: "s_ID ?r = ''lib/m.go::lib#Module''" by (simp add: m MakeSymbolID_def)
  have less: "s_ID ?x < s_ID ?r" by (simp add: m MakeSymbolID_def less_char_def)
  have uniq: "symbols.unique_rows (t_symbols (m_Store demo_relocated))" by (simp add: symbols.unique_rows_def st symbol_key_def m MakeSymbolID_def)
  have old: "s_FilePath ?x \<notin> set (m_Seen demo_relocated)" "\<not> has_prefix (s_FilePath ?x) ''@external/''" by (simp_all add: m demo_relocated_def)
  have "\<not> has_prefix (s_ID ?r) ''@external/''" by (simp add: i)
  then show ?thesis
    using moved_file_unimported [where m = demo_relocated and te = demo_tail and q = ?q and x = ?x and n = "''lib''" and r = ?r, unfolded te, OF st(3) te(2) uniq q _ m(1-3) old _ m(1,2) less]
    by (simp add: st m MakeSymbolID_def)
qed

end
