(* ===== verification/Spec2Isabelle.thy ===== *)
theory Spec2Isabelle
  imports PinchQL_Exec PinchQL_Roundtrip PinchQL_Parser_Correct Supervisor_Run Closure Init_Handler Init_Writers Index_Behaviour Index_Lost
begin

text \<open>
  A verification development for pincher, an MCP server for code navigation written in Go.

  What is modelled. The query engine for pinchQL, the graph query language of the server
  (\<open>internal/cypher/engine.go\<close>), from the query text to the returned rows; the supervisor that keeps the server
  process alive behind the client's standard streams (\<open>internal/supervisor/supervisor.go\<close>); the materialized
  call-graph closure (\<open>internal/db/closure.go\<close>); the rule files and registrations that \<open>pincher init\<close> and the MCP
  tool of that name write (\<open>internal/init\<close>, \<open>internal/server/init.go\<close>); the passes of the indexer that bind
  deferred calls, imports, variable references and reads to symbols, and an index run from the files of the walk to its result
  (\<open>internal/index/indexer.go\<close>); the store of the graph
  (\<open>internal/db/db.go\<close>).

  \<open>Pincher_Prelude\<close> has the byte-string and number functions of Go's \<open>strings\<close> and \<open>strconv\<close> that the code calls,
  errors as sums, sorted key sets and stable sorting.
  \<open>PinchQL_Lexer\<close> is \<open>tokenize\<close> and \<open>unescapeString\<close>.
  \<open>PinchQL_Ast\<close> is the query AST, \<open>flattenWhere\<close> and the pushdown gate, with the interface \<open>leaf_semantics\<close>: what the
  tree utilities need of a leaf evaluator.
  \<open>PinchQL_Props\<close> is the vocabulary: property whitelist, coercions, hints, LIKE escaping.
  \<open>PinchQL_Parser\<close> is the recursive-descent parser (\<open>parseQuery\<close> and the methods it calls).
  \<open>PinchQL_Parser_Correct\<close> and \<open>PinchQL_Roundtrip\<close> prove what it accepts and that printed queries are read back.
  \<open>PinchQL_Eval\<close> is the row evaluator (\<open>evalCondition\<close>, \<open>matchesWhere\<close>, \<open>matchesConditions\<close>); it interprets
  \<open>leaf_semantics\<close> on the code's own leaf evaluator.
  \<open>PinchQL_Warn\<close> is the static warning collectors.
  \<open>PinchQL_Sql\<close> is the translation of patterns and conditions to SQL, with a reading of the emitted text in SQL's
  three-valued logic.
  \<open>PinchQL_Result\<close> is row maps, aggregates and \<open>buildResult\<close>; the interface \<open>strict_weak\<close> is the contract of a
  comparison handed to the stable sort.
  \<open>PinchQL_Exec\<close> is the planners and row loops (\<open>runNodeScan\<close>, \<open>runJoinQuery\<close>, \<open>runBFS\<close>), the collectors that query the
  database, and \<open>Execute\<close>; it proves that an answer depends on the statements scoped to the project only.

  \<open>Go_Json\<close> is what the supervisor relies on of \<open>encoding/json\<close>: reading the members of an object, raw member values,
  strings, quoting and compaction.
  \<open>Supervisor\<close> is the state of the supervisor and its operations, one per critical section: starting and stopping the
  inner process, the restart breaker, the replayed handshake, the liveness probe.
  \<open>Supervisor_Run\<close> interleaves the goroutines of \<open>Run\<close> as an inductive step relation over program counters and proves
  the invariants of the reachable states, what a restarted process is written, and how a hung process is replaced.
  \<open>Closure\<close> is \<open>BuildClosure\<close> and the trace lookup; the interface \<open>search\<close> is what the breadth-first search needs of its
  adjacency list, and the specification is the shortest distance over powers of the edge relation.

  \<open>Init_Merge\<close> is the marker merge of the policy block with its line endings and section detector; the interface
  \<open>marker_block\<close> is what a block and its two markers must satisfy for a replacement to be repeatable.
  \<open>Init_Targets\<close> has the targets, their paths, detection and writers, and the plan of a target.
  \<open>Init_Writers\<close> proves what the writers keep and interprets \<open>marker_block\<close> for Codex and Continue.
  \<open>Init_Handler\<close> is the MCP tool and the proof that it writes only below the project.

  \<open>Resolve_Names\<close> has symbols, deferred and resolved edges, the filters on candidate symbols and the names of Python
  imports. \<open>Resolve_Calls\<close> is \<open>resolveCalls\<close> with its caches; the interface \<open>memo\<close> is what a lookup through a cache must
  keep, and the specification is the lookup without a cache. \<open>Resolve_Imports\<close> puts the passes on the store: what a pass
  reads, \<open>resolveImports\<close> with the placeholder modules it writes, the writes of \<open>resolveCalls\<close>; it interprets \<open>memo\<close> for
  its two caches. \<open>Resolve_Vars\<close> is \<open>resolveUsesVar\<close> and \<open>Resolve_Reads\<close> is \<open>resolveReads\<close>, whose specification gives each
  pending read a verdict without a cache.

  \<open>Store_Tables\<close> has the tables of the graph database as lists of rows, the SQL statements the code runs on them and the
  constraints of the schema; the interface \<open>keyed\<close> is what a unique constraint promises of every statement, and each table
  interprets it. \<open>Store_Symbols\<close> and \<open>Store_Projects\<close> are the operations of \<open>internal/db/db.go\<close> on them.
  \<open>Store_Correct\<close> proves that the listed operations keep the constraints and that projects are isolated.
  \<open>Store_Behaviour\<close> proves what callers rely on (replacing edges, merging and deleting projects), adds \<open>flushBatch\<close> of the indexer, and shows where the store does not keep
  its word.

  \<open>Index_Files\<close> takes what a language extractor returns to the rows of a file: duplicate names, diagnostics, symbol rows,
  the routing of edges to the deferred lists, the commit record. \<open>Index_Machine\<close> is the main loop and the goroutines of
  \<open>indexImpl\<close> as a step relation: a goroutine is a program counter, a step is one transaction, the fields of the machine
  are the shared variables. \<open>Index_Correct\<close> proves the invariant of every interleaving, \<open>Index_Run\<close> what complete,
  incremental and cancelled runs leave, \<open>Index_Duplicates\<close> when identifiers are distinct; \<open>Index_Behaviour\<close> has the
  scheduler that runs a chosen interleaving and the demonstrations. \<open>Index_Tail\<close> is the end of a run: the resolve block
  with its scope, the collection of vanished files, the parity check, the project row. \<open>Index_Tail_Correct\<close> proves that
  the block keeps what extraction wrote and that the collection is exact; \<open>Index_Lost\<close> shows where limited resolves and
  moved files lose imports, and that a whole resolve stores all of them.

  How state corresponds. A parser state is the list of remaining tokens. A row (\<open>map[string]any\<close>) is an
  association list. The regular-expression cache is threaded through the evaluator. The result rows and
  the edge index of the join loop are its accumulators.

  Parameters. Code outside the repository is an argument of the definitions: \<open>re\<close> is \<open>regexp.Compile\<close>, \<open>F\<close> the
  \<open>float64\<close> operations (parsing, printing, comparison, addition, division), the database record the replies of
  \<open>QueryContext\<close> for each shape of row the code scans, \<open>cancelled\<close> the context. A row that fails to scan and an
  iteration error are \<open>ScanErr\<close> where the code checks for them; \<open>runBFS\<close> does not check the iteration error of
  its start query, for which the reply is the rows so far.

  Bounds and termination. Nothing uses fuel: the scanners terminate on the length of the text, the parsers on
  the number of tokens (every successful condition consumes one), the loops on their lists.

  Not modelled. Bytes outside ASCII in case mapping and space trimming; the wording of error and warning
  texts (their constructors carry the values the texts name); the iteration order of Go maps, where the list
  order stands for one of the possible orders. The rest of the server (handlers, the language extractors, the walk of
  the files, the start of an index run and the watcher, the other tables of the database, the command line) is listed in
  the manifest with the reasons.
\<close>

end
